(* ===== verification/Prelude.thy ===== *)
theory Prelude
  imports "HOL-Library.Word"
begin

text \<open>
  Shared vocabulary of the development: Go's byte and integer types, the
  big-endian readers and writers the protocols use, and decimal and
  hexadecimal printing and parsing.
\<close>

unbundle bit_operations_syntax

named_theorems be_simps \<open>big-endian readers applied to what the writers produce\<close>
named_theorems go_simps \<open>Go integer conversions that do not wrap\<close>

section \<open>Go types\<close>

type_synonym byte = "8 word"
type_synonym bytes = "byte list"
type_synonym u16 = "16 word"
type_synonym u32 = "32 word"
type_synonym u64 = "64 word"

text \<open>Go's \<open>int32\<close>: an integer kept in range by \<open>wrap32\<close>, which is what a
  conversion \<open>int32(x)\<close> or an overflowing \<open>+\<close> or \<open>-\<close> does.\<close>

type_synonym int32 = int

definition wrap32 :: "int \<Rightarrow> int32" where
  "wrap32 x = (x + 2 ^ 31) mod 2 ^ 32 - 2 ^ 31"

lemma wrap32_id [go_simps]: "- (2 ^ 31) \<le> x \<Longrightarrow> x < 2 ^ 31 \<Longrightarrow> wrap32 x = x"
  by (simp add: wrap32_def)

lemma wrap32_uint [go_simps]: "uint (w :: 32 word) < 2 ^ 31 \<Longrightarrow> wrap32 (uint w) = uint w"
  using wrap32_id [of "uint w"] uint_nonnegative [of w] by simp

lemma wrap32_nat [go_simps]: "n < 2 ^ 31 \<Longrightarrow> wrap32 (int n) = int n"
  using wrap32_id [of "int n"] by simp

lemma wrap32_range: "- (2 ^ 31) \<le> wrap32 x \<and> wrap32 x < 2 ^ 31"
proof -
  have "0 \<le> (x + 2 ^ 31) mod 2 ^ 32" and "(x + 2 ^ 31) mod 2 ^ 32 < 2 ^ 32"
    by (rule pos_mod_sign, simp) (rule pos_mod_bound, simp)
  then show ?thesis by (simp add: wrap32_def)
qed

text \<open>A Go string is a sequence of bytes; \<open>[]byte(s)\<close> and \<open>string(b)\<close> only
  change the type.\<close>

definition byte_of_char :: "char \<Rightarrow> byte" where
  "byte_of_char c = of_char c"

definition char_of_byte :: "byte \<Rightarrow> char" where
  "char_of_byte b = char_of (unat b)"

definition bytes_of_string :: "string \<Rightarrow> bytes" where
  "bytes_of_string s = map byte_of_char s"

definition string_of_bytes :: "bytes \<Rightarrow> string" where
  "string_of_bytes b = map char_of_byte b"

lemma unat_byte_lt: "unat (b :: byte) < 256"
  using unsigned_less [of b] by simp

lemma unat_of_char_byte [simp]: "unat (of_char c :: byte) = (of_char c :: nat)"
proof -
  have "(of_char c :: byte) = word_of_nat (of_char c :: nat)"
    by (simp only: of_nat_of_char)
  then show ?thesis by (simp add: unat_of_nat)
qed

lemma char_of_byte_of_char [simp]: "char_of_byte (byte_of_char c) = c"
  by (simp add: char_of_byte_def byte_of_char_def)

lemma byte_of_char_of_byte [simp]: "byte_of_char (char_of_byte b) = b"
proof -
  have "unat (byte_of_char (char_of_byte b)) = unat b"
    using unat_byte_lt [of b] by (simp add: char_of_byte_def byte_of_char_def)
  then show ?thesis by (rule unsigned_word_eqI)
qed

lemma string_bytes_inverse [simp]: "string_of_bytes (bytes_of_string s) = s"
  by (simp add: string_of_bytes_def bytes_of_string_def comp_def)

lemma bytes_string_inverse [simp]: "bytes_of_string (string_of_bytes b) = b"
  by (simp add: string_of_bytes_def bytes_of_string_def comp_def)

lemma length_bytes_of_string [simp]: "length (bytes_of_string s) = length s"
  by (simp add: bytes_of_string_def)

section \<open>Big-endian fields\<close>

text \<open>The writers append \<open>byte(v>>24), byte(v>>16), ...\<close>; the readers shift the
  bytes back in. \<open>byte(x)\<close> of a wider integer keeps the low eight bits.\<close>

definition put16 :: "u16 \<Rightarrow> bytes" where
  "put16 v = [ucast (drop_bit 8 v), ucast v]"

definition put32 :: "u32 \<Rightarrow> bytes" where
  "put32 v = [ucast (drop_bit 24 v), ucast (drop_bit 16 v), ucast (drop_bit 8 v), ucast v]"

definition put64 :: "u64 \<Rightarrow> bytes" where
  "put64 v = [ucast (drop_bit 56 v), ucast (drop_bit 48 v), ucast (drop_bit 40 v),
     ucast (drop_bit 32 v), ucast (drop_bit 24 v), ucast (drop_bit 16 v),
     ucast (drop_bit 8 v), ucast v]"

text \<open>A Go \<open>int\<close> length written as two or three bytes (\<open>byte(n>>16), byte(n>>8),
  byte(n)\<close>): what does not fit is silently dropped.\<close>

definition put16n :: "nat \<Rightarrow> bytes" where
  "put16n n = [word_of_nat (n div 256), word_of_nat n]"

definition put24n :: "nat \<Rightarrow> bytes" where
  "put24n n = [word_of_nat (n div 65536), word_of_nat (n div 256), word_of_nat n]"

definition get16 :: "byte \<Rightarrow> byte \<Rightarrow> u16" where
  "get16 a b = push_bit 8 (ucast a) OR ucast b"

definition get24 :: "byte \<Rightarrow> byte \<Rightarrow> byte \<Rightarrow> u32" where
  "get24 a b c = push_bit 16 (ucast a) OR push_bit 8 (ucast b) OR ucast c"

definition get32 :: "byte \<Rightarrow> byte \<Rightarrow> byte \<Rightarrow> byte \<Rightarrow> u32" where
  "get32 a b c d = push_bit 24 (ucast a) OR push_bit 16 (ucast b) OR push_bit 8 (ucast c) OR ucast d"

lemma get16_put16 [be_simps]: "get16 (ucast (drop_bit 8 v)) (ucast v) = v"
  unfolding get16_def by (rule bit_word_eqI) (auto simp: bit_simps)

lemma get32_put32 [be_simps]:
  "get32 (ucast (drop_bit 24 v)) (ucast (drop_bit 16 v)) (ucast (drop_bit 8 v)) (ucast v) = v"
proof (rule bit_word_eqI)
  fix n assume n: "n < LENGTH(32)"
  consider "n < 8" | "8 \<le> n" "n < 16" | "16 \<le> n" "n < 24" | "24 \<le> n" by linarith
  then show "bit (get32 (ucast (drop_bit 24 v)) (ucast (drop_bit 16 v))
      (ucast (drop_bit 8 v)) (ucast v)) n = bit v n"
    by cases (use n in \<open>auto simp: get32_def bit_simps\<close>)
qed

lemma unat_shift_in:
  fixes v w :: "'a::len word"
  assumes "2 ^ k * unat v < 2 ^ LENGTH('a)" and "unat w < 2 ^ k"
  shows "unat (push_bit k v OR w) = 2 ^ k * unat v + unat w"
proof -
  have "unat (push_bit k v) = take_bit LENGTH('a) (push_bit k (unat v))"
    by (rule unsigned_push_bit_eq)
  also have "\<dots> = 2 ^ k * unat v"
    using assms(1) by (simp add: push_bit_eq_mult take_bit_eq_mod mult.commute)
  finally have "unat (push_bit k v OR w) = push_bit k (unat v) OR unat w"
    by (simp add: unsigned_or_eq push_bit_eq_mult mult.commute)
  also have "\<dots> = push_bit k (unat v) + unat w"
  proof -
    have "push_bit k (unat v) AND take_bit k (unat w) = 0"
      by (simp add: bit_eq_iff bit_simps)
    then show ?thesis
      using assms(2) by (simp add: disjunctive_add_eq_or take_bit_nat_eq_self)
  qed
  finally show ?thesis by (simp add: push_bit_eq_mult mult.commute)
qed

lemma unat_ucast_byte_up [simp]:
  assumes "8 \<le> LENGTH('a)"
  shows "unat (ucast (b :: byte) :: 'a::len word) = unat b"
proof -
  have "unat b < 2 ^ LENGTH('a)"
    using unat_byte_lt [of b] power_increasing [OF assms, of "2 :: nat"] by simp
  then show ?thesis
    by (simp add: unsigned_ucast_eq take_bit_nat_eq_self)
qed

lemma unat_get16: "unat (get16 a b) = unat a * 256 + unat b"
  using unat_byte_lt [of a] unat_byte_lt [of b]
  by (simp add: get16_def unat_shift_in)

lemma unat_get24: "unat (get24 a b c) = unat a * 65536 + unat b * 256 + unat c"
proof -
  have 1: "unat (push_bit 8 (ucast b) OR ucast c :: u32) = unat b * 256 + unat c"
    using unat_byte_lt [of b] unat_byte_lt [of c] by (simp add: unat_shift_in)
  show ?thesis
    using unat_byte_lt [of a] unat_byte_lt [of b] unat_byte_lt [of c]
    by (simp add: get24_def unat_shift_in 1)
qed

lemma get24_put24n [be_simps]:
  "n < 2 ^ 24 \<Longrightarrow>
   unat (get24 (word_of_nat (n div 65536)) (word_of_nat (n div 256)) (word_of_nat n)) = n"
proof -
  assume n: "n < 2 ^ 24"
  have "n div 65536 = n div 256 div 256" by (simp add: div_mult2_eq [symmetric])
  moreover have "n div 256 div 256 < 256" using n by (simp add: div_mult2_eq [symmetric] less_mult_imp_div_less)
  ultimately have "unat (get24 (word_of_nat (n div 65536)) (word_of_nat (n div 256)) (word_of_nat n))
      = n div 256 div 256 * 65536 + n div 256 mod 256 * 256 + n mod 256"
    by (simp add: unat_get24 unat_of_nat)
  also have "\<dots> = (n div 256 div 256 * 256 + n div 256 mod 256) * 256 + n mod 256"
    by (subst add_mult_distrib) simp
  also have "\<dots> = n" by (simp only: div_mult_mod_eq)
  finally show ?thesis .
qed

lemma get16_put16n [be_simps]:
  "n < 2 ^ 16 \<Longrightarrow> unat (get16 (word_of_nat (n div 256)) (word_of_nat n)) = n"
proof -
  assume "n < 2 ^ 16"
  then have "n div 256 < 256" by (simp add: less_mult_imp_div_less)
  then show ?thesis by (simp add: unat_get16 unat_of_nat)
qed

lemma length_put [simp]:
  "length (put16 v16) = 2" "length (put32 v32) = 4" "length (put64 v64) = 8"
  "length (put16n n) = 2" "length (put24n n) = 3"
  by (simp_all add: put16_def put32_def put64_def put16n_def put24n_def)

text \<open>Fields of a length chosen at run time: \<open>v = v<<8 | uint64(b)\<close> over the bytes,
  and \<open>byte(v >> (8*i))\<close> for \<open>i\<close> from \<open>n - 1\<close> down to 0.\<close>

definition shift_in :: "u64 \<Rightarrow> byte \<Rightarrow> u64" where
  "shift_in v b = push_bit 8 v OR ucast b"

definition be_bytes :: "nat \<Rightarrow> u64 \<Rightarrow> bytes" where
  "be_bytes n v = map (\<lambda>i. ucast (drop_bit (8 * i) v)) (rev [0..<n])"

lemma length_be_bytes [simp]: "length (be_bytes n v) = n"
  by (simp add: be_bytes_def)

lemma be_bytes_Suc: "be_bytes (Suc n) v = be_bytes n (drop_bit 8 v) @ [ucast v]"
proof -
  have "rev [0..<Suc n] = map Suc (rev [0..<n]) @ [0]"
    by (simp add: rev_map [symmetric] map_Suc_upt upt_conv_Cons del: upt_Suc)
  then show ?thesis by (simp add: be_bytes_def add.commute)
qed

lemma bit_less_exp:
  fixes v :: "'a::len word"
  assumes "v < 2 ^ m" and "m \<le> n"
  shows "\<not> bit v n"
proof -
  have "unat (word_of_nat (2 ^ m) :: 'a word) \<le> 2 ^ m"
    by (simp only: unat_of_nat mod_less_eq_dividend)
  then have "unat v < 2 ^ m"
    using assms(1) by (simp add: word_less_nat_alt)
  then have "take_bit m (unat v) = unat v" by (rule take_bit_nat_eq_self)
  then have "bit (unat v) n = bit (take_bit m (unat v)) n" by simp
  with assms(2) have "\<not> bit (unat v) n" by (simp add: bit_take_bit_iff)
  then show ?thesis by (auto simp: bit_unsigned_iff dest: bit_imp_le_length)
qed

lemma foldl_shift_in: "foldl shift_in 0 (be_bytes n v) = take_bit (8 * n) v"
proof (induction n arbitrary: v)
  case 0
  then show ?case by (simp add: be_bytes_def)
next
  case (Suc n)
  have "shift_in (take_bit (8 * n) (drop_bit 8 v)) (ucast v) = take_bit (8 * Suc n) v"
    unfolding shift_in_def by (rule bit_word_eqI) (auto simp: bit_simps)
  with Suc show ?case by (simp add: be_bytes_Suc)
qed

lemma foldl_shift_in_be_bytes:
  assumes "v < 2 ^ m" and "m \<le> 8 * n"
  shows "foldl shift_in 0 (be_bytes n v) = v"
proof -
  have "k < 8 * n" if "bit v k" for k
    using bit_less_exp [OF assms(1), of k] assms(2) that by force
  then show ?thesis
    unfolding foldl_shift_in by (intro bit_word_eqI) (auto simp: bit_simps)
qed

text \<open>The other way round: up to eight bytes read are the bytes written.\<close>

lemma be_bytes_take_bit: "8 * n \<le> k \<Longrightarrow> be_bytes n (take_bit k v) = be_bytes n v"
  unfolding be_bytes_def by (auto intro!: bit_word_eqI simp: bit_simps)

lemma be_bytes_foldl: "length bs \<le> 8 \<Longrightarrow> be_bytes (length bs) (foldl shift_in 0 bs) = bs"
proof (induction bs rule: rev_induct)
  case (snoc b bs)
  let ?v = "foldl shift_in 0 bs"
  have "ucast (shift_in ?v b) = b"
    unfolding shift_in_def by (rule bit_word_eqI) (auto simp: bit_simps)
  moreover have "drop_bit 8 (shift_in ?v b) = take_bit 56 ?v"
    unfolding shift_in_def
    by (rule bit_word_eqI) (auto simp: bit_simps dest: bit_imp_le_length)
  ultimately show ?case
    using snoc by (simp add: be_bytes_Suc be_bytes_take_bit)
qed (simp add: be_bytes_def)

lemma byte_bit_ge: "8 \<le> n \<Longrightarrow> \<not> bit (b :: byte) n"
  by (auto dest: bit_imp_le_length)

lemma put32_get32 [be_simps]: "put32 (get32 a b c d) = [a, b, c, d]"
  unfolding put32_def get32_def
  by (auto intro!: bit_word_eqI simp: bit_simps byte_bit_ge)

lemma put16_get16 [be_simps]: "put16 (get16 a b) = [a, b]"
  unfolding put16_def get16_def
  by (auto intro!: bit_word_eqI simp: bit_simps byte_bit_ge)

section \<open>Status words\<close>

text \<open>Setting or clearing some bits leaves the others.\<close>

lemma and_or_disjoint: "(a :: u32) AND m = 0 \<Longrightarrow> (p OR a) AND m = p AND m"
  by (simp add: bit.conj_disj_distrib2)

lemma and_not_disjoint: "(a :: u32) AND m = 0 \<Longrightarrow> (p AND NOT a) AND m = p AND m"
proof -
  assume a: "a AND m = 0"
  have "\<not> (bit a n \<and> bit m n)" for n
    using arg_cong [OF a, of "\<lambda>w. bit w n"] by (simp add: bit_and_iff)
  then show ?thesis by (intro bit_word_eqI) (auto simp: bit_and_iff bit_not_iff)
qed

section \<open>Lists\<close>

lemma take_drop_append [simp]: "take n xs @ drop n xs @ ys = xs @ ys"
  using append_take_drop_id [of n xs] by (metis append_assoc)

lemma concat_replicate_comm: "concat (replicate k x) @ x = x @ concat (replicate k x)"
  by (induction k) simp_all

section \<open>Decimal and hexadecimal\<close>

text \<open>\<open>strconv.Itoa\<close>, \<open>%d\<close> and \<open>%x\<close> of non-negative numbers.\<close>

definition digit_char :: "nat \<Rightarrow> char" where
  "digit_char d = char_of (if d < 10 then 48 + d else 87 + d)"

fun itoa_base :: "nat \<Rightarrow> nat \<Rightarrow> string" where
  "itoa_base b n = (if n < b \<or> b < 2 then [digit_char n]
     else itoa_base b (n div b) @ [digit_char (n mod b)])"

declare itoa_base.simps [simp del]

definition itoa :: "nat \<Rightarrow> string" where
  "itoa n = itoa_base 10 n"

definition itoa_hex :: "nat \<Rightarrow> string" where
  "itoa_hex n = itoa_base 16 n"

definition itoa_int :: "int \<Rightarrow> string" where
  "itoa_int i = (if i < 0 then CHR ''-'' # itoa (nat (- i)) else itoa (nat i))"

text \<open>The digit loop of \<open>strconv.ParseUint(s, 10, _)\<close>, without the range check.\<close>

definition digit_val :: "char \<Rightarrow> nat option" where
  "digit_val c = (let n = of_char c :: nat in if 48 \<le> n \<and> n \<le> 57 then Some (n - 48) else None)"

fun parse_digits :: "nat \<Rightarrow> string \<Rightarrow> nat option" where
  "parse_digits acc [] = Some acc"
| "parse_digits acc (c # cs) =
     (case digit_val c of None \<Rightarrow> None | Some d \<Rightarrow> parse_digits (10 * acc + d) cs)"

lemma digit_val_digit_char [simp]: "d < 10 \<Longrightarrow> digit_val (digit_char d) = Some d"
  by (simp add: digit_val_def digit_char_def Let_def)

lemma parse_digits_append:
  "parse_digits acc (s @ t) = (case parse_digits acc s of None \<Rightarrow> None | Some a \<Rightarrow> parse_digits a t)"
  by (induction acc s rule: parse_digits.induct) (auto split: option.splits)

lemma itoa_base_nonempty [simp]: "itoa_base b n \<noteq> []"
  by (subst itoa_base.simps) simp

lemma parse_digits_itoa_base: "parse_digits 0 (itoa_base 10 n) = Some n"
proof (induction n rule: less_induct)
  case (less n)
  show ?case
  proof (cases "n < 10")
    case True
    then show ?thesis by (subst itoa_base.simps) simp
  next
    case False
    then have "parse_digits 0 (itoa_base 10 (n div 10)) = Some (n div 10)"
      by (intro less.IH) simp
    with False show ?thesis
      by (subst itoa_base.simps) (simp add: parse_digits_append)
  qed
qed

lemma parse_digits_itoa [simp]: "parse_digits 0 (itoa n) = Some n"
  by (simp add: itoa_def parse_digits_itoa_base)

lemma itoa_nonempty [simp]: "itoa n \<noteq> []"
  by (simp add: itoa_def)

text \<open>\<open>strconv.ParseInt(s, 10, 64)\<close>: an optional sign and at least one digit, within the
  64-bit range.\<close>

definition ParseInt64 :: "string \<Rightarrow> int option" where
  "ParseInt64 s =
     (let (neg, ds) =
        (case s of
           [] \<Rightarrow> (False, [])
         | c # cs \<Rightarrow> if c = CHR ''+'' then (False, cs) else if c = CHR ''-'' then (True, cs) else (False, s))
      in if ds = [] then None
         else case parse_digits 0 ds of
            None \<Rightarrow> None
          | Some n \<Rightarrow>
              if neg then (if n \<le> 2 ^ 63 then Some (- int n) else None)
              else (if n < 2 ^ 63 then Some (int n) else None))"

lemma ParseInt64_range: "ParseInt64 s = Some n \<Longrightarrow> - (2 ^ 63) \<le> n \<and> n < 2 ^ 63"
  by (auto simp: ParseInt64_def Let_def split: list.splits if_splits option.splits)

end
