(* ===== verification/Framing.thy ===== *)
theory Framing
  imports Prelude
begin

text \<open>
  The streaming parsers of the repository (HTTP/2 frames, HTTP/3 frames, gRPC
  messages, TLS records and handshake messages) all run the same loop: look at
  the unconsumed bytes, stop when a whole unit is not there yet, stop with an
  error when the unit is malformed, otherwise hand the unit to a callback and
  go on behind it. \<open>frame_loop\<close> is that loop; the part that differs, cutting
  one unit off the front of the buffer, is its argument.

  The interface \<open>framing\<close> states what the loop relies on (a unit is not empty,
  and bytes that arrive later do not change what was already cut), and the
  lemmas inside it show that the way TCP or QUIC segments a stream does not
  matter. \<open>frame_codec\<close> adds an encoder.
\<close>

section \<open>The loop\<close>

text \<open>What one look at the buffer gives: not enough bytes, a malformed unit, or a
  unit and the number of bytes it takes.\<close>

datatype ('u, 'e) split_res = NeedMore | Bad 'e | Got 'u nat

text \<open>The \<open>for\<close> loop of the parsers' \<open>Parse\<close> methods, over the bytes
  \<open>work[consumed:]\<close>; \<open>fn\<close> is the callback, with the state it updates. A unit
  that takes no bytes would make the Go loop spin; every splitter of the library
  is shown to cut at least one byte (\<open>split_progress\<close> below), so the last branch
  is not taken.\<close>

function frame_loop ::
  "(bytes \<Rightarrow> ('u, 'e) split_res) \<Rightarrow> ('s \<Rightarrow> 'u \<Rightarrow> 's \<times> 'e option) \<Rightarrow> nat \<Rightarrow> 's \<Rightarrow> bytes
   \<Rightarrow> nat \<times> 'e option \<times> 's" where
  "frame_loop split fn consumed s rest =
     (case split rest of
        NeedMore \<Rightarrow> (consumed, None, s)
      | Bad e \<Rightarrow> (consumed, Some e, s)
      | Got u n \<Rightarrow>
          (case fn s u of
             (s', Some e) \<Rightarrow> (consumed, Some e, s')
           | (s', None) \<Rightarrow>
               if 0 < n \<and> n \<le> length rest
               then frame_loop split fn (consumed + n) s' (drop n rest)
               else (consumed, None, s')))"
  by pat_completeness auto
termination
  by (relation "measure (\<lambda>(split, fn, consumed, s, rest). length rest)") auto

declare frame_loop.simps [simp del]

text \<open>A parser that keeps what it could not cut yet (\<open>p.buf\<close>) and prepends it to
  the next chunk.\<close>

definition feed ::
  "(bytes \<Rightarrow> ('u, 'e) split_res) \<Rightarrow> ('s \<Rightarrow> 'u \<Rightarrow> 's \<times> 'e option) \<Rightarrow> bytes \<Rightarrow> 's \<Rightarrow> bytes
   \<Rightarrow> bytes \<times> 'e option \<times> 's" where
  "feed split fn buf s data =
     (let work = buf @ data; (n, err, s') = frame_loop split fn 0 s work
      in (drop n work, err, s'))"

text \<open>Feeding a sequence of chunks, up to the first error.\<close>

fun feed_chunks ::
  "(bytes \<Rightarrow> ('u, 'e) split_res) \<Rightarrow> ('s \<Rightarrow> 'u \<Rightarrow> 's \<times> 'e option) \<Rightarrow> bytes \<Rightarrow> 's \<Rightarrow> bytes list
   \<Rightarrow> bytes \<times> 'e option \<times> 's" where
  "feed_chunks split fn buf s [] = (buf, None, s)"
| "feed_chunks split fn buf s (d # ds) =
     (case feed split fn buf s d of
        (buf', Some e, s') \<Rightarrow> (buf', Some e, s')
      | (buf', None, s') \<Rightarrow> feed_chunks split fn buf' s' ds)"

text \<open>The reference: the callback run over a list of units.\<close>

fun run_units :: "('s \<Rightarrow> 'u \<Rightarrow> 's \<times> 'e option) \<Rightarrow> 's \<Rightarrow> 'u list \<Rightarrow> 'e option \<times> 's" where
  "run_units fn s [] = (None, s)"
| "run_units fn s (u # us) =
     (case fn s u of (s', Some e) \<Rightarrow> (Some e, s') | (s', None) \<Rightarrow> run_units fn s' us)"

text \<open>The callback that collects the units.\<close>

definition collect :: "'u list \<Rightarrow> 'u \<Rightarrow> 'u list \<times> 'e option" where
  "collect us u = (us @ [u], None)"

lemma run_units_collect [simp]: "run_units collect us vs = (None, us @ vs)"
  by (induction vs arbitrary: us) (simp_all add: collect_def)

section \<open>The interface of a splitter\<close>

locale framing =
  fixes split :: "bytes \<Rightarrow> ('u, 'e) split_res"
  assumes split_Nil: "split [] = NeedMore"
    and split_progress: "split b = Got u n \<Longrightarrow> 0 < n \<and> n \<le> length b"
    and split_Got_append: "split b = Got u n \<Longrightarrow> split (b @ x) = Got u n"
    and split_Bad_append: "split b = Bad e \<Longrightarrow> split (b @ x) = Bad e"
begin

lemma split_drop_less: "split b = Got u n \<Longrightarrow> length (drop n b) < length b"
  using split_progress [of b u n] by auto

lemma loop_NeedMore: "split b = NeedMore \<Longrightarrow> frame_loop split fn c s b = (c, None, s)"
  by (simp add: frame_loop.simps [of split fn c s b])

lemma loop_Bad: "split b = Bad e \<Longrightarrow> frame_loop split fn c s b = (c, Some e, s)"
  by (simp add: frame_loop.simps [of split fn c s b])

lemma loop_Got:
  "split b = Got u n \<Longrightarrow> frame_loop split fn c s b =
     (case fn s u of (s', Some e) \<Rightarrow> (c, Some e, s')
      | (s', None) \<Rightarrow> frame_loop split fn (c + n) s' (drop n b))"
  using split_progress [of b u n]
  by (simp add: frame_loop.simps [of split fn c s b] split: option.splits prod.splits)

lemmas loop_simps = loop_NeedMore loop_Bad loop_Got

text \<open>Consumption never runs past the buffer, and where the loop stops without an
  error the next unit is not complete.\<close>

lemma loop_stop:
  "frame_loop split fn c s b = (c', err, s') \<Longrightarrow>
   c \<le> c' \<and> c' \<le> c + length b \<and> (err = None \<longrightarrow> split (drop (c' - c) b) = NeedMore)"
proof (induction b arbitrary: c s rule: measure_induct_rule [where f = length])
  case (less b)
  show ?case
  proof (cases "split b")
    case (Got u n)
    note n = split_progress [OF Got]
    obtain s1 r where fn: "fn s u = (s1, r)" by fastforce
    show ?thesis
    proof (cases r)
      case None
      have "frame_loop split fn (c + n) s1 (drop n b) = (c', err, s')"
        using less.prems Got fn None by (simp add: loop_Got)
      then have IH: "c + n \<le> c' \<and> c' \<le> c + n + length (drop n b) \<and>
          (err = None \<longrightarrow> split (drop (c' - (c + n)) (drop n b)) = NeedMore)"
        by (rule less.IH [OF split_drop_less [OF Got]])
      then have "drop (c' - (c + n)) (drop n b) = drop (c' - c) b" by (simp add: add.commute)
      with IH n show ?thesis by auto
    next
      case (Some e)
      then show ?thesis using less.prems Got fn by (auto simp: loop_Got)
    qed
  qed (use less.prems in \<open>auto simp: loop_simps\<close>)
qed

text \<open>More bytes behind the buffer: an error stays the error it was, and a loop that
  ran dry goes on where it stopped.\<close>

lemma loop_append:
  "frame_loop split fn c s b = (c', err, s') \<Longrightarrow>
   frame_loop split fn c s (b @ x) =
     (case err of Some e \<Rightarrow> (c', Some e, s')
      | None \<Rightarrow> frame_loop split fn c' s' (drop (c' - c) b @ x))"
proof (induction b arbitrary: c s rule: measure_induct_rule [where f = length])
  case (less b)
  show ?case
  proof (cases "split b")
    case NeedMore
    with less.prems show ?thesis by (auto simp: loop_NeedMore)
  next
    case (Bad e)
    with less.prems show ?thesis by (auto simp: loop_Bad split_Bad_append)
  next
    case (Got u n)
    note n = split_progress [OF Got]
    obtain s1 r where fn: "fn s u = (s1, r)" by fastforce
    show ?thesis
    proof (cases r)
      case None
      have run: "frame_loop split fn (c + n) s1 (drop n b) = (c', err, s')"
        using less.prems Got fn None by (simp add: loop_Got)
      from loop_stop [OF this] have c: "drop (c' - (c + n)) (drop n b) = drop (c' - c) b"
        by (simp add: add.commute)
      have "frame_loop split fn (c + n) s1 (drop n b @ x) =
          (case err of Some e \<Rightarrow> (c', Some e, s')
           | None \<Rightarrow> frame_loop split fn c' s' (drop (c' - (c + n)) (drop n b) @ x))"
        by (rule less.IH [OF split_drop_less [OF Got] run])
      with n show ?thesis
        unfolding c by (simp add: loop_Got [OF split_Got_append [OF Got]] fn None)
    next
      case (Some e)
      then show ?thesis
        using less.prems Got fn by (auto simp: loop_Got split_Got_append)
    qed
  qed
qed

lemma loop_offset:
  "frame_loop split fn c s b = (case frame_loop split fn 0 s b of (k, err, s') \<Rightarrow> (c + k, err, s'))"
proof -
  have "frame_loop split fn (c + d) s b =
      (case frame_loop split fn d s b of (k, err, s') \<Rightarrow> (c + k, err, s'))" for d
  proof (induction b arbitrary: d s rule: measure_induct_rule [where f = length])
    case (less b)
    show ?case
    proof (cases "split b")
      case (Got u n)
      obtain s1 r where fn: "fn s u = (s1, r)" by fastforce
      have "frame_loop split fn (c + (d + n)) s1 (drop n b) =
          (case frame_loop split fn (d + n) s1 (drop n b) of (k, err, s') \<Rightarrow> (c + k, err, s'))"
        by (rule less.IH [OF split_drop_less [OF Got]])
      then show ?thesis by (simp add: loop_Got [OF Got] fn add.assoc split: option.splits)
    qed (simp_all add: loop_simps)
  qed
  from this [of 0] show ?thesis by simp
qed

lemma loop_shift: "snd (frame_loop split fn c s b) = snd (frame_loop split fn 0 s b)"
  by (subst loop_offset) (simp split: prod.splits)

text \<open>What the callback keeps, the loop keeps.\<close>

lemma loop_preserves:
  assumes step: "\<And>s u s' err. keep s \<Longrightarrow> fn s u = (s', err) \<Longrightarrow> keep s'"
  shows "keep s \<Longrightarrow> keep (snd (snd (frame_loop split fn c s b)))"
proof (induction b arbitrary: c s rule: measure_induct_rule [where f = length])
  case (less b)
  show ?case
  proof (cases "split b")
    case (Got u n)
    obtain s1 r where fn: "fn s u = (s1, r)" by fastforce
    with less.prems have "keep s1" by (rule step)
    with less.IH [OF split_drop_less [OF Got]] show ?thesis
      by (simp add: loop_Got [OF Got] fn split: option.splits)
  qed (use less.prems in \<open>simp_all add: loop_simps\<close>)
qed

lemma loop_keeps:
  assumes units: "\<And>b u n. split b = Got u n \<Longrightarrow> P u"
    and step: "\<And>s u s' err. keep s \<Longrightarrow> P u \<Longrightarrow> fn s u = (s', err) \<Longrightarrow> good err \<Longrightarrow> keep s'"
    and none: "good None"
  shows "keep s \<Longrightarrow> frame_loop split fn c s b = (c', err, s') \<Longrightarrow> good err \<Longrightarrow> keep s'"
proof (induction b arbitrary: c s rule: measure_induct_rule [where f = length])
  case (less b)
  show ?case
  proof (cases "split b")
    case (Got u n)
    obtain s1 r where fn: "fn s u = (s1, r)" by fastforce
    show ?thesis
    proof (cases r)
      case None
      then have "keep s1" using step [OF less.prems(1) units [OF Got] fn] none by simp
      moreover have "frame_loop split fn (c + n) s1 (drop n b) = (c', err, s')"
        using less.prems(2) by (simp add: loop_Got [OF Got] fn None)
      ultimately show ?thesis using less.IH [OF split_drop_less [OF Got]] less.prems(3) by blast
    next
      case (Some e)
      then show ?thesis
        using less.prems step [OF less.prems(1) units [OF Got] fn] by (simp add: loop_Got [OF Got] fn)
    qed
  qed (use less.prems in \<open>auto simp: loop_simps\<close>)
qed

lemma feed_stop:
  "feed split fn buf s d = (buf', None, s') \<Longrightarrow> split buf' = NeedMore"
  by (auto simp: feed_def Let_def split: prod.splits dest: loop_stop)

text \<open>Feeding two chunks one after the other, or as one.\<close>

lemma feed_append:
  "feed split fn buf s d1 = (buf', err, s') \<Longrightarrow>
   snd (feed split fn buf s (d1 @ d2)) =
     (case err of Some e \<Rightarrow> (Some e, s') | None \<Rightarrow> snd (feed split fn buf' s' d2))"
proof -
  assume "feed split fn buf s d1 = (buf', err, s')"
  then obtain n where run: "frame_loop split fn 0 s (buf @ d1) = (n, err, s')"
    and buf': "buf' = drop n (buf @ d1)"
    by (auto simp: feed_def Let_def split: prod.splits)
  have shift: "snd (frame_loop split fn c t b) = snd (frame_loop split fn 0 t b)" for c t b
    by (rule loop_shift)
  show ?thesis
    using loop_append [OF run, of d2] shift [of n s' "buf' @ d2"]
    by (auto simp: feed_def Let_def buf' split: option.splits prod.splits)
qed

text \<open>Where no error stops it, the bytes kept are the same too.\<close>

lemma feed_append_None:
  assumes "feed split fn buf s d1 = (buf', None, s')"
  shows "feed split fn buf s (d1 @ d2) = feed split fn buf' s' d2"
proof -
  obtain n where run: "frame_loop split fn 0 s (buf @ d1) = (n, None, s')"
    and buf': "buf' = drop n (buf @ d1)"
    using assms by (auto simp: feed_def Let_def split: prod.splits)
  from loop_stop [OF run] have n: "n \<le> length (buf @ d1)" by simp
  have "drop (n + k) (buf @ d1 @ d2) = drop k (buf' @ d2)" for k
  proof -
    have "drop (n + k) ((buf @ d1) @ d2) = drop k (drop n ((buf @ d1) @ d2))"
      by (simp only: drop_drop add.commute)
    also have "drop n ((buf @ d1) @ d2) = buf' @ d2"
      using n by (simp only: buf' drop_append) simp
    finally show ?thesis by (simp only: append_assoc)
  qed
  then show ?thesis
    using loop_append [OF run, of d2] loop_offset [of fn n s' "buf' @ d2"]
    by (simp add: feed_def Let_def buf' split: prod.splits)
qed

lemma feed_chunks_concat_None:
  "split buf = NeedMore \<Longrightarrow> feed_chunks split fn buf s ds = (buf', None, s') \<Longrightarrow>
   feed split fn buf s (concat ds) = (buf', None, s')"
proof (induction ds arbitrary: buf s)
  case Nil
  then show ?case by (simp add: feed_def loop_NeedMore)
next
  case (Cons d ds)
  obtain b1 s1 where f: "feed split fn buf s d = (b1, None, s1)"
    using Cons.prems(2) by (cases "feed split fn buf s d") (auto split: option.splits)
  then have "feed split fn b1 s1 (concat ds) = (buf', None, s')"
    using Cons.prems(2) by (intro Cons.IH feed_stop [OF f]) simp
  then show ?case by (simp add: feed_append_None [OF f])
qed

text \<open>A callback that never fails and of whose state \<open>seen\<close> sees one more unit at every
  call: the loop cuts what the collecting loop cuts.\<close>

lemma loop_sim:
  assumes step: "\<And>s u s' err. keep s \<Longrightarrow> fn s u = (s', err) \<Longrightarrow> keep s' \<and> err = None \<and> seen s' = seen s @ [u]"
  shows "keep s \<Longrightarrow> frame_loop split fn c s b = (c', err, s') \<Longrightarrow>
    keep s' \<and> frame_loop split collect c (seen s) b = (c', err, seen s')"
proof (induction b arbitrary: c s rule: measure_induct_rule [where f = length])
  case (less b)
  show ?case
  proof (cases "split b")
    case (Got u n)
    obtain s1 r where fn: "fn s u = (s1, r)" by fastforce
    from step [OF less.prems(1) fn] have s1: "keep s1" "r = None" "seen s1 = seen s @ [u]" by simp_all
    then have "frame_loop split fn (c + n) s1 (drop n b) = (c', err, s')"
      using less.prems(2) by (simp add: loop_Got [OF Got] fn)
    from less.IH [OF split_drop_less [OF Got] s1(1) this] show ?thesis
      by (simp add: loop_Got [OF Got] collect_def s1(3))
  qed (use less.prems in \<open>auto simp: loop_simps\<close>)
qed

text \<open>The collecting callback: what is already collected stays in front.\<close>

lemma loop_collect:
  "frame_loop split collect c (us @ ws) b =
     (case frame_loop split collect c ws b of (c', err, vs) \<Rightarrow> (c', err, us @ vs))"
proof (induction b arbitrary: c ws rule: measure_induct_rule [where f = length])
  case (less b)
  show ?case
  proof (cases "split b")
    case (Got u n)
    then show ?thesis
      using less.IH [OF split_drop_less [OF Got], of "c + n" "ws @ [u]"]
      by (simp add: loop_Got collect_def)
  qed (simp_all add: loop_simps)
qed

lemma feed_collect:
  "feed split collect buf [] d = (buf', err, vs) \<Longrightarrow> feed split collect buf us d = (buf', err, us @ vs)"
  using loop_collect [of 0 us "[]" "buf @ d"]
  by (auto simp: feed_def Let_def split: prod.splits)

text \<open>\<^bold>\<open>Segmentation does not matter\<close>: whatever the chunks, the callback sees the
  units it sees when the whole stream arrives at once, and the outcome is the same.\<close>

theorem feed_chunks_concat:
  "split buf = NeedMore \<Longrightarrow>
   snd (feed_chunks split fn buf s ds) = snd (feed split fn buf s (concat ds))"
proof (induction ds arbitrary: buf s)
  case Nil
  then show ?case by (simp add: feed_def loop_NeedMore)
next
  case (Cons d ds)
  obtain buf' err s' where f: "feed split fn buf s d = (buf', err, s')"
    by (cases "feed split fn buf s d") auto
  show ?case
  proof (cases err)
    case None
    with f have "split buf' = NeedMore" by (auto dest: feed_stop)
    then show ?thesis using feed_append [OF f, of "concat ds"] by (simp add: f None Cons.IH)
  next
    case (Some e)
    then show ?thesis using feed_append [OF f, of "concat ds"] by (simp add: f)
  qed
qed

end

section \<open>Splitters with an encoder\<close>

locale frame_codec = framing split
  for split :: "bytes \<Rightarrow> ('u, 'e) split_res" +
  fixes enc :: "'u \<Rightarrow> bytes" and valid :: "'u \<Rightarrow> bool"
  assumes split_enc: "valid u \<Longrightarrow> split (enc u @ x) = Got u (length (enc u))"
begin

text \<open>A front part of an encoded stream: whole units and an incomplete rest.\<close>

lemma enc_prefix:
  "\<forall>u \<in> set us. valid u \<Longrightarrow> concat (map enc us) = b @ y \<Longrightarrow>
   \<exists>us1 us2 x. us = us1 @ us2 \<and> b = concat (map enc us1) @ x \<and> split x = NeedMore \<and> x @ y = concat (map enc us2)"
proof (induction us arbitrary: b)
  case Nil
  then show ?case by (intro exI [of _ "[]"]) (simp add: split_Nil)
next
  case (Cons u us)
  have b: "b @ y = enc u @ concat (map enc us)" using Cons.prems(2) by simp
  then have first: "split (b @ y) = Got u (length (enc u))" using Cons.prems(1) by (simp add: split_enc)
  show ?case
  proof (cases "length (enc u) \<le> length b")
    case True
    then obtain b' where b': "b = enc u @ b'" using b by (metis append_eq_append_conv2 append_eq_conv_conj append_take_drop_id take_all)
    then have "concat (map enc us) = b' @ y" using b by simp
    from Cons.IH [OF _ this] Cons.prems(1) obtain us1 us2 x where
      "us = us1 @ us2" "b' = concat (map enc us1) @ x" "split x = NeedMore" "x @ y = concat (map enc us2)" by auto
    then show ?thesis by (intro exI [of _ "u # us1"] exI [of _ us2] exI [of _ x]) (simp add: b')
  next
    case False
    have "split b = NeedMore"
    proof (cases "split b")
      case (Got w n)
      then show ?thesis using split_Got_append [OF Got, of y] split_progress [OF Got] first False by simp
    next
      case (Bad e)
      then show ?thesis using split_Bad_append [OF Bad, of y] first by simp
    qed
    then show ?thesis using Cons.prems(2) by (intro exI [of _ "[]"] exI [of _ "u # us"] exI [of _ b]) simp
  qed
qed

lemma loop_enc:
  "\<forall>u \<in> set us. valid u \<Longrightarrow> split r = NeedMore \<Longrightarrow>
   snd (frame_loop split fn c s (concat (map enc us) @ r)) = run_units fn s us"
proof (induction us arbitrary: c s)
  case Nil
  then show ?case by (simp add: loop_NeedMore)
next
  case (Cons u us)
  then have "split (concat (map enc (u # us)) @ r) = Got u (length (enc u))"
    by (simp add: split_enc)
  with Cons show ?case by (simp add: loop_Got split: option.splits prod.splits)
qed

text \<open>The loop consumes exactly the encoded units.\<close>

lemma loop_enc_consumed:
  "\<forall>u \<in> set us. valid u \<Longrightarrow> split r = NeedMore \<Longrightarrow> run_units fn s us = (None, s') \<Longrightarrow>
   frame_loop split fn c s (concat (map enc us) @ r) = (c + length (concat (map enc us)), None, s')"
proof (induction us arbitrary: c s)
  case Nil
  then show ?case by (simp add: loop_NeedMore)
next
  case (Cons u us)
  then have "split (concat (map enc (u # us)) @ r) = Got u (length (enc u))"
    by (simp add: split_enc)
  with Cons show ?case by (auto simp: loop_Got add.assoc split: option.splits prod.splits)
qed

text \<open>An encoded sequence of units, cut into chunks in any way and with an incomplete
  unit behind it, is delivered unit by unit, in order and exactly once.\<close>

theorem feed_chunks_enc:
  assumes "\<forall>u \<in> set us. valid u" and "split r = NeedMore"
    and "concat ds = concat (map enc us) @ r"
  shows "snd (feed_chunks split fn [] s ds) = run_units fn s us"
  using feed_chunks_concat [OF split_Nil, of fn s ds] loop_enc [OF assms(1,2), of fn 0 s] assms(3)
  by (auto simp: feed_def Let_def split: prod.splits)

text \<open>What is kept is the incomplete unit.\<close>

lemma feed_chunks_enc_buf:
  assumes "\<forall>u \<in> set us. valid u" and "split r = NeedMore"
    and "concat ds = concat (map enc us) @ r" and "run_units fn s us = (None, s')"
  shows "feed_chunks split fn [] s ds = (r, None, s')"
proof -
  obtain b where c: "feed_chunks split fn [] s ds = (b, None, s')"
    using feed_chunks_enc [OF assms(1-3), of fn s] assms(4)
    by (cases "feed_chunks split fn [] s ds") simp
  from feed_chunks_concat_None [OF split_Nil c] show ?thesis
    by (simp add: c feed_def assms(3) loop_enc_consumed [OF assms(1,2,4)])
qed

text \<open>A malformed unit behind encoded ones: these are delivered, then the error comes.\<close>

lemma feed_chunks_enc_bad:
  assumes "\<forall>u \<in> set us. valid u" and bad: "split b = Bad e"
    and "concat ds = concat (map enc us) @ b" and "run_units fn s us = (None, s')"
  shows "snd (feed_chunks split fn [] s ds) = (Some e, s')"
proof -
  have "frame_loop split fn 0 s (concat (map enc us)) = (length (concat (map enc us)), None, s')"
    using loop_enc_consumed [OF assms(1) split_Nil assms(4), of 0] by simp
  from loop_append [OF this, of b] have "snd (frame_loop split fn 0 s (concat ds)) = (Some e, s')"
    by (simp add: assms(3) loop_Bad [OF bad])
  then show ?thesis
    by (auto simp: feed_chunks_concat [OF split_Nil] feed_def Let_def split: prod.splits)
qed

end

end
