(* ===== verification/Varint.thy ===== *)
theory Varint
  imports Framing
begin

text \<open>
  QUIC variable-length integers, \<^verbatim>\<open>src/http3/varint.go\<close>: the length of an
  encoding, the encoder, the decoder, and the length-prefixed byte strings built
  from them.
\<close>

section \<open>Definitions\<close>

datatype varint_err = ErrVarintTooShort | ErrVarintTooLong

definition VarintLen :: "u64 \<Rightarrow> nat" where
  "VarintLen v =
     (if v < 2 ^ 6 then 1
      else if v < 2 ^ 14 then 2
      else if v < 2 ^ 30 then 4
      else if v < 2 ^ 62 then 8
      else 0)"

definition AppendVarint :: "bytes \<Rightarrow> u64 \<Rightarrow> bytes" where
  "AppendVarint dst v =
     (if v < 2 ^ 6 then dst @ [ucast v]
      else if v < 2 ^ 14 then dst @ [ucast (drop_bit 8 v) OR 0x40, ucast v]
      else if v < 2 ^ 30 then
        dst @ [ucast (drop_bit 24 v) OR 0x80, ucast (drop_bit 16 v), ucast (drop_bit 8 v), ucast v]
      else if v < 2 ^ 62 then
        dst @ [ucast (drop_bit 56 v) OR 0xc0, ucast (drop_bit 48 v), ucast (drop_bit 40 v),
               ucast (drop_bit 32 v), ucast (drop_bit 24 v), ucast (drop_bit 16 v),
               ucast (drop_bit 8 v), ucast v]
      else dst)"

text \<open>The loop \<open>for i := 1; i < size; i++ { v = v<<8 | uint64(b[i]) }\<close> is the fold of
  \<open>shift_in\<close> over the bytes behind the first.\<close>

definition ReadVarint :: "bytes \<Rightarrow> varint_err + u64 \<times> nat" where
  "ReadVarint b =
     (case b of
        [] \<Rightarrow> Inl ErrVarintTooShort
      | b0 # bs \<Rightarrow>
          (let prefix = drop_bit 6 b0; size = 2 ^ unat prefix in
           if length b < size then Inl ErrVarintTooShort
           else Inr (foldl shift_in (ucast (b0 AND 0x3f)) (take (size - 1) bs), size)))"

definition AppendVarintLen :: "bytes \<Rightarrow> bytes \<Rightarrow> bytes" where
  "AppendVarintLen dst content = AppendVarint dst (word_of_nat (length content)) @ content"

text \<open>\<open>uint64(len(b)-m) < l\<close>: \<open>m \<le> len(b)\<close>, so the subtraction does not wrap, and a
  Go slice has fewer than \<open>2^63\<close> elements, so the conversion keeps the number; the
  comparison is made on the naturals.\<close>

definition ReadVarintLen :: "bytes \<Rightarrow> varint_err + bytes \<times> nat" where
  "ReadVarintLen b =
     (case ReadVarint b of
        Inl e \<Rightarrow> Inl e
      | Inr (l, m) \<Rightarrow>
          if length b - m < unat l then Inl ErrVarintTooShort
          else Inr (take (unat l) (drop m b), m + unat l))"

section \<open>Lemmas\<close>

lemma AppendVarint_append: "AppendVarint dst v = dst @ AppendVarint [] v"
  by (simp add: AppendVarint_def)

lemma length_AppendVarint: "length (AppendVarint [] v) = VarintLen v"
  by (simp add: AppendVarint_def VarintLen_def)

lemma first_byte:
  fixes v :: u64 and c :: byte
  assumes "v < 2 ^ (s + 6)" and "s < 58" and "c AND 0x3f = 0"
  shows "drop_bit 6 (ucast (drop_bit s v) OR c) = drop_bit 6 c"
    and "(ucast (drop_bit s v) OR c) AND 0x3f = ucast (drop_bit s v)"
proof -
  have b: "\<not> bit v (s + n)" if "6 \<le> n" for n
    using assms that by (intro bit_less_exp [of v "s + 6"]) auto
  show "drop_bit 6 (ucast (drop_bit s v) OR c) = drop_bit 6 c"
    by (rule bit_word_eqI) (auto simp: bit_simps b)
  have m: "(0x3f :: byte) = mask 6" by (simp add: mask_eq_exp_minus_1)
  have "\<not> bit c n" if "n < 6" for n
  proof -
    have "bit (c AND 0x3f) n = bit c n" using that unfolding m by (simp add: bit_simps)
    with assms show ?thesis by simp
  qed
  then show "(ucast (drop_bit s v) OR c) AND 0x3f = ucast (drop_bit s v)"
    unfolding m
    by (intro bit_word_eqI) (auto simp: bit_simps; metis b not_le)
qed

text \<open>Reading a first byte with its two length bits and the rest of a big-endian
  field gives back the field.\<close>

lemma ReadVarint_be_bytes:
  fixes v :: u64
  assumes v: "v < 2 ^ (8 * n + 6)" and n: "n < 8" and c: "c AND 0x3f = 0"
    and size: "2 ^ unat (drop_bit 6 c) = Suc n"
  shows "ReadVarint ((ucast (drop_bit (8 * n) v) OR c) # be_bytes n v @ x) = Inr (v, Suc n)"
proof -
  have "foldl shift_in (ucast (ucast (drop_bit (8 * n) v) :: byte)) (be_bytes n v)
      = foldl shift_in 0 (be_bytes (Suc n) v)"
    by (simp add: be_bytes_def shift_in_def)
  also have "\<dots> = v"
    by (rule foldl_shift_in_be_bytes [OF v]) simp
  finally show ?thesis
    using first_byte [of v "8 * n" c] assms
    by (simp add: ReadVarint_def Let_def)
qed

lemma ReadVarint_AppendVarint:
  assumes v: "v < 2 ^ 62"
  shows "ReadVarint (AppendVarint [] v @ x) = Inr (v, VarintLen v)"
proof -
  consider "v < 2 ^ 6" | "\<not> v < 2 ^ 6" "v < 2 ^ 14"
    | "\<not> v < 2 ^ 6" "\<not> v < 2 ^ 14" "v < 2 ^ 30" 
    | "\<not> v < 2 ^ 6" "\<not> v < 2 ^ 14" "\<not> v < 2 ^ 30" by blast
  then show ?thesis
  proof cases
    case 1
    have "be_bytes 0 v = []" by (simp add: be_bytes_def)
    with 1 show ?thesis
      using ReadVarint_be_bytes [of v 0 0 x] by (simp add: AppendVarint_def VarintLen_def)
  next
    case 2
    have "be_bytes 1 v = [ucast v]" by (simp add: be_bytes_def)
    with 2 show ?thesis
      using ReadVarint_be_bytes [of v 1 "0x40" x] by (simp add: AppendVarint_def VarintLen_def)
  next
    case 3
    have "be_bytes 3 v = [ucast (drop_bit 16 v), ucast (drop_bit 8 v), ucast v]"
      by (simp add: be_bytes_def numeral_3_eq_3)
    with 3 show ?thesis
      using ReadVarint_be_bytes [of v 3 "0x80" x] by (simp add: AppendVarint_def VarintLen_def)
  next
    case 4
    have "be_bytes 7 v = [ucast (drop_bit 48 v), ucast (drop_bit 40 v), ucast (drop_bit 32 v),
        ucast (drop_bit 24 v), ucast (drop_bit 16 v), ucast (drop_bit 8 v), ucast v]"
      by (simp add: be_bytes_def upt_rec)
    with 4 v show ?thesis
      using ReadVarint_be_bytes [of v 7 "0xc0" x] by (simp add: AppendVarint_def VarintLen_def)
  qed
qed

text \<open>A successful read takes between one and eight bytes of the buffer, and bytes
  that arrive behind it do not change it.\<close>

lemma ReadVarint_size:
  assumes "ReadVarint b = Inr (v, n)"
  shows "0 < n \<and> n \<le> length b \<and> n \<in> {1, 2, 4, 8}"
proof -
  obtain b0 bs where b: "b = b0 # bs" and n: "n = 2 ^ unat (drop_bit 6 b0)" "n \<le> length b"
    using assms by (auto simp: ReadVarint_def Let_def split: list.splits if_splits)
  have "unat (drop_bit 6 b0) < 4"
    using unat_byte_lt [of b0] by (simp add: drop_bit_eq_div unat_div_distrib)
  then have "unat (drop_bit 6 b0) \<in> {0, 1, 2, 3}" by auto
  with n show ?thesis by auto
qed

lemma ReadVarint_bounds: "ReadVarint b = Inr (v, n) \<Longrightarrow> 0 < n \<and> n \<le> length b"
  by (drule ReadVarint_size) blast

lemma ReadVarint_append: "ReadVarint b = Inr r \<Longrightarrow> ReadVarint (b @ x) = Inr r"
  by (auto simp: ReadVarint_def Let_def split: list.splits if_splits)

lemma ReadVarint_Nil [simp]: "ReadVarint [] = Inl ErrVarintTooShort"
  by (simp add: ReadVarint_def)

lemma ReadVarint_err: "ReadVarint b = Inl e \<Longrightarrow> e = ErrVarintTooShort"
  by (auto simp: ReadVarint_def Let_def split: list.splits if_splits)

lemma AppendVarint_nonempty: "v < 2 ^ 62 \<Longrightarrow> 0 < VarintLen v"
  by (simp add: VarintLen_def)

text \<open>The value read has at most 62 bits.\<close>

lemma word_of_nat_less_exp: "l < 2 ^ 62 \<Longrightarrow> (word_of_nat l :: u64) < 2 ^ 62"
  by (simp add: word_less_nat_alt unat_of_nat)

lemma unat_word_of_nat64: "l < 2 ^ 64 \<Longrightarrow> unat (word_of_nat l :: u64) = l"
  by (simp add: unat_of_nat)

lemma ReadVarintLen_AppendVarintLen:
  assumes "length c < 2 ^ 62"
  shows "ReadVarintLen (AppendVarintLen [] c @ x) = Inr (c, length (AppendVarintLen [] c))"
proof -
  let ?l = "word_of_nat (length c) :: u64"
  have "ReadVarint (AppendVarintLen [] c @ x) = Inr (?l, VarintLen ?l)"
    using ReadVarint_AppendVarint [OF word_of_nat_less_exp [OF assms], of "c @ x"]
    by (simp add: AppendVarintLen_def)
  moreover have "unat ?l = length c" using assms by (simp add: unat_of_nat)
  ultimately show ?thesis
    by (simp add: ReadVarintLen_def AppendVarintLen_def length_AppendVarint)
qed

section \<open>Properties\<close>

text \<open>C38. Every value a QUIC varint can hold (below \<open>2^62\<close>) is written in
  \<open>VarintLen\<close> bytes and read back exactly, whatever follows it in the packet;
  a value that does not fit is not written at all.\<close>

theorem varint_roundtrip:
  "if v < 2 ^ 62
   then ReadVarint (AppendVarint [] v @ x) = Inr (v, VarintLen v)
        \<and> AppendVarint dst v = dst @ AppendVarint [] v
        \<and> length (AppendVarint [] v) = VarintLen v \<and> VarintLen v \<in> {1, 2, 4, 8}
   else AppendVarint dst v = dst \<and> VarintLen v = 0"
proof (cases "v < 2 ^ 62")
  case True
  with ReadVarint_size [OF ReadVarint_AppendVarint [OF True, of x]] show ?thesis
    by (simp add: ReadVarint_AppendVarint length_AppendVarint AppendVarint_append [of dst])
next
  case False
  then have "\<not> v < 2 ^ 6" "\<not> v < 2 ^ 14" "\<not> v < 2 ^ 30"
    by (simp_all add: word_less_nat_alt)
  with False show ?thesis by (simp add: AppendVarint_def VarintLen_def)
qed

end
