(* ===== verification/H3_Packet.thy ===== *)
theory H3_Packet
  imports Varint
begin

text \<open>
  QUIC packet headers, \<^verbatim>\<open>src/http3/packet.go\<close>: the long header of the
  handshake packets, the short header of the data packets, their readers and
  writers.
\<close>

section \<open>Definitions\<close>

datatype packet_err = ErrShortPacket | ErrBadPacket string

record long_header =
  lh_Type :: byte
  lh_Version :: u32
  lh_DestConnID :: bytes
  lh_SrcConnID :: bytes
  lh_PacketNumber :: u64
  lh_PacketNumberLen :: nat
  lh_Payload :: bytes

record short_header =
  sh_SpinBit :: bool
  sh_KeyPhase :: bool
  sh_DestConnID :: bytes
  sh_PacketNumber :: u64
  sh_PacketNumberLen :: nat
  sh_Payload :: bytes

definition connIDLen :: "byte \<Rightarrow> nat" where
  "connIDLen b = unat b"

text \<open>\<open>int(b[0]&0x3) + 1\<close> and the loop that shifts the packet number in.\<close>

definition pn_len :: "byte \<Rightarrow> nat" where
  "pn_len b0 = unat (b0 AND 3) + 1"

definition read_pn :: "bytes \<Rightarrow> nat \<Rightarrow> nat \<Rightarrow> u64" where
  "read_pn b off n = foldl shift_in 0 (take n (drop off b))"

text \<open>The part of \<open>ReadLongHeader\<close> behind the version: the two connection ids and the
  packet number.\<close>

definition read_long_pn ::
  "bytes \<Rightarrow> u32 \<Rightarrow> bytes \<Rightarrow> bytes \<Rightarrow> nat \<Rightarrow> packet_err + long_header" where
  "read_long_pn b version dcid scid off =
     (let pnLen = pn_len (b ! 0) in
      if off + pnLen > length b then Inl ErrShortPacket
      else Inr \<lparr>lh_Type = drop_bit 4 (b ! 0) AND 3, lh_Version = version,
                lh_DestConnID = dcid, lh_SrcConnID = scid,
                lh_PacketNumber = read_pn b off pnLen, lh_PacketNumberLen = pnLen,
                lh_Payload = drop (off + pnLen) b\<rparr>)"

definition read_long_scid :: "bytes \<Rightarrow> u32 \<Rightarrow> bytes \<Rightarrow> nat \<Rightarrow> packet_err + long_header" where
  "read_long_scid b version dcid off =
     (if off \<ge> length b then Inl ErrShortPacket
      else let scil = connIDLen (b ! off); off = off + 1 in
        if scil > 20 then Inl (ErrBadPacket (''src conn id '' @ itoa scil @ '' > 20''))
        else if off + scil > length b then Inl ErrShortPacket
        else read_long_pn b version dcid (take scil (drop off b)) (off + scil))"

definition ReadLongHeader :: "bytes \<Rightarrow> packet_err + long_header" where
  "ReadLongHeader b =
     (if length b < 1 then Inl ErrShortPacket
      else if length b < 5 then Inl ErrShortPacket
      else let version = get32 (b ! 1) (b ! 2) (b ! 3) (b ! 4); off = 5 in
        if version = 0 then
          Inr \<lparr>lh_Type = drop_bit 4 (b ! 0) AND 3, lh_Version = 0, lh_DestConnID = [],
               lh_SrcConnID = [], lh_PacketNumber = 0, lh_PacketNumberLen = 0,
               lh_Payload = drop 5 b\<rparr>
        else if off \<ge> length b then Inl ErrShortPacket
        else let dcil = connIDLen (b ! off); off = off + 1 in
          if dcil > 20 then Inl (ErrBadPacket (''dest conn id '' @ itoa dcil @ '' > 20''))
          else if off + dcil > length b then Inl ErrShortPacket
          else read_long_scid b version (take dcil (drop off b)) (off + dcil))"

definition ReadShortHeader :: "bytes \<Rightarrow> nat \<Rightarrow> packet_err + short_header" where
  "ReadShortHeader b cidLen =
     (if length b < 1 + cidLen + 1 then Inl ErrShortPacket
      else let off = 1 + cidLen; pnLen = pn_len (b ! 0) in
        if off + pnLen > length b then Inl ErrShortPacket
        else Inr \<lparr>sh_SpinBit = (b ! 0 AND 0x20 \<noteq> 0), sh_KeyPhase = (b ! 0 AND 0x04 \<noteq> 0),
                  sh_DestConnID = take cidLen (drop 1 b),
                  sh_PacketNumber = read_pn b off pnLen, sh_PacketNumberLen = pnLen,
                  sh_Payload = drop (off + pnLen) b\<rparr>)"

definition IsLongHeader :: "byte \<Rightarrow> bool" where
  "IsLongHeader b = (b AND 0x80 \<noteq> 0)"

definition AppendLongHeader ::
  "bytes \<Rightarrow> byte \<Rightarrow> u32 \<Rightarrow> bytes \<Rightarrow> bytes \<Rightarrow> u64 \<Rightarrow> int \<Rightarrow> bytes" where
  "AppendLongHeader dst ptype version destConnID srcConnID pn pnLen =
     dst @ [0x80 OR push_bit 4 (ptype AND 3) OR word_of_int (pnLen - 1)] @ put32 version
     @ [word_of_nat (length destConnID)] @ destConnID
     @ [word_of_nat (length srcConnID)] @ srcConnID
     @ be_bytes (nat pnLen) pn"

definition AppendShortHeader :: "bytes \<Rightarrow> bytes \<Rightarrow> u64 \<Rightarrow> int \<Rightarrow> bytes" where
  "AppendShortHeader dst connID pn pnLen =
     dst @ [0x40 OR word_of_int (pnLen - 1)] @ connID @ be_bytes (nat pnLen) pn"

section \<open>Lemmas\<close>

text \<open>The reader in one equation over the parts of the packet.\<close>

lemma ReadLongHeader_parts:
  assumes "length d \<le> 20" and "length s \<le> 20" and "v \<noteq> 0" and "length pn = pn_len f"
  shows "ReadLongHeader (f # put32 v @ word_of_nat (length d) # d @ word_of_nat (length s) # s @ pn @ x)
    = Inr \<lparr>lh_Type = drop_bit 4 f AND 3, lh_Version = v, lh_DestConnID = d, lh_SrcConnID = s,
           lh_PacketNumber = foldl shift_in 0 pn, lh_PacketNumberLen = pn_len f, lh_Payload = x\<rparr>"
  using assms
  by (simp add: ReadLongHeader_def read_long_scid_def read_long_pn_def connIDLen_def Let_def
      put32_def get32_put32 nth_append unat_of_nat read_pn_def drop_Cons')

lemma ReadShortHeader_parts:
  assumes "length pn = pn_len f"
  shows "ReadShortHeader (f # d @ pn @ x) (length d)
    = Inr \<lparr>sh_SpinBit = (f AND 0x20 \<noteq> 0), sh_KeyPhase = (f AND 0x04 \<noteq> 0), sh_DestConnID = d,
           sh_PacketNumber = foldl shift_in 0 pn, sh_PacketNumberLen = pn_len f, sh_Payload = x\<rparr>"
  using assms by (simp add: ReadShortHeader_def Let_def read_pn_def pn_len_def)

text \<open>The first byte of a written header, read back.\<close>

lemma and_3_cases: "(t :: byte) AND 3 \<in> {0, 1, 2, 3}"
proof -
  have "unat (t AND 3) \<le> 3"
    using word_and_le1 [of t 3] by (simp add: word_le_nat_alt)
  then have "unat (t AND 3) \<in> {unat (0 :: byte), unat (1 :: byte), unat (2 :: byte), unat (3 :: byte)}"
    by auto
  then show ?thesis by (simp only: insert_iff empty_iff word_unat_eq_iff) 
qed

lemma long_first_byte:
  fixes l :: int and t :: byte
  assumes "1 \<le> l" and "l \<le> 4"
  defines "f \<equiv> (0x80 :: byte) OR push_bit 4 (t AND 3) OR word_of_int (l - 1)"
  shows "pn_len f = nat l" and "drop_bit 4 f AND 3 = t AND 3" and "IsLongHeader f"
proof -
  obtain u where u: "t AND 3 = u" "u \<in> {0, 1, 2, 3}" using and_3_cases [of t] by blast
  have "l \<in> {1, 2, 3, 4}" using assms(1,2) by auto
  with u(2) show "pn_len f = nat l" and "drop_bit 4 f AND 3 = t AND 3" and "IsLongHeader f"
    unfolding f_def u(1) by (auto simp: pn_len_def IsLongHeader_def)
qed

lemma short_first_byte:
  fixes l :: int
  assumes "1 \<le> l" and "l \<le> 4"
  defines "f \<equiv> (0x40 :: byte) OR word_of_int (l - 1)"
  shows "pn_len f = nat l" and "f AND 0x20 = 0" and "f AND 0x04 = 0" and "\<not> IsLongHeader f"
proof -
  have "l \<in> {1, 2, 3, 4}" using assms(1,2) by auto
  then show "pn_len f = nat l" and "f AND 0x20 = 0" and "f AND 0x04 = 0" and "\<not> IsLongHeader f"
    by (auto simp: f_def pn_len_def IsLongHeader_def)
qed

lemma drop_Suc_nth: "i < length b \<Longrightarrow> drop i b = b ! i # drop (Suc i) b"
  by (rule Cons_nth_drop_Suc [symmetric])

text \<open>A length-prefixed field is cut off the front of what is left.\<close>

lemma drop_field:
  assumes "i < length b" and "i + 1 + connIDLen (b ! i) \<le> length b"
  defines "c \<equiv> take (connIDLen (b ! i)) (drop (i + 1) b)"
  shows "drop i b = word_of_nat (length c) # c @ drop (i + 1 + connIDLen (b ! i)) b"
    and "length c = connIDLen (b ! i)"
proof -
  show len: "length c = connIDLen (b ! i)" using assms(2) by (simp add: c_def)
  have "drop (i + 1) b = c @ drop (i + 1 + connIDLen (b ! i)) b"
    unfolding c_def by (metis append_take_drop_id drop_drop add.commute)
  then show "drop i b = word_of_nat (length c) # c @ drop (i + 1 + connIDLen (b ! i)) b"
    using drop_Suc_nth [OF assms(1)] by (simp add: len connIDLen_def)
qed

lemma ReadLongHeader_InrE:
  assumes "ReadLongHeader b = Inr h" and "lh_Version h \<noteq> 0"
  obtains d s pn where
    "b = b ! 0 # put32 (lh_Version h) @ word_of_nat (length d) # d @ word_of_nat (length s) # s @ pn @ lh_Payload h"
    and "length d \<le> 20" and "length s \<le> 20" and "length pn = pn_len (b ! 0)"
    and "h = \<lparr>lh_Type = drop_bit 4 (b ! 0) AND 3, lh_Version = lh_Version h, lh_DestConnID = d,
           lh_SrcConnID = s, lh_PacketNumber = foldl shift_in 0 pn,
           lh_PacketNumberLen = pn_len (b ! 0), lh_Payload = lh_Payload h\<rparr>"
proof -
  define d where "d = take (connIDLen (b ! 5)) (drop (5 + 1) b)"
  define i where "i = 6 + connIDLen (b ! 5)"
  define s where "s = take (connIDLen (b ! i)) (drop (i + 1) b)"
  define j where "j = i + 1 + connIDLen (b ! i)"
  define pn where "pn = take (pn_len (b ! 0)) (drop j b)"
  have bounds: "5 < length b" "connIDLen (b ! 5) \<le> 20" "i < length b" "connIDLen (b ! i) \<le> 20"
      "j + pn_len (b ! 0) \<le> length b"
    and v: "lh_Version h = get32 (b ! 1) (b ! 2) (b ! 3) (b ! 4)"
    and h: "h = \<lparr>lh_Type = drop_bit 4 (b ! 0) AND 3, lh_Version = lh_Version h, lh_DestConnID = d,
           lh_SrcConnID = s, lh_PacketNumber = foldl shift_in 0 pn,
           lh_PacketNumberLen = pn_len (b ! 0), lh_Payload = drop (j + pn_len (b ! 0)) b\<rparr>"
    using assms
    by (auto simp: ReadLongHeader_def read_long_scid_def read_long_pn_def read_pn_def Let_def
        d_def i_def s_def j_def pn_def split: if_splits)
  have le: "5 + 1 + connIDLen (b ! 5) \<le> length b" "i + 1 + connIDLen (b ! i) \<le> length b"
    using bounds by (auto simp: i_def j_def)
  have pay: "lh_Payload h = drop (j + pn_len (b ! 0)) b" by (subst h) simp
  have "drop j b = pn @ lh_Payload h"
    unfolding pay pn_def by (metis append_take_drop_id drop_drop add.commute)
  then have "drop 5 b = word_of_nat (length d) # d @ word_of_nat (length s) # s @ pn @ lh_Payload h"
    using drop_field(1) [OF bounds(1) le(1)] drop_field(1) [OF bounds(3) le(2)]
    by (simp add: d_def s_def i_def j_def)
  moreover have "b = b ! 0 # put32 (lh_Version h) @ drop 5 b"
    using bounds(1) drop_Suc_nth [of 0 b, unfolded drop_0, OF order_le_less_trans, OF _ bounds(1)] drop_Suc_nth [of 1 b] drop_Suc_nth [of 2 b]
      drop_Suc_nth [of 3 b] drop_Suc_nth [of 4 b]
    by (simp add: v put32_get32 numeral_eq_Suc)
  ultimately have "b = b ! 0 # put32 (lh_Version h) @ word_of_nat (length d) # d @ word_of_nat (length s) # s @ pn @ lh_Payload h"
    by simp
  moreover have "length pn = pn_len (b ! 0)" using bounds(5) by (simp add: pn_def)
  moreover have "length d \<le> 20" "length s \<le> 20"
    using bounds(2,4) by (simp_all add: d_def s_def)
  ultimately show thesis
    using h pay by (intro that [of d s pn]) simp_all
qed

section \<open>Properties\<close>

text \<open>A long header with a version, connection ids of at most 20 bytes and a
  packet number that fits its one to four bytes is parsed back field by field,
  with the rest of the datagram as payload, and recognised as a long header.\<close>

theorem long_header_roundtrip:
  assumes "length d \<le> 20" and "length s \<le> 20" and "v \<noteq> 0"
    and "1 \<le> l" and "l \<le> 4" and "pn < 2 ^ (8 * nat l)"
  shows "ReadLongHeader (AppendLongHeader [] t v d s pn l @ x)
    = Inr \<lparr>lh_Type = t AND 3, lh_Version = v, lh_DestConnID = d, lh_SrcConnID = s,
           lh_PacketNumber = pn, lh_PacketNumberLen = nat l, lh_Payload = x\<rparr>
    \<and> IsLongHeader (hd (AppendLongHeader [] t v d s pn l))"
proof -
  let ?f = "0x80 OR push_bit 4 (t AND 3) OR word_of_int (l - 1) :: byte"
  note f = long_first_byte [OF assms(4,5), of t]
  have "foldl shift_in 0 (be_bytes (nat l) pn) = pn"
    by (rule foldl_shift_in_be_bytes [OF assms(6)]) simp
  then show ?thesis
    using ReadLongHeader_parts [OF assms(1,2,3), of "be_bytes (nat l) pn" ?f x] f
    by (simp add: AppendLongHeader_def)
qed

lemma long_header_roundtrip_witness:
  "ReadLongHeader (AppendLongHeader [] 2 1 [0xaa, 0xbb] [] 0x1234 2 @ [7, 8])
    = Inr \<lparr>lh_Type = 2 AND 3, lh_Version = 1, lh_DestConnID = [0xaa, 0xbb], lh_SrcConnID = [],
           lh_PacketNumber = 0x1234, lh_PacketNumberLen = nat 2, lh_Payload = [7, 8]\<rparr>
    \<and> IsLongHeader (hd (AppendLongHeader [] 2 1 [0xaa, 0xbb] [] 0x1234 2))"
  by (rule long_header_roundtrip) simp_all



text \<open>A short header written for a packet number that fits is parsed back by a
  receiver that knows the length of its own connection id, and is never taken for a
  long header.\<close>

theorem short_header_roundtrip:
  assumes "1 \<le> l" and "l \<le> 4" and "pn < 2 ^ (8 * nat l)"
  shows "ReadShortHeader (AppendShortHeader [] d pn l @ x) (length d)
    = Inr \<lparr>sh_SpinBit = False, sh_KeyPhase = False, sh_DestConnID = d,
           sh_PacketNumber = pn, sh_PacketNumberLen = nat l, sh_Payload = x\<rparr>
    \<and> \<not> IsLongHeader (hd (AppendShortHeader [] d pn l))"
proof -
  let ?f = "0x40 OR word_of_int (l - 1) :: byte"
  note f = short_first_byte [OF assms(1,2)]
  have "foldl shift_in 0 (be_bytes (nat l) pn) = pn"
    by (rule foldl_shift_in_be_bytes [OF assms(3)]) simp
  then show ?thesis
    using ReadShortHeader_parts [of "be_bytes (nat l) pn" ?f d x] f
    by (simp add: AppendShortHeader_def)
qed

lemma short_header_roundtrip_witness:
  "ReadShortHeader (AppendShortHeader [] [5, 6, 7] 300 2 @ [1]) (length [5, 6, 7 :: byte])
    = Inr \<lparr>sh_SpinBit = False, sh_KeyPhase = False, sh_DestConnID = [5, 6, 7],
           sh_PacketNumber = 300, sh_PacketNumberLen = nat 2, sh_Payload = [1]\<rparr>
    \<and> \<not> IsLongHeader (hd (AppendShortHeader [] [5, 6, 7] 300 2))"
  by (rule short_header_roundtrip) simp_all

end
