(* ===== verification/H3_Frame.thy ===== *)
theory H3_Frame
  imports Varint
begin

text \<open>
  The HTTP/3 frame layer, \<^verbatim>\<open>src/http3/frame.go\<close>, and the \<open>StreamReader\<close> of
  \<^verbatim>\<open>src/http3/server.go\<close> that pulls frames out of a QUIC stream. The stream itself
  (quic-go) is what its \<open>Read\<close> calls return.
\<close>

section \<open>Frames\<close>

type_synonym FrameType3 = u64

definition FrameData3 :: FrameType3 where "FrameData3 = 0x0"
definition FrameHeaders3 :: FrameType3 where "FrameHeaders3 = 0x1"
definition FrameCancelPush3 :: FrameType3 where "FrameCancelPush3 = 0x3"
definition FrameSettings3 :: FrameType3 where "FrameSettings3 = 0x4"
definition FramePushPromise3 :: FrameType3 where "FramePushPromise3 = 0x5"
definition FrameGoAway3 :: FrameType3 where "FrameGoAway3 = 0x7"
definition FrameMaxPushID3 :: FrameType3 where "FrameMaxPushID3 = 0xd"

definition FrameType3_String :: "FrameType3 \<Rightarrow> string" where
  "FrameType3_String t =
     (if t = FrameData3 then ''DATA''
      else if t = FrameHeaders3 then ''HEADERS''
      else if t = FrameCancelPush3 then ''CANCEL_PUSH''
      else if t = FrameSettings3 then ''SETTINGS''
      else if t = FramePushPromise3 then ''PUSH_PROMISE''
      else if t = FrameGoAway3 then ''GOAWAY''
      else if t = FrameMaxPushID3 then ''MAX_PUSH_ID''
      else ''UNKNOWN(0x'' @ itoa_hex (unat t) @ '')'')"

definition IsRequestStream :: "u64 \<Rightarrow> bool" where
  "IsRequestStream sid = (sid AND 3 = 0)"

text \<open>The errors of the package, and any other Go error (of a callback or a reader)
  by its text.\<close>

datatype h3_err = ErrBadFrame string | ErrFrameTooLong u64 | OtherErr string

record h3_frame =
  h3_Type :: FrameType3
  h3_Payload :: bytes

definition maxFramePayload :: nat where
  "maxFramePayload = 16 * 1024 * 1024"

text \<open>One round of the loop in \<open>FrameParser.Parse\<close>: a type, a length, the limit, the
  payload. The length is checked before the payload has arrived.\<close>

definition split_frame3 :: "bytes \<Rightarrow> (h3_frame, h3_err) split_res" where
  "split_frame3 work =
     (case ReadVarint work of
        Inl _ \<Rightarrow> NeedMore
      | Inr (ftype, n) \<Rightarrow>
          (case ReadVarint (drop n work) of
             Inl _ \<Rightarrow> NeedMore
           | Inr (len, m) \<Rightarrow>
               if unat len > maxFramePayload then Bad (ErrFrameTooLong len)
               else let headLen = n + m in
                 if length work - headLen < unat len then NeedMore
                 else Got \<lparr>h3_Type = ftype, h3_Payload = take (unat len) (drop headLen work)\<rparr>
                        (headLen + unat len)))"

text \<open>The parser's state is the buffer \<open>p.buf\<close>; \<open>Parse3\<close> reports all of the data it
  was given as consumed.\<close>

definition Parse3 ::
  "bytes \<Rightarrow> ('s \<Rightarrow> h3_frame \<Rightarrow> 's \<times> h3_err option) \<Rightarrow> 's \<Rightarrow> bytes \<Rightarrow> nat \<times> h3_err option \<times> bytes \<times> 's" where
  "Parse3 buf fn s data =
     (case feed split_frame3 fn buf s data of (buf', err, s') \<Rightarrow> (length data, err, buf', s'))"

definition AppendFrame :: "bytes \<Rightarrow> FrameType3 \<Rightarrow> bytes \<Rightarrow> bytes" where
  "AppendFrame dst ftype payload =
     AppendVarint (AppendVarint dst ftype) (word_of_nat (length payload)) @ payload"

definition AppendData3 :: "bytes \<Rightarrow> bytes \<Rightarrow> bytes" where
  "AppendData3 dst body = AppendFrame dst FrameData3 body"

definition AppendHeaders3 :: "bytes \<Rightarrow> bytes \<Rightarrow> bytes" where
  "AppendHeaders3 dst block = AppendFrame dst FrameHeaders3 block"

section \<open>SETTINGS\<close>

record h3_setting =
  hs_ID :: u64
  hs_Value :: u64

fun settings_payload :: "bytes \<Rightarrow> h3_setting list \<Rightarrow> bytes" where
  "settings_payload payload [] = payload"
| "settings_payload payload (s # ss) =
     settings_payload (AppendVarint (AppendVarint payload (hs_ID s)) (hs_Value s)) ss"

definition AppendSettings3 :: "bytes \<Rightarrow> h3_setting list \<Rightarrow> bytes" where
  "AppendSettings3 dst settings = AppendFrame dst FrameSettings3 (settings_payload [] settings)"

text \<open>The loop \<open>for i < len(payload)\<close>, over \<open>payload[i:]\<close>. A read never takes zero
  bytes (\<open>ReadVarint_size\<close>), so the last branch of the loop body is not taken.\<close>

definition varint_text :: "varint_err \<Rightarrow> string" where
  "varint_text e = (case e of
      ErrVarintTooShort \<Rightarrow> ''http3: varint truncated''
    | ErrVarintTooLong \<Rightarrow> ''http3: varint value too large'')"

function parse_settings_loop :: "h3_setting list \<Rightarrow> bytes \<Rightarrow> h3_err + h3_setting list" where
  "parse_settings_loop out rest =
     (if rest = [] then Inr out
      else case ReadVarint rest of
        Inl e \<Rightarrow> Inl (ErrBadFrame (''setting id: '' @ varint_text e))
      | Inr (ident, n) \<Rightarrow>
          (case ReadVarint (drop n rest) of
             Inl e \<Rightarrow> Inl (ErrBadFrame (''setting value: '' @ varint_text e))
           | Inr (val, m) \<Rightarrow>
               if 0 < n + m then
                 parse_settings_loop (out @ [\<lparr>hs_ID = ident, hs_Value = val\<rparr>]) (drop (n + m) rest)
               else Inr out))"
  by pat_completeness auto
termination
  by (relation "measure (\<lambda>(out, rest). length rest)") auto

declare parse_settings_loop.simps [simp del]

definition ParseSettings :: "bytes \<Rightarrow> h3_err + h3_setting list" where
  "ParseSettings payload = parse_settings_loop [] payload"

section \<open>StreamReader\<close>

text \<open>What one \<open>r.Read\<close> of the QUIC stream returns: the bytes read and an error
  (\<open>io.EOF\<close> at the end of the stream).\<close>

type_synonym read_result = "bytes \<times> h3_err option"

definition EOF :: h3_err where "EOF = OtherErr ''EOF''"

record stream_reader =
  sr_buf :: bytes
  sr_frames :: "h3_frame list"
  sr_idx :: nat
  sr_err :: "h3_err option"

definition NewStreamReader :: stream_reader where
  "NewStreamReader = \<lparr>sr_buf = [], sr_frames = [], sr_idx = 0, sr_err = None\<rparr>"

text \<open>\<open>Next\<close>: the reads still to come are an argument; \<open>None\<close> means that the call
  is still waiting in \<open>Read\<close> when they are used up.\<close>

fun Next :: "stream_reader \<Rightarrow> read_result list
    \<Rightarrow> ((h3_frame + h3_err) \<times> stream_reader \<times> read_result list) option" where
  "Next sr reads =
     (if sr_idx sr < length (sr_frames sr) then
        Some (Inl (sr_frames sr ! sr_idx sr), sr\<lparr>sr_idx := sr_idx sr + 1\<rparr>, reads)
      else case sr_err sr of
        Some e \<Rightarrow> Some (Inr e, sr, reads)
      | None \<Rightarrow>
          (case reads of
             [] \<Rightarrow> None
           | (data, err) # reads' \<Rightarrow>
               (case
                  (if data \<noteq> [] then
                     (case Parse3 (sr_buf sr) collect [] data of
                        (_, Some perr, buf', frames) \<Rightarrow>
                          Inr (sr\<lparr>sr_buf := buf', sr_frames := frames, sr_idx := 0,
                                  sr_err := Some perr\<rparr>, perr)
                      | (_, None, buf', frames) \<Rightarrow>
                          Inl (sr\<lparr>sr_buf := buf', sr_frames := frames, sr_idx := 0\<rparr>, frames \<noteq> []))
                   else Inl (sr, False)) of
                  Inr (sr', perr) \<Rightarrow> Some (Inr perr, sr', reads')
                | Inl (sr', cont) \<Rightarrow>
                    if cont then Next sr' reads'
                    else (case err of
                        Some e \<Rightarrow> Some (Inr e, sr'\<lparr>sr_err := Some e\<rparr>, reads')
                      | None \<Rightarrow> Next sr' reads'))))"

declare Next.simps [simp del]

section \<open>The frame layer as a framing\<close>

definition enc_frame3 :: "h3_frame \<Rightarrow> bytes" where
  "enc_frame3 f = AppendFrame [] (h3_Type f) (h3_Payload f)"

definition frame3_ok :: "h3_frame \<Rightarrow> bool" where
  "frame3_ok f = (h3_Type f < 2 ^ 62 \<and> length (h3_Payload f) \<le> maxFramePayload)"

lemma ReadVarint_drop_append:
  "ReadVarint b = Inr (v, n) \<Longrightarrow> ReadVarint (drop n b) = Inr r \<Longrightarrow> ReadVarint (drop n (b @ x)) = Inr r"
  using ReadVarint_size [of b v n] by (simp add: ReadVarint_append)

lemma AppendFrame_append: "AppendFrame dst t p = dst @ AppendFrame [] t p"
  unfolding AppendFrame_def
  by (subst (1 2) AppendVarint_append) (simp add: AppendVarint_append [of dst t])

lemma split_enc_frame3:
  assumes "frame3_ok f"
  shows "split_frame3 (enc_frame3 f @ x) = Got f (length (enc_frame3 f))"
proof -
  let ?l = "word_of_nat (length (h3_Payload f)) :: u64"
  have t: "h3_Type f < 2 ^ 62" and p: "length (h3_Payload f) \<le> maxFramePayload"
    using assms by (simp_all add: frame3_ok_def)
  have l: "unat ?l = length (h3_Payload f)" "?l < 2 ^ 62"
    using p by (simp_all add: maxFramePayload_def unat_of_nat word_less_nat_alt)
  have e: "enc_frame3 f = AppendVarint [] (h3_Type f) @ AppendVarint [] ?l @ h3_Payload f"
    by (simp add: enc_frame3_def AppendFrame_def AppendVarint_append [of "AppendVarint [] (h3_Type f)"])
  show ?thesis
    using ReadVarint_AppendVarint [OF t] ReadVarint_AppendVarint [OF l(2)] l(1) p
    by (simp add: split_frame3_def e length_AppendVarint Let_def)
qed

lemma split_frame3_GotD:
  assumes "split_frame3 b = Got u n"
  shows "\<exists>t l k m. ReadVarint b = Inr (t, k) \<and> ReadVarint (drop k b) = Inr (l, m)
    \<and> unat l \<le> maxFramePayload \<and> 0 < k \<and> k + m + unat l \<le> length b \<and> n = k + m + unat l
    \<and> u = \<lparr>h3_Type = t, h3_Payload = take (unat l) (drop (k + m) b)\<rparr>"
proof -
  obtain t k where r1: "ReadVarint b = Inr (t, k)"
    using assms by (auto simp: split_frame3_def split: sum.splits)
  obtain l m where r2: "ReadVarint (drop k b) = Inr (l, m)"
    using assms by (auto simp: split_frame3_def r1 split: sum.splits)
  show ?thesis
    using assms ReadVarint_bounds [OF r1] ReadVarint_bounds [OF r2]
    by (auto simp: split_frame3_def r1 r2 Let_def split: if_splits)
qed

lemma split_frame3_progress: "split_frame3 b = Got u n \<Longrightarrow> 0 < n \<and> n \<le> length b"
  by (drule split_frame3_GotD) auto

lemma split_frame3_Got_append: "split_frame3 b = Got u n \<Longrightarrow> split_frame3 (b @ x) = Got u n"
  by (drule split_frame3_GotD)
    (auto simp: split_frame3_def ReadVarint_append Let_def)

lemma split_frame3_Bad_append: "split_frame3 b = Bad e \<Longrightarrow> split_frame3 (b @ x) = Bad e"
  by (auto simp: split_frame3_def Let_def ReadVarint_append ReadVarint_drop_append
      split: sum.splits if_splits dest: ReadVarint_drop_append)

interpretation h3: frame_codec split_frame3 enc_frame3 frame3_ok
proof
  show "split_frame3 [] = NeedMore" by (simp add: split_frame3_def)
qed (auto dest: split_frame3_progress split_frame3_Got_append split_frame3_Bad_append split_enc_frame3)

section \<open>Pulling frames from a stream\<close>

text \<open>\<open>n\<close> calls of \<open>Next\<close>, one after the other, as a client makes them.\<close>

fun drain :: "nat \<Rightarrow> stream_reader \<Rightarrow> read_result list \<Rightarrow> (h3_frame + h3_err) list" where
  "drain 0 sr reads = []"
| "drain (Suc n) sr reads =
     (case Next sr reads of None \<Rightarrow> [] | Some (r, sr', reads') \<Rightarrow> r # drain n sr' reads')"

text \<open>The reader has the frames \<open>gs\<close> left to deliver: those parsed and not yet returned,
  then those in its buffer and in the reads to come.\<close>

definition will_deliver :: "stream_reader \<Rightarrow> read_result list \<Rightarrow> h3_frame list \<Rightarrow> bool" where
  "will_deliver sr reads gs =
     (sr_err sr = None \<and> split_frame3 (sr_buf sr) = NeedMore \<and> (\<forall>r \<in> set reads. snd r = None) \<and>
      (\<exists>buf' us. feed split_frame3 collect (sr_buf sr) [] (concat (map fst reads)) = (buf', None, us) \<and>
         gs = drop (sr_idx sr) (sr_frames sr) @ us))"

lemma will_deliver_read:
  assumes "will_deliver sr ((data, e) # reads) gs" and "\<not> sr_idx sr < length (sr_frames sr)"
  shows "\<exists>buf' us. Parse3 (sr_buf sr) collect [] data = (length data, None, buf', us) \<and> e = None \<and>
    will_deliver (sr\<lparr>sr_buf := buf', sr_frames := us, sr_idx := 0\<rparr>) reads gs"
proof -
  obtain buf2 us where all: "feed split_frame3 collect (sr_buf sr) [] (data @ concat (map fst reads)) = (buf2, None, us)"
    and gs: "gs = us" and sr: "sr_err sr = None" "e = None" "\<forall>r \<in> set reads. snd r = None"
    using assms by (auto simp: will_deliver_def)
  obtain buf1 err1 us1 where one: "feed split_frame3 collect (sr_buf sr) [] data = (buf1, err1, us1)"
    by (metis prod_cases3)
  note app = h3.feed_append [OF one, of "concat (map fst reads)"]
  with all have err1: "err1 = None" by (cases err1) auto
  obtain buf3 err3 us3 where two: "feed split_frame3 collect buf1 [] (concat (map fst reads)) = (buf3, err3, us3)"
    by (metis prod_cases3)
  from app all err1 h3.feed_collect [OF two, of us1]
  have "err3 = None" "us = us1 @ us3" by auto
  then have "will_deliver (sr\<lparr>sr_buf := buf1, sr_frames := us1, sr_idx := 0\<rparr>) reads gs"
    using one two sr gs err1 by (auto simp: will_deliver_def dest: h3.feed_stop)
  then show ?thesis using one err1 sr by (auto simp: Parse3_def)
qed

lemma will_deliver_pending:
  assumes "will_deliver sr reads gs" and "sr_idx sr < length (sr_frames sr)"
  shows "gs = sr_frames sr ! sr_idx sr # tl gs"
    and "will_deliver (sr\<lparr>sr_idx := sr_idx sr + 1\<rparr>) reads (tl gs)"
  using assms by (auto simp: will_deliver_def Cons_nth_drop_Suc [symmetric])

lemma Next_pending:
  "sr_idx sr < length (sr_frames sr) \<Longrightarrow>
   Next sr reads = Some (Inl (sr_frames sr ! sr_idx sr), sr\<lparr>sr_idx := sr_idx sr + 1\<rparr>, reads)"
  by (simp add: Next.simps)

lemma Next_read:
  assumes "\<not> sr_idx sr < length (sr_frames sr)" and "sr_err sr = None"
    and "Parse3 (sr_buf sr) collect [] data = (k, None, buf', us)"
  shows "data \<noteq> [] \<Longrightarrow> Next sr ((data, None) # reads) =
      Next (sr\<lparr>sr_buf := buf', sr_frames := us, sr_idx := 0\<rparr>) reads"
    and "Next sr (([], None) # reads) = Next sr reads"
  using assms by (simp_all add: Next.simps [of sr])

lemma Next_delivers:
  "will_deliver sr reads gs \<Longrightarrow>
   (case gs of
      [] \<Rightarrow> \<exists>sr'. Next sr (reads @ [([], Some e)]) = Some (Inr e, sr', []) \<and> sr_err sr' = Some e
              \<and> \<not> sr_idx sr' < length (sr_frames sr')
    | g # gs' \<Rightarrow> \<exists>sr' reads'. Next sr (reads @ [([], Some e)]) = Some (Inl g, sr', reads' @ [([], Some e)])
              \<and> will_deliver sr' reads' gs')"
proof (induction reads arbitrary: sr)
  case Nil
  show ?case
  proof (cases "sr_idx sr < length (sr_frames sr)")
    case True
    with will_deliver_pending [OF Nil True] show ?thesis
      by (cases gs) (auto simp: Next_pending)
  next
    case False
    with Nil have "gs = []"
      by (auto simp: will_deliver_def feed_def h3.loop_NeedMore)
    with False Nil show ?thesis
      by (auto simp: Next.simps will_deliver_def)
  qed
next
  case (Cons r reads)
  obtain data err where r: "r = (data, err)" by fastforce
  show ?case
  proof (cases "sr_idx sr < length (sr_frames sr)")
    case True
    with will_deliver_pending [OF Cons.prems True] show ?thesis
      by (cases gs) (auto simp: Next_pending intro!: exI [of _ "r # reads"])
  next
    case False
    obtain buf' us where p: "Parse3 (sr_buf sr) collect [] data = (length data, None, buf', us)"
      and err: "err = None"
      and wd: "will_deliver (sr\<lparr>sr_buf := buf', sr_frames := us, sr_idx := 0\<rparr>) reads gs"
      using will_deliver_read [OF Cons.prems [unfolded r] False] by auto
    have e: "sr_err sr = None" using Cons.prems by (simp add: will_deliver_def)
    note idle = False
    show ?thesis
    proof (cases "data = []")
      case True
      then have "will_deliver sr reads gs"
        using Cons.prems by (auto simp: will_deliver_def r)
      from Cons.IH [OF this] show ?thesis
        unfolding r err True append_Cons Next_read(2) [OF False e p] .
    next
      case False
      show ?thesis
        using Cons.IH [OF wd] unfolding r err append_Cons Next_read(1) [OF idle e p False] .
    qed
  qed
qed

lemma drain_err: 
  "sr_err sr = Some e \<Longrightarrow> \<not> sr_idx sr < length (sr_frames sr) \<Longrightarrow> drain k sr reads = replicate k (Inr e)"
  by (induction k) (simp_all add: Next.simps)

lemma drain_delivers:
  "will_deliver sr reads gs \<Longrightarrow>
   drain (length gs + k) sr (reads @ [([], Some e)]) = map Inl gs @ replicate k (Inr e)"
proof (induction gs arbitrary: sr reads)
  case Nil
  show ?case
  proof (cases k)
    case (Suc j)
    with Next_delivers [OF Nil, of e] show ?thesis by (auto simp: drain_err)
  qed simp
next
  case (Cons g gs)
  from Next_delivers [OF Cons.prems, of e] Cons.IH show ?case by auto
qed

section \<open>SETTINGS payloads\<close>

lemma settings_payload_append:
  "settings_payload b ss = b @ concat (map (\<lambda>s. AppendVarint [] (hs_ID s) @ AppendVarint [] (hs_Value s)) ss)"
proof (induction ss arbitrary: b)
  case (Cons s ss)
  have "AppendVarint (AppendVarint b (hs_ID s)) (hs_Value s) =
      b @ AppendVarint [] (hs_ID s) @ AppendVarint [] (hs_Value s)"
    by (subst (1 2) AppendVarint_append) simp
  with Cons show ?case by simp
qed simp

lemma parse_settings_loop_step:
  assumes "i < 2 ^ 62" and "v < 2 ^ 62"
  shows "parse_settings_loop out (AppendVarint [] i @ AppendVarint [] v @ x) =
    parse_settings_loop (out @ [\<lparr>hs_ID = i, hs_Value = v\<rparr>]) x"
proof -
  have "AppendVarint [] i \<noteq> []"
    using AppendVarint_nonempty [OF assms(1)] length_AppendVarint [of i] by auto
  then show ?thesis
    using ReadVarint_AppendVarint [OF assms(1)] ReadVarint_AppendVarint [OF assms(2)]
      AppendVarint_nonempty [OF assms(1)]
    by (simp add: parse_settings_loop.simps [of out "AppendVarint [] i @ _"] length_AppendVarint)
qed

lemma parse_settings_loop_payload:
  "\<forall>s \<in> set ss. hs_ID s < 2 ^ 62 \<and> hs_Value s < 2 ^ 62 \<Longrightarrow>
   parse_settings_loop out (settings_payload [] ss) = Inr (out @ ss)"
proof (induction ss arbitrary: out)
  case Nil
  then show ?case by (simp add: parse_settings_loop.simps)
next
  case (Cons s ss)
  then show ?case by (simp add: settings_payload_append parse_settings_loop_step)
qed

section \<open>Properties\<close>

text \<open>C40. A stream of well-formed HTTP/3 frames is delivered by \<open>StreamReader.Next\<close>
  frame by frame, in order, each exactly once, whatever pieces the reads return
  it in; after the last frame every further call reports how the stream ended.\<close>

theorem stream_reader_delivers:
  assumes "\<forall>f \<in> set fs. frame3_ok f" and "\<forall>r \<in> set reads. snd r = None"
    and "concat (map fst reads) = concat (map enc_frame3 fs)"
  shows "drain (length fs + k) NewStreamReader (reads @ [([], Some e)]) = map Inl fs @ replicate k (Inr e)"
proof -
  have "snd (feed split_frame3 collect [] [] (concat (map fst reads))) = (None, fs)"
    using h3.loop_enc [OF assms(1) h3.split_Nil, of collect 0 "[]"] assms(3)
    by (simp add: feed_def Let_def case_prod_unfold)
  then have "will_deliver NewStreamReader reads fs"
    using assms(2) h3.split_Nil
    by (cases "feed split_frame3 collect [] [] (concat (map fst reads))")
      (auto simp: will_deliver_def NewStreamReader_def)
  then show ?thesis by (rule drain_delivers)
qed

lemma stream_reader_delivers_witness:
  "drain (length [\<lparr>h3_Type = FrameHeaders3, h3_Payload = [5]\<rparr>] + 1) NewStreamReader
     ([([1], None), ([1, 5], None)] @ [([], Some EOF)])
   = map Inl [\<lparr>h3_Type = FrameHeaders3, h3_Payload = [5]\<rparr>] @ replicate 1 (Inr EOF)"
  by (rule stream_reader_delivers)
    (simp_all add: frame3_ok_def maxFramePayload_def FrameHeaders3_def enc_frame3_def AppendFrame_def
      AppendVarint_def)

text \<open>A SETTINGS frame arrives as one SETTINGS frame whose payload decodes to the
  settings that were sent, in order; nothing is left in the parser.\<close>

theorem settings_roundtrip:
  assumes "\<forall>s \<in> set ss. hs_ID s < 2 ^ 62 \<and> hs_Value s < 2 ^ 62"
    and "length (settings_payload [] ss) \<le> maxFramePayload"
  shows "\<exists>f. Parse3 [] collect [] (AppendSettings3 [] ss) = (length (AppendSettings3 [] ss), None, [], [f])
    \<and> h3_Type f = FrameSettings3 \<and> ParseSettings (h3_Payload f) = Inr ss"
proof -
  let ?f = "\<lparr>h3_Type = FrameSettings3, h3_Payload = settings_payload [] ss\<rparr>"
  have ok: "frame3_ok ?f" using assms(2) by (simp add: frame3_ok_def FrameSettings3_def)
  have e: "AppendSettings3 [] ss = enc_frame3 ?f" by (simp add: AppendSettings3_def enc_frame3_def)
  have "split_frame3 (enc_frame3 ?f) = Got ?f (length (enc_frame3 ?f))"
    using split_enc_frame3 [OF ok, of "[]"] by simp
  then have "Parse3 [] collect [] (AppendSettings3 [] ss) = (length (AppendSettings3 [] ss), None, [], [?f])"
    by (simp add: Parse3_def feed_def e h3.loop_Got collect_def h3.loop_NeedMore h3.split_Nil)
  then show ?thesis
    using parse_settings_loop_payload [OF assms(1), of "[]"] by (auto simp: ParseSettings_def)
qed

lemma settings_roundtrip_witness:
  "\<exists>f. Parse3 [] collect [] (AppendSettings3 [] [\<lparr>hs_ID = 6, hs_Value = 16384\<rparr>])
      = (length (AppendSettings3 [] [\<lparr>hs_ID = 6, hs_Value = 16384\<rparr>]), None, [], [f])
    \<and> h3_Type f = FrameSettings3 \<and> ParseSettings (h3_Payload f) = Inr [\<lparr>hs_ID = 6, hs_Value = 16384\<rparr>]"
  by (rule settings_roundtrip) (simp_all add: AppendVarint_def maxFramePayload_def)

text \<open>A frame that announces more than 16 MiB is refused as soon as its header is
  there, before any payload is buffered, and whatever follows.\<close>

theorem oversized_frame_refused:
  assumes "t < 2 ^ 62" and "l < 2 ^ 62" and "unat l > maxFramePayload"
  shows "Parse3 [] fn s (AppendVarint (AppendVarint [] t) l @ x)
    = (length (AppendVarint (AppendVarint [] t) l @ x), Some (ErrFrameTooLong l),
       AppendVarint (AppendVarint [] t) l @ x, s)"
proof -
  have "split_frame3 (AppendVarint [] t @ AppendVarint [] l @ x) = Bad (ErrFrameTooLong l)"
    using ReadVarint_AppendVarint [OF assms(1)] ReadVarint_AppendVarint [OF assms(2)] assms(3)
    by (simp add: split_frame3_def length_AppendVarint)
  then show ?thesis
    by (simp add: Parse3_def feed_def h3.loop_Bad AppendVarint_append [of "AppendVarint [] t"])
qed

lemma oversized_frame_refused_witness:
  "Parse3 [] collect [] (AppendVarint (AppendVarint [] 0) 0x1000001 @ [1, 2])
    = (length (AppendVarint (AppendVarint [] 0) 0x1000001 @ [1, 2]), Some (ErrFrameTooLong 0x1000001),
       AppendVarint (AppendVarint [] 0) 0x1000001 @ [1, 2], [])"
  by (rule oversized_frame_refused) (simp_all add: maxFramePayload_def)

text \<open>A frame that is complete when a malformed one follows it in the same read is not
  returned first: \<open>Next\<close> reports the error, and the parsed frame only to a caller
  that calls it again all the same.\<close>

lemma Next_error_first:
  "map_option fst (Next NewStreamReader [([0, 1, 7, 0, 0xc0, 0, 0, 0, 1, 0, 0, 1], None)])
     = Some (Inr (ErrFrameTooLong 0x1000001))"
  by (simp add: Next.simps NewStreamReader_def Parse3_def feed_def frame_loop.simps split_frame3_def
      ReadVarint_def collect_def Let_def maxFramePayload_def shift_in_def)

end
