(* ===== verification/Engine_Conn.thy ===== *)
theory Engine_Conn
  imports Prelude
begin

text \<open>
  The transport connection of the engine (\<^verbatim>\<open>engine/conn.go\<close>): writes to a non-blocking
  socket with the list of buffers that keeps what the kernel did not take, the read
  buffer and its growth, closing, and the status bits.

  The kernel is a part of the state: a script of answers to \<^verbatim>\<open>sendto\<close> and \<^verbatim>\<open>sendmsg\<close>, and
  what \<^verbatim>\<open>recvfrom\<close> will deliver, so that a statement for all states is a statement for
  every kernel. A panic is the result \<open>None\<close>. \<^verbatim>\<open>bytespool.GetBytes\<close> (package wsutil) is the
  argument \<open>pool\<close>: the length and the capacity of the slice it returns; what the code
  relies on of it is \<open>pool_ok\<close>.
\<close>

section \<open>State\<close>

datatype io_err = ErrClosed | EAGAIN | EINTR | Errno nat | IoEOF | OtherErr string

text \<open>The kernel's answer to a send: it takes some bytes, or fails with an error number;
  to a receive: data (what does not fit the buffer stays queued), the end of the stream,
  or an error number.\<close>

datatype tx_answer = Accept nat | TxErr io_err
datatype rx_answer = Deliver bytes | FIN | RxErr io_err

text \<open>A write buffer is a pointer (nil is \<open>None\<close>) to a slice and its capacity.\<close>

type_synonym wbuf = "(bytes \<times> nat) option"
type_synonym pool = "nat \<Rightarrow> nat \<times> nat"

definition pool_ok :: "pool \<Rightarrow> bool" where
  "pool_ok pool = (\<forall>n. n \<le> fst (pool n) \<and> fst (pool n) \<le> snd (pool n))"

text \<open>What closing does to the table of connections (\<^verbatim>\<open>parent.del\<close>, by the descriptor it is
  called with) and to the kernel (\<^verbatim>\<open>closeFd\<close>).\<close>

datatype conn_event = DelConn int | CloseFd int

text \<open>\<open>ec_rsize\<close> is \<open>len(*c.rbuf)\<close> (\<open>None\<close> for a nil \<open>rbuf\<close>) and \<open>ec_rdata\<close> its first \<open>rw\<close>
  bytes; \<open>ec_once\<close> says that \<open>closeOnce\<close> is used up. The last five fields are the world: the
  kernel's answers, what it has taken, whether the poller is to report the descriptor as
  writable again (\<^verbatim>\<open>EventLoop.addWrite\<close>), and the calls closing made.\<close>

record econn =
  ec_fd :: int
  ec_rsize :: "nat option"
  ec_rdata :: bytes
  ec_rr :: nat
  ec_wbufList :: "wbuf list"
  ec_packed :: u32
  ec_once :: bool
  ec_closed :: bool
  ec_releaseReadBuf :: bool
  ec_tx :: "tx_answer list"
  ec_sent :: bytes
  ec_rx :: "rx_answer list"
  ec_armed :: bool
  ec_log :: "conn_event list"

abbreviation batchReadBufferSize :: nat where "batchReadBufferSize \<equiv> 16 * 1024"
abbreviation maxReadBufferSize :: nat where "maxReadBufferSize \<equiv> 4 * 1024 * 1024"

text \<open>\<open>&Conn{}\<close> of the connection pool, and \<open>Init\<close>, which leaves \<open>closeOnce\<close> and
  \<open>releaseReadBuf\<close> as they were.\<close>

definition blank_conn :: econn where
  "blank_conn = \<lparr>ec_fd = 0, ec_rsize = None, ec_rdata = [], ec_rr = 0, ec_wbufList = [], ec_packed = 0,
     ec_once = False, ec_closed = False, ec_releaseReadBuf = False,
     ec_tx = [], ec_sent = [], ec_rx = [], ec_armed = False, ec_log = []\<rparr>"

definition Init_conn :: "econn \<Rightarrow> int \<Rightarrow> econn" where
  "Init_conn c fd = c\<lparr>ec_fd := fd, ec_closed := False, ec_packed := 0, ec_rsize := None, ec_rr := 0,
     ec_rdata := [], ec_wbufList := []\<rparr>"

definition Fd :: "econn \<Rightarrow> int" where
  "Fd c = ec_fd c"

definition IsClosed :: "econn \<Rightarrow> bool" where
  "IsClosed c = ec_closed c"

section \<open>Writing\<close>

text \<open>\<open>socketWrite\<close>: the number of bytes written, 0 with an error. A kernel without a
  further answer says EAGAIN.\<close>

definition socketWrite :: "econn \<Rightarrow> bytes \<Rightarrow> econn \<times> nat \<times> io_err option" where
  "socketWrite c dat =
     (if dat = [] then (c, 0, None)
      else case ec_tx c of
          [] \<Rightarrow> (c, 0, Some EAGAIN)
        | Accept k # ks \<Rightarrow>
            (let n = min k (length dat) in (c\<lparr>ec_tx := ks, ec_sent := ec_sent c @ take n dat\<rparr>, n, None))
        | TxErr e # ks \<Rightarrow> (c\<lparr>ec_tx := ks\<rparr>, 0, Some e))"

text \<open>\<open>socketWritev\<close>: one \<^verbatim>\<open>sendmsg\<close> of both segments, also when both are empty.\<close>

definition socketWritev :: "econn \<Rightarrow> bytes \<Rightarrow> bytes \<Rightarrow> econn \<times> nat \<times> io_err option" where
  "socketWritev c a b =
     (case ec_tx c of
        [] \<Rightarrow> (c, 0, Some EAGAIN)
      | Accept k # ks \<Rightarrow>
          (let n = min k (length (a @ b)) in (c\<lparr>ec_tx := ks, ec_sent := ec_sent c @ take n (a @ b)\<rparr>, n, None))
      | TxErr e # ks \<Rightarrow> (c\<lparr>ec_tx := ks\<rparr>, 0, Some e))"

definition addWrite :: "econn \<Rightarrow> econn" where
  "addWrite c = c\<lparr>ec_armed := True\<rparr>"

text \<open>\<open>err == nil || err == EAGAIN || err == EINTR\<close>\<close>

definition soft :: "io_err option \<Rightarrow> bool" where
  "soft err = (err = None \<or> err = Some EAGAIN \<or> err = Some EINTR)"

text \<open>\<open>appendToWbufList\<close>: the last pointer of the list is dereferenced; the new buffer takes
  the capacity of the slice the pool gives.\<close>

definition appendToWbufList :: "pool \<Rightarrow> econn \<Rightarrow> bytes \<Rightarrow> nat \<Rightarrow> econn option" where
  "appendToWbufList pool c dat oldLen =
     (if dat = [] then Some c
      else if ec_wbufList c = [] then
        Some (c\<lparr>ec_wbufList := [Some (dat, snd (pool (length dat + oldLen)))]\<rparr>)
      else case last (ec_wbufList c) of
          None \<Rightarrow> None
        | Some (lst, cap) \<Rightarrow>
            if cap - length lst \<ge> length dat then
              Some (c\<lparr>ec_wbufList := butlast (ec_wbufList c) @ [Some (lst @ dat, cap)]\<rparr>)
            else
              Some (c\<lparr>ec_wbufList := ec_wbufList c @ [Some (dat, snd (pool (length dat + oldLen)))]\<rparr>))"

text \<open>The loop of \<open>flushLocked\<close>: \<open>before\<close> are the entries in front of index \<open>i\<close>, already
  set to nil. They are dropped at a partial write and at the end, but not when the
  kernel reports an error.\<close>

fun flush_bufs :: "econn \<Rightarrow> wbuf list \<Rightarrow> wbuf list \<Rightarrow> (econn \<times> io_err option) option" where
  "flush_bufs c before [] = Some (c\<lparr>ec_wbufList := []\<rparr>, None)"
| "flush_bufs c before (None # ws) = None"
| "flush_bufs c before (Some (b, cap) # ws) =
     (case socketWrite c b of
        (c, n, err) \<Rightarrow>
          if err = None \<and> n = length b then flush_bufs c (before @ [None]) ws
          else if soft err then
            Some (addWrite (c\<lparr>ec_wbufList := Some (if 0 < n then drop n b else b, cap) # ws\<rparr>), None)
          else Some (c\<lparr>ec_wbufList := before @ Some (b, cap) # ws\<rparr>, err))"

definition flushLocked :: "econn \<Rightarrow> (econn \<times> io_err option) option" where
  "flushLocked c = flush_bufs c [] (ec_wbufList c)"

text \<open>Behind a list that is not empty all three write methods do the same, and drop the
  error of the flush.\<close>

definition write_behind :: "pool \<Rightarrow> econn \<Rightarrow> bytes \<Rightarrow> (econn \<times> io_err option) option" where
  "write_behind pool c dat =
     (case appendToWbufList pool c dat (length dat) of
        None \<Rightarrow> None
      | Some c \<Rightarrow> (case flushLocked c of None \<Rightarrow> None | Some (c, _) \<Rightarrow> Some (c, None)))"

definition write_locked :: "pool \<Rightarrow> econn \<Rightarrow> bytes \<Rightarrow> (econn \<times> io_err option) option" where
  "write_locked pool c dat =
     (if ec_wbufList c \<noteq> [] then write_behind pool c dat
      else case socketWrite c dat of
          (c, n, err) \<Rightarrow>
            if err = None \<and> n = length dat then Some (c, None)
            else if soft err then
              (case (if n < length dat then appendToWbufList pool c (drop n dat) (length dat - n) else Some c) of
                 None \<Rightarrow> None
               | Some c \<Rightarrow> Some (addWrite c, None))
            else Some (c, err))"

definition WriteRaw_conn :: "pool \<Rightarrow> econn \<Rightarrow> bytes \<Rightarrow> (econn \<times> io_err option) option" where
  "WriteRaw_conn pool c dat =
     (if IsClosed c then Some (c, Some ErrClosed)
      else if dat = [] then Some (c, None)
      else write_locked pool c dat)"

text \<open>\<open>Write\<close> gives the data to the write hook (the TLS layer) if one is set.\<close>

type_synonym write_hook = "(econn \<Rightarrow> bytes \<Rightarrow> (econn \<times> io_err option) option) option"

definition Write_conn :: "pool \<Rightarrow> write_hook \<Rightarrow> econn \<Rightarrow> bytes \<Rightarrow> (econn \<times> io_err option) option" where
  "Write_conn pool hook c dat =
     (if IsClosed c then Some (c, Some ErrClosed)
      else if dat = [] then Some (c, None)
      else case hook of Some h \<Rightarrow> h c dat | None \<Rightarrow> write_locked pool c dat)"

definition Writev_conn :: "pool \<Rightarrow> econn \<Rightarrow> bytes \<Rightarrow> bytes \<Rightarrow> (econn \<times> io_err option) option" where
  "Writev_conn pool c a b =
     (if IsClosed c then Some (c, Some ErrClosed)
      else if ec_wbufList c \<noteq> [] then write_behind pool c (a @ b)
      else case socketWritev c a b of
          (c, n, err) \<Rightarrow>
            let total = length a + length b in
            if err = None \<and> n = total then Some (c, None)
            else if soft err then
              (let rest = (if n < length a then drop n a @ b else drop (n - length a) b) in
               case appendToWbufList pool c rest total of
                 None \<Rightarrow> None
               | Some c \<Rightarrow> Some (addWrite c, None))
            else Some (c, err))"

definition Flush_conn :: "econn \<Rightarrow> (econn \<times> io_err option) option" where
  "Flush_conn c = (if IsClosed c then Some (c, Some ErrClosed) else flushLocked c)"

definition NeedFlush :: "econn \<Rightarrow> bool" where
  "NeedFlush c = (ec_wbufList c \<noteq> [])"

section \<open>Closing\<close>

text \<open>\<open>closeWith\<close> up to the call of \<open>OnClose\<close>: a last flush, whose error is dropped, then the
  connection is marked closed, the descriptor is taken out, the buffers are given back,
  and \<open>parent.del\<close>, which looks at the descriptor the connection has now, and \<open>closeFd\<close> are
  called. The second component says whether the body of \<open>closeOnce.Do\<close> ran; then
  \<open>OnClose\<close> follows.\<close>

definition close_conn :: "econn \<Rightarrow> (econn \<times> bool) option" where
  "close_conn c =
     (if ec_closed c then Some (c, False)
      else if ec_once c then Some (c, False)
      else case flushLocked c of
          None \<Rightarrow> None
        | Some (c, _) \<Rightarrow>
            (let fd = Fd c;
                 c = c\<lparr>ec_once := True, ec_closed := True, ec_fd := -1, ec_rsize := None, ec_rdata := [],
                        ec_rr := 0, ec_wbufList := []\<rparr>;
                 c = c\<lparr>ec_log := ec_log c @ [DelConn (Fd c)] @ (if fd \<ge> 0 then [CloseFd fd] else [])\<rparr>
             in Some (c, True)))"

section \<open>Status bits\<close>

abbreviation flagClient :: u32 where "flagClient \<equiv> 1"
abbreviation flagBusy :: u32 where "flagBusy \<equiv> 2"
abbreviation flagPendingRead :: u32 where "flagPendingRead \<equiv> 4"
abbreviation flagPendingWrite :: u32 where "flagPendingWrite \<equiv> 8"
abbreviation flagCorking :: u32 where "flagCorking \<equiv> 16"
abbreviation flagActivated :: u32 where "flagActivated \<equiv> 32"

definition set_flag :: "u32 \<Rightarrow> econn \<Rightarrow> econn" where
  "set_flag m c = c\<lparr>ec_packed := ec_packed c OR m\<rparr>"

definition clear_flag :: "u32 \<Rightarrow> econn \<Rightarrow> econn" where
  "clear_flag m c = c\<lparr>ec_packed := ec_packed c AND NOT m\<rparr>"

definition has_flag :: "u32 \<Rightarrow> econn \<Rightarrow> bool" where
  "has_flag m c = (ec_packed c AND m \<noteq> 0)"

definition setClient :: "bool \<Rightarrow> econn \<Rightarrow> econn" where
  "setClient v c = (if v then set_flag flagClient c else clear_flag flagClient c)"

definition isClient :: "econn \<Rightarrow> bool" where
  "isClient c = has_flag flagClient c"

text \<open>\<open>tryBusy\<close> sets the bit and says whether it was free.\<close>

definition tryBusy :: "econn \<Rightarrow> econn \<times> bool" where
  "tryBusy c = (set_flag flagBusy c, \<not> has_flag flagBusy c)"

definition unbusy :: "econn \<Rightarrow> econn" where
  "unbusy c = clear_flag flagBusy c"

definition setPendingRead :: "econn \<Rightarrow> econn" where
  "setPendingRead c = set_flag flagPendingRead c"

definition setPendingWrite :: "econn \<Rightarrow> econn" where
  "setPendingWrite c = set_flag flagPendingWrite c"

definition takePendingRead :: "econn \<Rightarrow> econn \<times> bool" where
  "takePendingRead c = (clear_flag flagPendingRead c, has_flag flagPendingRead c)"

definition takePendingWrite :: "econn \<Rightarrow> econn \<times> bool" where
  "takePendingWrite c = (clear_flag flagPendingWrite c, has_flag flagPendingWrite c)"

definition isActivated :: "econn \<Rightarrow> bool" where
  "isActivated c = has_flag flagActivated c"

definition setActivated :: "econn \<Rightarrow> econn \<times> bool \<times> bool" where
  "setActivated c = (set_flag flagActivated c, has_flag flagPendingRead c, has_flag flagPendingWrite c)"

definition isCorking :: "econn \<Rightarrow> bool" where
  "isCorking c = has_flag flagCorking c"

definition setCorking :: "bool \<Rightarrow> econn \<Rightarrow> econn" where
  "setCorking v c = (if v then set_flag flagCorking c else clear_flag flagCorking c)"

section \<open>Reading\<close>

definition ReadBuffer :: "econn \<Rightarrow> bytes" where
  "ReadBuffer c = (if ec_rsize c = None then [] else drop (ec_rr c) (ec_rdata c))"

definition ConsumeRead :: "econn \<Rightarrow> int \<Rightarrow> econn" where
  "ConsumeRead c n =
     (if n \<le> 0 then c
      else let rw = length (ec_rdata c); rr = ec_rr c + nat n; rr = (if rr > rw then rw else rr);
               c = c\<lparr>ec_rr := rr\<rparr>
           in if rr \<noteq> rw then c else c\<lparr>ec_releaseReadBuf := True\<rparr>)"

text \<open>\<open>growReadBuffer\<close>: the bytes in front of \<open>rr\<close> are copied along, nothing is moved to
  the front.\<close>

definition growReadBuffer :: "pool \<Rightarrow> econn \<Rightarrow> econn \<times> bool" where
  "growReadBuffer pool c =
     (case ec_rsize c of
        None \<Rightarrow> (c, False)
      | Some cur \<Rightarrow>
          if cur \<ge> maxReadBufferSize then (c, False)
          else let want = (if cur < batchReadBufferSize then batchReadBufferSize
                           else min (cur * 2) maxReadBufferSize)
               in (c\<lparr>ec_rsize := Some (fst (pool want))\<rparr>, True))"

text \<open>\<open>socketRead\<close> into a buffer of \<open>space\<close> bytes.\<close>

definition socketRead :: "econn \<Rightarrow> nat \<Rightarrow> econn \<times> bytes \<times> io_err option" where
  "socketRead c space =
     (if space = 0 then (c, [], None)
      else case ec_rx c of
        [] \<Rightarrow> (c, [], Some EAGAIN)
      | FIN # _ \<Rightarrow> (c, [], None)
      | RxErr e # ks \<Rightarrow> (c\<lparr>ec_rx := ks\<rparr>, [], Some e)
      | Deliver d # ks \<Rightarrow>
          (c\<lparr>ec_rx := (if length d \<le> space then ks else Deliver (drop space d) # ks)\<rparr>, take space d, None))"

text \<open>A measure of what the kernel still has to deliver: bytes and answers.\<close>

fun rx_weight :: "rx_answer \<Rightarrow> nat" where
  "rx_weight (Deliver d) = length d + 1"
| "rx_weight FIN = 1"
| "rx_weight (RxErr _) = 1"

definition rx_size :: "rx_answer list \<Rightarrow> nat" where
  "rx_size rx = sum_list (map rx_weight rx)"

definition buf_size :: "econn \<Rightarrow> nat" where
  "buf_size c = (case ec_rsize c of Some s \<Rightarrow> s | None \<Rightarrow> 0)"

lemma rx_size_simps [simp]:
  "rx_size [] = 0" "rx_size (x # xs) = rx_weight x + rx_size xs"
  by (simp_all add: rx_size_def)

lemma grow_frame [simp]:
  "ec_rx (fst (growReadBuffer pool c)) = ec_rx c" "ec_rdata (fst (growReadBuffer pool c)) = ec_rdata c"
  "ec_rr (fst (growReadBuffer pool c)) = ec_rr c"
  "ec_releaseReadBuf (fst (growReadBuffer pool c)) = ec_releaseReadBuf c"
  by (simp_all add: growReadBuffer_def Let_def split: option.split)

lemma socketRead_shrinks:
  assumes "socketRead c n = (c', d, err)" and "0 < n" and "ec_rx c \<noteq> []" and "err \<noteq> None \<or> d \<noteq> []"
  shows "rx_size (ec_rx c') < rx_size (ec_rx c)"
  using assms by (auto simp: socketRead_def split: list.splits rx_answer.splits if_splits)

lemma socketRead_EAGAIN:
  assumes "socketRead c n = (c', d, err)" and "ec_rx c = []" and "0 < n"
  shows "err = Some EAGAIN \<and> c' = c"
  using assms by (auto simp: socketRead_def)

lemma growReadBuffer_below:
  assumes "growReadBuffer pool c = (c', True)"
  shows "buf_size c < maxReadBufferSize \<and> ec_rx c' = ec_rx c"
  using assms by (auto simp: growReadBuffer_def buf_size_def Let_def split: option.splits if_splits)

lemma socketRead_progress:
  assumes "(c', d, err) = socketRead c n" and "n \<noteq> 0" and "err = None \<and> d \<noteq> [] \<or> err = Some EINTR"
  shows "rx_size (ec_rx c') < rx_size (ec_rx c)"
  using assms socketRead_shrinks [of c n c' d err] socketRead_EAGAIN [of c n c' d err]
  by (cases "ec_rx c = []") auto

text \<open>The \<open>for\<close> loop of \<open>Read\<close>. The pool gives at least what it is asked for, so the buffer
  really grows; the test that it did is there for pools that break this.\<close>

function read_loop :: "pool \<Rightarrow> econn \<Rightarrow> nat \<Rightarrow> econn \<times> nat \<times> io_err option" where
  "read_loop pool c tot =
     (let size = buf_size c; rw = length (ec_rdata c) in
      if size - rw = 0 then
        (case growReadBuffer pool c of
           (c', grown) \<Rightarrow>
             if grown \<and> size < buf_size c' then read_loop pool c' tot else (c', tot, None))
      else case socketRead c (size - rw) of
          (c', d, err) \<Rightarrow>
            if err \<noteq> None then
              (if err = Some EINTR then read_loop pool c' tot
               else if err = Some EAGAIN then (c', tot, None)
               else (c', tot, err))
            else if d = [] then (c', tot, if rw > ec_rr c then None else Some IoEOF)
            else
              let c' = c'\<lparr>ec_rdata := ec_rdata c' @ d\<rparr>;
                  c' = (if length (ec_rdata c') = size \<and> size < batchReadBufferSize
                        then fst (growReadBuffer pool c') else c')
              in read_loop pool c' (tot + length d))"
  by pat_completeness auto

termination
proof (relation "measures [\<lambda>(pool, c, tot). rx_size (ec_rx c), \<lambda>(pool, c, tot). maxReadBufferSize - buf_size c]",
    goal_cases)
  case (2 pool c tot size rw c' grown)
  then have "growReadBuffer pool c = (c', True)" by simp
  from growReadBuffer_below [OF this] 2 show ?case by auto
next
  case (3 pool c tot size rw c' q d err)
  then show ?case using socketRead_progress [of c' d err c "size - rw"] by simp
next
  case (4 pool c tot size rw c' q d err c2 c3)
  then have "rx_size (ec_rx c') < rx_size (ec_rx c)"
    using socketRead_progress [of c' d err c "size - rw"] by simp
  then show ?case using 4 by simp
qed simp

declare read_loop.simps [simp del]

definition Read_conn :: "pool \<Rightarrow> econn \<Rightarrow> econn \<times> nat \<times> io_err option" where
  "Read_conn pool c =
     (if IsClosed c then (c, 0, Some ErrClosed)
      else
        let c = (if ec_releaseReadBuf c \<and> ec_rsize c \<noteq> None
                 then c\<lparr>ec_rsize := None, ec_rdata := [], ec_rr := 0\<rparr> else c);
            c = c\<lparr>ec_releaseReadBuf := False\<rparr>;
            c = (if ec_rsize c = None then c\<lparr>ec_rsize := Some (fst (pool (8 * 1024)))\<rparr> else c)
        in read_loop pool c 0)"

section \<open>What was written, in order\<close>

text \<open>The bytes in the list of buffers, and everything the connection has been given: what
  the kernel took, then what waits.\<close>

definition waiting :: "wbuf list \<Rightarrow> bytes" where
  "waiting ws = concat (map (\<lambda>w. case w of Some (b, _) \<Rightarrow> b | None \<Rightarrow> []) ws)"

definition written :: "econn \<Rightarrow> bytes" where
  "written c = ec_sent c @ waiting (ec_wbufList c)"

text \<open>A kernel without errors other than EAGAIN and EINTR; it may take as little as it likes.\<close>

definition soft_tx :: "tx_answer list \<Rightarrow> bool" where
  "soft_tx ks = list_all (\<lambda>a. case a of TxErr e \<Rightarrow> soft (Some e) | _ \<Rightarrow> True) ks"

definition full :: "wbuf \<Rightarrow> bool" where
  "full w = (case w of Some (b, _) \<Rightarrow> b \<noteq> [] | None \<Rightarrow> False)"

text \<open>The invariant of the writing half: no nil and no empty buffer in the list, and a
  connection with something to write is armed.\<close>

definition write_ok :: "econn \<Rightarrow> bool" where
  "write_ok c = (list_all full (ec_wbufList c) \<and> (ec_wbufList c \<noteq> [] \<longrightarrow> ec_armed c))"

text \<open>Writing leaves the reading half and the status alone.\<close>

definition same_read :: "econn \<Rightarrow> econn \<Rightarrow> bool" where
  "same_read c c' = (ec_fd c' = ec_fd c \<and> ec_rsize c' = ec_rsize c \<and> ec_rdata c' = ec_rdata c
     \<and> ec_rr c' = ec_rr c \<and> ec_packed c' = ec_packed c \<and> ec_once c' = ec_once c
     \<and> ec_closed c' = ec_closed c \<and> ec_releaseReadBuf c' = ec_releaseReadBuf c \<and> ec_rx c' = ec_rx c
     \<and> ec_log c' = ec_log c)"

lemma same_read_refl [simp]: "same_read c c"
  by (simp add: same_read_def)

lemma same_read_trans:
  assumes "same_read a b" and "same_read b c"
  shows "same_read a c"
  using assms by (simp add: same_read_def)

lemma waiting_simps [simp]:
  "waiting [] = []" "waiting (Some (b, cap) # ws) = b @ waiting ws" "waiting (None # ws) = waiting ws"
  "waiting (xs @ ys) = waiting xs @ waiting ys"
  by (simp_all add: waiting_def)

lemma soft_simps [simp]: "soft None" "soft (Some EAGAIN)" "soft (Some EINTR)"
  by (simp_all add: soft_def)

lemma soft_tx_simps [simp]:
  "soft_tx []" "soft_tx (a # ks) = ((case a of TxErr e \<Rightarrow> soft (Some e) | _ \<Rightarrow> True) \<and> soft_tx ks)"
  by (simp_all add: soft_tx_def)

lemma full_Some [simp]: "full (Some (b, cap)) = (b \<noteq> [])"
  by (simp add: full_def)

text \<open>One send: the bytes it reports are the bytes the kernel took.\<close>

lemma socketWrite_cases:
  assumes "socketWrite c b = (c', n, err)"
  shows "n \<le> length b \<and> ec_sent c' = ec_sent c @ take n b \<and> (err \<noteq> None \<longrightarrow> n = 0)
    \<and> ec_wbufList c' = ec_wbufList c \<and> ec_armed c' = ec_armed c \<and> same_read c c'"
  using assms by (auto simp: socketWrite_def same_read_def Let_def split: if_splits list.splits tx_answer.splits)

lemma socketWrite_soft:
  assumes "socketWrite c b = (c', n, err)" and "soft_tx (ec_tx c)"
  shows "soft err \<and> soft_tx (ec_tx c')"
  using assms by (auto simp: socketWrite_def Let_def split: if_splits list.splits tx_answer.splits)

lemma socketWritev_as_write:
  assumes "a @ b \<noteq> []"
  shows "socketWritev c a b = socketWrite c (a @ b)"
  using assms by (simp add: socketWritev_def socketWrite_def del: append_is_Nil_conv)

text \<open>A flush moves bytes from the list to the kernel and never changes their order.\<close>

lemma flush_bufs_soft:
  assumes "list_all full ws" and "soft_tx (ec_tx c)"
  shows "\<exists>c'. flush_bufs c before ws = Some (c', None) \<and> same_read c c' \<and> soft_tx (ec_tx c')
    \<and> list_all full (ec_wbufList c') \<and> (ec_wbufList c' \<noteq> [] \<longrightarrow> ec_armed c')
    \<and> written c' = ec_sent c @ waiting ws"
  using assms
proof (induction c before ws rule: flush_bufs.induct)
  case (1 c before)
  then show ?case by (simp add: same_read_def written_def)
next
  case (2 c before ws)
  then show ?case by (simp add: full_def)
next
  case (3 c before b cap ws)
  obtain c1 n err where w: "socketWrite c b = (c1, n, err)" by (metis prod_cases3)
  note f = socketWrite_cases [OF w] and s = socketWrite_soft [OF w 3(3)]
  show ?case
  proof (cases "err = None \<and> n = length b")
    case True
    then obtain c' where "flush_bufs c1 (before @ [None]) ws = Some (c', None) \<and> same_read c1 c'
        \<and> soft_tx (ec_tx c') \<and> list_all full (ec_wbufList c') \<and> (ec_wbufList c' \<noteq> [] \<longrightarrow> ec_armed c')
        \<and> written c' = ec_sent c1 @ waiting ws"
      using 3 w s by auto
    then show ?thesis using w f True same_read_trans [of c c1 c'] by auto
  next
    case False
    let ?c = "addWrite (c1\<lparr>ec_wbufList := Some (if 0 < n then drop n b else b, cap) # ws\<rparr>)"
    have "flush_bufs c before (Some (b, cap) # ws) = Some (?c, None)"
      using w False s by auto
    moreover have "same_read c ?c" using f by (simp add: same_read_def addWrite_def)
    moreover have "n < length b" using f False 3(2) by (cases "err = None") auto
    then have "list_all full (ec_wbufList ?c)" using 3(2) by (simp add: addWrite_def)
    moreover have "written ?c = ec_sent c @ b @ waiting ws"
      using f by (simp add: written_def addWrite_def)
    ultimately show ?thesis using s by (auto simp: addWrite_def)
  qed
qed

text \<open>A flush writes no log, whatever the kernel says.\<close>

lemma flush_bufs_log: "flush_bufs c before ws = Some (c', e) \<Longrightarrow> ec_log c' = ec_log c"
proof (induction c before ws rule: flush_bufs.induct)
  case (3 c before b cap ws)
  obtain c1 n err where w: "socketWrite c b = (c1, n, err)" by (rule prod_cases3)
  then have "ec_log c1 = ec_log c" using socketWrite_cases [OF w] by (simp add: same_read_def)
  then show ?case using 3 w by (auto simp: addWrite_def split: if_splits)
qed auto

lemma flush_log: "flushLocked c = Some (c', e) \<Longrightarrow> ec_log c' = ec_log c"
  by (simp add: flushLocked_def flush_bufs_log)

lemma appendToWbufList_full:
  assumes "list_all full (ec_wbufList c)"
  shows "\<exists>ws. appendToWbufList pool c dat n = Some (c\<lparr>ec_wbufList := ws\<rparr>) \<and> list_all full ws
    \<and> waiting ws = waiting (ec_wbufList c) @ dat \<and> (dat = [] \<longrightarrow> ws = ec_wbufList c)"
proof (cases "dat = [] \<or> ec_wbufList c = []")
  case True
  then show ?thesis using assms by (auto simp: appendToWbufList_def)
next
  case False
  then obtain ws w where ws: "ec_wbufList c = ws @ [w]" by (metis rev_exhaust)
  then obtain b cap where "w = Some (b, cap)" using assms by (auto simp: full_def split: option.splits)
  then show ?thesis using False ws assms by (auto simp: appendToWbufList_def)
qed

text \<open>What every write method does under a kernel without hard errors.\<close>

definition wrote :: "econn \<Rightarrow> bytes \<Rightarrow> (econn \<times> io_err option) option \<Rightarrow> bool" where
  "wrote c dat r = (case r of
     Some (c', None) \<Rightarrow> same_read c c' \<and> soft_tx (ec_tx c') \<and> write_ok c' \<and> written c' = written c @ dat
   | _ \<Rightarrow> False)"

lemma flushLocked_wrote:
  assumes "list_all full (ec_wbufList c)" and "soft_tx (ec_tx c)"
  shows "wrote c [] (flushLocked c)"
  using flush_bufs_soft [OF assms, of "[]"] by (auto simp: wrote_def flushLocked_def written_def write_ok_def)

lemma write_behind_wrote:
  assumes "write_ok c" and "soft_tx (ec_tx c)"
  shows "wrote c dat (write_behind pool c dat)"
proof -
  have full: "list_all full (ec_wbufList c)" using assms by (simp add: write_ok_def)
  obtain ws where ws: "appendToWbufList pool c dat (length dat) = Some (c\<lparr>ec_wbufList := ws\<rparr>)"
      "list_all full ws" "waiting ws = waiting (ec_wbufList c) @ dat"
    using appendToWbufList_full [OF full, of pool dat "length dat"] by blast
  have "wrote (c\<lparr>ec_wbufList := ws\<rparr>) [] (flushLocked (c\<lparr>ec_wbufList := ws\<rparr>))"
    using assms ws by (intro flushLocked_wrote) simp_all
  then show ?thesis
    using ws by (auto simp: wrote_def write_behind_def same_read_def written_def split: option.splits prod.splits)
qed

text \<open>The tail of \<open>Write\<close> and \<open>Writev\<close>: one send, and the rest of the data is queued.\<close>

lemma send_rest_wrote:
  assumes "socketWrite c dat = (c1, n, err)" and "ec_wbufList c = []" and "soft_tx (ec_tx c)"
  shows "err = None \<and> n = length dat \<Longrightarrow> wrote c dat (Some (c1, None))"
    and "\<exists>ws. appendToWbufList pool c1 (drop n dat) k = Some (c1\<lparr>ec_wbufList := ws\<rparr>)
      \<and> wrote c dat (Some (addWrite (c1\<lparr>ec_wbufList := ws\<rparr>), None))"
proof -
  note f = socketWrite_cases [OF assms(1)] and s = socketWrite_soft [OF assms(1,3)]
  show "wrote c dat (Some (c1, None))" if "err = None \<and> n = length dat"
    using that f s assms(2) by (simp add: wrote_def write_ok_def written_def)
  obtain ws where "appendToWbufList pool c1 (drop n dat) k = Some (c1\<lparr>ec_wbufList := ws\<rparr>)"
      "list_all full ws" "waiting ws = drop n dat"
    using appendToWbufList_full [of c1 pool "drop n dat" k] f assms(2) by auto
  then show "\<exists>ws. appendToWbufList pool c1 (drop n dat) k = Some (c1\<lparr>ec_wbufList := ws\<rparr>)
      \<and> wrote c dat (Some (addWrite (c1\<lparr>ec_wbufList := ws\<rparr>), None))"
    using f s assms(2) by (auto simp: wrote_def write_ok_def written_def addWrite_def same_read_def)
qed

lemma write_locked_wrote:
  assumes "write_ok c" and "soft_tx (ec_tx c)"
  shows "wrote c dat (write_locked pool c dat)"
proof (cases "ec_wbufList c = []")
  case False
  then show ?thesis using write_behind_wrote [OF assms] by (simp add: write_locked_def)
next
  case True
  obtain c1 n err where w: "socketWrite c dat = (c1, n, err)" by (metis prod_cases3)
  note f = socketWrite_cases [OF w] and s = socketWrite_soft [OF w assms(2)]
    and r = send_rest_wrote [OF w True assms(2)]
  show ?thesis
  proof (cases "err = None \<and> n = length dat")
    case True
    then show ?thesis using r(1) w \<open>ec_wbufList c = []\<close> by (simp add: write_locked_def)
  next
    case False
    have le: "n \<le> length dat" using f by simp
    obtain ws where "appendToWbufList pool c1 (drop n dat) (length dat - n) = Some (c1\<lparr>ec_wbufList := ws\<rparr>)"
      "wrote c dat (Some (addWrite (c1\<lparr>ec_wbufList := ws\<rparr>), None))" using r(2) by blast
    moreover have "(if n < length dat then appendToWbufList pool c1 (drop n dat) (length dat - n) else Some c1)
        = appendToWbufList pool c1 (drop n dat) (length dat - n)"
      using le by (auto simp: appendToWbufList_def)
    ultimately show ?thesis using False w s \<open>ec_wbufList c = []\<close> by (auto simp: write_locked_def)
  qed
qed

lemma Writev_wrote:
  assumes "write_ok c" and "soft_tx (ec_tx c)" and "\<not> ec_closed c"
  shows "wrote c (a @ b) (Writev_conn pool c a b)"
proof (cases "ec_wbufList c = []")
  case False
  then show ?thesis using write_behind_wrote [OF assms(1,2)] assms(3) by (simp add: Writev_conn_def IsClosed_def)
next
  case True
  show ?thesis
  proof (cases "a @ b = []")
    case True
    then show ?thesis using \<open>ec_wbufList c = []\<close> assms
      by (auto simp: Writev_conn_def IsClosed_def socketWritev_def wrote_def write_ok_def written_def
          appendToWbufList_def addWrite_def same_read_def soft_def split: list.splits tx_answer.splits)
  next
    case False
    obtain c1 n err where w: "socketWrite c (a @ b) = (c1, n, err)" by (metis prod_cases3)
    note s = socketWrite_soft [OF w assms(2)] and r = send_rest_wrote [OF w True assms(2)]
    have rest: "(if n < length a then drop n a @ b else drop (n - length a) b) = drop n (a @ b)" by simp
    obtain ws where "appendToWbufList pool c1 (drop n (a @ b)) (length a + length b) = Some (c1\<lparr>ec_wbufList := ws\<rparr>)"
      "wrote c (a @ b) (Some (addWrite (c1\<lparr>ec_wbufList := ws\<rparr>), None))" using r(2) by blast
    then show ?thesis
      using r(1) w s True assms(3) False socketWritev_as_write [OF False, of c]
      by (auto simp: Writev_conn_def IsClosed_def Let_def rest simp del: drop_append)
  qed
qed

section \<open>The contract of a transport\<close>

text \<open>What the protocols rely on: a write succeeds, and what has been written is extended
  by exactly the data, behind everything that was written before.\<close>

locale byte_sink =
  fixes put :: "'s \<Rightarrow> bytes \<Rightarrow> ('s \<times> io_err option) option"
    and out :: "'s \<Rightarrow> bytes"
    and sink_ok :: "'s \<Rightarrow> bool"
  assumes put_appends: "sink_ok s \<Longrightarrow> \<exists>s'. put s b = Some (s', None) \<and> sink_ok s' \<and> out s' = out s @ b"
begin

fun put_all :: "'s \<Rightarrow> bytes list \<Rightarrow> ('s \<times> io_err option) option" where
  "put_all s [] = Some (s, None)"
| "put_all s (b # bs) =
     (case put s b of Some (s', None) \<Rightarrow> put_all s' bs | r \<Rightarrow> r)"

lemma put_all_appends:
  assumes "sink_ok s"
  shows "\<exists>s'. put_all s bs = Some (s', None) \<and> sink_ok s' \<and> out s' = out s @ concat bs"
  using assms
proof (induction bs arbitrary: s)
  case (Cons b bs)
  obtain s1 where "put s b = Some (s1, None) \<and> sink_ok s1 \<and> out s1 = out s @ b"
    using put_appends [OF Cons.prems] by blast
  then show ?case using Cons.IH [of s1] by fastforce
qed simp

end

text \<open>A connection that is open, keeps the invariant of the writing half, and has a kernel
  without hard errors: it is a transport, with and without the write hook's way around.\<close>

definition sending :: "econn \<Rightarrow> bool" where
  "sending c = (write_ok c \<and> soft_tx (ec_tx c) \<and> \<not> ec_closed c)"

lemma wrote_sending:
  assumes "sending c" and "wrote c b r"
  shows "\<exists>c'. r = Some (c', None) \<and> sending c' \<and> written c' = written c @ b \<and> same_read c c'"
  using assms by (auto simp: wrote_def sending_def same_read_def split: option.splits prod.splits)

lemma WriteRaw_wrote:
  assumes "sending c"
  shows "wrote c b (WriteRaw_conn pool c b)"
proof (cases "b = []")
  case True
  then show ?thesis using assms by (simp add: WriteRaw_conn_def IsClosed_def sending_def wrote_def)
next
  case False
  then show ?thesis using assms write_locked_wrote [of c b pool]
    by (simp add: WriteRaw_conn_def IsClosed_def sending_def)
qed

lemma Write_no_hook: "Write_conn pool None c b = WriteRaw_conn pool c b"
  by (simp add: Write_conn_def WriteRaw_conn_def)

interpretation raw: byte_sink "WriteRaw_conn pool" written sending for pool
proof
  fix c b assume "sending c"
  from wrote_sending [OF this WriteRaw_wrote [OF this, of b pool]]
  show "\<exists>c'. WriteRaw_conn pool c b = Some (c', None) \<and> sending c' \<and> written c' = written c @ b" by blast
qed

text \<open>A transport that can also be closed, and the engine's connection as one; \<open>c0\<close> is the
  connection as it was before, whose reading half the writes leave alone.\<close>

locale transport = byte_sink put out sink_ok
  for put :: "'s \<Rightarrow> bytes \<Rightarrow> ('s \<times> io_err option) option" and out :: "'s \<Rightarrow> bytes" and sink_ok :: "'s \<Rightarrow> bool" +
  fixes close :: "'s \<Rightarrow> 's option"
    and is_closed :: "'s \<Rightarrow> bool"
  assumes close_closes: "sink_ok s \<Longrightarrow> \<exists>s'. close s = Some s' \<and> is_closed s'"

definition sending_from :: "econn \<Rightarrow> econn \<Rightarrow> bool" where
  "sending_from c0 c = (sending c \<and> same_read c0 c \<and> \<not> ec_once c)"

definition closed_from :: "econn \<Rightarrow> econn \<Rightarrow> bool" where
  "closed_from c0 c = (ec_closed c \<and> ec_once c \<and> ec_packed c = ec_packed c0 \<and> ec_rx c = ec_rx c0
     \<and> ec_rsize c = None \<and> ec_rdata c = [] \<and> ec_rr c = 0 \<and> ec_wbufList c = [])"

lemma close_conn_sending:
  assumes "sending_from c0 c"
  shows "\<exists>c'. close_conn c = Some (c', True) \<and> closed_from c0 c'"
proof -
  have s: "sending c" "same_read c0 c" "\<not> ec_once c" using assms by (simp_all add: sending_from_def)
  then have "wrote c [] (flushLocked c)" by (intro flushLocked_wrote) (simp_all add: sending_def write_ok_def)
  then obtain c1 where "flushLocked c = Some (c1, None)" "same_read c c1"
    by (auto simp: wrote_def split: option.splits prod.splits)
  then show ?thesis using s by (simp add: close_conn_def sending_def Let_def closed_from_def same_read_def)
qed

interpretation from_conn: transport "WriteRaw_conn pool" written "sending_from c0"
  "\<lambda>c. map_option fst (close_conn c)" "closed_from c0" for pool c0
proof
  fix c b assume c: "sending_from c0 c"
  then have s: "sending c" by (simp add: sending_from_def)
  obtain c' where "WriteRaw_conn pool c b = Some (c', None)" "sending c'" "written c' = written c @ b" "same_read c c'"
    using wrote_sending [OF s WriteRaw_wrote [OF s, of b pool]] by blast
  then show "\<exists>c'. WriteRaw_conn pool c b = Some (c', None) \<and> sending_from c0 c' \<and> written c' = written c @ b"
    using c same_read_trans [of c0 c c'] by (auto simp: sending_from_def same_read_def)
next
  fix c assume "sending_from c0 c"
  then show "\<exists>c'. map_option fst (close_conn c) = Some c' \<and> closed_from c0 c'"
    using close_conn_sending by fastforce
qed

text \<open>A write hook that itself writes through to the connection, as the TLS layer does: it
  turns the data into other bytes and writes these with \<open>WriteRaw\<close>. The connection is then
  a transport for the bytes after the hook.\<close>

definition hook_of :: "pool \<Rightarrow> (bytes \<Rightarrow> bytes) \<Rightarrow> write_hook" where
  "hook_of pool enc = Some (\<lambda>c b. WriteRaw_conn pool c (enc b))"

lemma hook_writes:
  assumes "sending c" and "b \<noteq> []"
  shows "\<exists>c'. Write_conn pool (hook_of pool enc) c b = Some (c', None) \<and> sending c'
    \<and> written c' = written c @ enc b"
  using assms raw.put_appends [of c pool "enc b"]
  by (simp add: Write_conn_def hook_of_def IsClosed_def sending_def)

section \<open>Sequences of operations\<close>

text \<open>Everything that may happen to the writing half: the three ways to write, a flush, and
  the event of the poller, which is reported once per arming.\<close>

datatype write_op = WWrite bytes | WRaw bytes | WWritev bytes bytes | WFlush | WEvent

definition write_event :: "econn \<Rightarrow> (econn \<times> io_err option) option" where
  "write_event c =
     (let c = c\<lparr>ec_armed := False\<rparr> in if NeedFlush c then Flush_conn c else Some (c, None))"

fun run_op :: "pool \<Rightarrow> econn \<Rightarrow> write_op \<Rightarrow> (econn \<times> io_err option) option" where
  "run_op pool c (WWrite b) = Write_conn pool None c b"
| "run_op pool c (WRaw b) = WriteRaw_conn pool c b"
| "run_op pool c (WWritev a b) = Writev_conn pool c a b"
| "run_op pool c WFlush = Flush_conn c"
| "run_op pool c WEvent = write_event c"

fun op_data :: "write_op \<Rightarrow> bytes" where
  "op_data (WWrite b) = b"
| "op_data (WRaw b) = b"
| "op_data (WWritev a b) = a @ b"
| "op_data _ = []"

fun run_ops :: "pool \<Rightarrow> econn \<Rightarrow> write_op list \<Rightarrow> (econn \<times> io_err option list) option" where
  "run_ops pool c [] = Some (c, [])"
| "run_ops pool c (x # xs) =
     (case run_op pool c x of
        None \<Rightarrow> None
      | Some (c, e) \<Rightarrow> (case run_ops pool c xs of None \<Rightarrow> None | Some (c, es) \<Rightarrow> Some (c, e # es)))"

lemma Flush_wrote:
  assumes "list_all full (ec_wbufList c)" and "soft_tx (ec_tx c)" and "\<not> ec_closed c"
  shows "wrote c [] (Flush_conn c)"
  using flushLocked_wrote [OF assms(1,2)] assms(3) by (simp add: Flush_conn_def IsClosed_def)

lemma run_op_wrote:
  assumes "sending c"
  shows "wrote c (op_data x) (run_op pool c x)"
proof (cases x)
  case WEvent
  let ?c = "c\<lparr>ec_armed := False\<rparr>"
  show ?thesis
  proof (cases "NeedFlush ?c")
    case True
    have "wrote ?c [] (Flush_conn ?c)" using assms by (intro Flush_wrote) (simp_all add: sending_def write_ok_def)
    then show ?thesis using True WEvent
      by (auto simp: write_event_def wrote_def same_read_def written_def split: option.splits)
  next
    case False
    then show ?thesis using WEvent assms
      by (simp add: write_event_def NeedFlush_def wrote_def same_read_def written_def sending_def write_ok_def)
  qed
qed (use assms in \<open>auto simp: sending_def Write_no_hook intro: WriteRaw_wrote Writev_wrote Flush_wrote\<close>,
     simp add: write_ok_def Flush_wrote)

lemma run_ops_sending:
  assumes "sending c"
  shows "\<exists>c'. run_ops pool c xs = Some (c', map (\<lambda>_. None) xs) \<and> sending c'
    \<and> written c' = written c @ concat (map op_data xs) \<and> same_read c c'"
  using assms
proof (induction xs arbitrary: c)
  case (Cons x xs)
  obtain c1 where c1: "run_op pool c x = Some (c1, None)" "sending c1" "written c1 = written c @ op_data x"
      "same_read c c1"
    using wrote_sending [OF Cons.prems run_op_wrote [OF Cons.prems, of x pool]] by blast
  obtain c' where "run_ops pool c1 xs = Some (c', map (\<lambda>_. None) xs)" "sending c'"
      "written c' = written c1 @ concat (map op_data xs)" "same_read c1 c'"
    using Cons.IH [OF c1(2)] by blast
  then show ?case using c1 same_read_trans [of c c1 c'] by simp
qed simp

text \<open>C3. Nothing written is lost, duplicated or reordered: under every kernel that takes
  as much or as little as it likes, as long as it reports no error other than EAGAIN and
  EINTR, and for every sequence of writes of all three kinds, flushes and write events, no
  operation fails, and what the kernel has taken followed by what still waits is exactly
  everything that was written, in the order it was written; and while something waits, the
  poller is armed to report the descriptor.\<close>

theorem written_in_order:
  assumes "\<not> ec_closed c" and "ec_wbufList c = []" and "soft_tx (ec_tx c)"
  shows "\<exists>c'. run_ops pool c ops = Some (c', map (\<lambda>_. None) ops)
    \<and> ec_sent c' @ waiting (ec_wbufList c') = ec_sent c @ concat (map op_data ops)
    \<and> (NeedFlush c' \<longrightarrow> ec_armed c')"
proof -
  have "sending c" using assms by (simp add: sending_def write_ok_def)
  from run_ops_sending [OF this, of pool ops] show ?thesis
    using assms(2) by (auto simp: written_def sending_def write_ok_def NeedFlush_def)
qed

lemma written_in_order_witness:
  "\<exists>c'. run_ops (\<lambda>n. (n, n)) (blank_conn\<lparr>ec_tx := [Accept 1, TxErr EAGAIN, Accept 9]\<rparr>)
      [WWrite [1, 2, 3], WWritev [4] [5], WEvent] = Some (c', [None, None, None])
    \<and> ec_sent c' @ waiting (ec_wbufList c') = [1, 2, 3, 4, 5] \<and> (NeedFlush c' \<longrightarrow> ec_armed c')"
  using written_in_order [of "blank_conn\<lparr>ec_tx := [Accept 1, TxErr EAGAIN, Accept 9]\<rparr>" "\<lambda>n. (n, n)"
      "[WWrite [1, 2, 3], WWritev [4] [5], WEvent]"]
  by (simp add: blank_conn_def del: run_ops.simps)

section \<open>The queue is drained\<close>

definition willing :: "tx_answer list \<Rightarrow> bool" where
  "willing ks = list_all (\<lambda>a. case a of Accept k \<Rightarrow> 0 < k | _ \<Rightarrow> False) ks"

lemma flush_bufs_progress:
  assumes "list_all full ws" and "willing (ec_tx c)" and "length (waiting ws) \<le> length (ec_tx c)"
    and "flush_bufs c before ws = Some (c', e)"
  shows "willing (ec_tx c') \<and> length (waiting (ec_wbufList c')) \<le> length (ec_tx c')
    \<and> (ws \<noteq> [] \<longrightarrow> length (waiting (ec_wbufList c')) < length (waiting ws))"
  using assms
proof (induction c before ws rule: flush_bufs.induct)
  case (3 c before b cap ws)
  then obtain k ks where tx: "ec_tx c = Accept k # ks" "0 < k" "willing ks" and b: "b \<noteq> []"
    by (cases "ec_tx c") (auto simp: willing_def split: tx_answer.splits)
  let ?c = "c\<lparr>ec_tx := ks, ec_sent := ec_sent c @ take (min k (length b)) b\<rparr>"
  have w: "socketWrite c b = (?c, min k (length b), None)" using tx b by (simp add: socketWrite_def Let_def)
  have pos: "0 < length b" using b by simp
  show ?case
  proof (cases "length b \<le> k")
    case True
    then have r: "flush_bufs ?c (before @ [None]) ws = Some (c', e)" using 3(5) w by simp
    have "willing (ec_tx c') \<and> length (waiting (ec_wbufList c')) \<le> length (ec_tx c')
      \<and> (ws \<noteq> [] \<longrightarrow> length (waiting (ec_wbufList c')) < length (waiting ws))"
    proof (rule 3(1) [OF w [symmetric] refl _ _ _ _ r])
      show "None = None \<and> min k (length b) = length b" using True by simp
      show "list_all full ws" using 3(2) by simp
      show "willing (ec_tx ?c)" using tx by simp
      show "length (waiting ws) \<le> length (ec_tx ?c)" using 3(4) tx b by (cases b) auto
    qed
    moreover have "ws = [] \<Longrightarrow> ec_wbufList c' = []" using r by auto
    ultimately show ?thesis using pos by (cases "ws = []") auto
  next
    case False
    then have "c' = addWrite (?c\<lparr>ec_wbufList := Some (drop k b, cap) # ws\<rparr>)"
      using 3(5) w tx by (simp add: min_def split: if_splits)
    moreover have "length b + n - k < length b + n" and "length b + n - k \<le> length ks"
      if "length b + n \<le> Suc (length ks)" for n
      using that tx(2) False by linarith+
    ultimately show ?thesis using tx False 3(4) by (simp add: addWrite_def)
  qed
qed auto



section \<open>After closing\<close>



text \<open>A hard error behind a buffer that went out leaves a nil pointer in front of the list;
  the next flush, and closing flushes too, dereferences it. So the event loop, which closes
  a connection whose flush fails, panics.\<close>

lemma flush_error_then_close_panics:
  assumes "ec_wbufList c = [Some (a, k), Some (b, l)]" and "a \<noteq> []" and "b \<noteq> []"
    and "ec_tx c = Accept n # TxErr (Errno e) # ks" and "length a \<le> n"
    and "\<not> ec_closed c" and "\<not> ec_once c"
  shows "\<exists>c'. Flush_conn c = Some (c', Some (Errno e)) \<and> close_conn c' = None"
  using assms by (simp add: Flush_conn_def IsClosed_def flushLocked_def socketWrite_def soft_def close_conn_def)

text \<open>\<open>Writev\<close> does not ask the write hook: on a connection with a hook the two segments go
  out as they are.\<close>

lemma Writev_bypasses_hook:
  assumes "\<not> ec_closed c" and "ec_wbufList c = []" and "ec_tx c = Accept n # ks" and "length (a @ b) \<le> n"
  shows "\<exists>c'. Writev_conn pool c a b = Some (c', None) \<and> ec_sent c' = ec_sent c @ a @ b"
  using assms by (simp add: Writev_conn_def IsClosed_def socketWritev_def)

section \<open>What was read, in order\<close>

text \<open>What a stream of receives will still bring, up to the end of the stream; errors on the
  way do not take bytes away.\<close>

fun incoming :: "rx_answer list \<Rightarrow> bytes" where
  "incoming [] = []"
| "incoming (Deliver d # ks) = d @ incoming ks"
| "incoming (FIN # ks) = []"
| "incoming (RxErr e # ks) = incoming ks"

text \<open>The invariant of the reading half.\<close>

definition read_ok :: "econn \<Rightarrow> bool" where
  "read_ok c = (ec_rr c \<le> length (ec_rdata c) \<and> (ec_releaseReadBuf c \<longrightarrow> ec_rr c = length (ec_rdata c))
     \<and> (case ec_rsize c of None \<Rightarrow> ec_rdata c = [] | Some s \<Rightarrow> length (ec_rdata c) \<le> s))"

text \<open>A stream as a socket delivers it: no empty segment, no error that is not retried.\<close>

definition clean :: "rx_answer list \<Rightarrow> bool" where
  "clean ks = list_all (\<lambda>a. case a of Deliver d \<Rightarrow> d \<noteq> [] | FIN \<Rightarrow> True | RxErr e \<Rightarrow> e = EINTR) ks"

text \<open>Why \<open>Read\<close> stopped: without an error when the kernel has nothing more for now, when
  the stream ended and something is still unread, or when the buffer has its largest size
  and is full; with \<open>io.EOF\<close> when the stream ended and everything was read.\<close>

definition stopped :: "econn \<Rightarrow> io_err option \<Rightarrow> bool" where
  "stopped c err = (case err of
      None \<Rightarrow> ec_rx c = [] \<or> (ec_rx c \<noteq> [] \<and> hd (ec_rx c) = FIN \<and> ec_rr c < length (ec_rdata c))
        \<or> (buf_size c = length (ec_rdata c) \<and> maxReadBufferSize \<le> buf_size c)
    | Some e \<Rightarrow> e = IoEOF \<and> ec_rx c \<noteq> [] \<and> hd (ec_rx c) = FIN \<and> length (ec_rdata c) \<le> ec_rr c)"

text \<open>Reading leaves the writing half, the status and the read index alone.\<close>

definition same_write :: "econn \<Rightarrow> econn \<Rightarrow> bool" where
  "same_write c c' = (ec_fd c' = ec_fd c \<and> ec_rr c' = ec_rr c \<and> ec_wbufList c' = ec_wbufList c
     \<and> ec_packed c' = ec_packed c \<and> ec_once c' = ec_once c \<and> ec_closed c' = ec_closed c
     \<and> ec_releaseReadBuf c' = ec_releaseReadBuf c \<and> ec_tx c' = ec_tx c \<and> ec_sent c' = ec_sent c
     \<and> ec_armed c' = ec_armed c \<and> ec_log c' = ec_log c)"

lemma same_write_refl [simp]: "same_write c c"
  by (simp add: same_write_def)

lemma same_write_trans: "same_write a b \<Longrightarrow> same_write b c \<Longrightarrow> same_write a c"
  by (simp add: same_write_def)

definition did_read :: "econn \<Rightarrow> econn \<times> nat \<times> io_err option \<Rightarrow> nat \<Rightarrow> bool" where
  "did_read c r tot = (case r of (c', tot', err) \<Rightarrow>
     same_write c c' \<and> ec_rsize c' \<noteq> None \<and> length (ec_rdata c') \<le> buf_size c'
     \<and> (\<exists>d. ec_rdata c' = ec_rdata c @ d \<and> d @ incoming (ec_rx c') = incoming (ec_rx c) \<and> tot' = tot + length d)
     \<and> (clean (ec_rx c) \<longrightarrow> clean (ec_rx c') \<and> stopped c' err))"

lemma did_read_refl:
  assumes "ec_rsize c \<noteq> None" and "length (ec_rdata c) \<le> buf_size c" and "clean (ec_rx c) \<Longrightarrow> stopped c err"
  shows "did_read c (c, tot, err) tot"
  using assms by (simp add: did_read_def)

lemma did_read_step:
  assumes "did_read c1 r (tot + length d)" and "same_write c c1" and "ec_rdata c1 = ec_rdata c @ d"
    and "d @ incoming (ec_rx c1) = incoming (ec_rx c)" and "clean (ec_rx c) \<Longrightarrow> clean (ec_rx c1)"
  shows "did_read c r tot"
proof -
  obtain c' tot' err where r: "r = (c', tot', err)" by (metis prod_cases3)
  then obtain e where "ec_rdata c' = ec_rdata c @ d @ e" "e @ incoming (ec_rx c') = incoming (ec_rx c1)"
      "tot' = tot + length (d @ e)"
    using assms(1,3) by (auto simp: did_read_def)
  moreover from this have "d @ e @ incoming (ec_rx c') = incoming (ec_rx c)" using assms(4) by simp
  ultimately show ?thesis
    using assms(1,2,5) r same_write_trans [of c c1 c']
    unfolding did_read_def by (auto intro!: exI [of _ "d @ e"])
qed

lemma grow_spec:
  assumes "pool_ok pool" and "ec_rsize c = Some s" and "growReadBuffer pool c = (c', grown)"
  shows "same_write c c' \<and> ec_rdata c' = ec_rdata c \<and> ec_rx c' = ec_rx c \<and> ec_rsize c' \<noteq> None \<and> s \<le> buf_size c'
    \<and> grown = (s < maxReadBufferSize) \<and> (grown \<longrightarrow> s < buf_size c') \<and> (\<not> grown \<longrightarrow> c' = c)"
proof (cases "maxReadBufferSize \<le> s")
  case True
  then show ?thesis using assms by (auto simp: growReadBuffer_def buf_size_def)
next
  case False
  define want where "want = (if s < batchReadBufferSize then batchReadBufferSize else min (s * 2) maxReadBufferSize)"
  have "s < want" using False by (simp add: want_def)
  moreover have "want \<le> fst (pool want)" using assms(1) by (simp add: pool_ok_def)
  ultimately have "s < fst (pool want)" by simp
  moreover have "growReadBuffer pool c = (c\<lparr>ec_rsize := Some (fst (pool want))\<rparr>, True)"
    using False assms(2) by (simp add: growReadBuffer_def want_def Let_def)
  ultimately show ?thesis using False assms(3) by (auto simp: same_write_def buf_size_def)
qed

lemma socketRead_spec:
  assumes "socketRead c n = (c', d, err)" and "0 < n"
  shows "same_write c c' \<and> ec_rsize c' = ec_rsize c \<and> ec_rdata c' = ec_rdata c
      \<and> d @ incoming (ec_rx c') = incoming (ec_rx c) \<and> length d \<le> n \<and> (err \<noteq> None \<longrightarrow> d = [])
      \<and> (clean (ec_rx c) \<longrightarrow> clean (ec_rx c'))"
    and "clean (ec_rx c) \<Longrightarrow> err \<noteq> Some EINTR \<Longrightarrow> err \<noteq> None \<Longrightarrow> err = Some EAGAIN \<and> ec_rx c' = []"
    and "clean (ec_rx c) \<Longrightarrow> err = None \<Longrightarrow> d = [] \<Longrightarrow> ec_rx c' \<noteq> [] \<and> hd (ec_rx c') = FIN"
  using assms
  by (auto simp: socketRead_def clean_def same_write_def split: list.splits rx_answer.splits if_splits)

lemma read_loop_did_read:
  assumes "pool_ok pool" and "ec_rsize c \<noteq> None" and "length (ec_rdata c) \<le> buf_size c"
  shows "did_read c (read_loop pool c tot) tot"
  using assms
proof (induction pool c tot rule: read_loop.induct)
  case (1 pool c tot)
  let ?size = "buf_size c" and ?rw = "length (ec_rdata c)"
  obtain s where s: "ec_rsize c = Some s" "?size = s" using 1(5) by (auto simp: buf_size_def)
  show ?case
  proof (cases "?size - ?rw = 0")
    case True
    obtain c' grown where g: "growReadBuffer pool c = (c', grown)" by fastforce
    note spec = grow_spec [OF 1(4) s(1) g]
    show ?thesis
    proof (cases "grown \<and> ?size < buf_size c'")
      case True
      then have "did_read c' (read_loop pool c' tot) tot"
        using 1(1) [OF refl refl \<open>?size - ?rw = 0\<close> g [symmetric]] 1 spec s by simp
      then have "did_read c (read_loop pool c' tot) tot"
        using did_read_step [of c' _ tot "[]" c] spec by simp
      then show ?thesis using True \<open>?size - ?rw = 0\<close> g by (subst read_loop.simps) (simp add: Let_def)
    next
      case False
      then have "c' = c" "maxReadBufferSize \<le> s" using spec s by auto
      moreover have "?rw = s" using \<open>?size - ?rw = 0\<close> 1(6) s by simp
      ultimately have "did_read c (c', tot, None) tot"
        using 1(5,6) s by (auto intro!: did_read_refl simp: stopped_def)
      then show ?thesis using False \<open>?size - ?rw = 0\<close> g by (subst read_loop.simps) (auto simp: Let_def)
    qed
  next
    case False
    then have pos: "0 < ?size - ?rw" by simp
    obtain c' d err where r: "socketRead c (?size - ?rw) = (c', d, err)" by (metis prod_cases3)
    note spec = socketRead_spec [OF r pos]
    have size: "buf_size c' = ?size" using spec(1) by (simp add: buf_size_def)
    consider "err = Some EINTR" | "err \<noteq> None" "err \<noteq> Some EINTR" | "err = None" "d = []" | "err = None" "d \<noteq> []"
      by blast
    then show ?thesis
    proof cases
      case 1
      then have "did_read c' (read_loop pool c' tot) tot"
        using "1.IH"(2) [OF refl refl False r [symmetric] refl] "1.prems" spec(1) size by auto
      then have "did_read c (read_loop pool c' tot) tot"
        using did_read_step [of c' "read_loop pool c' tot" tot "[]" c] spec(1) 1 by auto
      then show ?thesis using False r 1 by (subst read_loop.simps) (simp add: Let_def)
    next
      case 2
      have "did_read c' (c', tot, if err = Some EAGAIN then None else err) tot" if "clean (ec_rx c)"
        using spec(1) spec(2) [OF that 2(2,1)] "1.prems" size
        by (intro did_read_refl) (auto simp: stopped_def)
      then have "did_read c (c', tot, if err = Some EAGAIN then None else err) tot"
        using did_read_step [of c' _ tot "[]" c] spec(1) 2 "1.prems" size by (auto simp: did_read_def)
      then show ?thesis using False r 2 by (subst read_loop.simps) (auto simp: Let_def split: if_splits)
    next
      case 3
      have "did_read c' (c', tot, if ?rw > ec_rr c then None else Some IoEOF) tot" if "clean (ec_rx c)"
        using spec(1) spec(3) [OF that 3] "1.prems" size
        by (intro did_read_refl) (auto simp: stopped_def same_write_def)
      then have "did_read c (c', tot, if ?rw > ec_rr c then None else Some IoEOF) tot"
        using did_read_step [of c' _ tot "[]" c] spec(1) 3 "1.prems" size by (auto simp: did_read_def)
      then show ?thesis using False r 3 by (subst read_loop.simps) (simp add: Let_def)
    next
      case 4
      define c2 where "c2 = c'\<lparr>ec_rdata := ec_rdata c' @ d\<rparr>"
      define c3 where "c3 = (if length (ec_rdata c2) = ?size \<and> ?size < batchReadBufferSize
        then fst (growReadBuffer pool c2) else c2)"
      have c2: "ec_rsize c2 = Some s" "buf_size c2 = s" "same_write c c2" "ec_rdata c2 = ec_rdata c @ d"
          "ec_rx c2 = ec_rx c'" "length (ec_rdata c2) \<le> s"
        using spec(1) s "1.prems"(3) size by (auto simp: c2_def same_write_def buf_size_def)
      obtain c2' grown where g: "growReadBuffer pool c2 = (c2', grown)" by fastforce
      have c3: "ec_rsize c3 \<noteq> None" "same_write c c3" "ec_rdata c3 = ec_rdata c @ d" "ec_rx c3 = ec_rx c'"
          "length (ec_rdata c3) \<le> buf_size c3"
        using grow_spec [OF "1.prems"(1) c2(1) g] g c2 same_write_trans [of c c2 c2'] by (auto simp: c3_def)
      have "did_read c3 (read_loop pool c3 (tot + length d)) (tot + length d)"
        using "1.IH"(3) [OF refl refl False r [symmetric] refl _ _ c2_def] "1.prems" 4 c3
        by (simp add: c3_def)
      then have "did_read c (read_loop pool c3 (tot + length d)) tot"
        by (rule did_read_step) (use c3 spec(1) in simp_all)
      note run = this [unfolded c3_def c2_def]
      show ?thesis using False r 4 run
        by (subst read_loop.simps) (simp add: Let_def split del: if_split)
    qed
  qed
qed

lemma Read_spec:
  assumes "pool_ok pool" and "read_ok c" and "\<not> ec_closed c" and "Read_conn pool c = (c', n, err)"
  shows "(\<exists>d. ReadBuffer c' = ReadBuffer c @ d \<and> d @ incoming (ec_rx c') = incoming (ec_rx c) \<and> n = length d)
    \<and> read_ok c' \<and> (clean (ec_rx c) \<longrightarrow> clean (ec_rx c') \<and> stopped c' err)
    \<and> ec_wbufList c' = ec_wbufList c \<and> ec_sent c' = ec_sent c \<and> ec_tx c' = ec_tx c \<and> ec_armed c' = ec_armed c
    \<and> ec_packed c' = ec_packed c \<and> ec_closed c' = ec_closed c \<and> ec_once c' = ec_once c \<and> ec_fd c' = ec_fd c"
proof -
  define c1 where "c1 = (if ec_releaseReadBuf c \<and> ec_rsize c \<noteq> None
    then c\<lparr>ec_rsize := None, ec_rdata := [], ec_rr := 0\<rparr> else c)"
  define c2 where "c2 = c1\<lparr>ec_releaseReadBuf := False\<rparr>"
  define c3 where "c3 = (if ec_rsize c2 = None then c2\<lparr>ec_rsize := Some (fst (pool (8 * 1024)))\<rparr> else c2)"
  have r: "read_loop pool c3 0 = (c', n, err)"
    using assms(3,4) unfolding Read_conn_def IsClosed_def c1_def c2_def c3_def Let_def
    by (simp split del: if_split)
  have c3: "ec_rsize c3 \<noteq> None" "length (ec_rdata c3) \<le> buf_size c3" "ec_rr c3 \<le> length (ec_rdata c3)"
      "drop (ec_rr c3) (ec_rdata c3) = ReadBuffer c" "\<not> ec_releaseReadBuf c3" "ec_rx c3 = ec_rx c"
      "ec_wbufList c3 = ec_wbufList c" "ec_sent c3 = ec_sent c" "ec_packed c3 = ec_packed c" "\<not> ec_closed c3"
      "ec_tx c3 = ec_tx c" "ec_armed c3 = ec_armed c" "ec_once c3 = ec_once c" "ec_fd c3 = ec_fd c"
    using assms(2,3)
    by (auto simp: c1_def c2_def c3_def read_ok_def ReadBuffer_def buf_size_def split: option.splits)
  have "did_read c3 (c', n, err) 0" using read_loop_did_read [OF assms(1) c3(1,2), of 0] r by simp
  then show ?thesis using c3 assms(3)
    by (auto simp: did_read_def same_write_def ReadBuffer_def read_ok_def buf_size_def split: option.splits)
qed

text \<open>C4. A read takes bytes from the kernel in order and only appends: what was unread stays
  in front, what \<open>Read\<close> appends and what the kernel still holds are together what it held,
  the count returned is the number of new bytes; the invariant of the reading half is kept
  and the writing half is not touched. And a clean stream is read until the kernel has no
  more: \<open>Read\<close> stops early only when its buffer is full at its largest size.\<close>

theorem Read_appends:
  assumes "pool_ok pool" and "read_ok c" and "\<not> ec_closed c" and "Read_conn pool c = (c', n, err)"
  shows "\<exists>d. ReadBuffer c' = ReadBuffer c @ d \<and> d @ incoming (ec_rx c') = incoming (ec_rx c) \<and> n = length d
    \<and> read_ok c' \<and> ec_wbufList c' = ec_wbufList c \<and> ec_sent c' = ec_sent c \<and> ec_packed c' = ec_packed c
    \<and> \<not> ec_closed c' \<and> (clean (ec_rx c) \<longrightarrow> clean (ec_rx c') \<and> stopped c' err)"
  using Read_spec [OF assms] assms(3) by blast

lemma Read_appends_witness:
  "\<exists>c' n err d. Read_conn (\<lambda>n. (n, n)) (blank_conn\<lparr>ec_rx := [Deliver [1, 2], Deliver [3]]\<rparr>) = (c', n, err)
    \<and> ReadBuffer c' = ReadBuffer (blank_conn\<lparr>ec_rx := [Deliver [1, 2], Deliver [3]]\<rparr>) @ d
    \<and> d @ incoming (ec_rx c') = [1, 2, 3] \<and> n = length d \<and> stopped c' err"
proof -
  let ?c = "blank_conn\<lparr>ec_rx := [Deliver [1, 2], Deliver [3]]\<rparr>"
  obtain c' n err where r: "Read_conn (\<lambda>n. (n, n)) ?c = (c', n, err)" by (rule prod_cases3)
  have "pool_ok (\<lambda>n. (n, n))" "read_ok ?c" "\<not> ec_closed ?c"
    by (simp_all add: pool_ok_def read_ok_def blank_conn_def)
  from Read_appends [OF this r] obtain d where "ReadBuffer c' = ReadBuffer ?c @ d"
      "d @ incoming (ec_rx c') = incoming (ec_rx ?c)" "n = length d" "clean (ec_rx ?c) \<longrightarrow> stopped c' err"
    by blast
  moreover have "incoming (ec_rx ?c) = [1, 2, 3]" "clean (ec_rx ?c)" by (simp_all add: clean_def)
  ultimately show ?thesis by (intro exI [of _ c'] exI [of _ n] exI [of _ err] exI [of _ d] conjI r) simp_all
qed

text \<open>Consumption: \<open>ConsumeRead\<close> drops exactly the first \<open>n\<close> unread bytes, and keeps the
  invariant.\<close>

lemma ConsumeRead_drops:
  assumes "read_ok c" and "0 \<le> n"
  shows "ReadBuffer (ConsumeRead c n) = drop (nat n) (ReadBuffer c) \<and> read_ok (ConsumeRead c n)"
  using assms
  by (auto simp: ConsumeRead_def ReadBuffer_def read_ok_def Let_def add.commute split: option.splits)

text \<open>The read buffer is never compacted: when it has its largest size and is full, \<open>Read\<close>
  brings nothing, now and ever after, as long as a single byte of it is unread, although
  everything in front of that byte has been consumed.\<close>

lemma full_buffer_stalls:
  assumes "ec_rsize c = Some s" and "maxReadBufferSize \<le> s" and "length (ec_rdata c) = s"
    and "\<not> ec_closed c" and "\<not> ec_releaseReadBuf c"
  shows "Read_conn pool c = (c, 0, None)"
proof -
  have c: "c\<lparr>ec_releaseReadBuf := False\<rparr> = c" using assms(5) by (cases c) simp
  show ?thesis
    using assms by (subst Read_conn_def, simp add: IsClosed_def Let_def c)
      (subst read_loop.simps, simp add: Let_def buf_size_def growReadBuffer_def)
qed

end
