(* ===== verification/Engine_Loop.thy ===== *)
theory Engine_Loop
  imports Engine_Conn
begin

text \<open>
  The event loop (\<^verbatim>\<open>engine/eventloop.go\<close>, \<^verbatim>\<open>handler.go\<close>, and \<^verbatim>\<open>activate\<close> and the table of
  connections of \<^verbatim>\<open>multi_event_loops.go\<close>): what happens to one connection when a task or an
  event of the poller is processed on its loop. Every connection is served by one
  goroutine, so an event is one step.

  The protocol is a record of functions over the connection and the protocol's own state
  (\<^verbatim>\<open>UserData\<close>); \<open>None\<close> is a panic that goes through, or a call that does not return: the
  loops are \<open>partial_function\<close>s, so a theorem that gives \<open>Some\<close> says that they return.
\<close>

section \<open>The handler\<close>

record 'h protocol_handler =
  ph_OnOpen :: "econn \<Rightarrow> 'h \<Rightarrow> (econn \<times> 'h) option"
  ph_OnData :: "econn \<Rightarrow> 'h \<Rightarrow> bytes \<Rightarrow> ((econn \<times> 'h) \<times> int \<times> io_err option) option"
  ph_OnClose :: "econn \<Rightarrow> 'h \<Rightarrow> io_err option \<Rightarrow> (econn \<times> 'h) option"

text \<open>\<open>HandlerFunc\<close>: a function that is not given does nothing, and data is consumed.\<close>

definition HandlerFunc ::
  "(econn \<Rightarrow> 'h \<Rightarrow> (econn \<times> 'h) option) option
   \<Rightarrow> (econn \<Rightarrow> 'h \<Rightarrow> bytes \<Rightarrow> ((econn \<times> 'h) \<times> int \<times> io_err option) option) option
   \<Rightarrow> (econn \<Rightarrow> 'h \<Rightarrow> io_err option \<Rightarrow> (econn \<times> 'h) option) option \<Rightarrow> 'h protocol_handler" where
  "HandlerFunc open_func data_func close_func =
     \<lparr>ph_OnOpen = (\<lambda>c h. case open_func of Some f \<Rightarrow> f c h | None \<Rightarrow> Some (c, h)),
      ph_OnData = (\<lambda>c h buf. case data_func of Some f \<Rightarrow> f c h buf
                             | None \<Rightarrow> Some ((c, h), int (length buf), None)),
      ph_OnClose = (\<lambda>c h e. case close_func of Some f \<Rightarrow> f c h e | None \<Rightarrow> Some (c, h))\<rparr>"

section \<open>One connection\<close>

definition closeWith ::
  "'h protocol_handler option \<Rightarrow> econn \<Rightarrow> 'h \<Rightarrow> io_err option \<Rightarrow> (econn \<times> 'h) option" where
  "closeWith ph c h err =
     (case close_conn c of
        None \<Rightarrow> None
      | Some (c, did) \<Rightarrow>
          if did then (case ph of None \<Rightarrow> Some (c, h) | Some f \<Rightarrow> ph_OnClose f c h err)
          else Some (c, h))"

definition Close_conn :: "'h protocol_handler option \<Rightarrow> econn \<Rightarrow> 'h \<Rightarrow> (econn \<times> 'h) option" where
  "Close_conn ph c h = closeWith ph c h None"

text \<open>The loop of \<open>readAndDispatch\<close>: feed what is unread until the protocol stops taking.
  A nil handler is dereferenced.\<close>

partial_function (option) dispatch ::
  "'h protocol_handler option \<Rightarrow> econn \<Rightarrow> 'h \<Rightarrow> ((econn \<times> 'h) \<times> io_err option) option" where
  "dispatch ph c h =
     (let buf = ReadBuffer c in
      if buf = [] then Some ((c, h), None)
      else case ph of
          None \<Rightarrow> None
        | Some f \<Rightarrow>
            Option.bind (ph_OnData f c h buf) (\<lambda>((c, h), n, err).
              if err \<noteq> None then Some ((c, h), err)
              else if n \<le> 0 then Some ((c, h), None)
              else let c = ConsumeRead c n in
                if n < int (length buf) then Some ((c, h), None)
                else dispatch ph c h))"

definition readAndDispatch ::
  "pool \<Rightarrow> 'h protocol_handler option \<Rightarrow> econn \<Rightarrow> 'h \<Rightarrow> ((econn \<times> 'h) \<times> io_err option) option" where
  "readAndDispatch pool ph c h =
     (case Read_conn pool c of
        (c, _, readErr) \<Rightarrow>
          Option.bind (dispatch ph c h) (\<lambda>(s, err). Some (s, if err \<noteq> None then err else readErr)))"

text \<open>The two halves of a round of \<open>processConn\<close>; the flag says that the connection was
  closed and the round is over.\<close>

definition flush_step ::
  "'h protocol_handler option \<Rightarrow> econn \<Rightarrow> 'h \<Rightarrow> bool \<Rightarrow> ((econn \<times> 'h) \<times> bool) option" where
  "flush_step ph c h isWrite =
     (if isWrite \<and> NeedFlush c then
        (case Flush_conn c of
           None \<Rightarrow> None
         | Some (c, None) \<Rightarrow> Some ((c, h), False)
         | Some (c, Some e) \<Rightarrow> map_option (\<lambda>s. (s, True)) (closeWith ph c h (Some e)))
      else Some ((c, h), False))"

definition read_step ::
  "pool \<Rightarrow> 'h protocol_handler option \<Rightarrow> econn \<Rightarrow> 'h \<Rightarrow> bool \<Rightarrow> ((econn \<times> 'h) \<times> bool) option" where
  "read_step pool ph c h isRead =
     (if isRead then
        (case readAndDispatch pool ph c h of
           None \<Rightarrow> None
         | Some (s, None) \<Rightarrow> Some (s, False)
         | Some ((c, h), Some e) \<Rightarrow> map_option (\<lambda>s. (s, True)) (closeWith ph c h (Some e)))
      else Some ((c, h), False))"

partial_function (option) process_loop ::
  "pool \<Rightarrow> 'h protocol_handler option \<Rightarrow> (econn \<Rightarrow> 'h \<Rightarrow> (econn \<times> 'h) option)
   \<Rightarrow> econn \<Rightarrow> 'h \<Rightarrow> bool \<Rightarrow> bool \<Rightarrow> (econn \<times> 'h) option" where
  "process_loop pool ph act c h isRead isWrite =
     (if IsClosed c then Some (c, h)
      else Option.bind (act c h) (\<lambda>(c, h).
        if IsClosed c then Some (c, h)
        else Option.bind (flush_step ph c h isWrite) (\<lambda>((c, h), stop).
          if stop then Some (c, h)
          else Option.bind (read_step pool ph c h isRead) (\<lambda>((c, h), stop).
            if stop then Some (c, h)
            else let (c, r) = takePendingRead c; (c, w) = takePendingWrite c in
              if \<not> r \<and> \<not> w then Some (c, h)
              else process_loop pool ph act c h r w))))"

text \<open>\<open>processConn\<close> with its deferred \<open>unbusy\<close>; the call of \<open>activate\<close> is an argument,
  because \<open>activate\<close> calls \<open>processConn\<close> in turn.\<close>

definition processConn_with ::
  "pool \<Rightarrow> 'h protocol_handler option \<Rightarrow> (econn \<Rightarrow> 'h \<Rightarrow> (econn \<times> 'h) option)
   \<Rightarrow> econn \<Rightarrow> 'h \<Rightarrow> bool \<Rightarrow> bool \<Rightarrow> (econn \<times> 'h) option" where
  "processConn_with pool ph act c h isRead isWrite =
     map_option (\<lambda>(c, h). (unbusy c, h)) (process_loop pool ph act c h isRead isWrite)"

text \<open>\<open>activate\<close>. When it gets to \<open>processConn\<close> the connection is activated, so the call of
  \<open>activate\<close> in there returns at once.\<close>

definition activate :: "pool \<Rightarrow> 'h protocol_handler option \<Rightarrow> econn \<Rightarrow> 'h \<Rightarrow> (econn \<times> 'h) option" where
  "activate pool ph c h =
     (if IsClosed c \<or> isActivated c then Some (c, h)
      else let (c, owned) = tryBusy c in
        Option.bind (case ph of None \<Rightarrow> Some (c, h) | Some f \<Rightarrow> ph_OnOpen f c h) (\<lambda>(c, h).
          let c = (if owned then unbusy c else c); (c, pendingRead, pendingWrite) = setActivated c in
          if (pendingRead \<or> pendingWrite) \<and> owned then
            (let (c, free) = tryBusy c in
             if free then processConn_with pool ph (\<lambda>c h. Some (c, h)) c h pendingRead pendingWrite
             else Some (c, h))
          else Some (c, h)))"

definition processConn ::
  "pool \<Rightarrow> 'h protocol_handler option \<Rightarrow> econn \<Rightarrow> 'h \<Rightarrow> bool \<Rightarrow> bool \<Rightarrow> (econn \<times> 'h) option" where
  "processConn pool ph c h isRead isWrite = processConn_with pool ph (activate pool ph) c h isRead isWrite"

text \<open>What the poller reports for a descriptor: an error (EAGAIN or another one), the end of
  the stream, or that it is readable or writable.\<close>

datatype poll_event = PollError | PollEOF | PollReady bool bool

definition on_poll ::
  "pool \<Rightarrow> 'h protocol_handler option \<Rightarrow> econn \<Rightarrow> 'h \<Rightarrow> poll_event \<Rightarrow> (econn \<times> 'h) option" where
  "on_poll pool ph c h ev =
     (case ev of
        PollError \<Rightarrow> Some (c, h)
      | PollEOF \<Rightarrow>
          Option.bind (activate pool ph c h) (\<lambda>(c, h).
            if IsClosed c then Some (c, h)
            else Option.bind (readAndDispatch pool ph c h) (\<lambda>((c, h), _).
              closeWith ph c h (Some IoEOF)))
      | PollReady isRead isWrite \<Rightarrow>
          (let (c, free) = tryBusy c in
           if \<not> free then
             (let c = (if isRead then setPendingRead c else c);
                  c = (if isWrite then setPendingWrite c else c)
              in Some (c, h))
           else processConn pool ph c h isRead isWrite))"

section \<open>Status bits\<close>

lemma has_flag_set: "has_flag m (set_flag a c) = (if a AND m = 0 then has_flag m c else True)"
proof (cases "a AND m = 0")
  case False
  have "(ec_packed c OR a) AND m \<noteq> 0"
  proof
    assume "(ec_packed c OR a) AND m = 0"
    then have "((ec_packed c OR a) AND m) AND a = 0" by simp
    moreover have "((ec_packed c OR a) AND m) AND a = a AND m"
      by (intro bit_word_eqI) (auto simp: bit_and_iff bit_or_iff)
    ultimately show False using False by simp
  qed
  then show ?thesis using False by (simp add: has_flag_def set_flag_def)
qed (simp add: has_flag_def set_flag_def and_or_disjoint)

lemma has_flag_clear: "a AND m = 0 \<or> a = m \<Longrightarrow> has_flag m (clear_flag a c) = (if a AND m = 0 then has_flag m c else False)"
proof (elim disjE)
  assume "a = m"
  have "(ec_packed c AND NOT m) AND m = 0" by (intro bit_word_eqI) (simp add: bit_and_iff bit_not_iff)
  then show ?thesis using \<open>a = m\<close> by (auto simp: has_flag_def clear_flag_def)
qed (simp add: has_flag_def clear_flag_def and_not_disjoint)

lemmas flag_simps = tryBusy_def unbusy_def takePendingRead_def takePendingWrite_def isActivated_def setActivated_def
  has_flag_set has_flag_clear

text \<open>No goroutine works on the connection and no event waits: the state between events.\<close>

definition calm :: "econn \<Rightarrow> bool" where
  "calm c = (\<not> has_flag flagBusy c \<and> \<not> has_flag flagPendingRead c \<and> \<not> has_flag flagPendingWrite c)"

section \<open>The contract of a protocol\<close>

text \<open>What the loop relies on: as long as writing works the three functions return, they
  touch nothing of the connection but its writing half, \<open>OnData\<close> takes at most what it was
  given and may close the connection, and a closed connection stays as it is.\<close>

locale protocol =
  fixes ph :: "'h protocol_handler"
  assumes opens: "sending c \<Longrightarrow> \<exists>c' h'. ph_OnOpen ph c h = Some (c', h') \<and> sending c' \<and> same_read c c'"
    and takes: "sending_from c c \<Longrightarrow> \<exists>c' h' n err. ph_OnData ph c h buf = Some ((c', h'), n, err)
      \<and> (sending_from c c' \<or> closed_from c c') \<and> n \<le> int (length buf)"
    and closes: "ec_closed c \<Longrightarrow> \<exists>h'. ph_OnClose ph c h e = Some (c, h')"

text \<open>A protocol that leaves closing to the loop.\<close>

lemma protocol_never_closes:
  assumes "\<And>c h. sending c \<Longrightarrow> \<exists>c' h'. ph_OnOpen ph c h = Some (c', h') \<and> sending c' \<and> same_read c c'"
    and takes: "\<And>c h buf. sending c \<Longrightarrow> \<exists>c' h' n err. ph_OnData ph c h buf = Some ((c', h'), n, err)
      \<and> sending c' \<and> same_read c c' \<and> n \<le> int (length buf)"
    and "\<And>c h e. ec_closed c \<Longrightarrow> \<exists>h'. ph_OnClose ph c h e = Some (c, h')"
  shows "protocol ph"
proof
  fix c h buf assume c: "sending_from c c"
  then have "sending c" by (simp add: sending_from_def)
  from takes [OF this, of h buf] obtain c' h' n err where "ph_OnData ph c h buf = Some ((c', h'), n, err)"
      "sending c'" "same_read c c'" "n \<le> int (length buf)" by blast
  moreover have "\<not> ec_once c'" using c calculation(3) by (simp add: sending_from_def same_read_def)
  ultimately show "\<exists>c' h' n err. ph_OnData ph c h buf = Some ((c', h'), n, err)
      \<and> (sending_from c c' \<or> closed_from c c') \<and> n \<le> int (length buf)"
    unfolding sending_from_def by blast
qed (use assms in blast)+

text \<open>The calls a protocol gets, recorded with their outcome.\<close>

datatype ph_call = COpen | CData bytes int "io_err option" | CClose "io_err option"

definition traced :: "'h protocol_handler \<Rightarrow> ('h \<times> ph_call list) protocol_handler" where
  "traced ph =
     \<lparr>ph_OnOpen = (\<lambda>c (h, tr). map_option (\<lambda>(c, h). (c, h, tr @ [COpen])) (ph_OnOpen ph c h)),
      ph_OnData = (\<lambda>c (h, tr) buf. map_option (\<lambda>((c, h), n, err). ((c, h, tr @ [CData buf n err]), n, err))
                                    (ph_OnData ph c h buf)),
      ph_OnClose = (\<lambda>c (h, tr) e. map_option (\<lambda>(c, h). (c, h, tr @ [CClose e])) (ph_OnClose ph c h e))\<rparr>"

text \<open>The bytes a call consumed, and what the calls consumed together.\<close>

fun eaten :: "ph_call \<Rightarrow> bytes" where
  "eaten (CData buf n None) = take (nat n) buf"
| "eaten _ = []"

definition consumed :: "ph_call list \<Rightarrow> bytes" where
  "consumed tr = concat (map eaten tr)"

fun is_data :: "ph_call \<Rightarrow> bool" where
  "is_data (CData _ _ _) = True"
| "is_data _ = False"

text \<open>Every call of \<open>OnData\<close> is given the next unconsumed bytes of the stream.\<close>

definition offers_next :: "bytes \<Rightarrow> ph_call list \<Rightarrow> bool" where
  "offers_next S tr = (\<forall>pre buf n err post. tr = pre @ CData buf n err # post \<longrightarrow> (\<exists>r. S = consumed pre @ buf @ r))"

lemma consumed_simps [simp]:
  "consumed [] = []" "consumed (x # tr) = eaten x @ consumed tr" "consumed (xs @ ys) = consumed xs @ consumed ys"
  by (simp_all add: consumed_def)

lemma offers_next_Nil [simp]: "offers_next S []"
  by (simp add: offers_next_def)

lemma offers_next_snoc:
  assumes "offers_next S tr" and "\<And>buf n err. x = CData buf n err \<Longrightarrow> \<exists>r. S = consumed tr @ buf @ r"
  shows "offers_next S (tr @ [x])"
  unfolding offers_next_def
proof (intro allI impI)
  fix pre buf n err post
  assume eq: "tr @ [x] = pre @ CData buf n err # post"
  show "\<exists>r. S = consumed pre @ buf @ r"
  proof (cases post rule: rev_cases)
    case Nil
    then show ?thesis using eq assms(2) by auto
  next
    case (snoc post' y)
    then have "tr = pre @ CData buf n err # post'" using eq by simp
    then show ?thesis using assms(1) unfolding offers_next_def by blast
  qed
qed

text \<open>A live connection in the middle of a stream \<open>S\<close>.\<close>

definition alive :: "bytes \<Rightarrow> econn \<Rightarrow> ph_call list \<Rightarrow> bool" where
  "alive S c tr = (sending c \<and> read_ok c \<and> \<not> ec_once c \<and> offers_next S tr
     \<and> consumed tr @ ReadBuffer c @ incoming (ec_rx c) = S)"

lemma alive_same_read:
  assumes "alive S c tr" and "same_read c c'" and "sending c'"
  shows "alive S c' tr"
  using assms by (cases "ec_rsize c") (auto simp: alive_def same_read_def read_ok_def ReadBuffer_def)

lemma alive_event:
  assumes "alive S c tr" and "\<not> is_data x" and "eaten x = []"
  shows "alive S c (tr @ [x])"
  using assms by (auto simp: alive_def intro: offers_next_snoc)

lemma sending_irrelevant [simp]:
  "sending (c\<lparr>ec_packed := p\<rparr>) = sending c" "sending (ConsumeRead c n) = sending c"
  by (simp_all add: sending_def write_ok_def ConsumeRead_def Let_def)

lemma alive_packed [simp]: "alive S (c\<lparr>ec_packed := p\<rparr>) tr = alive S c tr"
  by (cases "ec_rsize c") (simp_all add: alive_def read_ok_def ReadBuffer_def)

lemma alive_flags [simp]:
  "alive S (set_flag m c) tr = alive S c tr" "alive S (clear_flag m c) tr = alive S c tr"
  by (simp_all add: set_flag_def clear_flag_def)

lemma closed_flags [simp]:
  "ec_closed (set_flag m c) = ec_closed c" "ec_closed (clear_flag m c) = ec_closed c"
  by (simp_all add: set_flag_def clear_flag_def)

lemma ConsumeRead_frame [simp]:
  "ec_packed (ConsumeRead c n) = ec_packed c" "ec_once (ConsumeRead c n) = ec_once c"
  "ec_rx (ConsumeRead c n) = ec_rx c" "ec_closed (ConsumeRead c n) = ec_closed c"
  by (simp_all add: ConsumeRead_def Let_def)

section \<open>One event keeps the connection on its stream\<close>

text \<open>The connection was closed while the protocol worked on its data; and what holds after
  a call: the stream goes on, or it is over.\<close>

definition over :: "bytes \<Rightarrow> econn \<Rightarrow> ph_call list \<Rightarrow> bool" where
  "over S c tr = (ec_closed c \<and> ReadBuffer c = [] \<and> offers_next S tr \<and> (\<exists>rest. S = consumed tr @ rest)
     \<and> tr \<noteq> [] \<and> is_data (last tr))"

definition goes_on :: "bytes \<Rightarrow> econn \<Rightarrow> econn \<Rightarrow> ph_call list \<Rightarrow> bool" where
  "goes_on S c0 c tr = ((alive S c tr \<or> over S c tr) \<and> ec_packed c = ec_packed c0)"

lemma ConsumeRead_closed:
  "closed_from c0 c \<Longrightarrow> ReadBuffer (ConsumeRead c n) = []"
  by (simp add: closed_from_def ReadBuffer_def ConsumeRead_def Let_def)

context protocol
begin

abbreviation "tp \<equiv> Some (traced ph)"

lemma OnData_alive:
  assumes "alive S c tr"
  shows "\<exists>c' h' n err tr'. ph_OnData (traced ph) c (h, tr) (ReadBuffer c) = Some ((c', h', tr'), n, err)
    \<and> tr' = tr @ [CData (ReadBuffer c) n err] \<and> n \<le> int (length (ReadBuffer c))
    \<and> (\<not> (err = None \<and> 0 < n) \<longrightarrow> goes_on S c c' tr')
    \<and> (err = None \<and> 0 < n \<longrightarrow> goes_on S c (ConsumeRead c' n) tr'
        \<and> (n = int (length (ReadBuffer c)) \<longrightarrow> ReadBuffer (ConsumeRead c' n) = []))"
proof -
  let ?buf = "ReadBuffer c"
  have "sending_from c c" using assms by (simp add: alive_def sending_from_def)
  from takes [OF this, of h ?buf] obtain c' h' n err where d: "ph_OnData ph c h ?buf = Some ((c', h'), n, err)"
      "sending_from c c' \<or> closed_from c c'" "n \<le> int (length ?buf)" by blast
  let ?x = "CData ?buf n err"
  have S: "S = consumed tr @ ?buf @ incoming (ec_rx c)" using assms by (simp add: alive_def)
  then have nx: "offers_next S (tr @ [?x])"
    using assms by (intro offers_next_snoc) (auto simp: alive_def)
  have "(\<not> (err = None \<and> 0 < n) \<longrightarrow> goes_on S c c' (tr @ [?x]))
    \<and> (err = None \<and> 0 < n \<longrightarrow> goes_on S c (ConsumeRead c' n) (tr @ [?x])
        \<and> (n = int (length ?buf) \<longrightarrow> ReadBuffer (ConsumeRead c' n) = []))"
    using d(2)
  proof
    assume "sending_from c c'"
    then have d2: "sending c'" "same_read c c'" by (simp_all add: sending_from_def)
    note a = alive_same_read [OF assms d2(2,1)]
    have buf: "ReadBuffer c' = ?buf" "ec_rx c' = ec_rx c" "read_ok c'" "ec_packed c' = ec_packed c" using a d2
      by (auto simp: alive_def same_read_def ReadBuffer_def)
    have "alive S c' (tr @ [?x])" if "\<not> (err = None \<and> 0 < n)"
      using a nx that by (cases err) (auto simp: alive_def)
    moreover have "alive S (ConsumeRead c' n) (tr @ [?x]) \<and> ReadBuffer (ConsumeRead c' n) = drop (nat n) ?buf"
      if "err = None \<and> 0 < n"
    proof -
      have "ReadBuffer (ConsumeRead c' n) = drop (nat n) ?buf \<and> read_ok (ConsumeRead c' n)"
        using ConsumeRead_drops [OF buf(3), of n] that buf(1) by simp
      then show ?thesis using a nx that S buf by (simp add: alive_def)
    qed
    ultimately show ?thesis using buf(4) by (cases "err = None \<and> 0 < n") (auto simp: goes_on_def)
  next
    assume cl: "closed_from c c'"
    have "S = consumed tr @ take (nat n) ?buf @ drop (nat n) ?buf @ incoming (ec_rx c)" using S by simp
    moreover have "consumed (tr @ [?x]) = (if err = None then consumed tr @ take (nat n) ?buf else consumed tr)"
      by (cases err) simp_all
    ultimately have "\<exists>rest. S = consumed (tr @ [?x]) @ rest" using S unfolding append_assoc [symmetric] by (metis append_assoc)
    then have "over S c' (tr @ [?x])" "over S (ConsumeRead c' n) (tr @ [?x])"
      using nx cl ConsumeRead_closed [OF cl] by (simp_all add: over_def closed_from_def ReadBuffer_def)
    then have "goes_on S c c' (tr @ [?x])" "goes_on S c (ConsumeRead c' n) (tr @ [?x])"
      using cl by (simp_all add: goes_on_def closed_from_def)
    then show ?thesis using ConsumeRead_closed [OF cl] by blast
  qed
  then show ?thesis using d by (auto simp: traced_def)
qed

lemma dispatch_alive:
  assumes "alive S c tr"
  shows "\<exists>c' h' ds err. dispatch tp c (h, tr) = Some ((c', h', tr @ ds), err) \<and> goes_on S c c' (tr @ ds)
    \<and> list_all is_data ds"
proof (cases "ReadBuffer c = []")
  case True
  then show ?thesis using assms
    by (subst dispatch.simps) (auto simp: goes_on_def intro!: exI [of _ "[]"])
next
  case False
  obtain c1 h1 n err where d: "ph_OnData (traced ph) c (h, tr) (ReadBuffer c)
        = Some ((c1, h1, tr @ [CData (ReadBuffer c) n err]), n, err)"
      "n \<le> int (length (ReadBuffer c))"
      "\<not> (err = None \<and> 0 < n) \<longrightarrow> goes_on S c c1 (tr @ [CData (ReadBuffer c) n err])"
      "err = None \<and> 0 < n \<longrightarrow> goes_on S c (ConsumeRead c1 n) (tr @ [CData (ReadBuffer c) n err])
        \<and> (n = int (length (ReadBuffer c)) \<longrightarrow> ReadBuffer (ConsumeRead c1 n) = [])"
    using OnData_alive [OF assms, of h] by blast
  let ?tr = "tr @ [CData (ReadBuffer c) n err]"
  consider "err \<noteq> None \<or> n \<le> 0" | "err = None" "0 < n" "n < int (length (ReadBuffer c))"
    | "err = None" "0 < n" "n = int (length (ReadBuffer c))"
    using d(2) by fastforce
  then show ?thesis
  proof cases
    case 1
    then have "dispatch tp c (h, tr) = Some ((c1, h1, ?tr), err)"
      using False d(1) by (subst dispatch.simps) (auto simp: Let_def)
    then show ?thesis using 1 d(3)
      by (intro exI [of _ c1] exI [of _ h1] exI [of _ "[CData (ReadBuffer c) n err]"] exI [of _ err]) auto
  next
    case 2
    then have "dispatch tp c (h, tr) = Some ((ConsumeRead c1 n, h1, ?tr), None)"
      using False d(1) by (subst dispatch.simps) (auto simp: Let_def)
    then show ?thesis using 2 d(4)
      by (intro exI [of _ "ConsumeRead c1 n"] exI [of _ h1] exI [of _ "[CData (ReadBuffer c) n err]"]) auto
  next
    case 3
    then have "ReadBuffer (ConsumeRead c1 n) = []" using d(4) by simp
    then have "dispatch tp (ConsumeRead c1 n) (h1, ?tr) = Some ((ConsumeRead c1 n, h1, ?tr), None)"
      by (subst dispatch.simps) simp
    then have "dispatch tp c (h, tr) = Some ((ConsumeRead c1 n, h1, ?tr), None)"
      using False d(1) 3 by (subst dispatch.simps) (auto simp: Let_def)
    then show ?thesis using 3 d(4)
      by (intro exI [of _ "ConsumeRead c1 n"] exI [of _ h1] exI [of _ "[CData (ReadBuffer c) n err]"]) auto
  qed
qed

lemma readAndDispatch_alive:
  assumes "pool_ok pool" and "alive S c tr"
  shows "\<exists>c' h' ds err. readAndDispatch pool tp c (h, tr) = Some ((c', h', tr @ ds), err) \<and> goes_on S c c' (tr @ ds)
    \<and> list_all is_data ds"
proof -
  obtain c1 n e where r: "Read_conn pool c = (c1, n, e)" by (rule prod_cases3)
  have "read_ok c" "\<not> ec_closed c" using assms(2) by (simp_all add: alive_def sending_def)
  note spec = Read_spec [OF assms(1) this r]
  then have "alive S c1 tr" using assms(2) by (auto simp: alive_def sending_def write_ok_def)
  then obtain c' h' ds err where "dispatch tp c1 (h, tr) = Some ((c', h', tr @ ds), err)" "goes_on S c1 c' (tr @ ds)"
      "list_all is_data ds"
    using dispatch_alive by blast
  then show ?thesis using r spec by (simp add: readAndDispatch_def goes_on_def)
qed

lemma closeWith_over:
  "over S c tr \<Longrightarrow> closeWith tp c (h, tr) e = Some (c, h, tr)"
  by (simp add: over_def closeWith_def close_conn_def)

lemma closeWith_alive:
  assumes "alive S c tr"
  shows "\<exists>c' h'. closeWith tp c (h, tr) e = Some (c', h', tr @ [CClose e]) \<and> ec_closed c'
    \<and> ec_packed c' = ec_packed c"
proof -
  have s: "sending c" "\<not> ec_once c" using assms by (simp_all add: alive_def)
  then have "wrote c [] (flushLocked c)" by (intro flushLocked_wrote) (simp_all add: sending_def write_ok_def)
  then obtain c1 where "flushLocked c = Some (c1, None)" "ec_packed c1 = ec_packed c"
    by (auto simp: wrote_def same_read_def split: option.splits prod.splits)
  then obtain c' where c': "close_conn c = Some (c', True)" "ec_closed c'" "ec_packed c' = ec_packed c"
    using s by (auto simp: close_conn_def sending_def Let_def)
  obtain h' where "ph_OnClose ph c' h e = Some (c', h')" using closes [OF c'(2)] by blast
  then show ?thesis using c' by (simp add: closeWith_def traced_def)
qed

lemma flush_step_alive:
  assumes "alive S c tr"
  shows "\<exists>c'. flush_step tp c (h, tr) w = Some ((c', h, tr), False) \<and> alive S c' tr \<and> ec_packed c' = ec_packed c"
proof (cases "w \<and> NeedFlush c")
  case True
  have s: "sending c" using assms by (simp add: alive_def)
  then have "wrote c [] (Flush_conn c)" by (intro Flush_wrote) (simp_all add: sending_def write_ok_def)
  from wrote_sending [OF s this] obtain c' where "Flush_conn c = Some (c', None)" "sending c'" "same_read c c'"
    by blast
  then show ?thesis using True alive_same_read [OF assms] by (auto simp: flush_step_def same_read_def)
qed (use assms in \<open>auto simp: flush_step_def\<close>)

lemma read_step_alive:
  assumes "pool_ok pool" and "alive S c tr"
  shows "\<exists>c' h' ds tl stop. read_step pool tp c (h, tr) r = Some ((c', h', (tr @ ds) @ tl), stop)
    \<and> list_all is_data ds \<and> ec_packed c' = ec_packed c
    \<and> (tl = [] \<and> \<not> stop \<and> alive S c' (tr @ ds) \<or> tl = [] \<and> over S c' (tr @ ds)
       \<or> (\<exists>e c1. tl = [CClose e] \<and> stop \<and> ec_closed c' \<and> alive S c1 (tr @ ds)))"
proof (cases r)
  case True
  obtain c1 h1 ds err where d: "readAndDispatch pool tp c (h, tr) = Some ((c1, h1, tr @ ds), err)"
      "goes_on S c c1 (tr @ ds)" "list_all is_data ds"
    using readAndDispatch_alive [OF assms, of h] by blast
  then have p: "ec_packed c1 = ec_packed c" by (simp add: goes_on_def)
  consider "err = None" | e where "err = Some e" "over S c1 (tr @ ds)" | e where "err = Some e" "alive S c1 (tr @ ds)"
    using d(2) by (cases err) (auto simp: goes_on_def)
  then show ?thesis
  proof cases
    case 1
    then show ?thesis using d True p by (auto simp: read_step_def goes_on_def)
  next
    case (2 e)
    then show ?thesis using d True p closeWith_over [OF 2(2)]
      by (intro exI [of _ c1] exI [of _ h1] exI [of _ ds] exI [of _ "[]"] exI [of _ True]) (simp add: read_step_def)
  next
    case (3 e)
    obtain c' h' where "closeWith tp c1 (h1, tr @ ds) (Some e) = Some (c', h', (tr @ ds) @ [CClose (Some e)])"
        "ec_closed c'" "ec_packed c' = ec_packed c1"
      using closeWith_alive [OF 3(2)] by blast
    then show ?thesis using d True 3 p
      by (intro exI [of _ c'] exI [of _ h'] exI [of _ ds] exI [of _ "[CClose (Some e)]"] exI [of _ True])
        (auto simp: read_step_def)
  qed
next
  case False
  then show ?thesis using assms(2)
    by (intro exI [of _ c] exI [of _ h] exI [of _ "[]"] exI [of _ "[]"] exI [of _ False]) (simp add: read_step_def)
qed

end

section \<open>Sequences of events\<close>

text \<open>What the loop does for a connection: the task that \<open>Add\<close> posted, and the reports of
  the poller, in any order.\<close>

datatype loop_event = ActivateTask | Report poll_event

definition on_event ::
  "pool \<Rightarrow> 'h protocol_handler option \<Rightarrow> econn \<Rightarrow> 'h \<Rightarrow> loop_event \<Rightarrow> (econn \<times> 'h) option" where
  "on_event pool ph c h ev =
     (case ev of ActivateTask \<Rightarrow> activate pool ph c h | Report e \<Rightarrow> on_poll pool ph c h e)"

fun run_events ::
  "pool \<Rightarrow> 'h protocol_handler option \<Rightarrow> econn \<Rightarrow> 'h \<Rightarrow> loop_event list \<Rightarrow> (econn \<times> 'h) option" where
  "run_events pool ph c h [] = Some (c, h)"
| "run_events pool ph c h (ev # evs) =
     (case on_event pool ph c h ev of None \<Rightarrow> None | Some (c, h) \<Rightarrow> run_events pool ph c h evs)"

text \<open>The life of a connection as the protocol sees it: opened, then data, then closed once,
  unless the protocol closed it itself while it took the last data.\<close>

definition lifecycle :: "ph_call list \<Rightarrow> bool \<Rightarrow> bool" where
  "lifecycle tr closed =
     (if closed then \<exists>ds e. list_all is_data ds \<and> (tr = COpen # ds @ [CClose e] \<or> tr = COpen # ds \<and> ds \<noteq> [])
      else tr = [] \<or> (\<exists>ds. list_all is_data ds \<and> tr = COpen # ds))"

definition served :: "bytes \<Rightarrow> econn \<Rightarrow> ph_call list \<Rightarrow> bool" where
  "served S c tr = (offers_next S tr \<and> (\<exists>rest. S = consumed tr @ rest) \<and> lifecycle tr (ec_closed c)
     \<and> (\<not> ec_closed c \<longrightarrow> alive S c tr \<and> calm c \<and> (isActivated c \<longleftrightarrow> tr \<noteq> [])))"

lemma has_flag_packed: "ec_packed c' = ec_packed c \<Longrightarrow> has_flag m c' = has_flag m c"
  by (simp add: has_flag_def)

lemma alive_open [simp]: "alive S c tr \<Longrightarrow> \<not> ec_closed c"
  by (simp add: alive_def sending_def)

lemma served_open:
  assumes "alive S c (COpen # ds)" and "list_all is_data ds" and "calm c" and "isActivated c"
  shows "served S c (COpen # ds)"
proof -
  have "offers_next S (COpen # ds)" "\<exists>rest. S = consumed (COpen # ds) @ rest"
    using assms(1) by (auto simp: alive_def)
  then show ?thesis using assms alive_open [OF assms(1)] by (simp add: served_def lifecycle_def)
qed

lemma served_closed:
  assumes "alive S c1 (COpen # ds)" and "list_all is_data ds" and "ec_closed c"
  shows "served S c (COpen # ds @ [CClose e])"
proof -
  have "offers_next S ((COpen # ds) @ [CClose e])"
    using assms(1) by (intro offers_next_snoc) (simp_all add: alive_def)
  moreover have "\<exists>rest. S = consumed ds @ rest" using assms(1) by (auto simp: alive_def)
  ultimately show ?thesis using assms(2,3) by (auto simp: served_def lifecycle_def)
qed

lemma served_over:
  assumes "over S c (COpen # ds)" and "list_all is_data ds"
  shows "served S c (COpen # ds)"
proof -
  have "ds \<noteq> []" using assms(1) by (auto simp: over_def)
  then show ?thesis using assms by (auto simp: served_def lifecycle_def over_def)
qed

lemma over_flags [simp]:
  "over S (set_flag m c) tr = over S c tr" "over S (clear_flag m c) tr = over S c tr"
  by (simp_all add: over_def set_flag_def clear_flag_def ReadBuffer_def)

context protocol
begin

lemma activate_up:
  assumes "alive S c tr" and "\<not> has_flag flagPendingRead c" and "\<not> has_flag flagPendingWrite c"
    and "isActivated c \<longleftrightarrow> tr \<noteq> []" and "lifecycle tr False"
  shows "\<exists>c' h' ds. activate pool tp c (h, tr) = Some (c', h', COpen # ds) \<and> alive S c' (COpen # ds)
    \<and> list_all is_data ds \<and> isActivated c' \<and> \<not> has_flag flagPendingRead c' \<and> \<not> has_flag flagPendingWrite c'
    \<and> has_flag flagBusy c' = has_flag flagBusy c"
proof (cases "isActivated c")
  case True
  then obtain ds where "tr = COpen # ds" "list_all is_data ds" using assms(4,5) by (auto simp: lifecycle_def)
  then show ?thesis using True assms by (auto simp: activate_def IsClosed_def)
next
  case False
  then have tr: "tr = []" using assms(4) by simp
  define c1 where "c1 = set_flag flagBusy c"
  have "sending c1" using assms(1) by (simp add: c1_def set_flag_def alive_def)
  from opens [OF this, of h] obtain c2 h' where o: "ph_OnOpen ph c1 h = Some (c2, h')" "sending c2" "same_read c1 c2"
    by blast
  have a2: "alive S c2 [COpen]"
    using alive_event [OF alive_same_read [OF _ o(3,2)], of S "[]" COpen] assms(1) tr by (simp add: c1_def)
  have p2: "ec_packed c2 = ec_packed c1" using o(3) by (simp add: same_read_def)
  note f = has_flag_packed [OF p2]
  define c3 where "c3 = (if has_flag flagBusy c then c2 else unbusy c2)"
  have c3: "\<not> has_flag flagPendingRead c3" "\<not> has_flag flagPendingWrite c3" "alive S c3 [COpen]"
      "has_flag flagBusy c3 = has_flag flagBusy c"
    using assms(2,3) a2 by (auto simp: c3_def f c1_def flag_simps)
  have open_call: "ph_OnOpen (traced ph) c1 (h, tr) = Some (c2, h', [COpen])"
    using o(1) tr by (simp add: traced_def)
  have "activate pool tp c (h, tr) = Some (set_flag flagActivated c3, h', [COpen])"
  proof (cases "has_flag flagBusy c")
    case True
    then have "c3 = c2" by (simp add: c3_def)
    then show ?thesis using False assms(1) open_call True
      by (simp add: activate_def IsClosed_def tryBusy_def setActivated_def c1_def [symmetric])
  next
    case busy: False
    then have "unbusy c2 = c3" by (simp add: c3_def)
    then show ?thesis using False assms(1) open_call busy c3(1,2)
      by (simp add: activate_def IsClosed_def tryBusy_def setActivated_def c1_def [symmetric] Let_def)
  qed
  moreover have "alive S (set_flag flagActivated c3) [COpen]" "isActivated (set_flag flagActivated c3)"
      "\<not> has_flag flagPendingRead (set_flag flagActivated c3)" "\<not> has_flag flagPendingWrite (set_flag flagActivated c3)"
      "has_flag flagBusy (set_flag flagActivated c3) = has_flag flagBusy c"
    using c3 by (simp_all add: flag_simps)
  ultimately show ?thesis by (intro exI [of _ "set_flag flagActivated c3"] exI [of _ h'] exI [of _ "[]"]) simp
qed

lemma processConn_served:
  assumes "pool_ok pool" and "alive S c tr" and "\<not> has_flag flagPendingRead c" and "\<not> has_flag flagPendingWrite c"
    and "isActivated c \<longleftrightarrow> tr \<noteq> []" and "lifecycle tr False"
  shows "\<exists>c' h' tr'. processConn pool tp c (h, tr) r w = Some (c', h', tr') \<and> served S c' tr'"
proof -
  obtain c1 h1 ds where a: "activate pool tp c (h, tr) = Some (c1, h1, COpen # ds)" "alive S c1 (COpen # ds)"
      "list_all is_data ds" "isActivated c1" "\<not> has_flag flagPendingRead c1" "\<not> has_flag flagPendingWrite c1"
    using activate_up [OF assms(2-6)] by blast
  obtain c2 where f: "flush_step tp c1 (h1, COpen # ds) w = Some ((c2, h1, COpen # ds), False)"
      "alive S c2 (COpen # ds)" "ec_packed c2 = ec_packed c1"
    using flush_step_alive [OF a(2)] by blast
  obtain c3 h3 ds' tl stop where r:
      "read_step pool tp c2 (h1, COpen # ds) r = Some ((c3, h3, ((COpen # ds) @ ds') @ tl), stop)"
      "list_all is_data ds'" "ec_packed c3 = ec_packed c2"
      "tl = [] \<and> \<not> stop \<and> alive S c3 ((COpen # ds) @ ds') \<or> tl = [] \<and> over S c3 ((COpen # ds) @ ds')
       \<or> (\<exists>e c1. tl = [CClose e] \<and> stop \<and> ec_closed c3 \<and> alive S c1 ((COpen # ds) @ ds'))"
    using read_step_alive [OF assms(1) f(2), of h1 r] by (elim exE conjE) (rule that)
  have open_c: "\<not> ec_closed c" "\<not> ec_closed c1" using assms(2) a(2) by auto
  have p: "\<not> has_flag flagPendingRead c3" "\<not> has_flag flagPendingWrite c3" "has_flag flagActivated c3"
    using a(4-6) has_flag_packed [OF f(3)] has_flag_packed [OF r(3)] by (simp_all add: isActivated_def)
  let ?c = "unbusy (if stop then c3 else clear_flag flagPendingWrite (clear_flag flagPendingRead c3))"
  have run: "processConn pool tp c (h, tr) r w = Some (?c, h3, (COpen # ds @ ds') @ tl)"
    using a(1) f(1) r(1) open_c p unfolding processConn_def processConn_with_def
    by (subst process_loop.simps) (simp add: IsClosed_def Let_def takePendingRead_def takePendingWrite_def has_flag_clear)
  have data: "list_all is_data (ds @ ds')" using a(3) r(2) by simp
  from r(4) have "served S ?c ((COpen # ds @ ds') @ tl)"
  proof (elim disjE exE conjE)
    assume "tl = []" "\<not> stop" and alive: "alive S c3 ((COpen # ds) @ ds')"
    moreover have "alive S ?c (COpen # ds @ ds')" "calm ?c" "isActivated ?c"
      using alive p \<open>\<not> stop\<close> by (simp_all add: calm_def flag_simps)
    ultimately show ?thesis using data served_open [of S ?c "ds @ ds'"] by simp
  next
    assume "tl = []" and "over S c3 ((COpen # ds) @ ds')"
    then show ?thesis using data served_over [of S ?c "ds @ ds'"] by (simp add: unbusy_def)
  next
    fix e c4
    assume "tl = [CClose e]" "ec_closed c3" "alive S c4 ((COpen # ds) @ ds')"
    then show ?thesis using data served_closed [of S c4 "ds @ ds'" ?c e] by (simp add: unbusy_def)
  qed
  then show ?thesis using run by blast
qed

lemma on_event_served:
  assumes "pool_ok pool" and "served S c tr"
  shows "\<exists>c' h' tr'. on_event pool tp c (h, tr) ev = Some (c', h', tr') \<and> served S c' tr'"
proof (cases "ec_closed c")
  case True
  have act: "activate pool tp c (h, tr) = Some (c, h, tr)" using True by (simp add: activate_def IsClosed_def)
  show ?thesis
  proof (cases ev)
    case ActivateTask
    then show ?thesis using act assms(2) by (simp add: on_event_def)
  next
    case (Report e)
    have "\<exists>c'. on_poll pool tp c (h, tr) e = Some (c', h, tr) \<and> ec_closed c'"
      using True act
      by (cases e) (auto simp: on_poll_def IsClosed_def Let_def tryBusy_def setPendingRead_def setPendingWrite_def
          processConn_def processConn_with_def process_loop.simps unbusy_def)
    then show ?thesis using True assms(2) Report by (auto simp: on_event_def served_def)
  qed
next
  case False
  then have c: "alive S c tr" "calm c" "isActivated c \<longleftrightarrow> tr \<noteq> []" "lifecycle tr False"
    using assms(2) by (simp_all add: served_def)
  then have pend: "\<not> has_flag flagPendingRead c" "\<not> has_flag flagPendingWrite c" "\<not> has_flag flagBusy c"
    by (simp_all add: calm_def)
  obtain c1 h1 ds where a: "activate pool tp c (h, tr) = Some (c1, h1, COpen # ds)" "alive S c1 (COpen # ds)"
      "list_all is_data ds" "isActivated c1" "\<not> has_flag flagPendingRead c1" "\<not> has_flag flagPendingWrite c1"
      "has_flag flagBusy c1 = has_flag flagBusy c"
    using activate_up [OF c(1) pend(1,2) c(3,4)] by blast
  show ?thesis
  proof (cases ev)
    case ActivateTask
    have "served S c1 (COpen # ds)" using a pend(3) by (intro served_open) (simp_all add: calm_def)
    then show ?thesis using a(1) ActivateTask by (auto simp: on_event_def)
  next
    case (Report e)
    show ?thesis
    proof (cases e)
      case PollError
      then show ?thesis using Report assms(2) by (auto simp: on_event_def on_poll_def)
    next
      case PollEOF
      obtain c2 h2 ds' err where r: "readAndDispatch pool tp c1 (h1, COpen # ds)
            = Some ((c2, h2, (COpen # ds) @ ds'), err)" "goes_on S c1 c2 ((COpen # ds) @ ds')" "list_all is_data ds'"
        using readAndDispatch_alive [OF assms(1) a(2), of h1] by (elim exE conjE) (rule that)
      have "\<exists>c3 h3 tr3. closeWith tp c2 (h2, (COpen # ds) @ ds') (Some IoEOF) = Some (c3, h3, tr3) \<and> served S c3 tr3"
      proof (cases "over S c2 ((COpen # ds) @ ds')")
        case True
        then show ?thesis using closeWith_over [OF True, of h2 "Some IoEOF"] served_over [of S c2 "ds @ ds'"] a(3) r(3)
          by simp
      next
        case False
        then have al: "alive S c2 ((COpen # ds) @ ds')" using r(2) by (simp add: goes_on_def)
        obtain c3 h3 where "closeWith tp c2 (h2, (COpen # ds) @ ds') (Some IoEOF)
              = Some (c3, h3, ((COpen # ds) @ ds') @ [CClose (Some IoEOF)])" "ec_closed c3"
          using closeWith_alive [OF al] by blast
        then show ?thesis using al served_closed [of S c2 "ds @ ds'" c3] a(3) r(3) by simp
      qed
      then show ?thesis using a(1) r(1) Report PollEOF alive_open [OF a(2)]
        by (auto simp: on_event_def on_poll_def IsClosed_def)
    next
      case (PollReady r w)
      let ?c = "set_flag flagBusy c"
      have "alive S ?c tr" "\<not> has_flag flagPendingRead ?c" "\<not> has_flag flagPendingWrite ?c"
          "isActivated ?c \<longleftrightarrow> tr \<noteq> []"
        using c pend by (simp_all add: flag_simps)
      from processConn_served [OF assms(1) this c(4)] show ?thesis
        using pend(3) Report PollReady by (simp add: on_event_def on_poll_def tryBusy_def)
    qed
  qed
qed

lemma run_events_served:
  assumes "pool_ok pool" and "served S c tr"
  shows "\<exists>c' h' tr'. run_events pool tp c (h, tr) evs = Some (c', h', tr') \<and> served S c' tr'"
  using assms(2)
proof (induction evs arbitrary: c h tr)
  case (Cons ev evs)
  obtain c1 h1 tr1 where "on_event pool tp c (h, tr) ev = Some (c1, h1, tr1)" "served S c1 tr1"
    using on_event_served [OF assms(1) Cons.prems] by blast
  then show ?case using Cons.IH [of c1 tr1 h1] by simp
qed simp

end

text \<open>A connection that was just added: \<open>Init\<close> on a fresh object, with the kernel's answers.\<close>

definition new_conn :: "int \<Rightarrow> tx_answer list \<Rightarrow> rx_answer list \<Rightarrow> econn" where
  "new_conn fd tx rx = (Init_conn blank_conn fd)\<lparr>ec_tx := tx, ec_rx := rx\<rparr>"

lemma new_conn_served:
  assumes "soft_tx tx"
  shows "served (incoming rx) (new_conn fd tx rx) []"
  using assms
  by (simp add: served_def new_conn_def Init_conn_def blank_conn_def lifecycle_def alive_def sending_def write_ok_def
      read_ok_def ReadBuffer_def calm_def has_flag_def isActivated_def)


section \<open>Protocols\<close>

text \<open>The protocol without callbacks, \<open>HandlerFunc{}\<close>, takes everything and does nothing; an
  echo server writes back what it is given.\<close>

definition echo_handler :: "pool \<Rightarrow> unit protocol_handler" where
  "echo_handler pool = HandlerFunc None
     (Some (\<lambda>c h buf. map_option (\<lambda>(c, err). ((c, h), int (length buf), err)) (Write_conn pool None c buf))) None"

interpretation ignoring: protocol "HandlerFunc None None None"
  by unfold_locales (auto simp: HandlerFunc_def)

lemma echo_protocol: "protocol (echo_handler pool)"
proof (rule protocol_never_closes)
  fix c :: econn and h :: unit and buf e
  show "sending c \<Longrightarrow> \<exists>c' h'. ph_OnOpen (echo_handler pool) c h = Some (c', h') \<and> sending c' \<and> same_read c c'"
    by (simp add: echo_handler_def HandlerFunc_def)
  show "ec_closed c \<Longrightarrow> \<exists>h'. ph_OnClose (echo_handler pool) c h e = Some (c, h')"
    by (simp add: echo_handler_def HandlerFunc_def)
  assume c: "sending c"
  have "wrote c buf (Write_conn pool None c buf)" using WriteRaw_wrote [OF c] by (simp add: Write_no_hook)
  from wrote_sending [OF c this] show "\<exists>c' h' n err. ph_OnData (echo_handler pool) c h buf = Some ((c', h'), n, err)
      \<and> sending c' \<and> same_read c c' \<and> n \<le> int (length buf)"
    by (auto simp: echo_handler_def HandlerFunc_def)
qed

interpretation echo: protocol "echo_handler pool" for pool
  by (rule echo_protocol)


section \<open>The table of connections\<close>

text \<open>\<open>MultiEventLoop\<close>: connections are objects (indices of \<open>ml_heap\<close>) that are reused through
  a pool, the table maps descriptors to them, and every loop has a queue of connections to
  activate. An entry of the heap is a connection with its handler and its protocol's state.\<close>

record 'h loops =
  ml_numLoops :: nat
  ml_maxEventNum :: int
  ml_conns :: "int \<Rightarrow> nat option"
  ml_pool :: "nat list"
  ml_heap :: "(econn \<times> 'h protocol_handler option \<times> 'h) list"
  ml_tasks :: "nat \<Rightarrow> nat list"
  ml_started :: bool
  ml_freed :: bool
  ml_curConn :: int

definition New_loops :: "nat \<Rightarrow> int \<Rightarrow> int \<Rightarrow> 'h loops" where
  "New_loops numCPU numLoops maxEventNum =
     \<lparr>ml_numLoops = (if numLoops \<le> 0 then numCPU else nat numLoops),
      ml_maxEventNum = (if maxEventNum \<le> 0 then 256 else maxEventNum),
      ml_conns = (\<lambda>_. None), ml_pool = [], ml_heap = [], ml_tasks = (\<lambda>_. []),
      ml_started = False, ml_freed = False, ml_curConn = 0\<rparr>"

definition isFreed :: "'h loops \<Rightarrow> bool" where
  "isFreed m = ml_freed m"

definition NumLoops :: "'h loops \<Rightarrow> nat" where
  "NumLoops m = ml_numLoops m"

definition NumConns :: "'h loops \<Rightarrow> int" where
  "NumConns m = ml_curConn m"

definition getConn :: "'h loops \<Rightarrow> int \<Rightarrow> nat option" where
  "getConn m fd = ml_conns m fd"

definition runOnLoop :: "'h loops \<Rightarrow> nat \<Rightarrow> nat \<Rightarrow> 'h loops" where
  "runOnLoop m el i = m\<lparr>ml_tasks := (ml_tasks m)(el := ml_tasks m el @ [i])\<rparr>"

text \<open>The pool: an object that was put back, or a new one.\<close>

definition pool_Get :: "'h \<Rightarrow> 'h loops \<Rightarrow> 'h loops \<times> nat" where
  "pool_Get h m =
     (case ml_pool m of
        i # is \<Rightarrow> (m\<lparr>ml_pool := is\<rparr>, i)
      | [] \<Rightarrow> (m\<lparr>ml_heap := ml_heap m @ [(blank_conn, None, h)]\<rparr>, length (ml_heap m)))"

text \<open>\<open>Add\<close>; \<open>registered\<close> is the poller's answer to \<open>AddRead\<close>.\<close>

definition Add_conn ::
  "'h loops \<Rightarrow> int \<Rightarrow> 'h protocol_handler option \<Rightarrow> 'h \<Rightarrow> io_err option \<Rightarrow> 'h loops \<times> (io_err + nat)" where
  "Add_conn m fd ph h registered =
     (if isFreed m then (m, Inl ErrClosed)
      else let (m, i) = pool_Get h m;
               el = nat (fd mod int (ml_numLoops m));
               m = m\<lparr>ml_heap := (ml_heap m)[i := (Init_conn (fst (ml_heap m ! i)) fd, ph, h)]\<rparr>;
               m = m\<lparr>ml_conns := (ml_conns m)(fd \<mapsto> i)\<rparr>
           in case registered of
               Some e \<Rightarrow> (m\<lparr>ml_conns := (ml_conns m)(fd := None), ml_pool := i # ml_pool m\<rparr>, Inl e)
             | None \<Rightarrow>
                 let m = m\<lparr>ml_curConn := ml_curConn m + 1\<rparr>;
                     m = (if ph \<noteq> None then runOnLoop m el i else m)
                 in (m, Inr i))"

definition delConn :: "'h loops \<Rightarrow> int \<Rightarrow> 'h loops" where
  "delConn m fd =
     (if fd < 0 then m
      else case getConn m fd of
          None \<Rightarrow> m
        | Some i \<Rightarrow> m\<lparr>ml_conns := (ml_conns m)(fd := None), ml_curConn := ml_curConn m - 1,
                      ml_pool := i # ml_pool m\<rparr>)"

text \<open>The calls a connection made while it was closed, on the table.\<close>

fun apply_log :: "'h loops \<Rightarrow> conn_event list \<Rightarrow> 'h loops" where
  "apply_log m [] = m"
| "apply_log m (DelConn fd # es) = apply_log (delConn m fd) es"
| "apply_log m (CloseFd fd # es) = apply_log m es"

definition on_conn :: "pool \<Rightarrow> 'h loops \<Rightarrow> nat \<Rightarrow> loop_event \<Rightarrow> 'h loops option" where
  "on_conn pool m i ev =
     (case ml_heap m ! i of
        (c, ph, h) \<Rightarrow>
          (case on_event pool ph (c\<lparr>ec_log := []\<rparr>) h ev of
             None \<Rightarrow> None
           | Some (c, h) \<Rightarrow> Some (apply_log (m\<lparr>ml_heap := (ml_heap m)[i := (c, ph, h)]\<rparr>) (ec_log c))))"

text \<open>One round of \<open>Loop\<close> of loop \<open>el\<close>: the posted tasks first, then the events the poller
  reports; an event of a descriptor that is not in the table is dropped.\<close>

fun run_tasks :: "pool \<Rightarrow> 'h loops \<Rightarrow> nat list \<Rightarrow> 'h loops option" where
  "run_tasks pool m [] = Some m"
| "run_tasks pool m (i # is) = Option.bind (on_conn pool m i ActivateTask) (\<lambda>m. run_tasks pool m is)"

fun poll_reports :: "pool \<Rightarrow> 'h loops \<Rightarrow> (int \<times> poll_event) list \<Rightarrow> 'h loops option" where
  "poll_reports pool m [] = Some m"
| "poll_reports pool m ((fd, e) # es) =
     (case getConn m fd of
        None \<Rightarrow> poll_reports pool m es
      | Some i \<Rightarrow> Option.bind (on_conn pool m i (Report e)) (\<lambda>m. poll_reports pool m es))"

definition Loop_round :: "pool \<Rightarrow> 'h loops \<Rightarrow> nat \<Rightarrow> (int \<times> poll_event) list \<Rightarrow> 'h loops option" where
  "Loop_round pool m el es =
     (if isFreed m then Some m
      else Option.bind (run_tasks pool (m\<lparr>ml_tasks := (ml_tasks m)(el := [])\<rparr>) (ml_tasks m el))
             (\<lambda>m. poll_reports pool m es))"

text \<open>\<open>Add\<close> binds the descriptor to an object that was initialised for it and posts its
  activation on the loop of the descriptor; a registration that fails leaves the table
  without the descriptor; other descriptors are not touched.\<close>

lemma Add_conn_binds:
  assumes "\<not> isFreed m" and "list_all (\<lambda>i. i < length (ml_heap m)) (ml_pool m)"
  shows "\<exists>m'. Add_conn m fd ph h None = (m', Inr (snd (pool_Get h m)))
      \<and> getConn m' fd = Some (snd (pool_Get h m)) \<and> NumConns m' = NumConns m + 1
      \<and> Fd (fst (ml_heap m' ! snd (pool_Get h m))) = fd \<and> \<not> IsClosed (fst (ml_heap m' ! snd (pool_Get h m)))
      \<and> (ph \<noteq> None \<longrightarrow> snd (pool_Get h m) \<in> set (ml_tasks m' (nat (fd mod int (ml_numLoops m)))))
      \<and> (\<forall>fd'. fd' \<noteq> fd \<longrightarrow> getConn m' fd' = getConn m fd')"
  using assms
  by (cases "ml_pool m") (auto simp: Add_conn_def pool_Get_def getConn_def NumConns_def Fd_def IsClosed_def
      Init_conn_def runOnLoop_def Let_def isFreed_def nth_append)

text \<open>Closing never takes a connection out of the table: \<open>closeWith\<close> sets the descriptor to
  -1 before it calls \<open>parent.del\<close>, which looks the connection up by its descriptor, and
  \<open>delConn\<close> ignores a negative one. So the number of connections only grows, and no object
  gets back to the pool.\<close>

lemma closed_conn_stays_in_table:
  assumes "close_conn (c\<lparr>ec_log := []\<rparr>) = Some (c', True)"
  shows "apply_log m (ec_log c') = m"
  using assms flush_log [of "c\<lparr>ec_log := []\<rparr>"]
  by (auto simp: close_conn_def Fd_def Let_def delConn_def split: if_splits option.splits prod.splits)

end
