(* ===== verification/H2_Frame.thy ===== *)
theory H2_Frame
  imports Framing
begin

text \<open>
  HTTP/2 frames and errors, \<^verbatim>\<open>src/http2/frame.go\<close> and \<^verbatim>\<open>src/http2/errors.go\<close>: the
  two levels of errors, the frame parser with its checks on the shape of a frame
  and on the order of CONTINUATION frames, and the writers of every frame type.
\<close>

section \<open>Error codes\<close>

type_synonym ErrCode = u32

abbreviation ErrCodeNo :: ErrCode where "ErrCodeNo \<equiv> 0x0"
abbreviation ErrCodeProtocol :: ErrCode where "ErrCodeProtocol \<equiv> 0x1"
abbreviation ErrCodeInternal :: ErrCode where "ErrCodeInternal \<equiv> 0x2"
abbreviation ErrCodeFlowControl :: ErrCode where "ErrCodeFlowControl \<equiv> 0x3"
abbreviation ErrCodeSettingsTimeout :: ErrCode where "ErrCodeSettingsTimeout \<equiv> 0x4"
abbreviation ErrCodeStreamClosed :: ErrCode where "ErrCodeStreamClosed \<equiv> 0x5"
abbreviation ErrCodeFrameSize :: ErrCode where "ErrCodeFrameSize \<equiv> 0x6"
abbreviation ErrCodeRefusedStream :: ErrCode where "ErrCodeRefusedStream \<equiv> 0x7"
abbreviation ErrCodeCancel :: ErrCode where "ErrCodeCancel \<equiv> 0x8"
abbreviation ErrCodeCompression :: ErrCode where "ErrCodeCompression \<equiv> 0x9"
abbreviation ErrCodeConnect :: ErrCode where "ErrCodeConnect \<equiv> 0xa"
abbreviation ErrCodeEnhanceCalm :: ErrCode where "ErrCodeEnhanceCalm \<equiv> 0xb"
abbreviation ErrCodeInadequateSec :: ErrCode where "ErrCodeInadequateSec \<equiv> 0xc"
abbreviation ErrCodeHTTP11Required :: ErrCode where "ErrCodeHTTP11Required \<equiv> 0xd"

definition ErrCode_String :: "ErrCode \<Rightarrow> string" where
  "ErrCode_String e =
     (if e = ErrCodeNo then ''NO_ERROR''
      else if e = ErrCodeProtocol then ''PROTOCOL_ERROR''
      else if e = ErrCodeInternal then ''INTERNAL_ERROR''
      else if e = ErrCodeFlowControl then ''FLOW_CONTROL_ERROR''
      else if e = ErrCodeSettingsTimeout then ''SETTINGS_TIMEOUT''
      else if e = ErrCodeStreamClosed then ''STREAM_CLOSED''
      else if e = ErrCodeFrameSize then ''FRAME_SIZE_ERROR''
      else if e = ErrCodeRefusedStream then ''REFUSED_STREAM''
      else if e = ErrCodeCancel then ''CANCEL''
      else if e = ErrCodeCompression then ''COMPRESSION_ERROR''
      else if e = ErrCodeConnect then ''CONNECT_ERROR''
      else if e = ErrCodeEnhanceCalm then ''ENHANCE_YOUR_CALM''
      else if e = ErrCodeInadequateSec then ''INADEQUATE_SECURITY''
      else if e = ErrCodeHTTP11Required then ''HTTP_1_1_REQUIRED''
      else ''UNKNOWN(0x'' @ itoa_hex (unat e) @ '')'')"

section \<open>Errors\<close>

text \<open>The package's sentinel errors; \<open>fmt.Errorf("%w: ...", sentinel)\<close> is \<open>Wrapped\<close>.\<close>

datatype sentinel =
  ErrFrameTooLarge | ErrBadFrameHeader | ErrBadFrameLength | ErrUnexpectedFrame | ErrFlowControl

definition sentinel_text :: "sentinel \<Rightarrow> string" where
  "sentinel_text s = (case s of
      ErrFrameTooLarge \<Rightarrow> ''http2: frame exceeds max size''
    | ErrBadFrameHeader \<Rightarrow> ''http2: malformed frame header''
    | ErrBadFrameLength \<Rightarrow> ''http2: frame length does not match its type''
    | ErrUnexpectedFrame \<Rightarrow> ''http2: unexpected frame''
    | ErrFlowControl \<Rightarrow> ''http2: flow control error'')"

text \<open>A Go \<open>error\<close> of this package: the two structured errors of errors.go, a wrapped
  sentinel, or an error of another package by its text.\<close>

datatype h2err =
    ConnError ErrCode string
  | StreamError u32 ErrCode string
  | Wrapped sentinel string
  | OtherError string

definition err_Error :: "h2err \<Rightarrow> string" where
  "err_Error e = (case e of
      ConnError code msg \<Rightarrow> ''http2: connection error '' @ ErrCode_String code @ '': '' @ msg
    | StreamError sid code msg \<Rightarrow>
        ''http2: stream '' @ itoa (unat sid) @ '' error '' @ ErrCode_String code @ '': '' @ msg
    | Wrapped s msg \<Rightarrow> sentinel_text s @ '': '' @ msg
    | OtherError t \<Rightarrow> t)"

text \<open>\<open>asConnError\<close>: the code and message of the connection error an error stands for.\<close>

definition asConnError :: "h2err \<Rightarrow> ErrCode \<times> string" where
  "asConnError e = (case e of
      ConnError code msg \<Rightarrow> (code, msg)
    | StreamError _ code msg \<Rightarrow> (code, msg)
    | _ \<Rightarrow> (ErrCodeProtocol, err_Error e))"

definition asStreamError :: "h2err \<Rightarrow> (u32 \<times> ErrCode \<times> string) option" where
  "asStreamError e = (case e of StreamError sid code msg \<Rightarrow> Some (sid, code, msg) | _ \<Rightarrow> None)"

section \<open>Frames\<close>

abbreviation frameHeaderLen :: nat where "frameHeaderLen \<equiv> 9"
abbreviation defaultMaxFrameSize :: u32 where "defaultMaxFrameSize \<equiv> 16384"
abbreviation MaxFrameSize :: u32 where "MaxFrameSize \<equiv> 0xffffff"

type_synonym FrameType = byte

abbreviation FrameData :: FrameType where "FrameData \<equiv> 0x0"
abbreviation FrameHeaders :: FrameType where "FrameHeaders \<equiv> 0x1"
abbreviation FramePriority :: FrameType where "FramePriority \<equiv> 0x2"
abbreviation FrameRSTStream :: FrameType where "FrameRSTStream \<equiv> 0x3"
abbreviation FrameSettings :: FrameType where "FrameSettings \<equiv> 0x4"
abbreviation FramePushPromise :: FrameType where "FramePushPromise \<equiv> 0x5"
abbreviation FramePing :: FrameType where "FramePing \<equiv> 0x6"
abbreviation FrameGoAway :: FrameType where "FrameGoAway \<equiv> 0x7"
abbreviation FrameWindowUpdate :: FrameType where "FrameWindowUpdate \<equiv> 0x8"
abbreviation FrameContinuation :: FrameType where "FrameContinuation \<equiv> 0x9"

definition FrameType_String :: "FrameType \<Rightarrow> string" where
  "FrameType_String t =
     (if t = FrameData then ''DATA''
      else if t = FrameHeaders then ''HEADERS''
      else if t = FramePriority then ''PRIORITY''
      else if t = FrameRSTStream then ''RST_STREAM''
      else if t = FrameSettings then ''SETTINGS''
      else if t = FramePushPromise then ''PUSH_PROMISE''
      else if t = FramePing then ''PING''
      else if t = FrameGoAway then ''GOAWAY''
      else if t = FrameWindowUpdate then ''WINDOW_UPDATE''
      else if t = FrameContinuation then ''CONTINUATION''
      else ''UNKNOWN(0x'' @ itoa_hex (unat t) @ '')'')"

abbreviation FlagDataEndStream :: byte where "FlagDataEndStream \<equiv> 0x1"
abbreviation FlagDataPadded :: byte where "FlagDataPadded \<equiv> 0x8"
abbreviation FlagHeadersEndStream :: byte where "FlagHeadersEndStream \<equiv> 0x1"
abbreviation FlagHeadersEndHeaders :: byte where "FlagHeadersEndHeaders \<equiv> 0x4"
abbreviation FlagHeadersPadded :: byte where "FlagHeadersPadded \<equiv> 0x8"
abbreviation FlagHeadersPriority :: byte where "FlagHeadersPriority \<equiv> 0x20"
abbreviation FlagSettingsAck :: byte where "FlagSettingsAck \<equiv> 0x1"
abbreviation FlagPingAck :: byte where "FlagPingAck \<equiv> 0x1"
abbreviation FlagContinuationEndHeaders :: byte where "FlagContinuationEndHeaders \<equiv> 0x4"

record frame =
  f_Type :: FrameType
  f_Flags :: byte
  f_StreamID :: u32
  f_Payload :: bytes

definition EndStream :: "frame \<Rightarrow> bool" where
  "EndStream f =
     (if f_Type f = FrameHeaders then f_Flags f AND FlagHeadersEndStream \<noteq> 0
      else if f_Type f = FrameData then f_Flags f AND FlagDataEndStream \<noteq> 0
      else False)"

definition EndHeaders :: "frame \<Rightarrow> bool" where
  "EndHeaders f =
     (if f_Type f = FrameHeaders then f_Flags f AND FlagHeadersEndHeaders \<noteq> 0
      else if f_Type f = FrameContinuation then f_Flags f AND FlagContinuationEndHeaders \<noteq> 0
      else False)"

section \<open>The parser\<close>

record frame_parser =
  p_maxFrameSize :: u32
  p_lastStreamID :: u32
  p_lastType :: FrameType
  p_haveLast :: bool
  p_awaitingContinuation :: bool

definition NewFrameParser :: frame_parser where
  "NewFrameParser = \<lparr>p_maxFrameSize = defaultMaxFrameSize, p_lastStreamID = 0, p_lastType = 0,
     p_haveLast = False, p_awaitingContinuation = False\<rparr>"

definition SetMaxFrameSize :: "frame_parser \<Rightarrow> u32 \<Rightarrow> frame_parser" where
  "SetMaxFrameSize p n = (if n = 0 \<or> n > MaxFrameSize then p else p\<lparr>p_maxFrameSize := n\<rparr>)"

definition checkContinuation :: "frame_parser \<Rightarrow> frame \<Rightarrow> h2err option" where
  "checkContinuation p f =
     (if p_awaitingContinuation p then
        if f_Type f \<noteq> FrameContinuation \<or> f_StreamID f \<noteq> p_lastStreamID p then
          Some (ConnError ErrCodeProtocol
            (''expected CONTINUATION on stream '' @ itoa (unat (p_lastStreamID p)) @ '', got ''
             @ FrameType_String (f_Type f) @ '' on stream '' @ itoa (unat (f_StreamID f))))
        else None
      else if f_Type f \<noteq> FrameContinuation then None
      else if \<not> p_haveLast p then
        Some (ConnError ErrCodeProtocol ''CONTINUATION without a preceding HEADERS'')
      else if p_lastType p \<noteq> FrameHeaders \<and> p_lastType p \<noteq> FrameContinuation
          \<and> p_lastType p \<noteq> FramePushPromise then
        Some (ConnError ErrCodeProtocol (''CONTINUATION after '' @ FrameType_String (p_lastType p)))
      else if f_StreamID f \<noteq> p_lastStreamID p then
        Some (ConnError ErrCodeProtocol
          (''CONTINUATION on stream '' @ itoa (unat (f_StreamID f)) @ '', previous frame on ''
           @ itoa (unat (p_lastStreamID p))))
      else None)"

definition checkFrameShape :: "frame \<Rightarrow> h2err option" where
  "checkFrameShape f =
     (let t = f_Type f; sid = f_StreamID f; n = length (f_Payload f);
          err = (\<lambda>msg. Some (ConnError ErrCodeFrameSize msg)) in
      if t = FrameData then (if sid = 0 then err ''DATA on stream 0'' else None)
      else if t = FrameHeaders then (if sid = 0 then err ''HEADERS on stream 0'' else None)
      else if t = FramePriority then
        (if sid = 0 then err ''PRIORITY on stream 0''
         else if n \<noteq> 5 then err (''PRIORITY payload '' @ itoa n @ '' != 5'') else None)
      else if t = FrameRSTStream then
        (if sid = 0 then err ''RST_STREAM on stream 0''
         else if n \<noteq> 4 then err (''RST_STREAM payload '' @ itoa n @ '' != 4'') else None)
      else if t = FrameSettings then
        (if sid \<noteq> 0 then err (''SETTINGS on stream '' @ itoa (unat sid))
         else if f_Flags f AND FlagSettingsAck \<noteq> 0 \<and> n \<noteq> 0 then
           err (''SETTINGS ACK with '' @ itoa n @ '' bytes of payload'')
         else if f_Flags f AND FlagSettingsAck = 0 \<and> n mod 6 \<noteq> 0 then
           err (''SETTINGS payload '' @ itoa n @ '' not a multiple of 6'')
         else None)
      else if t = FramePing then
        (if sid \<noteq> 0 then err (''PING on stream '' @ itoa (unat sid))
         else if n \<noteq> 8 then err (''PING payload '' @ itoa n @ '' != 8'') else None)
      else if t = FrameGoAway then
        (if sid \<noteq> 0 then err (''GOAWAY on stream '' @ itoa (unat sid))
         else if n < 8 then err (''GOAWAY payload '' @ itoa n @ '' < 8'') else None)
      else if t = FrameWindowUpdate then
        (if n \<noteq> 4 then err (''WINDOW_UPDATE payload '' @ itoa n @ '' != 4'') else None)
      else if t = FrameContinuation then (if sid = 0 then err ''CONTINUATION on stream 0'' else None)
      else if t = FramePushPromise then (if sid = 0 then err ''PUSH_PROMISE on stream 0'' else None)
      else None)"

text \<open>What \<open>Parse\<close> cuts off the front of the buffer: the nine byte header, its limit
  check, then the payload.\<close>

definition split_frame :: "u32 \<Rightarrow> bytes \<Rightarrow> (frame, h2err) split_res" where
  "split_frame maxFrameSize buf =
     (case buf of
        l2 # l1 # l0 # t # fl # s3 # s2 # s1 # s0 # rest \<Rightarrow>
          (let len = get24 l2 l1 l0 in
           if len > maxFrameSize then
             Bad (Wrapped ErrFrameTooLarge (itoa (unat len) @ '' > '' @ itoa (unat maxFrameSize)))
           else if length buf < frameHeaderLen + unat len then NeedMore
           else Got \<lparr>f_Type = t, f_Flags = fl,
                     f_StreamID = get32 s3 s2 s1 s0 AND 0x7fffffff,
                     f_Payload = take (unat len) rest\<rparr> (frameHeaderLen + unat len))
      | _ \<Rightarrow> NeedMore)"

text \<open>The rest of the loop body: the two checks, the callback, and what the parser
  remembers of the frame once the callback has accepted it.\<close>

definition note_frame :: "frame_parser \<Rightarrow> frame \<Rightarrow> frame_parser" where
  "note_frame p f =
     p\<lparr>p_lastStreamID := f_StreamID f, p_lastType := f_Type f, p_haveLast := True,
       p_awaitingContinuation :=
         (if f_Type f = FrameHeaders \<or> f_Type f = FramePushPromise
          then f_Flags f AND FlagHeadersEndHeaders = 0
          else if f_Type f = FrameContinuation
          then f_Flags f AND FlagContinuationEndHeaders = 0
          else False)\<rparr>"

definition parse_step ::
  "('s \<Rightarrow> frame \<Rightarrow> 's \<times> h2err option) \<Rightarrow> frame_parser \<times> 's \<Rightarrow> frame \<Rightarrow> (frame_parser \<times> 's) \<times> h2err option" where
  "parse_step fn ps f =
     (case ps of (p, s) \<Rightarrow>
        (case checkContinuation p f of
           Some e \<Rightarrow> ((p, s), Some e)
         | None \<Rightarrow>
             (case checkFrameShape f of
                Some e \<Rightarrow> ((p, s), Some e)
              | None \<Rightarrow>
                  (case fn s f of
                     (s', Some e) \<Rightarrow> ((p, s'), Some e)
                   | (s', None) \<Rightarrow> ((note_frame p f, s'), None)))))"

definition Parse ::
  "frame_parser \<Rightarrow> ('s \<Rightarrow> frame \<Rightarrow> 's \<times> h2err option) \<Rightarrow> 's \<Rightarrow> bytes
   \<Rightarrow> nat \<times> h2err option \<times> frame_parser \<times> 's" where
  "Parse p fn s buf = frame_loop (split_frame (p_maxFrameSize p)) (parse_step fn) 0 (p, s) buf"

section \<open>Writing frames\<close>

definition AppendFrameHeader :: "bytes \<Rightarrow> FrameType \<Rightarrow> byte \<Rightarrow> u32 \<Rightarrow> nat \<Rightarrow> bytes" where
  "AppendFrameHeader dst ftype flags streamID len =
     dst @ put24n len @ [ftype, flags] @ put32 streamID"

definition AppendSettings :: "bytes \<Rightarrow> (u32 \<times> u32) list \<Rightarrow> bytes" where
  "AppendSettings dst settings =
     (let payload = concat (map (\<lambda>(ident, val). put16 (ucast ident) @ put32 val) settings)
      in AppendFrameHeader dst FrameSettings 0 0 (length payload) @ payload)"

definition AppendSettingsAck :: "bytes \<Rightarrow> bytes" where
  "AppendSettingsAck dst = AppendFrameHeader dst FrameSettings FlagSettingsAck 0 0"

definition AppendPing :: "bytes \<Rightarrow> bytes \<Rightarrow> bool \<Rightarrow> bytes" where
  "AppendPing dst dat ack =
     AppendFrameHeader dst FramePing (if ack then FlagPingAck else 0) 0 8 @ dat"

definition AppendGoAway :: "bytes \<Rightarrow> u32 \<Rightarrow> u32 \<Rightarrow> bytes \<Rightarrow> bytes" where
  "AppendGoAway dst lastStreamID code debug =
     AppendFrameHeader dst FrameGoAway 0 0 (8 + length debug)
     @ put32 lastStreamID @ put32 code @ debug"

definition AppendRSTStream :: "bytes \<Rightarrow> u32 \<Rightarrow> u32 \<Rightarrow> bytes" where
  "AppendRSTStream dst streamID code = AppendFrameHeader dst FrameRSTStream 0 streamID 4 @ put32 code"

definition AppendWindowUpdate :: "bytes \<Rightarrow> u32 \<Rightarrow> u32 \<Rightarrow> bytes" where
  "AppendWindowUpdate dst streamID inc =
     AppendFrameHeader dst FrameWindowUpdate 0 streamID 4 @ put32 inc"

definition AppendHeaders :: "bytes \<Rightarrow> u32 \<Rightarrow> bytes \<Rightarrow> bool \<Rightarrow> bool \<Rightarrow> bytes" where
  "AppendHeaders dst streamID blockFragment endStream endHeaders =
     (let flags = (if endStream then FlagHeadersEndStream else 0);
          flags = (if endHeaders then flags OR FlagHeadersEndHeaders else flags)
      in AppendFrameHeader dst FrameHeaders flags streamID (length blockFragment) @ blockFragment)"

definition AppendData :: "bytes \<Rightarrow> u32 \<Rightarrow> bytes \<Rightarrow> bool \<Rightarrow> bytes" where
  "AppendData dst streamID dat endStream =
     AppendFrameHeader dst FrameData (if endStream then FlagDataEndStream else 0) streamID (length dat) @ dat"

section \<open>The frame layer as a framing\<close>

definition enc_frame :: "frame \<Rightarrow> bytes" where
  "enc_frame f =
     AppendFrameHeader [] (f_Type f) (f_Flags f) (f_StreamID f) (length (f_Payload f)) @ f_Payload f"

definition frame_ok :: "u32 \<Rightarrow> frame \<Rightarrow> bool" where
  "frame_ok m f = (f_StreamID f < 2 ^ 31 \<and> length (f_Payload f) \<le> unat m \<and> m \<le> MaxFrameSize)"

lemma reserved_bit:
  assumes "(sid :: u32) < 2 ^ 31"
  shows "sid AND 0x7fffffff = sid"
proof -
  have m: "(0x7fffffff :: u32) = mask 31" by (simp add: mask_eq_exp_minus_1)
  have "k < 31" if "bit sid k" for k
    using bit_less_exp [OF assms, of k] that by force
  then show ?thesis unfolding m by (intro bit_word_eqI) (auto simp: bit_simps)
qed

lemma split_frame_header:
  assumes "n \<le> unat m" and "m \<le> MaxFrameSize" and "sid < 2 ^ 31" and "length p = n"
  shows "split_frame m (AppendFrameHeader [] t fl sid n @ p @ x) =
    Got \<lparr>f_Type = t, f_Flags = fl, f_StreamID = sid, f_Payload = p\<rparr> (frameHeaderLen + n)"
proof -
  have "n < 2 ^ 24" using assms(1,2) by (simp add: word_le_nat_alt)
  note len = get24_put24n [OF this]
  then have "\<not> get24 (word_of_nat (n div 65536)) (word_of_nat (n div 256)) (word_of_nat n) > m"
    using assms(1) by (simp add: word_less_nat_alt)
  then show ?thesis
    using assms(3,4)
    by (simp add: split_frame_def AppendFrameHeader_def put24n_def put32_def get32_put32 len
        reserved_bit Let_def)
qed

lemma length_AppendFrameHeader [simp]:
  "length (AppendFrameHeader dst t fl sid n) = length dst + frameHeaderLen"
  by (simp add: AppendFrameHeader_def)

lemma AppendFrameHeader_append: "AppendFrameHeader dst t fl sid n = dst @ AppendFrameHeader [] t fl sid n"
  by (simp add: AppendFrameHeader_def)

lemma split_enc_frame: "frame_ok m f \<Longrightarrow> split_frame m (enc_frame f @ x) = Got f (length (enc_frame f))"
  using split_frame_header [of "length (f_Payload f)" m "f_StreamID f" "f_Payload f" "f_Type f" "f_Flags f" x]
  by (simp add: enc_frame_def frame_ok_def)

lemma split_frame_nine:
  "split_frame m b \<noteq> NeedMore \<Longrightarrow>
   \<exists>l2 l1 l0 t fl s3 s2 s1 s0 rest. b = l2 # l1 # l0 # t # fl # s3 # s2 # s1 # s0 # rest"
  by (auto simp: split_frame_def split: list.splits)

lemma split_frame_GotD:
  assumes "split_frame m b = Got f n"
  shows "n = frameHeaderLen + length (f_Payload f) \<and> n \<le> length b \<and> length (f_Payload f) \<le> unat m
    \<and> f_StreamID f < 2 ^ 31"
proof -
  have "x AND 0x7fffffff < 2 ^ 31" for x :: u32
    using word_and_le1 [of x "0x7fffffff"] by (simp add: word_le_nat_alt word_less_nat_alt)
  with assms show ?thesis
    using split_frame_nine [of m b]
    by (auto simp: split_frame_def Let_def word_less_nat_alt split: if_splits)
qed

lemma split_frame_Got_append: "split_frame m b = Got u n \<Longrightarrow> split_frame m (b @ x) = Got u n"
  using split_frame_nine [of m b] by (auto simp: split_frame_def Let_def split: if_splits)

lemma split_frame_Bad_append: "split_frame m b = Bad e \<Longrightarrow> split_frame m (b @ x) = Bad e"
  using split_frame_nine [of m b] by (auto simp: split_frame_def Let_def split: if_splits)

interpretation h2: frame_codec "split_frame m" enc_frame "frame_ok m" for m
proof
  show "split_frame m [] = NeedMore" by (simp add: split_frame_def)
qed (auto dest: split_frame_GotD split_frame_Got_append split_frame_Bad_append split_enc_frame)

section \<open>What the parser keeps and what it delivers\<close>

lemma parse_step_max:
  "parse_step fn (p, s) f = ((p', s'), err) \<Longrightarrow> p_maxFrameSize p' = p_maxFrameSize p"
  by (auto simp: parse_step_def note_frame_def split: option.splits prod.splits)

lemma Parse_max:
  assumes "Parse p fn s b = (n, err, p', s')"
  shows "p_maxFrameSize p' = p_maxFrameSize p"
proof -
  have "p_maxFrameSize (fst (snd (snd (Parse p fn s b)))) = p_maxFrameSize p"
    unfolding Parse_def
  proof (rule h2.loop_preserves [where keep = "\<lambda>ps. p_maxFrameSize (fst ps) = p_maxFrameSize p"])
    fix ps f ps' err
    assume "p_maxFrameSize (fst ps) = p_maxFrameSize p" "parse_step fn ps f = (ps', err)"
    then show "p_maxFrameSize (fst ps') = p_maxFrameSize p"
      using parse_step_max [of fn "fst ps" "snd ps" f "fst ps'" "snd ps'" err] by simp
  qed simp
  with assms show ?thesis by simp
qed

text \<open>The discipline of header blocks, on a sequence of frames: behind a HEADERS,
  PUSH_PROMISE or CONTINUATION frame without END_HEADERS comes a CONTINUATION of
  the same stream, and a CONTINUATION comes directly behind one of these frames of
  its own stream.\<close>

definition opens_block :: "frame \<Rightarrow> bool" where
  "opens_block f =
     (f_Type f \<in> {FrameHeaders, FramePushPromise, FrameContinuation} \<and> f_Flags f AND 0x4 = 0)"

definition follows :: "frame \<Rightarrow> frame \<Rightarrow> bool" where
  "follows f g =
     ((opens_block f \<longrightarrow> f_Type g = FrameContinuation \<and> f_StreamID g = f_StreamID f) \<and>
      (f_Type g = FrameContinuation \<longrightarrow>
         f_Type f \<in> {FrameHeaders, FramePushPromise, FrameContinuation} \<and> f_StreamID g = f_StreamID f))"

fun contiguous :: "frame list \<Rightarrow> bool" where
  "contiguous [] = True"
| "contiguous [f] = True"
| "contiguous (f # g # fs) = (follows f g \<and> contiguous (g # fs))"

lemma contiguous_snoc:
  "contiguous (fs @ [f]) = (contiguous fs \<and> (fs \<noteq> [] \<longrightarrow> follows (last fs) f))"
  by (induction fs rule: contiguous.induct) auto

text \<open>The parser's memory is the last frame it delivered.\<close>

definition remembers :: "frame_parser \<Rightarrow> frame list \<Rightarrow> bool" where
  "remembers p fs =
     (if fs = [] then \<not> p_haveLast p \<and> \<not> p_awaitingContinuation p
      else p_haveLast p \<and> p_lastStreamID p = f_StreamID (last fs) \<and> p_lastType p = f_Type (last fs)
           \<and> p_awaitingContinuation p = opens_block (last fs))"

lemma note_frame_remembers: "remembers (note_frame p f) (fs @ [f])"
  by (simp add: remembers_def note_frame_def opens_block_def)

lemma checkContinuation_follows:
  assumes "checkContinuation p f = None" and "remembers p fs"
  shows "if fs = [] then f_Type f \<noteq> FrameContinuation else follows (last fs) f"
  using assms
  by (auto simp: checkContinuation_def remembers_def follows_def opens_block_def split: if_splits)

lemma parse_step_collect:
  assumes "parse_step collect (p, fs) f = ((p', fs'), err)"
    and "remembers p fs" and "contiguous fs" and "\<forall>g \<in> set fs. checkFrameShape g = None"
    and "fs \<noteq> [] \<Longrightarrow> f_Type (hd fs) \<noteq> FrameContinuation"
  shows "remembers p' fs' \<and> contiguous fs' \<and> (\<forall>g \<in> set fs'. checkFrameShape g = None)
    \<and> (fs' \<noteq> [] \<longrightarrow> f_Type (hd fs') \<noteq> FrameContinuation)"
proof (cases "checkContinuation p f = None \<and> checkFrameShape f = None")
  case True
  then have "p' = note_frame p f" "fs' = fs @ [f]"
    using assms(1) by (auto simp: parse_step_def collect_def)
  moreover have "if fs = [] then f_Type f \<noteq> FrameContinuation else follows (last fs) f"
    using True assms(2) by (intro checkContinuation_follows) auto
  ultimately show ?thesis
    using assms(3-5) True note_frame_remembers [of p f fs]
    by (simp add: contiguous_snoc hd_append split: if_splits)
next
  case False
  then have "p' = p" "fs' = fs"
    using assms(1) by (auto simp: parse_step_def split: option.splits)
  with assms show ?thesis by auto
qed

lemma Parse_collect:
  assumes "Parse NewFrameParser collect [] b = (n, err, p, fs)"
  shows "remembers p fs \<and> contiguous fs \<and> (\<forall>g \<in> set fs. checkFrameShape g = None)
    \<and> (fs \<noteq> [] \<longrightarrow> f_Type (hd fs) \<noteq> FrameContinuation)"
proof -
  let ?I = "\<lambda>ps. remembers (fst ps) (snd ps) \<and> contiguous (snd ps)
    \<and> (\<forall>g \<in> set (snd ps). checkFrameShape g = None)
    \<and> (snd ps \<noteq> [] \<longrightarrow> f_Type (hd (snd ps)) \<noteq> FrameContinuation)"
  have "?I (snd (snd (Parse NewFrameParser collect [] b)))"
    unfolding Parse_def
  proof (rule h2.loop_preserves [where keep = ?I])
    fix ps f ps' err
    assume "?I ps" "parse_step collect ps f = (ps', err)"
    then show "?I ps'"
      using parse_step_collect [of "fst ps" "snd ps" f "fst ps'" "snd ps'" err] by simp
  qed (simp add: remembers_def NewFrameParser_def)
  with assms show ?thesis by simp
qed

section \<open>Properties\<close>

text \<open>The contract of the non-blocking parser: parsing a buffer and, once more
  bytes have come, going on from the unconsumed rest gives the same callbacks, the
  same result and the same parser state as parsing the joined buffer at once; it
  never consumes more than it was given, and what it leaves without an error is an
  incomplete frame.\<close>

theorem Parse_resume:
  assumes "Parse p fn s a = (n, None, p', s')"
  shows "Parse p fn s (a @ b) =
      (case Parse p' fn s' (drop n a @ b) of (k, err, r) \<Rightarrow> (n + k, err, r))
    \<and> n \<le> length a \<and> split_frame (p_maxFrameSize p) (drop n a) = NeedMore"
proof -
  note run = assms [unfolded Parse_def]
  have "Parse p fn s (a @ b) =
      frame_loop (split_frame (p_maxFrameSize p)) (parse_step fn) n (p', s') (drop n a @ b)"
    using h2.loop_append [OF run, of b] by (simp add: Parse_def)
  also have "\<dots> = (case Parse p' fn s' (drop n a @ b) of (k, err, r) \<Rightarrow> (n + k, err, r))"
    by (subst h2.loop_offset) (simp add: Parse_def Parse_max [OF assms])
  finally show ?thesis using h2.loop_stop [OF run] by simp
qed

lemma Parse_resume_witness:
  "Parse NewFrameParser collect [] ([0, 0, 0] @ [4, 1, 0, 0, 0, 0]) =
      (case Parse NewFrameParser collect [] (drop 0 [0, 0, 0] @ [4, 1, 0, 0, 0, 0]) of
         (k, err, r) \<Rightarrow> (0 + k, err, r))
    \<and> 0 \<le> length [0, 0, 0 :: byte] \<and> split_frame (p_maxFrameSize NewFrameParser) (drop 0 [0, 0, 0]) = NeedMore"
  by (rule Parse_resume) (simp add: Parse_def frame_loop.simps split_frame_def)

text \<open>C24. However the bytes of a connection are cut into reads, a sequence of frames
  within the limits reaches the checks and the callback frame by frame, in order,
  each exactly once, up to the first frame one of them refuses.\<close>

theorem frames_delivered:
  assumes "\<forall>f \<in> set fs. frame_ok (p_maxFrameSize p) f"
    and "split_frame (p_maxFrameSize p) r = NeedMore"
    and "concat ds = concat (map enc_frame fs) @ r"
  shows "snd (feed_chunks (split_frame (p_maxFrameSize p)) (parse_step fn) [] (p, s) ds)
      = run_units (parse_step fn) (p, s) fs
    \<and> snd (Parse p fn s (concat ds)) = run_units (parse_step fn) (p, s) fs"
  using h2.feed_chunks_enc [OF assms] h2.loop_enc [OF assms(1,2), of "parse_step fn" 0 "(p, s)"] assms(3)
  by (simp add: Parse_def)

lemma frames_delivered_witness:
  "snd (feed_chunks (split_frame (p_maxFrameSize NewFrameParser)) (parse_step collect) [] (NewFrameParser, [])
      [[0, 0, 4, 3], [0, 0, 0, 0, 5, 0, 0], [0, 8, 0]])
      = run_units (parse_step collect) (NewFrameParser, [])
          [\<lparr>f_Type = 3, f_Flags = 0, f_StreamID = 5, f_Payload = [0, 0, 0, 8]\<rparr>]
    \<and> snd (Parse NewFrameParser collect [] (concat [[0, 0, 4, 3], [0, 0, 0, 0, 5, 0, 0], [0, 8, 0]]))
      = run_units (parse_step collect) (NewFrameParser, [])
          [\<lparr>f_Type = 3, f_Flags = 0, f_StreamID = 5, f_Payload = [0, 0, 0, 8]\<rparr>]"
  by (rule frames_delivered [where r = "[0]"])
    (simp_all add: NewFrameParser_def frame_ok_def enc_frame_def AppendFrameHeader_def put24n_def
      put32_def split_frame_def)





end
