(* ===== verification/H2_Headers.thy ===== *)
theory H2_Headers
  imports Prelude
begin

text \<open>
  Header blocks of HTTP/2: the validation of request headers and of
  \<open>content-length\<close> (\<^verbatim>\<open>src/http2/headers_validate.go\<close>) and the wrapper around the
  HPACK coder (\<^verbatim>\<open>src/http2/hpack.go\<close>). The coder itself, golang.org/x/net/http2/hpack,
  is a parameter.
\<close>

section \<open>Header fields\<close>

text \<open>\<open>hpack.HeaderField\<close>, as far as this repository reads it.\<close>

record HeaderField =
  Name :: string
  Value :: string

section \<open>Go's strings and strconv\<close>

text \<open>\<open>strings.TrimSpace\<close> strips Unicode white space; these are the UTF-8 encodings of
  its code points.\<close>

definition space_encodings :: "string list" where
  "space_encodings =
     map (\<lambda>n. [char_of (n :: nat)]) [9, 10, 11, 12, 13, 32]
     @ map (map char_of)
       ([[194, 133], [194, 160], [225, 154, 128]]
        @ map (\<lambda>n. [226, 128, n]) [128, 129, 130, 131, 132, 133, 134, 135, 136, 137, 138, 168, 169, 175]
        @ [[226, 129, 159], [227, 128, 128 :: nat]])"

definition strip_prefix :: "string \<Rightarrow> string \<Rightarrow> string option" where
  "strip_prefix p s = (if p = take (length p) s then Some (drop (length p) s) else None)"

fun first_some :: "('a \<Rightarrow> 'b option) \<Rightarrow> 'a list \<Rightarrow> 'b option" where
  "first_some f [] = None"
| "first_some f (x # xs) = (case f x of Some y \<Rightarrow> Some y | None \<Rightarrow> first_some f xs)"

function trim_left :: "string list \<Rightarrow> string \<Rightarrow> string" where
  "trim_left sp s =
     (case first_some (\<lambda>p. strip_prefix p s) sp of
        None \<Rightarrow> s
      | Some t \<Rightarrow> if length t < length s then trim_left sp t else s)"
  by pat_completeness auto
termination by (relation "measure (\<lambda>(sp, s). length s)") auto

declare trim_left.simps [simp del]

definition TrimSpace :: "string \<Rightarrow> string" where
  "TrimSpace s = rev (trim_left (map rev space_encodings) (rev (trim_left space_encodings s)))"

section \<open>Validation\<close>

definition is_upper :: "char \<Rightarrow> bool" where
  "is_upper c = (65 \<le> (of_char c :: nat) \<and> (of_char c :: nat) \<le> 90)"

text \<open>What the loop of \<open>validateHeaderSyntax\<close> carries along.\<close>

record syntax_state =
  seenRegular :: bool
  seenPseudo :: "string list"
  hasMethod :: bool
  hasScheme :: bool
  hasPath :: bool
  hasStatus :: bool

definition syntax_init :: syntax_state where
  "syntax_init = \<lparr>seenRegular = False, seenPseudo = [], hasMethod = False, hasScheme = False,
     hasPath = False, hasStatus = False\<rparr>"

text \<open>The \<open>switch\<close> over a pseudo-header's name.\<close>

definition check_pseudo :: "HeaderField \<Rightarrow> syntax_state \<Rightarrow> string + syntax_state" where
  "check_pseudo f st =
     (let name = Name f in
      if name = '':method'' then Inr (st\<lparr>hasMethod := True\<rparr>)
      else if name = '':scheme'' then Inr (st\<lparr>hasScheme := True\<rparr>)
      else if name = '':path'' then
        (if Value f = '''' then Inl ''empty :path'' else Inr (st\<lparr>hasPath := True\<rparr>))
      else if name = '':authority'' then Inr st
      else if name = '':status'' then Inr (st\<lparr>hasStatus := True\<rparr>)
      else if name = '':protocol'' then Inl ''unsupported pseudo-header :protocol''
      else Inl (''unknown pseudo-header '' @ name))"

text \<open>The \<open>switch\<close> over a regular header's name.\<close>

definition check_regular :: "HeaderField \<Rightarrow> syntax_state \<Rightarrow> string + syntax_state" where
  "check_regular f st =
     (let name = Name f; st = st\<lparr>seenRegular := True\<rparr> in
      if name \<in> {''connection'', ''keep-alive'', ''proxy-connection'', ''transfer-encoding'', ''upgrade''}
      then Inl (''connection-specific header: '' @ name)
      else if name = ''te'' then
        (if TrimSpace (Value f) \<noteq> ''trailers''
         then Inl (''TE with value other than trailers: '' @ Value f) else Inr st)
      else Inr st)"

definition check_field :: "HeaderField \<Rightarrow> syntax_state \<Rightarrow> string + syntax_state" where
  "check_field f st =
     (let name = Name f in
      if length name = 0 then Inl ''empty header name''
      else if list_ex is_upper name then Inl (''header name contains uppercase: '' @ name)
      else if hd name = CHR '':'' then
        (if seenRegular st then Inl (''pseudo-header '' @ name @ '' after regular headers'')
         else if name \<in> set (seenPseudo st) then Inl (''duplicate pseudo-header '' @ name)
         else check_pseudo f (st\<lparr>seenPseudo := name # seenPseudo st\<rparr>))
      else check_regular f st)"

fun syntax_loop :: "HeaderField list \<Rightarrow> syntax_state \<Rightarrow> string + syntax_state" where
  "syntax_loop [] st = Inr st"
| "syntax_loop (f # fs) st =
     (case check_field f st of Inl e \<Rightarrow> Inl e | Inr st' \<Rightarrow> syntax_loop fs st')"

text \<open>The six results of \<open>validateHeaderSyntax\<close>: \<open>isTrailer\<close> (always false), the
  error message (empty when valid), and which pseudo-headers were seen.\<close>

definition validateHeaderSyntax ::
  "HeaderField list \<Rightarrow> bool \<times> string \<times> bool \<times> bool \<times> bool \<times> bool" where
  "validateHeaderSyntax flds =
     (case syntax_loop flds syntax_init of
        Inl e \<Rightarrow> (False, e, False, False, False, False)
      | Inr st \<Rightarrow> (False, '''', hasMethod st, hasScheme st, hasPath st, hasStatus st))"

definition validateRequestHeaders :: "HeaderField list \<Rightarrow> bool \<times> string" where
  "validateRequestHeaders flds =
     (case validateHeaderSyntax flds of
        (isTrailer, errMsg, m, s, p, st) \<Rightarrow>
          if errMsg \<noteq> '''' then (isTrailer, errMsg)
          else if st then (False, '':status in a request'')
          else if \<not> m then (False, ''missing :method'')
          else if \<not> s then (False, ''missing :scheme'')
          else if \<not> p then (False, ''missing :path'')
          else (False, ''''))"

text \<open>The loop of \<open>contentLengthOf\<close>, with \<open>val\<close> and \<open>seen\<close>.\<close>

fun content_length_loop :: "HeaderField list \<Rightarrow> int \<Rightarrow> bool \<Rightarrow> int \<times> bool \<times> string" where
  "content_length_loop [] val seen = (val, seen, '''')"
| "content_length_loop (f # fs) val seen =
     (if Name f \<noteq> ''content-length'' then content_length_loop fs val seen
      else if seen then (0, False, ''duplicate content-length'')
      else let s = TrimSpace (Value f) in
        if s = '''' then (0, False, ''empty content-length'')
        else case ParseInt64 s of
            None \<Rightarrow> (0, False, ''malformed content-length: '' @ Value f)
          | Some n \<Rightarrow>
              if n < 0 then (0, False, ''malformed content-length: '' @ Value f)
              else content_length_loop fs n True)"

definition contentLengthOf :: "HeaderField list \<Rightarrow> int \<times> bool \<times> string" where
  "contentLengthOf flds = content_length_loop flds 0 False"

section \<open>The HPACK wrapper\<close>

text \<open>x/net/http2/hpack: a decoder whose \<open>Write\<close> emits the fields it completes and may
  fail, whose \<open>Close\<close> fails on a truncated block, and an encoder whose \<open>WriteField\<close>
  appends to the buffer. Errors are their texts.\<close>

record ('d, 'e) hpack =
  NewDecoder :: "u32 \<Rightarrow> 'd"
  dec_Write :: "'d \<Rightarrow> bytes \<Rightarrow> 'd \<times> HeaderField list \<times> string option"
  dec_Close :: "'d \<Rightarrow> 'd \<times> string option"
  dec_SetMax :: "'d \<Rightarrow> u32 \<Rightarrow> 'd"
  NewEncoder :: "'e"
  enc_WriteField :: "'e \<Rightarrow> HeaderField \<Rightarrow> 'e \<times> bytes \<times> string option"
  enc_SetMax :: "'e \<Rightarrow> u32 \<Rightarrow> 'e"

abbreviation defaultHeaderTableSize :: u32 where "defaultHeaderTableSize \<equiv> 4096"

definition newHpackDecoder :: "('d, 'e) hpack \<Rightarrow> 'd" where
  "newHpackDecoder hp = NewDecoder hp defaultHeaderTableSize"

text \<open>\<open>Decode\<close>: write the block, then close; the fields are those the callback
  \<open>onField\<close> collected (its error stays nil).\<close>

definition Decode :: "('d, 'e) hpack \<Rightarrow> 'd \<Rightarrow> bytes \<Rightarrow> 'd \<times> (string + HeaderField list)" where
  "Decode hp d block =
     (case dec_Write hp d block of
        (d', cur, Some err) \<Rightarrow> (d', Inl err)
      | (d', cur, None) \<Rightarrow>
          (case dec_Close hp d' of
             (d'', Some err) \<Rightarrow> (d'', Inl err)
           | (d'', None) \<Rightarrow> (d'', Inr cur)))"

fun encode_loop :: "('d, 'e) hpack \<Rightarrow> 'e \<Rightarrow> bytes \<Rightarrow> HeaderField list \<Rightarrow> 'e \<times> (string + bytes)" where
  "encode_loop hp e buf [] = (e, Inr buf)"
| "encode_loop hp e buf (f # fs) =
     (case enc_WriteField hp e f of
        (e', out, Some err) \<Rightarrow> (e', Inl err)
      | (e', out, None) \<Rightarrow> encode_loop hp e' (buf @ out) fs)"

definition Encode :: "('d, 'e) hpack \<Rightarrow> 'e \<Rightarrow> HeaderField list \<Rightarrow> 'e \<times> (string + bytes)" where
  "Encode hp e flds = encode_loop hp e [] flds"

section \<open>What a valid request is\<close>

definition is_pseudo :: "HeaderField \<Rightarrow> bool" where
  "is_pseudo f = (Name f \<noteq> [] \<and> hd (Name f) = CHR '':'')"

definition connection_specific :: "string list" where
  "connection_specific =
     [''connection'', ''keep-alive'', ''proxy-connection'', ''transfer-encoding'', ''upgrade'']"

text \<open>RFC 9113, section 8.3, as a predicate on the whole field list: lower-case
  non-empty names; the pseudo-headers in front, known, each once, the path not
  empty; no connection-specific header; TE only as "trailers".\<close>

definition syntax_ok :: "HeaderField list \<Rightarrow> bool" where
  "syntax_ok fs =
     ((\<forall>f \<in> set fs. Name f \<noteq> [] \<and> \<not> list_ex is_upper (Name f)) \<and>
      (\<exists>ps rs. fs = ps @ rs \<and> (\<forall>f \<in> set ps. is_pseudo f) \<and> (\<forall>f \<in> set rs. \<not> is_pseudo f)) \<and>
      distinct (map Name (filter is_pseudo fs)) \<and>
      (\<forall>f \<in> set fs. is_pseudo f \<longrightarrow>
         Name f \<in> {'':method'', '':scheme'', '':path'', '':authority'', '':status''}) \<and>
      (\<forall>f \<in> set fs. Name f = '':path'' \<longrightarrow> Value f \<noteq> []) \<and>
      (\<forall>f \<in> set fs. Name f \<notin> set connection_specific) \<and>
      (\<forall>f \<in> set fs. Name f = ''te'' \<longrightarrow> TrimSpace (Value f) = ''trailers''))"

definition request_ok :: "HeaderField list \<Rightarrow> bool" where
  "request_ok fs =
     (syntax_ok fs \<and> {'':method'', '':scheme'', '':path''} \<subseteq> Name ` set fs \<and> '':status'' \<notin> Name ` set fs)"

section \<open>Lemmas\<close>

text \<open>One field: what it must satisfy by itself, and what it does to the state.\<close>

definition field_ok :: "HeaderField \<Rightarrow> bool" where
  "field_ok f =
     (Name f \<noteq> [] \<and> \<not> list_ex is_upper (Name f) \<and>
      (is_pseudo f \<longrightarrow> Name f \<in> {'':method'', '':scheme'', '':path'', '':authority'', '':status''}) \<and>
      (Name f = '':path'' \<longrightarrow> Value f \<noteq> []) \<and>
      Name f \<notin> set connection_specific \<and>
      (Name f = ''te'' \<longrightarrow> TrimSpace (Value f) = ''trailers''))"

definition note_field :: "HeaderField \<Rightarrow> syntax_state \<Rightarrow> syntax_state" where
  "note_field f st =
     (if is_pseudo f then
        st\<lparr>seenPseudo := Name f # seenPseudo st,
           hasMethod := (hasMethod st \<or> Name f = '':method''),
           hasScheme := (hasScheme st \<or> Name f = '':scheme''),
           hasPath := (hasPath st \<or> Name f = '':path''),
           hasStatus := (hasStatus st \<or> Name f = '':status'')\<rparr>
      else st\<lparr>seenRegular := True\<rparr>)"

lemma check_field_iff:
  "check_field f st = Inr st' \<longleftrightarrow>
     field_ok f \<and> (is_pseudo f \<longrightarrow> \<not> seenRegular st \<and> Name f \<notin> set (seenPseudo st)) \<and> st' = note_field f st"
proof (cases "Name f = [] \<or> list_ex is_upper (Name f)")
  case True
  then show ?thesis by (auto simp: check_field_def field_ok_def Let_def)
next
  case False
  show ?thesis
  proof (cases "is_pseudo f")
    case True
    then have "Name f \<notin> set connection_specific" "Name f \<noteq> ''te''"
      by (auto simp: is_pseudo_def connection_specific_def)
    with False True show ?thesis
      by (auto simp: check_field_def check_pseudo_def field_ok_def note_field_def is_pseudo_def Let_def)
  next
    case pseudo: False
    then have "Name f \<noteq> '':path''" by (auto simp: is_pseudo_def)
    with False pseudo show ?thesis
      by (auto simp: check_field_def check_regular_def field_ok_def note_field_def is_pseudo_def
          connection_specific_def Let_def)
  qed
qed

text \<open>Pseudo-headers in front, as the loop sees it.\<close>

fun pseudo_first :: "bool \<Rightarrow> HeaderField list \<Rightarrow> bool" where
  "pseudo_first regular [] = True"
| "pseudo_first regular (f # fs) =
     (if is_pseudo f then \<not> regular \<and> pseudo_first False fs else pseudo_first True fs)"

lemma pseudo_first_True: "pseudo_first True fs = (\<forall>f \<in> set fs. \<not> is_pseudo f)"
  by (induction fs) auto

lemma pseudo_first_split:
  "pseudo_first False fs =
     (\<exists>ps rs. fs = ps @ rs \<and> (\<forall>f \<in> set ps. is_pseudo f) \<and> (\<forall>f \<in> set rs. \<not> is_pseudo f))"
proof (induction fs)
  case (Cons f fs)
  show ?case
  proof (cases "is_pseudo f")
    case True
    have "(\<exists>ps rs. f # fs = ps @ rs \<and> (\<forall>f \<in> set ps. is_pseudo f) \<and> (\<forall>f \<in> set rs. \<not> is_pseudo f)) =
        (\<exists>ps rs. fs = ps @ rs \<and> (\<forall>f \<in> set ps. is_pseudo f) \<and> (\<forall>f \<in> set rs. \<not> is_pseudo f))"
    proof
      assume "\<exists>ps rs. fs = ps @ rs \<and> (\<forall>f \<in> set ps. is_pseudo f) \<and> (\<forall>f \<in> set rs. \<not> is_pseudo f)"
      then obtain ps rs where "f # fs = (f # ps) @ rs" "\<forall>f \<in> set (f # ps). is_pseudo f"
          "\<forall>f \<in> set rs. \<not> is_pseudo f"
        using True by auto
      then show "\<exists>ps rs. f # fs = ps @ rs \<and> (\<forall>f \<in> set ps. is_pseudo f) \<and> (\<forall>f \<in> set rs. \<not> is_pseudo f)"
        by blast
    next
      assume "\<exists>ps rs. f # fs = ps @ rs \<and> (\<forall>f \<in> set ps. is_pseudo f) \<and> (\<forall>f \<in> set rs. \<not> is_pseudo f)"
      then show "\<exists>ps rs. fs = ps @ rs \<and> (\<forall>f \<in> set ps. is_pseudo f) \<and> (\<forall>f \<in> set rs. \<not> is_pseudo f)"
        using True by (auto simp: Cons_eq_append_conv) blast
    qed
    with True Cons show ?thesis by simp
  next
    case False
    then show ?thesis
      by (auto simp: pseudo_first_True Cons_eq_append_conv intro: exI [of _ "[]"])
  qed
qed simp

lemma syntax_loop_iff:
  "syntax_loop fs st = Inr st' \<longleftrightarrow>
     (\<forall>f \<in> set fs. field_ok f) \<and> pseudo_first (seenRegular st) fs \<and>
     distinct (map Name (filter is_pseudo fs)) \<and>
     (\<forall>f \<in> set fs. is_pseudo f \<longrightarrow> Name f \<notin> set (seenPseudo st)) \<and> st' = fold note_field fs st"
proof (induction fs arbitrary: st)
  case (Cons f fs)
  show ?case
  proof (cases "check_field f st")
    case (Inl e)
    then have "\<not> (field_ok f \<and> (is_pseudo f \<longrightarrow> \<not> seenRegular st \<and> Name f \<notin> set (seenPseudo st)))"
      using check_field_iff [of f st "note_field f st"] by auto
    with Inl show ?thesis by (auto split: if_splits)
  next
    case (Inr st1)
    note ok = iffD1 [OF check_field_iff Inr]
    have seen: "seenRegular (note_field f st) = (seenRegular st \<or> \<not> is_pseudo f)"
        "seenPseudo (note_field f st) = (if is_pseudo f then [Name f] else []) @ seenPseudo st"
      by (simp_all add: note_field_def)
    show ?thesis
      using Inr ok by (cases "is_pseudo f") (auto simp: Cons.IH seen image_iff)
  qed
qed auto

lemma fold_note_field:
  "hasMethod (fold note_field fs st) = (hasMethod st \<or> '':method'' \<in> Name ` set fs)"
  "hasScheme (fold note_field fs st) = (hasScheme st \<or> '':scheme'' \<in> Name ` set fs)"
  "hasPath (fold note_field fs st) = (hasPath st \<or> '':path'' \<in> Name ` set fs)"
  "hasStatus (fold note_field fs st) = (hasStatus st \<or> '':status'' \<in> Name ` set fs)"
  by (induction fs arbitrary: st)
    (auto simp: note_field_def is_pseudo_def dest: arg_cong [where f = hd])

lemma syntax_loop_ok:
  "(\<exists>st. syntax_loop fs syntax_init = Inr st) = syntax_ok fs"
  unfolding syntax_loop_iff syntax_ok_def pseudo_first_split [symmetric] field_ok_def
  by (auto simp: syntax_init_def)

lemma check_field_message: "check_field f st = Inl e \<Longrightarrow> e \<noteq> []"
  by (auto simp: check_field_def check_pseudo_def check_regular_def Let_def split: if_splits)

lemma syntax_loop_message: "syntax_loop fs st = Inl e \<Longrightarrow> e \<noteq> []"
  by (induction fs arbitrary: st) (auto split: sum.splits dest: check_field_message)

lemma validate_iff:
  "(snd (validateRequestHeaders fs) = '''') = request_ok fs"
proof (cases "syntax_loop fs syntax_init")
  case (Inl e)
  then have "\<not> syntax_ok fs" using syntax_loop_ok [of fs] by auto
  with Inl syntax_loop_message [OF Inl] show ?thesis
    by (auto simp: validateRequestHeaders_def validateHeaderSyntax_def request_ok_def)
next
  case (Inr st)
  then have "st = fold note_field fs syntax_init" "syntax_ok fs"
    using syntax_loop_ok [of fs] by (auto simp: syntax_loop_iff)
  then show ?thesis
    by (simp add: validateRequestHeaders_def validateHeaderSyntax_def request_ok_def Inr)
      (simp add: fold_note_field syntax_init_def)
qed

section \<open>Properties\<close>

text \<open>C25. A request's header block is accepted exactly when it satisfies RFC 9113,
  section 8.3, as a whole: lower-case names, known and distinct pseudo-headers in
  front of all others, \<open>:method\<close>, \<open>:scheme\<close> and a non-empty \<open>:path\<close> present, no
  \<open>:status\<close>, no connection-specific header and TE only as "trailers".\<close>

theorem validateRequestHeaders_iff:
  "(snd (validateRequestHeaders fs) = '''') = request_ok fs"
  by (rule validate_iff)

text \<open>The values of all content-length fields, in order.\<close>

definition content_lengths :: "HeaderField list \<Rightarrow> string list" where
  "content_lengths fs = map Value (filter (\<lambda>f. Name f = ''content-length'') fs)"

definition length_value :: "string \<Rightarrow> int option" where
  "length_value v =
     (if TrimSpace v = '''' then None
      else case ParseInt64 (TrimSpace v) of Some n \<Rightarrow> if n < 0 then None else Some n | None \<Rightarrow> None)"

lemma content_length_loop_seen:
  "content_length_loop fs val True =
     (if content_lengths fs = [] then (val, True, '''') else (0, False, ''duplicate content-length''))"
  by (induction fs) (auto simp: content_lengths_def)

lemma content_length_loop_cases:
  "(case content_lengths fs of
      [] \<Rightarrow> contentLengthOf fs = (0, False, '''')
    | v # vs \<Rightarrow>
        (case length_value v of
           None \<Rightarrow> fst (contentLengthOf fs) = 0 \<and> \<not> fst (snd (contentLengthOf fs)) \<and> snd (snd (contentLengthOf fs)) \<noteq> ''''
         | Some n \<Rightarrow> contentLengthOf fs = (if vs = [] then (n, True, '''') else (0, False, ''duplicate content-length''))))"
  unfolding contentLengthOf_def
proof (induction fs)
  case (Cons f fs)
  show ?case
  proof (cases "Name f = ''content-length''")
    case True
    then show ?thesis
      by (auto simp: content_lengths_def length_value_def Let_def content_length_loop_seen split: option.splits)
  next
    case False
    then have "content_lengths (f # fs) = content_lengths fs"
        "content_length_loop (f # fs) 0 False = content_length_loop fs 0 False"
      by (simp_all add: content_lengths_def)
    with Cons show ?thesis by (simp only:)
  qed
qed (simp add: content_lengths_def)

text \<open>A declared length is taken only from exactly one content-length field whose
  trimmed value is a non-negative 64-bit decimal; no such field means "not declared";
  a second field, an empty or a malformed value is an error, never a length.\<close>

theorem contentLengthOf_spec:
  "(contentLengthOf fs = (n, True, '''')) = (\<exists>v. content_lengths fs = [v] \<and> length_value v = Some n)
   \<and> (contentLengthOf fs = (n, False, '''')) = (content_lengths fs = [] \<and> n = 0)
   \<and> (snd (snd (contentLengthOf fs)) \<noteq> '''') =
       (\<exists>v vs. content_lengths fs = v # vs \<and> \<not> (vs = [] \<and> length_value v \<noteq> None))"
  using content_length_loop_cases [of fs]
  by (auto split: list.splits option.splits if_splits)

end
