(* ===== verification/H2_Conn.thy ===== *)
theory H2_Conn
  imports H2_Frame H2_Headers
begin

text \<open>
  The HTTP/2 connection, \<^verbatim>\<open>src/http2/conn.go\<close>: its state, the stream table and the
  sending half (header blocks, flow-controlled data, the queue of data waiting for
  window). The receiving half is in H2_Recv.

  A Go \<open>*Stream\<close> is a record in the map \<open>c_streams\<close>; \<open>s_ref\<close> is the identity of the
  object, so that a pointer held across a callback, which may close the stream or
  replace it, is \<open>load\<close>ed and \<open>store\<close>d through its identity. The mutex \<open>c.mu\<close> makes
  each operation below one step; int32 windows are integers kept in range by
  \<open>wrap32\<close>.
\<close>

section \<open>State\<close>

datatype connState = statePreface | stateSettings | stateOpen | stateClosed

datatype StreamState = StreamIdle | StreamOpen | StreamHalfClosedRemote | StreamHalfClosedLocal | StreamClosed

record stream =
  s_ID :: u32
  s_ref :: nat
  s_state :: StreamState
  s_headers :: "HeaderField list"
  s_remoteEnded :: bool
  s_localEnded :: bool
  s_sendWindow :: int32
  s_recvWindow :: int32
  s_expectContentLength :: int
  s_recvBodyLen :: int

record pendingData =
  pd_streamID :: u32
  pd_data :: bytes
  pd_endStream :: bool

record pending_headers =
  ph_streamID :: u32
  ph_block :: bytes
  ph_endStream :: bool
  ph_active :: bool

record ('d, 'e) conn =
  c_outBuf :: bytes
  c_encoder :: 'e
  c_parser :: frame_parser
  c_dec :: 'd
  c_prefaceBuf :: bytes
  c_state :: connState
  c_nextStreamID :: u32
  c_isClient :: bool
  c_streams :: "u32 \<rightharpoonup> stream"
  c_nextRef :: nat
  c_pendingHeaders :: pending_headers
  c_peerMaxFrameSize :: u32
  c_peerHeaderTable :: u32
  c_peerInitialWindow :: u32
  c_sendWindow :: int32
  c_recvWindow :: int32
  c_localInitialWindow :: int32
  c_pending :: "pendingData list"
  c_goAway :: bool
  c_goAwayCode :: ErrCode
  c_lastStreamID :: u32
  c_maxPeerStreamID :: u32

abbreviation maxRecvWindow :: int32 where "maxRecvWindow \<equiv> 1048576"
abbreviation defaultInitialWindowSize :: u32 where "defaultInitialWindowSize \<equiv> 65535"

definition clientPreface :: bytes where
  "clientPreface = bytes_of_string ''PRI * HTTP/2.0'' @ [13, 10, 13, 10] @ bytes_of_string ''SM'' @ [13, 10, 13, 10]"

definition NewConn :: "('d, 'e) hpack \<Rightarrow> bool \<Rightarrow> ('d, 'e) conn" where
  "NewConn hp isClient =
     \<lparr>c_outBuf = [], c_encoder = NewEncoder hp, c_parser = NewFrameParser, c_dec = newHpackDecoder hp,
      c_prefaceBuf = [], c_state = (if isClient then stateOpen else statePreface),
      c_nextStreamID = (if isClient then 1 else 2), c_isClient = isClient,
      c_streams = Map.empty, c_nextRef = 0,
      c_pendingHeaders = \<lparr>ph_streamID = 0, ph_block = [], ph_endStream = False, ph_active = False\<rparr>,
      c_peerMaxFrameSize = defaultMaxFrameSize, c_peerHeaderTable = defaultHeaderTableSize,
      c_peerInitialWindow = defaultInitialWindowSize,
      c_sendWindow = 65535, c_recvWindow = 65535, c_localInitialWindow = 65535,
      c_pending = [], c_goAway = False, c_goAwayCode = 0, c_lastStreamID = 0, c_maxPeerStreamID = 0\<rparr>"

section \<open>Streams\<close>

text \<open>\<open>c.stream(id)\<close>: the stream, created if there is none.\<close>

definition stream :: "('d, 'e) conn \<Rightarrow> u32 \<Rightarrow> ('d, 'e) conn \<times> stream" where
  "stream c sid =
     (case c_streams c sid of
        Some s \<Rightarrow> (c, s)
      | None \<Rightarrow>
          (let s = \<lparr>s_ID = sid, s_ref = c_nextRef c, s_state = StreamOpen, s_headers = [],
                    s_remoteEnded = False, s_localEnded = False,
                    s_sendWindow = wrap32 (uint (c_peerInitialWindow c)),
                    s_recvWindow = c_localInitialWindow c,
                    s_expectContentLength = -1, s_recvBodyLen = 0\<rparr>
           in (c\<lparr>c_streams := (c_streams c)(sid \<mapsto> s), c_nextRef := c_nextRef c + 1\<rparr>, s)))"

text \<open>A pointer to a stream after other code has run: the object in the map if it is
  still that one, otherwise the detached object, which nobody else can reach.\<close>

definition load :: "('d, 'e) conn \<Rightarrow> stream \<Rightarrow> stream" where
  "load c s = (case c_streams c (s_ID s) of
      Some t \<Rightarrow> if s_ref t = s_ref s then t else s | None \<Rightarrow> s)"

definition store :: "('d, 'e) conn \<Rightarrow> stream \<Rightarrow> ('d, 'e) conn" where
  "store c s = (case c_streams c (s_ID s) of
      Some t \<Rightarrow> if s_ref t = s_ref s then c\<lparr>c_streams := (c_streams c)(s_ID s \<mapsto> s)\<rparr> else c
    | None \<Rightarrow> c)"

definition forgetStream :: "('d, 'e) conn \<Rightarrow> u32 \<Rightarrow> ('d, 'e) conn" where
  "forgetStream c sid = c\<lparr>c_streams := (c_streams c)(sid := None)\<rparr>"

definition GetStream :: "('d, 'e) conn \<Rightarrow> u32 \<Rightarrow> stream option" where
  "GetStream c sid = c_streams c sid"

definition CloseStream :: "('d, 'e) conn \<Rightarrow> u32 \<Rightarrow> ('d, 'e) conn" where
  "CloseStream c sid = c\<lparr>c_streams := (c_streams c)(sid := None)\<rparr>"

definition NewStreamID :: "('d, 'e) conn \<Rightarrow> ('d, 'e) conn \<times> u32" where
  "NewStreamID c =
     (let sid = c_nextStreamID c; c = c\<lparr>c_nextStreamID := c_nextStreamID c + 2\<rparr>
      in (fst (stream c sid), sid))"

section \<open>The output buffer\<close>

definition writeFrame :: "('d, 'e) conn \<Rightarrow> bytes \<Rightarrow> ('d, 'e) conn" where
  "writeFrame c b = c\<lparr>c_outBuf := c_outBuf c @ b\<rparr>"

abbreviation writeFrameLocked :: "('d, 'e) conn \<Rightarrow> bytes \<Rightarrow> ('d, 'e) conn" where
  "writeFrameLocked \<equiv> writeFrame"

definition takeOutput :: "('d, 'e) conn \<Rightarrow> ('d, 'e) conn \<times> bytes" where
  "takeOutput c = (c\<lparr>c_outBuf := []\<rparr>, c_outBuf c)"

definition WriteRaw :: "('d, 'e) conn \<Rightarrow> bytes \<Rightarrow> ('d, 'e) conn" where
  "WriteRaw c b = c\<lparr>c_outBuf := c_outBuf c @ b\<rparr>"

definition sendGoAway :: "('d, 'e) conn \<Rightarrow> ErrCode \<Rightarrow> string \<Rightarrow> ('d, 'e) conn \<times> bytes" where
  "sendGoAway c code debug =
     (let c = c\<lparr>c_state := stateClosed, c_goAway := True\<rparr>;
          buf = AppendGoAway [] (c_lastStreamID c) code (bytes_of_string debug)
      in (c\<lparr>c_outBuf := []\<rparr>, c_outBuf c @ buf))"

section \<open>Sending header blocks\<close>

definition boolToFlag :: "bool \<Rightarrow> byte \<Rightarrow> byte" where
  "boolToFlag b f = (if b then f else 0)"

text \<open>The \<open>for len(block) > 0\<close> loop of \<open>writeHeaderBlock\<close>. A peer's frame size is never
  0 (\<open>conn_ok\<close> below), so a round always takes bytes and the last branch is not taken.\<close>

function continuation_loop :: "nat \<Rightarrow> u32 \<Rightarrow> bytes \<Rightarrow> bytes \<Rightarrow> bytes" where
  "continuation_loop mx sid buf block =
     (if block = [] then buf
      else let n = (if length block < mx then length block else mx);
               lst = (n = length block);
               buf = AppendFrameHeader buf FrameContinuation
                       (boolToFlag lst FlagContinuationEndHeaders) sid n @ take n block
           in if 0 < n then continuation_loop mx sid buf (drop n block) else buf)"
  by pat_completeness auto
termination by (relation "measure (\<lambda>(mx, sid, buf, block). length block)") auto

declare continuation_loop.simps [simp del]

definition writeHeaderBlock :: "('d, 'e) conn \<Rightarrow> u32 \<Rightarrow> bytes \<Rightarrow> bool \<Rightarrow> ('d, 'e) conn" where
  "writeHeaderBlock c sid block endStream =
     (let mx = unat (c_peerMaxFrameSize c) in
      if length block \<le> mx then writeFrame c (AppendHeaders [] sid block endStream True)
      else writeFrame c (continuation_loop mx sid
             (AppendHeaders [] sid (take mx block) endStream False) (drop mx block)))"

definition WriteHeaders ::
  "('d, 'e) hpack \<Rightarrow> ('d, 'e) conn \<Rightarrow> u32 \<Rightarrow> HeaderField list \<Rightarrow> bool \<Rightarrow> ('d, 'e) conn \<times> h2err option" where
  "WriteHeaders hp c sid flds endStream =
     (case Encode hp (c_encoder c) flds of
        (e, Inl err) \<Rightarrow> (c\<lparr>c_encoder := e\<rparr>, Some (OtherError err))
      | (e, Inr block) \<Rightarrow>
          (let c = fst (stream (c\<lparr>c_encoder := e\<rparr>) sid)
           in (writeHeaderBlock c sid block endStream, None)))"

definition WriteTrailers ::
  "('d, 'e) hpack \<Rightarrow> ('d, 'e) conn \<Rightarrow> u32 \<Rightarrow> HeaderField list \<Rightarrow> ('d, 'e) conn \<times> h2err option" where
  "WriteTrailers hp c sid flds =
     (case Encode hp (c_encoder c) flds of
        (e, Inl err) \<Rightarrow> (c\<lparr>c_encoder := e\<rparr>, Some (OtherError err))
      | (e, Inr block) \<Rightarrow>
          (let c = c\<lparr>c_encoder := e\<rparr> in
           if length block \<le> unat (c_peerMaxFrameSize c)
           then (writeFrame c (AppendHeaders [] sid block True True), None)
           else (writeHeaderBlock c sid block True, None)))"

section \<open>Sending data\<close>

definition appendPending :: "('d, 'e) conn \<Rightarrow> u32 \<Rightarrow> bytes \<Rightarrow> bool \<Rightarrow> ('d, 'e) conn" where
  "appendPending c sid dat endStream =
     c\<lparr>c_pending := c_pending c @ [\<lparr>pd_streamID = sid, pd_data = dat, pd_endStream = endStream\<rparr>]\<rparr>"

text \<open>The smaller of the two windows, and what sending \<open>n\<close> bytes takes from both.\<close>

definition send_avail :: "('d, 'e) conn \<Rightarrow> u32 \<Rightarrow> int32" where
  "send_avail c sid =
     (case c_streams c sid of
        Some s \<Rightarrow> if s_sendWindow s < c_sendWindow c then s_sendWindow s else c_sendWindow c
      | None \<Rightarrow> c_sendWindow c)"

definition debit :: "('d, 'e) conn \<Rightarrow> u32 \<Rightarrow> nat \<Rightarrow> ('d, 'e) conn" where
  "debit c sid n =
     (let c = c\<lparr>c_sendWindow := wrap32 (c_sendWindow c - wrap32 (int n))\<rparr> in
      case c_streams c sid of
        Some s \<Rightarrow> c\<lparr>c_streams := (c_streams c)(sid \<mapsto>
                     s\<lparr>s_sendWindow := wrap32 (s_sendWindow s - wrap32 (int n))\<rparr>)\<rparr>
      | None \<Rightarrow> c)"

text \<open>The splitting loop of \<open>writeDataLocked\<close>; it returns the frames it built. As
  above the last branch is not taken.\<close>

function write_data_loop ::
  "('d, 'e) conn \<Rightarrow> u32 \<Rightarrow> bytes \<Rightarrow> bool \<Rightarrow> bytes \<Rightarrow> ('d, 'e) conn \<times> bytes" where
  "write_data_loop c sid dat endStream buf =
     (if dat = [] then (c, buf)
      else let mx = unat (c_peerMaxFrameSize c);
               n = (if length dat < mx then length dat else mx);
               avail = send_avail c sid
           in if avail \<le> 0 then (appendPending c sid dat endStream, buf)
              else let n = (if wrap32 (int n) > avail then nat avail else n);
                       lst = (n = length dat);
                       buf = AppendData buf sid (take n dat) (lst \<and> endStream);
                       c = debit c sid n
                   in if 0 < n then write_data_loop c sid (drop n dat) endStream buf
                      else (c, buf))"
  by pat_completeness auto
termination by (relation "measure (\<lambda>(c, sid, dat, endStream, buf). length dat)") (auto simp: Let_def)

declare write_data_loop.simps [simp del]

definition writeDataLocked ::
  "('d, 'e) conn \<Rightarrow> u32 \<Rightarrow> bytes \<Rightarrow> bool \<Rightarrow> ('d, 'e) conn" where
  "writeDataLocked c sid dat endStream =
     (if length dat \<le> unat (c_peerMaxFrameSize c) \<and> wrap32 (int (length dat)) \<le> c_sendWindow c
      then writeFrameLocked c (AppendData [] sid dat endStream)
      else case write_data_loop c sid dat endStream [] of
        (c, buf) \<Rightarrow> if 0 < length buf then writeFrameLocked c buf else c)"

text \<open>\<open>WriteData\<close> takes the lock; its error is always nil.\<close>

definition WriteData :: "('d, 'e) conn \<Rightarrow> u32 \<Rightarrow> bytes \<Rightarrow> bool \<Rightarrow> ('d, 'e) conn" where
  "WriteData c sid dat endStream = writeDataLocked c sid dat endStream"

text \<open>\<open>flushPending\<close>: from the head of the queue, until the windows are used up. Only
  the entry that is alone in the queue carries its END_STREAM.\<close>

function flush_loop :: "('d, 'e) conn \<Rightarrow> ('d, 'e) conn" where
  "flush_loop c =
     (case c_pending c of
        [] \<Rightarrow> c
      | p # ps \<Rightarrow>
          (let sid = pd_streamID p; avail = send_avail c sid in
           if avail \<le> 0 then c
           else if wrap32 (int (length (pd_data p))) > avail then
             (let n = nat avail;
                  c = writeFrameLocked (debit c sid n) (AppendData [] sid (take n (pd_data p)) False)
              in c\<lparr>c_pending := p\<lparr>pd_data := drop n (pd_data p)\<rparr> # ps\<rparr>)
           else
             (let n = length (pd_data p);
                  lst = (pd_endStream p \<and> ps = []);
                  c = writeFrameLocked (debit c sid n) (AppendData [] sid (pd_data p) lst)
              in flush_loop (c\<lparr>c_pending := ps\<rparr>))))"
  by pat_completeness auto
termination by (relation "measure (\<lambda>c. length (c_pending c))") (auto simp: Let_def)

declare flush_loop.simps [simp del]

definition flushPending :: "('d, 'e) conn \<Rightarrow> ('d, 'e) conn" where
  "flushPending c = (if c_pending c = [] then c else flush_loop c)"

section \<open>Frames returned to the caller\<close>

text \<open>\<open>MustHeaders\<close> panics when the encoder fails: \<open>Inl\<close> with the panic's text.\<close>

definition MustHeaders ::
  "('d, 'e) hpack \<Rightarrow> ('d, 'e) conn \<Rightarrow> u32 \<Rightarrow> HeaderField list \<Rightarrow> bool \<Rightarrow> ('d, 'e) conn \<times> (string + bytes)" where
  "MustHeaders hp c sid flds endStream =
     (case Encode hp (c_encoder c) flds of
        (e, Inl err) \<Rightarrow> (c\<lparr>c_encoder := e\<rparr>, Inl (''http2: encode headers: '' @ err))
      | (e, Inr block) \<Rightarrow>
          (fst (stream (c\<lparr>c_encoder := e\<rparr>) sid), Inr (AppendHeaders [] sid block endStream True)))"

function must_data_loop :: "nat \<Rightarrow> u32 \<Rightarrow> bytes \<Rightarrow> bool \<Rightarrow> bytes \<Rightarrow> bytes" where
  "must_data_loop mx sid dat endStream buf =
     (if dat = [] then buf
      else let n = (if length dat < mx then length dat else mx);
               buf = AppendData buf sid (take n dat) (n = length dat \<and> endStream)
           in if 0 < n then must_data_loop mx sid (drop n dat) endStream buf else buf)"
  by pat_completeness auto
termination by (relation "measure (\<lambda>(mx, sid, dat, endStream, buf). length dat)") auto

declare must_data_loop.simps [simp del]

definition MustData :: "('d, 'e) conn \<Rightarrow> u32 \<Rightarrow> bytes \<Rightarrow> bool \<Rightarrow> bytes" where
  "MustData c sid dat endStream = must_data_loop (unat (c_peerMaxFrameSize c)) sid dat endStream []"

section \<open>The invariant of a connection\<close>

text \<open>A stream in the table is filed under its own id, its windows are within the 31
  bits of RFC 9113, section 6.9.1, and everything received has been credited back.\<close>

definition stream_ok :: "int32 \<Rightarrow> u32 \<Rightarrow> stream \<Rightarrow> bool" where
  "stream_ok w sid s =
     (s_ID s = sid \<and> 0 \<le> s_sendWindow s \<and> s_sendWindow s < 2 ^ 31 \<and>
      s_recvWindow s = w \<and> 0 \<le> s_recvBodyLen s)"

definition conn_ok :: "('d, 'e) conn \<Rightarrow> bool" where
  "conn_ok c =
     (0 \<le> c_sendWindow c \<and> c_sendWindow c < 2 ^ 31 \<and>
      c_recvWindow c = c_localInitialWindow c \<and> 65535 \<le> c_localInitialWindow c \<and>
      c_localInitialWindow c \<le> maxRecvWindow \<and>
      uint (c_peerInitialWindow c) < 2 ^ 31 \<and> p_maxFrameSize (c_parser c) \<le> MaxFrameSize \<and>
      16384 \<le> unat (c_peerMaxFrameSize c) \<and> c_peerMaxFrameSize c \<le> MaxFrameSize \<and>
      (\<forall>sid s. c_streams c sid = Some s \<longrightarrow> stream_ok (c_localInitialWindow c) sid s \<and> s_ref s < c_nextRef c) \<and>
      (\<forall>p \<in> set (c_pending c). length (pd_data p) < 2 ^ 31))"

named_theorems keeps_ok \<open>operations that keep the invariant of a connection\<close>

lemma conn_okD:
  assumes "conn_ok c"
  shows "0 \<le> c_sendWindow c" and "c_sendWindow c < 2 ^ 31" and "0 < unat (c_peerMaxFrameSize c)"
    and "c_streams c sid = Some s \<Longrightarrow> stream_ok (c_localInitialWindow c) sid s"
    and "p \<in> set (c_pending c) \<Longrightarrow> length (pd_data p) < 2 ^ 31"
    and "unat (c_peerMaxFrameSize c) \<le> 16777215"
  using assms by (auto simp: conn_ok_def word_le_nat_alt)

lemma NewConn_ok: "conn_ok (NewConn hp isClient)"
  by (simp add: conn_ok_def NewConn_def NewFrameParser_def)

lemma stream_keeps [keeps_ok]: "conn_ok c \<Longrightarrow> conn_ok (fst (stream c sid))"
  by (auto simp: stream_def conn_ok_def stream_ok_def wrap32_uint Let_def less_Suc_eq split: option.splits)

lemma stream_result:
  assumes "stream c sid = (c', s)"
  shows "c_streams c' sid = Some s" and "c_isClient c' = c_isClient c" and "c_dec c' = c_dec c"
  using assms by (auto simp: stream_def Let_def split: option.splits)

lemma forgetStream_keeps [keeps_ok]: "conn_ok c \<Longrightarrow> conn_ok (forgetStream c sid)"
  by (auto simp: forgetStream_def conn_ok_def)

lemma CloseStream_keeps [keeps_ok]: "conn_ok c \<Longrightarrow> conn_ok (CloseStream c sid)"
  by (auto simp: CloseStream_def conn_ok_def)

lemma NewStreamID_keeps [keeps_ok]: "conn_ok c \<Longrightarrow> conn_ok (fst (NewStreamID c))"
proof -
  assume "conn_ok c"
  then have "conn_ok (c\<lparr>c_nextStreamID := c_nextStreamID c + 2\<rparr>)" by (simp add: conn_ok_def)
  then show ?thesis by (simp add: NewStreamID_def Let_def stream_keeps)
qed

lemma writeFrame_keeps [keeps_ok]: "conn_ok (writeFrame c b) = conn_ok c"
  by (simp add: writeFrame_def conn_ok_def)

lemma WriteRaw_keeps [keeps_ok]: "conn_ok (WriteRaw c b) = conn_ok c"
  by (simp add: WriteRaw_def conn_ok_def)

lemma takeOutput_keeps [keeps_ok]: "conn_ok (fst (takeOutput c)) = conn_ok c"
  by (simp add: takeOutput_def conn_ok_def)

lemma sendGoAway_keeps [keeps_ok]: "conn_ok (fst (sendGoAway c code msg)) = conn_ok c"
  by (simp add: sendGoAway_def conn_ok_def Let_def)

lemma encoder_keeps [keeps_ok]: "conn_ok (c\<lparr>c_encoder := e\<rparr>) = conn_ok c"
  by (simp add: conn_ok_def)

lemma writeHeaderBlock_keeps [keeps_ok]: "conn_ok (writeHeaderBlock c sid b es) = conn_ok c"
  by (simp add: writeHeaderBlock_def Let_def writeFrame_keeps)

lemma WriteHeaders_keeps [keeps_ok]: "conn_ok c \<Longrightarrow> conn_ok (fst (WriteHeaders hp c sid flds es))"
  by (auto simp: WriteHeaders_def Let_def keeps_ok split: prod.splits sum.splits)

lemma WriteTrailers_keeps [keeps_ok]: "conn_ok c \<Longrightarrow> conn_ok (fst (WriteTrailers hp c sid flds))"
  by (auto simp: WriteTrailers_def Let_def keeps_ok split: prod.splits sum.splits)

lemma MustHeaders_keeps [keeps_ok]: "conn_ok c \<Longrightarrow> conn_ok (fst (MustHeaders hp c sid flds es))"
  by (auto simp: MustHeaders_def keeps_ok split: prod.splits sum.splits)

lemma load_ok: "conn_ok c \<Longrightarrow> stream_ok (c_localInitialWindow c) sid s \<Longrightarrow> stream_ok (c_localInitialWindow c) sid (load c s)"
  by (auto simp: load_def conn_ok_def stream_ok_def split: option.splits)

lemma store_keeps [keeps_ok]: "conn_ok c \<Longrightarrow> stream_ok (c_localInitialWindow c) sid s \<Longrightarrow> conn_ok (store c s)"
  by (auto simp: store_def conn_ok_def stream_ok_def split: option.splits) metis

section \<open>The windows\<close>

lemma send_avail_range: "conn_ok c \<Longrightarrow> 0 \<le> send_avail c sid \<and> send_avail c sid \<le> c_sendWindow c"
  by (auto simp: send_avail_def conn_ok_def stream_ok_def split: option.splits)

lemma send_avail_le: "c_streams c sid = Some s \<Longrightarrow> send_avail c sid \<le> s_sendWindow s"
  by (simp add: send_avail_def)

lemma debit_eq:
  assumes "conn_ok c" and "int n \<le> send_avail c sid"
  shows "debit c sid n =
    c\<lparr>c_sendWindow := c_sendWindow c - int n,
      c_streams := (case c_streams c sid of
          Some s \<Rightarrow> (c_streams c)(sid \<mapsto> s\<lparr>s_sendWindow := s_sendWindow s - int n\<rparr>)
        | None \<Rightarrow> c_streams c)\<rparr>"
proof -
  have w: "wrap32 (x - wrap32 (int n)) = x - int n" if "int n \<le> x" "x < 2 ^ 31" for x
    using that by (simp add: wrap32_id)
  have "int n \<le> c_sendWindow c" "c_sendWindow c < 2 ^ 31"
    using assms send_avail_range [OF assms(1), of sid] conn_okD(2) [OF assms(1)] by auto
  note main = w [OF this]
  show ?thesis
  proof (cases "c_streams c sid")
    case None
    then show ?thesis by (simp add: debit_def main)
  next
    case (Some s)
    have "int n \<le> s_sendWindow s" "s_sendWindow s < 2 ^ 31"
      using assms send_avail_le [OF Some] conn_okD(4) [OF assms(1) Some] by (auto simp: stream_ok_def)
    note w [OF this]
    with Some main show ?thesis by (simp add: debit_def)
  qed
qed

lemma debit_keeps [keeps_ok]:
  assumes "conn_ok c" and "int n \<le> send_avail c sid"
  shows "conn_ok (debit c sid n)"
proof (cases "c_streams c sid")
  case None
  with assms show ?thesis
    by (simp add: debit_eq [OF assms]) (auto simp: conn_ok_def send_avail_def)
next
  case (Some s)
  have "0 \<le> s_sendWindow s - int n" "s_sendWindow s - int n < 2 ^ 31" "0 \<le> c_sendWindow c - int n"
    using conn_okD(4) [OF assms(1) Some] send_avail_le [OF Some] assms(2) send_avail_range [OF assms(1), of sid]
    by (auto simp: stream_ok_def)
  with assms(1) Some show ?thesis
    by (simp add: debit_eq [OF assms]) (auto simp: conn_ok_def stream_ok_def)
qed

lemma debit_avail:
  assumes "conn_ok c" and "int n \<le> send_avail c sid"
  shows "send_avail (debit c sid n) sid = send_avail c sid - int n"
  using assms by (auto simp: debit_eq send_avail_def split: option.splits)

lemma debit_debit:
  assumes "conn_ok c" and "int (m + n) \<le> send_avail c sid"
  shows "debit (debit c sid m) sid n = debit c sid (m + n)"
proof -
  have m: "int m \<le> send_avail c sid" using assms(2) by simp
  have "int n \<le> send_avail (debit c sid m) sid" using assms by (simp add: debit_avail [OF assms(1) m])
  from debit_eq [OF debit_keeps [OF assms(1) m] this] debit_eq [OF assms(1) m] debit_eq [OF assms]
  show ?thesis by (auto simp: diff_diff_eq split: option.splits)
qed

lemma debit_0 [simp]: "conn_ok c \<Longrightarrow> debit c sid 0 = c"
  using send_avail_range [of c sid] by (auto simp: debit_eq fun_upd_idem split: option.splits)

lemma debit_max [simp]: "c_peerMaxFrameSize (debit c sid n) = c_peerMaxFrameSize c"
  by (simp add: debit_def Let_def split: option.splits)

lemma appendPending_keeps [keeps_ok]:
  "conn_ok c \<Longrightarrow> length dat < 2 ^ 31 \<Longrightarrow> conn_ok (appendPending c sid dat es)"
  by (auto simp: appendPending_def conn_ok_def)

section \<open>What the sender puts on the wire\<close>

definition data_frame :: "u32 \<Rightarrow> bytes \<Rightarrow> bool \<Rightarrow> frame" where
  "data_frame sid dat es =
     \<lparr>f_Type = FrameData, f_Flags = (if es then 1 else 0), f_StreamID = sid, f_Payload = dat\<rparr>"

lemma AppendData_enc: "AppendData buf sid dat es = buf @ enc_frame (data_frame sid dat es)"
  by (simp add: AppendData_def enc_frame_def data_frame_def AppendFrameHeader_def)

text \<open>A run of DATA frames of one stream that carries \<open>dat\<close>: non-empty frames of at most
  \<open>mx\<close> bytes, in order, END_STREAM (when asked for) on the last one only.\<close>

definition data_run :: "u32 \<Rightarrow> nat \<Rightarrow> frame list \<Rightarrow> bytes \<Rightarrow> bool \<Rightarrow> bool" where
  "data_run sid mx fs dat es =
     (concat (map f_Payload fs) = dat \<and>
      (\<forall>f \<in> set fs. f_Type f = FrameData \<and> f_StreamID f = sid \<and> f_Payload f \<noteq> []
                    \<and> length (f_Payload f) \<le> mx) \<and>
      (\<forall>f \<in> set (butlast fs). f_Flags f = 0) \<and>
      (fs \<noteq> [] \<longrightarrow> f_Flags (last fs) = (if es then FlagDataEndStream else 0)))"

lemma data_run_Nil [simp]: "data_run sid mx [] dat es = (dat = [])"
  by (auto simp: data_run_def)

lemma data_run_Cons:
  assumes "data_run sid mx fs dat es" and "p \<noteq> []" and "length p \<le> mx"
    and "dat \<noteq> [] \<or> fs = []"
  shows "data_run sid mx (data_frame sid p (es \<and> dat = []) # fs) (p @ dat) es"
  using assms by (cases fs) (auto simp: data_run_def data_frame_def)

lemma data_run_concat: "data_run sid mx fs dat es \<Longrightarrow> dat = concat (map f_Payload fs)"
  by (simp add: data_run_def)

lemma data_run_empty: "data_run sid mx fs [] es \<Longrightarrow> fs = []"
  by (cases fs) (auto simp: data_run_def)

text \<open>How many bytes a call may send: as much as both windows allow.\<close>

definition sendable :: "('d, 'e) conn \<Rightarrow> u32 \<Rightarrow> bytes \<Rightarrow> nat" where
  "sendable c sid dat = min (length dat) (nat (send_avail c sid))"

lemma sendable_le: "conn_ok c \<Longrightarrow> int (sendable c sid dat) \<le> send_avail c sid"
  unfolding sendable_def using send_avail_range [of c sid] by linarith

lemma cut_size:
  assumes "m < 2 ^ 31" and "0 < a"
  shows "(if wrap32 (int (if l < m then l else m)) > a then nat a else (if l < m then l else m))
    = min (min l m) (nat a)"
proof -
  have "wrap32 (int (if l < m then l else m)) = int (if l < m then l else m)"
    using assms(1) by (intro wrap32_nat) auto
  then show ?thesis using assms(2) by auto
qed

text \<open>The loop, in one step: it sends what is sendable, debits both windows by exactly
  that, and queues the rest with its END_STREAM.\<close>

lemma write_data_loop_spec:
  assumes "conn_ok c" and "length dat < 2 ^ 31"
  shows "\<exists>fs. write_data_loop c sid dat es buf =
      ((let k = sendable c sid dat in
        if k < length dat then appendPending (debit c sid k) sid (drop k dat) es else debit c sid k),
       buf @ concat (map enc_frame fs))
    \<and> data_run sid (unat (c_peerMaxFrameSize c)) fs (take (sendable c sid dat) dat)
        (es \<and> sendable c sid dat = length dat)"
  using assms
proof (induction dat arbitrary: c buf rule: measure_induct_rule [where f = length])
  case (less dat)
  note ok = less.prems(1)
  let ?mx = "unat (c_peerMaxFrameSize c)"
  let ?avail = "send_avail c sid"
  note range = send_avail_range [OF ok, of sid]
  consider "dat = []" | "dat \<noteq> []" "?avail = 0" | "dat \<noteq> []" "0 < ?avail" using range by linarith
  then show ?case
  proof cases
    case 1
    then show ?thesis
      using ok by (intro exI [of _ "[]"]) (simp add: write_data_loop.simps sendable_def)
  next
    case 2
    then show ?thesis
      using ok by (intro exI [of _ "[]"]) (simp add: write_data_loop.simps [of c] sendable_def Let_def)
  next
    case 3
    define n where "n = min (min (length dat) ?mx) (nat ?avail)"
    have n: "0 < n" "n \<le> length dat" "n \<le> ?mx" "int n \<le> ?avail"
      using 3 conn_okD(3) [OF ok] by (auto simp: n_def)
    have "?mx < 2 ^ 31" using conn_okD(6) [OF ok] by simp
    from cut_size [OF this 3(2), of "length dat"]
    have cut: "(if wrap32 (int (if length dat < ?mx then length dat else ?mx)) > ?avail then nat ?avail
        else (if length dat < ?mx then length dat else ?mx)) = n"
      by (simp only: n_def)
    let ?c = "debit c sid n" and ?rest = "drop n dat"
    let ?f = "data_frame sid (take n dat) (n = length dat \<and> es)"
    have loop: "write_data_loop c sid dat es buf = write_data_loop ?c sid ?rest es (buf @ enc_frame ?f)"
      using 3 n(1) by (simp add: write_data_loop.simps [of c] Let_def cut AppendData_enc del: write_data_loop.simps)
    have ok': "conn_ok ?c" by (rule debit_keeps [OF ok n(4)])
    have "length ?rest < length dat" "length ?rest < 2 ^ 31" using n less.prems(2) by auto
    from less.IH [OF this(1) ok' this(2), of "buf @ enc_frame ?f"] obtain fs where
      IH: "write_data_loop ?c sid ?rest es (buf @ enc_frame ?f) =
        ((let k = sendable ?c sid ?rest in
          if k < length ?rest then appendPending (debit ?c sid k) sid (drop k ?rest) es else debit ?c sid k),
         (buf @ enc_frame ?f) @ concat (map enc_frame fs))"
      "data_run sid (unat (c_peerMaxFrameSize ?c)) fs (take (sendable ?c sid ?rest) ?rest)
        (es \<and> sendable ?c sid ?rest = length ?rest)"
      by blast
    have k: "sendable c sid dat = n + sendable ?c sid ?rest"
      using n by (auto simp: sendable_def debit_avail [OF ok n(4)])
    have "int (n + sendable ?c sid ?rest) \<le> ?avail"
      unfolding k [symmetric] by (rule sendable_le [OF ok])
    note dd = debit_debit [OF ok this]
    have full: "n + sendable ?c sid ?rest = length dat \<longleftrightarrow> sendable ?c sid ?rest = length ?rest"
        "n + sendable ?c sid ?rest < length dat \<longleftrightarrow> sendable ?c sid ?rest < length ?rest"
      using n(2) by auto
    have es: "(n = length dat \<and> es) = ((es \<and> sendable ?c sid ?rest = length ?rest) \<and>
        take (sendable ?c sid ?rest) ?rest = [])"
      using n by (auto simp: sendable_def)
    have "data_run sid ?mx (?f # fs) (take n dat @ take (sendable ?c sid ?rest) ?rest)
        (es \<and> sendable ?c sid ?rest = length ?rest)"
      unfolding es
    proof (rule data_run_Cons)
      show "data_run sid ?mx fs (take (sendable ?c sid ?rest) ?rest) (es \<and> sendable ?c sid ?rest = length ?rest)"
        using IH(2) by simp
      show "take (sendable ?c sid ?rest) ?rest \<noteq> [] \<or> fs = []"
        using IH(2) by (metis data_run_empty)
    qed (use n in auto)
    moreover have "take n dat @ take (sendable ?c sid ?rest) ?rest = take (sendable c sid dat) dat"
      by (simp add: k take_add)
    ultimately show ?thesis
      using loop IH(1) by (intro exI [of _ "?f # fs"]) (simp add: k dd full Let_def add.commute)
  qed
qed

lemma writeDataLocked_keeps [keeps_ok]:
  assumes "conn_ok c" and "length dat < 2 ^ 31"
  shows "conn_ok (writeDataLocked c sid dat es)"
proof -
  note d = debit_keeps [OF assms(1) sendable_le [OF assms(1)]]
  obtain fs where "write_data_loop c sid dat es [] =
      ((let k = sendable c sid dat in
        if k < length dat then appendPending (debit c sid k) sid (drop k dat) es else debit c sid k),
       [] @ concat (map enc_frame fs))"
    using write_data_loop_spec [OF assms] by blast
  moreover have "conn_ok (let k = sendable c sid dat in
        if k < length dat then appendPending (debit c sid k) sid (drop k dat) es else debit c sid k)"
    using d assms(2) by (simp add: Let_def appendPending_keeps)
  ultimately show ?thesis using assms(1) by (simp add: writeDataLocked_def writeFrame_keeps)
qed

lemma WriteData_keeps [keeps_ok]:
  "conn_ok c \<Longrightarrow> length dat < 2 ^ 31 \<Longrightarrow> conn_ok (WriteData c sid dat es)"
  by (simp add: WriteData_def writeDataLocked_keeps)

section \<open>The queue\<close>

definition stream_bytes :: "u32 \<Rightarrow> frame list \<Rightarrow> bytes" where
  "stream_bytes sid fs = concat (map f_Payload (filter (\<lambda>f. f_StreamID f = sid) fs))"

definition pending_bytes :: "u32 \<Rightarrow> pendingData list \<Rightarrow> bytes" where
  "pending_bytes sid ps = concat (map pd_data (filter (\<lambda>p. pd_streamID p = sid) ps))"

definition sent_bytes :: "frame list \<Rightarrow> nat" where
  "sent_bytes fs = length (concat (map f_Payload fs))"

text \<open>A flush sends a prefix of what is queued, stream by stream, pays for every byte
  with both windows, and stops only when the queue is empty or the windows of its
  head are used up.\<close>

definition flushed :: "('d, 'e) conn \<Rightarrow> ('d, 'e) conn \<Rightarrow> frame list \<Rightarrow> bool" where
  "flushed c c' fs =
     (conn_ok c' \<and> c_outBuf c' = c_outBuf c @ concat (map enc_frame fs) \<and>
      (\<forall>f \<in> set fs. f_Type f = FrameData) \<and>
      (\<forall>sid. stream_bytes sid fs @ pending_bytes sid (c_pending c') = pending_bytes sid (c_pending c)) \<and>
      c_sendWindow c' + int (sent_bytes fs) = c_sendWindow c \<and>
      (\<forall>sid. map_option (\<lambda>s. s_sendWindow s + int (length (stream_bytes sid fs))) (c_streams c' sid)
             = map_option s_sendWindow (c_streams c sid)) \<and>
      (c_pending c' = [] \<or> send_avail c' (pd_streamID (hd (c_pending c'))) = 0))"

lemma flushed_step:
  assumes "conn_ok c" and "c_pending c = p # ps" and "int n \<le> send_avail c (pd_streamID p)"
    and "n \<le> length (pd_data p)"
    and c1: "c1 = (writeFrame (debit c (pd_streamID p) n) (AppendData [] (pd_streamID p) (take n (pd_data p)) e))
          \<lparr>c_pending := ps'\<rparr>"
    and ps': "ps' = (if n < length (pd_data p) then p\<lparr>pd_data := drop n (pd_data p)\<rparr> # ps else ps)"
  shows "conn_ok c1"
    and "flushed c1 c2 fs \<Longrightarrow> flushed c c2 (data_frame (pd_streamID p) (take n (pd_data p)) e # fs)"
proof -
  let ?sid = "pd_streamID p"
  have "conn_ok (debit c ?sid n)" by (rule debit_keeps [OF assms(1,3)])
  moreover have "c_pending (debit c ?sid n) = p # ps"
    using assms(2) by (simp add: debit_eq [OF assms(1,3)])
  ultimately show "conn_ok c1"
    unfolding c1 ps' by (auto simp: conn_ok_def writeFrame_def)
  have pend: "take n (pd_data p) @ pending_bytes ?sid ps' = pending_bytes ?sid (c_pending c)"
    and other: "sid \<noteq> ?sid \<Longrightarrow> pending_bytes sid ps' = pending_bytes sid (c_pending c)" for sid
    using assms(2,4) by (auto simp: ps' pending_bytes_def)
  assume fl: "flushed c1 c2 fs"
  have str: "map_option (\<lambda>s. s_sendWindow s + int (length (stream_bytes sid fs))) (c_streams c2 sid)
      = map_option s_sendWindow (c_streams c1 sid)" for sid
    using fl by (simp add: flushed_def)
  have c1_str: "map_option s_sendWindow (c_streams c1 sid) =
      map_option (\<lambda>s. s_sendWindow s - (if sid = ?sid then int n else 0)) (c_streams c sid)" for sid
    by (auto simp: c1 writeFrame_def debit_eq [OF assms(1,3)] split: option.splits)
  show "flushed c c2 (data_frame ?sid (take n (pd_data p)) e # fs)"
    unfolding flushed_def
  proof (intro conjI)
    show "\<forall>sid. map_option (\<lambda>s. s_sendWindow s + int (length (stream_bytes sid
          (data_frame ?sid (take n (pd_data p)) e # fs)))) (c_streams c2 sid)
        = map_option s_sendWindow (c_streams c sid)"
    proof
      fix sid
      show "map_option (\<lambda>s. s_sendWindow s + int (length (stream_bytes sid
          (data_frame ?sid (take n (pd_data p)) e # fs)))) (c_streams c2 sid)
        = map_option s_sendWindow (c_streams c sid)"
        using str [of sid] c1_str [of sid] assms(4)
        by (cases "c_streams c2 sid"; cases "c_streams c sid")
          (auto simp: stream_bytes_def data_frame_def)
    qed
  qed (use fl pend other assms(4) in \<open>auto simp: flushed_def c1 writeFrame_def debit_eq [OF assms(1,3)]
      AppendData_enc data_frame_def stream_bytes_def sent_bytes_def\<close>)
qed

lemma flush_loop_flushed: "conn_ok c \<Longrightarrow> \<exists>fs. flushed c (flush_loop c) fs"
proof (induction "length (c_pending c)" arbitrary: c)
  case 0
  then show ?case
    by (intro exI [of _ "[]"])
      (simp add: flush_loop.simps flushed_def stream_bytes_def sent_bytes_def option.map_id [unfolded id_def])
next
  case (Suc m)
  then obtain p ps where pend: "c_pending c = p # ps" by (cases "c_pending c") auto
  let ?sid = "pd_streamID p"
  note range = send_avail_range [OF Suc.prems, of ?sid]
  have len: "wrap32 (int (length (pd_data p))) = int (length (pd_data p))"
    using conn_okD(5) [OF Suc.prems, of p] pend by (simp add: wrap32_nat)
  consider "send_avail c ?sid \<le> 0"
    | "0 < send_avail c ?sid" "int (length (pd_data p)) > send_avail c ?sid"
    | "0 < send_avail c ?sid" "int (length (pd_data p)) \<le> send_avail c ?sid" by linarith
  then show ?case
  proof cases
    case 1
    then have "send_avail c ?sid = 0" using range by simp
    with Suc.prems pend show ?thesis
      by (intro exI [of _ "[]"])
        (simp add: flush_loop.simps [of c] flushed_def stream_bytes_def sent_bytes_def
          option.map_id [unfolded id_def])
  next
    case 2
    define n where "n = nat (send_avail c ?sid)"
    let ?c1 = "(writeFrame (debit c ?sid n) (AppendData [] ?sid (take n (pd_data p)) False))
        \<lparr>c_pending := p\<lparr>pd_data := drop n (pd_data p)\<rparr> # ps\<rparr>"
    have n: "int n \<le> send_avail c ?sid" "n \<le> length (pd_data p)" "n < length (pd_data p)"
      using 2 by (auto simp: n_def)
    have loop: "flush_loop c = ?c1"
      using 2 pend by (simp add: flush_loop.simps [of c] len Let_def n_def [symmetric])
    note step = flushed_step [OF Suc.prems pend n(1,2) refl, where e = False
        and ps' = "p\<lparr>pd_data := drop n (pd_data p)\<rparr> # ps"]
    have ok: "conn_ok ?c1" by (rule step(1)) (use n in simp)
    have "send_avail ?c1 ?sid = send_avail (debit c ?sid n) ?sid"
      by (simp add: send_avail_def writeFrame_def split: option.splits)
    also have "\<dots> = 0" using 2 debit_avail [OF Suc.prems n(1)] by (simp add: n_def)
    finally have "flushed ?c1 ?c1 []"
      using ok by (simp add: flushed_def stream_bytes_def sent_bytes_def option.map_id [unfolded id_def])
    then show ?thesis unfolding loop by (intro exI, rule step(2) [rotated]) (use n in simp)
  next
    case 3
    let ?n = "length (pd_data p)" and ?e = "pd_endStream p \<and> ps = []"
    let ?c1 = "(writeFrame (debit c ?sid ?n) (AppendData [] ?sid (take ?n (pd_data p)) ?e))\<lparr>c_pending := ps\<rparr>"
    have loop: "flush_loop c = flush_loop ?c1"
      using 3 pend by (simp add: flush_loop.simps [of c] len Let_def)
    note step = flushed_step [OF Suc.prems pend 3(2) order_refl refl, where e = ?e and ps' = ps]
    have ok: "conn_ok ?c1" by (rule step(1)) simp
    have "m = length (c_pending ?c1)" using Suc.hyps(2) pend by simp
    from Suc.hyps(1) [OF this ok] obtain fs where "flushed ?c1 (flush_loop ?c1) fs" by blast
    then show ?thesis unfolding loop by (intro exI, rule step(2) [rotated]) simp
  qed
qed

lemma flushPending_keeps [keeps_ok]: "conn_ok c \<Longrightarrow> conn_ok (flushPending c)"
  using flush_loop_flushed [of c] by (auto simp: flushPending_def flushed_def)

section \<open>Header blocks\<close>

definition headers_frame :: "u32 \<Rightarrow> bytes \<Rightarrow> bool \<Rightarrow> bool \<Rightarrow> frame" where
  "headers_frame sid dat es eh =
     \<lparr>f_Type = FrameHeaders, f_Flags = (if es then 1 else 0) OR (if eh then 4 else 0),
      f_StreamID = sid, f_Payload = dat\<rparr>"

definition continuation_frame :: "u32 \<Rightarrow> bytes \<Rightarrow> bool \<Rightarrow> frame" where
  "continuation_frame sid dat eh =
     \<lparr>f_Type = FrameContinuation, f_Flags = (if eh then 4 else 0), f_StreamID = sid, f_Payload = dat\<rparr>"

lemma AppendHeaders_enc: "AppendHeaders buf sid dat es eh = buf @ enc_frame (headers_frame sid dat es eh)"
  by (simp add: AppendHeaders_def enc_frame_def headers_frame_def AppendFrameHeader_def)

lemma AppendContinuation_enc:
  "AppendFrameHeader buf FrameContinuation (boolToFlag eh FlagContinuationEndHeaders) sid (length dat) @ dat
     = buf @ enc_frame (continuation_frame sid dat eh)"
  by (simp add: enc_frame_def continuation_frame_def AppendFrameHeader_def boolToFlag_def)

text \<open>A header block on the wire: one HEADERS frame and CONTINUATIONs of the same
  stream, none longer than the peer's limit, END_HEADERS on the last frame only; the
  fragments put together are the block.\<close>

definition header_run :: "u32 \<Rightarrow> nat \<Rightarrow> frame list \<Rightarrow> bytes \<Rightarrow> bool \<Rightarrow> bool" where
  "header_run sid mx fs block es =
     (fs \<noteq> [] \<and> f_Type (hd fs) = FrameHeaders \<and> EndStream (hd fs) = es \<and>
      (\<forall>f \<in> set (tl fs). f_Type f = FrameContinuation) \<and>
      (\<forall>f \<in> set fs. f_StreamID f = sid \<and> length (f_Payload f) \<le> mx) \<and>
      (\<forall>f \<in> set (butlast fs). \<not> EndHeaders f) \<and> EndHeaders (last fs) \<and>
      concat (map f_Payload fs) = block)"

lemma continuation_loop_spec:
  assumes "0 < mx"
  shows "block \<noteq> [] \<Longrightarrow>
    \<exists>fs. continuation_loop mx sid buf block = buf @ concat (map enc_frame fs) \<and> fs \<noteq> [] \<and>
      (\<forall>f \<in> set fs. f_Type f = FrameContinuation \<and> f_StreamID f = sid \<and> length (f_Payload f) \<le> mx) \<and>
      (\<forall>f \<in> set (butlast fs). \<not> EndHeaders f) \<and> EndHeaders (last fs) \<and> concat (map f_Payload fs) = block"
proof (induction block arbitrary: buf rule: measure_induct_rule [where f = length])
  case (less block)
  define n where "n = (if length block < mx then length block else mx)"
  have n: "0 < n" "n \<le> length block" "n \<le> mx" using assms less.prems by (auto simp: n_def)
  let ?f = "continuation_frame sid (take n block) (n = length block)"
  have step: "continuation_loop mx sid buf block = continuation_loop mx sid (buf @ enc_frame ?f) (drop n block)"
    using less.prems n AppendContinuation_enc [of buf "n = length block" sid "take n block"]
    by (simp add: continuation_loop.simps [of mx sid buf] n_def [symmetric] Let_def)
  show ?case
  proof (cases "n = length block")
    case True
    then show ?thesis
      using step n
      by (intro exI [of _ "[?f]"]) (simp add: continuation_loop.simps continuation_frame_def EndHeaders_def)
  next
    case False
    with n have "length (drop n block) < length block" "drop n block \<noteq> []" by auto
    from less.IH [OF this, of "buf @ enc_frame ?f"] obtain fs where
      IH: "continuation_loop mx sid (buf @ enc_frame ?f) (drop n block)
          = (buf @ enc_frame ?f) @ concat (map enc_frame fs)" "fs \<noteq> []"
        "\<forall>f \<in> set fs. f_Type f = FrameContinuation \<and> f_StreamID f = sid \<and> length (f_Payload f) \<le> mx"
        "\<forall>f \<in> set (butlast fs). \<not> EndHeaders f" "EndHeaders (last fs)"
        "concat (map f_Payload fs) = drop n block"
      by blast
    with step n False show ?thesis
      by (intro exI [of _ "?f # fs"]) (simp add: continuation_frame_def EndHeaders_def)
  qed
qed

lemma writeHeaderBlock_run:
  assumes "conn_ok c"
  shows "\<exists>fs. writeHeaderBlock c sid block es = writeFrame c (concat (map enc_frame fs))
    \<and> header_run sid (unat (c_peerMaxFrameSize c)) fs block es"
proof -
  let ?mx = "unat (c_peerMaxFrameSize c)"
  have flags: "EndStream (headers_frame sid d es eh) = es" "EndHeaders (headers_frame sid d es eh) = eh"
    for d eh
    by (auto simp: headers_frame_def EndStream_def EndHeaders_def)
  have shape: "f_Type (headers_frame sid d es eh) = FrameHeaders"
      "f_StreamID (headers_frame sid d es eh) = sid" "f_Payload (headers_frame sid d es eh) = d" for d eh
    by (simp_all add: headers_frame_def)
  show ?thesis
  proof (cases "length block \<le> ?mx")
    case True
    then show ?thesis
      by (intro exI [of _ "[headers_frame sid block es True]"])
        (simp add: writeHeaderBlock_def header_run_def AppendHeaders_enc flags shape)
  next
    case False
    then have "drop ?mx block \<noteq> []" by simp
    from continuation_loop_spec [OF conn_okD(3) [OF assms] this,
        of sid "AppendHeaders [] sid (take ?mx block) es False"]
    obtain fs where "continuation_loop ?mx sid (AppendHeaders [] sid (take ?mx block) es False) (drop ?mx block)
        = AppendHeaders [] sid (take ?mx block) es False @ concat (map enc_frame fs)" and
      fs: "fs \<noteq> []" "\<forall>f \<in> set fs. f_Type f = FrameContinuation \<and> f_StreamID f = sid \<and> length (f_Payload f) \<le> ?mx"
        "\<forall>f \<in> set (butlast fs). \<not> EndHeaders f" "EndHeaders (last fs)"
        "concat (map f_Payload fs) = drop ?mx block"
      by blast
    then show ?thesis
      using False
      by (intro exI [of _ "headers_frame sid (take ?mx block) es False # fs"])
        (simp add: writeHeaderBlock_def header_run_def AppendHeaders_enc flags shape Let_def)
  qed
qed

section \<open>What a user of the connection may do to it\<close>

text \<open>The contract the receiving half needs from the code it calls back: the invariant
  stays, the books about the peer's stream ids are not touched, and a stream object
  that is still in the table has the receiving side it had.\<close>

definition recv_part :: "stream \<Rightarrow> u32 \<times> StreamState \<times> bool \<times> int \<times> int" where
  "recv_part s = (s_ID s, s_state s, s_remoteEnded s, s_expectContentLength s, s_recvBodyLen s)"

definition client_step :: "('d, 'e) conn \<Rightarrow> ('d, 'e) conn \<Rightarrow> bool" where
  "client_step c c' =
     (conn_ok c' \<and> c_maxPeerStreamID c' = c_maxPeerStreamID c \<and> c_isClient c' = c_isClient c \<and>
      c_nextRef c \<le> c_nextRef c' \<and> c_localInitialWindow c' = c_localInitialWindow c \<and>
      (\<forall>sid s'. c_streams c' sid = Some s' \<longrightarrow> s_ref s' < c_nextRef c \<longrightarrow>
         (\<exists>s. c_streams c sid = Some s \<and> s_ref s = s_ref s' \<and> recv_part s = recv_part s')))"

lemma client_step_refl: "conn_ok c \<Longrightarrow> client_step c c"
  by (simp add: client_step_def)

lemma client_step_trans: "client_step c c' \<Longrightarrow> client_step c' c'' \<Longrightarrow> client_step c c''"
  unfolding client_step_def by (smt (verit) order_less_le_trans order_trans)

lemma client_step_same_streams:
  assumes "conn_ok c'" and "c_streams c' = c_streams c" and "c_nextRef c' = c_nextRef c"
    and "c_maxPeerStreamID c' = c_maxPeerStreamID c" and "c_isClient c' = c_isClient c"
    and "c_localInitialWindow c' = c_localInitialWindow c"
  shows "client_step c c'"
  using assms by (simp add: client_step_def)

lemma stream_client: "conn_ok c \<Longrightarrow> client_step c (fst (stream c sid))"
  using stream_keeps [of c sid]
  by (auto simp: client_step_def stream_def Let_def split: option.splits if_splits)

lemma CloseStream_client: "conn_ok c \<Longrightarrow> client_step c (CloseStream c sid)"
  using CloseStream_keeps [of c sid] by (simp add: client_step_def CloseStream_def)

lemma writeFrame_client: "conn_ok c \<Longrightarrow> client_step c (writeFrame c b)"
  by (rule client_step_same_streams) (simp_all add: writeFrame_keeps, simp_all add: writeFrame_def)

lemma encoder_client: "conn_ok c \<Longrightarrow> client_step c (c\<lparr>c_encoder := e\<rparr>)"
  by (rule client_step_same_streams) (simp_all add: encoder_keeps)

lemma writeHeaderBlock_client: "conn_ok c \<Longrightarrow> client_step c (writeHeaderBlock c sid b es)"
  by (simp add: writeHeaderBlock_def Let_def writeFrame_client)

lemma client_step_keeps: "client_step c c' \<Longrightarrow> conn_ok c'"
  by (simp add: client_step_def)

lemma WriteHeaders_client:
  assumes "conn_ok c"
  shows "client_step c (fst (WriteHeaders hp c sid flds es))"
proof -
  obtain e r where enc: "Encode hp (c_encoder c) flds = (e, r)" by fastforce
  note 1 = encoder_client [OF assms, of e]
  note 2 = client_step_trans [OF 1 stream_client [OF client_step_keeps [OF 1], of sid]]
  note 3 = client_step_trans [OF 2 writeHeaderBlock_client [OF client_step_keeps [OF 2]]]
  show ?thesis using 1 3 by (cases r) (simp_all add: WriteHeaders_def enc Let_def)
qed

lemma WriteTrailers_client:
  assumes "conn_ok c"
  shows "client_step c (fst (WriteTrailers hp c sid flds))"
proof -
  obtain e r where enc: "Encode hp (c_encoder c) flds = (e, r)" by fastforce
  note 1 = encoder_client [OF assms, of e]
  note 2 = client_step_trans [OF 1 writeHeaderBlock_client [OF client_step_keeps [OF 1]]]
  note 3 = client_step_trans [OF 1 writeFrame_client [OF client_step_keeps [OF 1]]]
  show ?thesis using 1 2 3 by (cases r) (simp_all add: WriteTrailers_def enc Let_def)
qed

lemma debit_client:
  assumes "conn_ok c" and "int n \<le> send_avail c sid"
  shows "client_step c (debit c sid n)"
  using debit_keeps [OF assms]
  by (auto simp: client_step_def debit_eq [OF assms] recv_part_def split: option.splits if_splits)

lemma WriteData_client:
  assumes "conn_ok c" and "length dat < 2 ^ 31"
  shows "client_step c (WriteData c sid dat es)"
proof -
  note 1 = debit_client [OF assms(1) sendable_le [OF assms(1), of sid dat]]
  let ?d = "debit c sid (sendable c sid dat)"
  have 2: "client_step ?d (appendPending ?d sid (drop (sendable c sid dat) dat) es)"
    using appendPending_keeps [OF client_step_keeps [OF 1], of "drop (sendable c sid dat) dat" sid es] assms(2)
    by (intro client_step_same_streams) (simp_all add: appendPending_def)
  let ?c = "if sendable c sid dat < length dat
      then appendPending ?d sid (drop (sendable c sid dat) dat) es else ?d"
  have 3: "client_step c ?c" using 1 client_step_trans [OF 1 2] by simp
  note 4 = client_step_trans [OF 3 writeFrame_client [OF client_step_keeps [OF 3]]]
  obtain fs where "write_data_loop c sid dat es [] = (?c, [] @ concat (map enc_frame fs))"
    using write_data_loop_spec [OF assms, of sid es "[]"] unfolding Let_def by blast
  with 3 4 show ?thesis
    using writeFrame_client [OF assms(1)] by (simp add: WriteData_def writeDataLocked_def)
qed

section \<open>Properties\<close>

text \<open>C22. A body that does not go out in one frame is sent under flow control: exactly
  as many bytes as the connection window and the stream window both allow, in frames
  of at most the peer's size, END_STREAM on the last frame and only when the whole
  body went out; both windows are debited by exactly that, and the rest waits in the
  queue with its END_STREAM.\<close>

theorem WriteData_flow_controlled:
  assumes "conn_ok c" and "length dat < 2 ^ 31"
    and "\<not> (length dat \<le> unat (c_peerMaxFrameSize c) \<and> int (length dat) \<le> c_sendWindow c)"
  shows "\<exists>fs. WriteData c sid dat es =
      writeFrame (let k = sendable c sid dat in
        if k < length dat then appendPending (debit c sid k) sid (drop k dat) es else debit c sid k)
        (concat (map enc_frame fs))
    \<and> data_run sid (unat (c_peerMaxFrameSize c)) fs (take (sendable c sid dat) dat)
        (es \<and> sendable c sid dat = length dat)
    \<and> conn_ok (WriteData c sid dat es)"
proof -
  obtain fs where fs: "write_data_loop c sid dat es [] =
      ((let k = sendable c sid dat in
        if k < length dat then appendPending (debit c sid k) sid (drop k dat) es else debit c sid k),
       [] @ concat (map enc_frame fs))"
    and run: "data_run sid (unat (c_peerMaxFrameSize c)) fs (take (sendable c sid dat) dat)
        (es \<and> sendable c sid dat = length dat)"
    using write_data_loop_spec [OF assms(1,2)] by blast
  have "\<not> (length dat \<le> unat (c_peerMaxFrameSize c) \<and> wrap32 (int (length dat)) \<le> c_sendWindow c)"
    using assms(2,3) by (simp add: wrap32_nat)
  then have "WriteData c sid dat es =
      writeFrame (let k = sendable c sid dat in
        if k < length dat then appendPending (debit c sid k) sid (drop k dat) es else debit c sid k)
        (concat (map enc_frame fs))"
    unfolding WriteData_def writeDataLocked_def by (simp only: if_not_P fs) (simp add: writeFrame_def)
  with run WriteData_keeps [OF assms(1,2)] show ?thesis by blast
qed

text \<open>C21. When the windows grow, the queue is flushed in order: on every stream the
  bytes sent and the bytes still queued are together the bytes that were queued;
  every byte is paid for by the connection window and the window of its stream; and
  the flush stops only when nothing is queued or the head's windows are used up.\<close>

theorem flushPending_conserves:
  assumes "conn_ok c" and "c_pending c \<noteq> []"
  shows "\<exists>fs. conn_ok (flushPending c) \<and> c_outBuf (flushPending c) = c_outBuf c @ concat (map enc_frame fs)
    \<and> (\<forall>f \<in> set fs. f_Type f = FrameData)
    \<and> (\<forall>sid. stream_bytes sid fs @ pending_bytes sid (c_pending (flushPending c)) = pending_bytes sid (c_pending c))
    \<and> c_sendWindow (flushPending c) + int (sent_bytes fs) = c_sendWindow c
    \<and> (\<forall>sid. map_option (\<lambda>s. s_sendWindow s + int (length (stream_bytes sid fs))) (c_streams (flushPending c) sid)
           = map_option s_sendWindow (c_streams c sid))
    \<and> (c_pending (flushPending c) = [] \<or>
       send_avail (flushPending c) (pd_streamID (hd (c_pending (flushPending c)))) = 0)"
  using flush_loop_flushed [OF assms(1)] assms(2) by (simp add: flushPending_def flushed_def)

text \<open>C31. A header block goes out as one HEADERS frame and, when it is longer than the
  peer's frame size, CONTINUATION frames of the same stream directly behind it, each
  within that size, with END_STREAM on the HEADERS frame and END_HEADERS on the last
  one only; put together they are the block.\<close>

theorem writeHeaderBlock_fragments:
  assumes "conn_ok c"
  shows "\<exists>fs. c_outBuf (writeHeaderBlock c sid block es) = c_outBuf c @ concat (map enc_frame fs)
    \<and> header_run sid (unat (c_peerMaxFrameSize c)) fs block es"
  using writeHeaderBlock_run [OF assms, of sid block es] by (auto simp: writeFrame_def)

text \<open>A body that fits one frame and the connection window takes another path: it
  goes out at once, whatever the stream's window and whatever is already queued, and
  no window is debited; so any number of such writes goes out, past every window.\<close>

theorem WriteData_single_frame:
  assumes "length dat \<le> unat (c_peerMaxFrameSize c)" and "int (length dat) \<le> c_sendWindow c"
    and "length dat < 2 ^ 31"
  shows "((\<lambda>c. WriteData c sid dat es) ^^ k) c =
      writeFrame c (concat (replicate k (enc_frame (data_frame sid dat es))))"
proof (induction k)
  case 0
  then show ?case by (simp add: writeFrame_def)
next
  case (Suc k)
  let ?c = "((\<lambda>c. WriteData c sid dat es) ^^ k) c"
  have "c_peerMaxFrameSize ?c = c_peerMaxFrameSize c" "c_sendWindow ?c = c_sendWindow c"
    by (simp_all add: Suc writeFrame_def)
  then have "WriteData ?c sid dat es = writeFrame ?c (enc_frame (data_frame sid dat es))"
    using assms by (simp add: WriteData_def writeDataLocked_def wrap32_nat AppendData_enc)
  then show ?case by (simp add: Suc writeFrame_def concat_replicate_comm)
qed

text \<open>Instances: a connection with a nil coder, whose only purpose is to be concrete.\<close>

definition plain_hpack :: "(unit, unit) hpack" where
  "plain_hpack = \<lparr>NewDecoder = (\<lambda>_. ()), dec_Write = (\<lambda>d _. (d, [], None)), dec_Close = (\<lambda>d. (d, None)),
     dec_SetMax = (\<lambda>d _. d), NewEncoder = (), enc_WriteField = (\<lambda>e _. (e, [], None)),
     enc_SetMax = (\<lambda>e _. e)\<rparr>"

lemma WriteData_single_frame_witness:
  "((\<lambda>c. WriteData c 1 [7] False) ^^ 3) (NewConn plain_hpack True) =
     writeFrame (NewConn plain_hpack True) (concat (replicate 3 (enc_frame (data_frame 1 [7] False))))"
  by (rule WriteData_single_frame) (simp_all add: NewConn_def)

lemma WriteData_flow_controlled_witness:
  "\<exists>fs. WriteData (NewConn plain_hpack True) 1 (replicate 20000 7) True =
      writeFrame (let k = sendable (NewConn plain_hpack True) 1 (replicate 20000 7) in
        if k < length (replicate 20000 (7 :: byte))
        then appendPending (debit (NewConn plain_hpack True) 1 k) 1 (drop k (replicate 20000 7)) True
        else debit (NewConn plain_hpack True) 1 k)
        (concat (map enc_frame fs))
    \<and> data_run 1 (unat (c_peerMaxFrameSize (NewConn plain_hpack True))) fs
        (take (sendable (NewConn plain_hpack True) 1 (replicate 20000 7)) (replicate 20000 7))
        (True \<and> sendable (NewConn plain_hpack True) 1 (replicate 20000 7) = length (replicate 20000 (7 :: byte)))
    \<and> conn_ok (WriteData (NewConn plain_hpack True) 1 (replicate 20000 7) True)"
  by (rule WriteData_flow_controlled) (simp_all add: NewConn_ok, simp add: NewConn_def)

lemma writeHeaderBlock_fragments_witness:
  "\<exists>fs. c_outBuf (writeHeaderBlock (NewConn plain_hpack True) 1 [0x82] True)
      = c_outBuf (NewConn plain_hpack True) @ concat (map enc_frame fs)
    \<and> header_run 1 (unat (c_peerMaxFrameSize (NewConn plain_hpack True))) fs [0x82] True"
  by (rule writeHeaderBlock_fragments) (rule NewConn_ok)

text \<open>A connection with two streams waiting for window, both with END_STREAM.\<close>

definition two_waiting :: "(unit, unit) conn" where
  "two_waiting = (NewConn plain_hpack False)\<lparr>c_pending :=
     [\<lparr>pd_streamID = 1, pd_data = [7], pd_endStream = True\<rparr>,
      \<lparr>pd_streamID = 3, pd_data = [9], pd_endStream = True\<rparr>]\<rparr>"

lemma two_waiting_ok: "conn_ok two_waiting"
  by (simp add: two_waiting_def conn_ok_def NewConn_def NewFrameParser_def)

lemma flushPending_conserves_witness:
  "\<exists>fs. conn_ok (flushPending two_waiting)
    \<and> c_outBuf (flushPending two_waiting) = c_outBuf two_waiting @ concat (map enc_frame fs)
    \<and> (\<forall>f \<in> set fs. f_Type f = FrameData)
    \<and> (\<forall>sid. stream_bytes sid fs @ pending_bytes sid (c_pending (flushPending two_waiting))
           = pending_bytes sid (c_pending two_waiting))
    \<and> c_sendWindow (flushPending two_waiting) + int (sent_bytes fs) = c_sendWindow two_waiting
    \<and> (\<forall>sid. map_option (\<lambda>s. s_sendWindow s + int (length (stream_bytes sid fs)))
             (c_streams (flushPending two_waiting) sid)
           = map_option s_sendWindow (c_streams two_waiting sid))
    \<and> (c_pending (flushPending two_waiting) = [] \<or>
       send_avail (flushPending two_waiting) (pd_streamID (hd (c_pending (flushPending two_waiting)))) = 0)"
  by (rule flushPending_conserves [OF two_waiting_ok]) (simp add: two_waiting_def)

text \<open>END_STREAM of a queued body is sent only when its entry is the last one in the
  queue: when another entry, of whatever stream, waits behind it, the body goes out
  in full, its entry leaves the queue, and its END_STREAM is never sent.\<close>

theorem flush_drops_END_STREAM:
  assumes "conn_ok c" and "c_pending c = p # q # ps"
    and "0 < send_avail c (pd_streamID p)" and "int (length (pd_data p)) \<le> send_avail c (pd_streamID p)"
  shows "flushPending c = flushPending
    ((writeFrame (debit c (pd_streamID p) (length (pd_data p)))
       (enc_frame (data_frame (pd_streamID p) (pd_data p) False)))\<lparr>c_pending := q # ps\<rparr>)"
proof -
  have "wrap32 (int (length (pd_data p))) = int (length (pd_data p))"
    using conn_okD(5) [OF assms(1), of p] assms(2) by (simp add: wrap32_nat)
  with assms show ?thesis
    by (simp add: flushPending_def flush_loop.simps [of c] Let_def AppendData_enc)
qed

lemma flush_drops_END_STREAM_witness:
  "flushPending two_waiting = flushPending
    ((writeFrame (debit two_waiting 1 1) (enc_frame (data_frame 1 [7] False)))
       \<lparr>c_pending := [\<lparr>pd_streamID = 3, pd_data = [9], pd_endStream = True\<rparr>]\<rparr>)"
  using flush_drops_END_STREAM [OF two_waiting_ok, of "\<lparr>pd_streamID = 1, pd_data = [7], pd_endStream = True\<rparr>"
      "\<lparr>pd_streamID = 3, pd_data = [9], pd_endStream = True\<rparr>" "[]"]
  by (simp add: two_waiting_def NewConn_def send_avail_def)

end
