(* ===== verification/H2_Recv.thy ===== *)
theory H2_Recv
  imports H2_Conn
begin

text \<open>
  The receiving half of \<^verbatim>\<open>src/http2/conn.go\<close>: what the connection does with each
  frame, the state table of the streams, receive flow control, the two levels of
  errors and \<open>Feed\<close>. The stream handler of the layer above (gRPC) is a record of
  functions that may write to the connection; a nil handler is \<open>None\<close>.
\<close>

section \<open>The handler\<close>

record ('c, 'h) stream_handler =
  OnHeaders :: "'c \<Rightarrow> 'h \<Rightarrow> u32 \<Rightarrow> HeaderField list \<Rightarrow> bool \<Rightarrow> 'c \<times> 'h"
  OnData :: "'c \<Rightarrow> 'h \<Rightarrow> u32 \<Rightarrow> bytes \<Rightarrow> bool \<Rightarrow> 'c \<times> 'h"
  OnRSTStream :: "'c \<Rightarrow> 'h \<Rightarrow> u32 \<Rightarrow> ErrCode \<Rightarrow> 'c \<times> 'h"

type_synonym ('d, 'e, 'h) h2handler = "(('d, 'e) conn, 'h) stream_handler option"

text \<open>A big-endian 32-bit field at an offset of a payload.\<close>

definition u32_at :: "bytes \<Rightarrow> nat \<Rightarrow> u32" where
  "u32_at b i = get32 (b ! i) (b ! (i + 1)) (b ! (i + 2)) (b ! (i + 3))"

section \<open>SETTINGS, PING, GOAWAY, PRIORITY\<close>

definition apply_setting ::
  "('d, 'e) hpack \<Rightarrow> ('d, 'e) conn \<Rightarrow> u16 \<Rightarrow> u32 \<Rightarrow> ('d, 'e) conn \<times> h2err option" where
  "apply_setting hp c ident val =
     (if ident = 0x1 then
        (c\<lparr>c_peerHeaderTable := val, c_encoder := enc_SetMax hp (c_encoder c) val\<rparr>, None)
      else if ident = 0x2 then
        (if val \<noteq> 0 \<and> val \<noteq> 1
         then (c, Some (Wrapped ErrBadFrameLength (''ENABLE_PUSH '' @ itoa (unat val)))) else (c, None))
      else if ident = 0x3 then (c, None)
      else if ident = 0x4 then
        (if val > 0x7fffffff
         then (c, Some (Wrapped ErrBadFrameLength ''INITIAL_WINDOW_SIZE too large''))
         else (c\<lparr>c_peerInitialWindow := val\<rparr>, None))
      else if ident = 0x5 then
        (if val < defaultMaxFrameSize \<or> val > MaxFrameSize
         then (c, Some (Wrapped ErrBadFrameLength (''MAX_FRAME_SIZE '' @ itoa (unat val))))
         else (c\<lparr>c_peerMaxFrameSize := val\<rparr>, None))
      else (c, None))"

text \<open>The loop over the payload, six bytes at a time.\<close>

fun settings_loop ::
  "('d, 'e) hpack \<Rightarrow> ('d, 'e) conn \<Rightarrow> bytes \<Rightarrow> ('d, 'e) conn \<times> h2err option" where
  "settings_loop hp c (i1 # i0 # v3 # v2 # v1 # v0 # rest) =
     (case apply_setting hp c (get16 i1 i0) (get32 v3 v2 v1 v0) of
        (c', Some e) \<Rightarrow> (c', Some e)
      | (c', None) \<Rightarrow> settings_loop hp c' rest)"
| "settings_loop hp c _ = (c, None)"

definition onSettings ::
  "('d, 'e) hpack \<Rightarrow> ('d, 'e) conn \<Rightarrow> frame \<Rightarrow> ('d, 'e) conn \<times> h2err option" where
  "onSettings hp c f =
     (if f_Flags f AND FlagSettingsAck \<noteq> 0 then (c, None)
      else case settings_loop hp c (f_Payload f) of
          (c', Some e) \<Rightarrow> (c', Some e)
        | (c', None) \<Rightarrow> (writeFrame c' (AppendSettingsAck []), None))"

definition onPing :: "('d, 'e) conn \<Rightarrow> frame \<Rightarrow> ('d, 'e) conn \<times> h2err option" where
  "onPing c f =
     (if f_Flags f AND FlagPingAck \<noteq> 0 then (c, None)
      else let dat = take 8 (f_Payload f) @ replicate (8 - length (f_Payload f)) 0
           in (writeFrame c (AppendPing [] dat True), None))"

definition onGoAway :: "('d, 'e) conn \<Rightarrow> frame \<Rightarrow> ('d, 'e) conn \<times> h2err option" where
  "onGoAway c f =
     (c\<lparr>c_goAway := True, c_goAwayCode := u32_at (f_Payload f) 4, c_state := stateClosed\<rparr>, None)"

text \<open>\<open>uint32(b&0x7f)<<24 | ...\<close>: the dependency without the exclusive bit.\<close>

definition dependency :: "bytes \<Rightarrow> u32" where
  "dependency b = get32 (b ! 0 AND 0x7f) (b ! 1) (b ! 2) (b ! 3)"

definition onPriority :: "('d, 'e) conn \<Rightarrow> frame \<Rightarrow> ('d, 'e) conn \<times> h2err option" where
  "onPriority c f =
     (if length (f_Payload f) \<noteq> 5 then
        (c, Some (ConnError ErrCodeFrameSize (''PRIORITY payload '' @ itoa (length (f_Payload f)) @ '' != 5'')))
      else if dependency (f_Payload f) = f_StreamID f then
        (c, Some (StreamError (f_StreamID f) ErrCodeProtocol ''stream depends on itself''))
      else (c, None))"

section \<open>The state table\<close>

datatype frameKind = frameKindHeaders | frameKindData | frameKindRSTStream | frameKindWindowUpdate
  | frameKindPriority | frameKindContinuation

definition kindName :: "frameKind \<Rightarrow> string" where
  "kindName k = (case k of
      frameKindHeaders \<Rightarrow> ''HEADERS'' | frameKindData \<Rightarrow> ''DATA'' | frameKindRSTStream \<Rightarrow> ''RST_STREAM''
    | frameKindWindowUpdate \<Rightarrow> ''WINDOW_UPDATE'' | frameKindPriority \<Rightarrow> ''PRIORITY''
    | frameKindContinuation \<Rightarrow> ''CONTINUATION'')"

text \<open>The part of \<open>checkStreamRecv\<close> for a stream that does not exist.\<close>

definition checkIdleRecv :: "('d, 'e) conn \<Rightarrow> u32 \<Rightarrow> frameKind \<Rightarrow> ('d, 'e) conn \<times> h2err option" where
  "checkIdleRecv c sid kind =
     (case kind of
        frameKindHeaders \<Rightarrow>
          (if c_isClient c \<and> sid mod 2 = 1 then
             (c, Some (ConnError ErrCodeProtocol
               (''stream '' @ itoa (unat sid) @ '': server must not open odd streams'')))
           else if \<not> c_isClient c \<and> sid mod 2 = 0 then
             (c, Some (ConnError ErrCodeProtocol
               (''stream '' @ itoa (unat sid) @ '': client must not open even streams'')))
           else if sid \<le> c_maxPeerStreamID c then
             (c, Some (ConnError ErrCodeProtocol
               (''stream '' @ itoa (unat sid) @ '' is not greater than the last one (''
                @ itoa (unat (c_maxPeerStreamID c)) @ '')'')))
           else (c\<lparr>c_maxPeerStreamID := sid\<rparr>, None))
      | frameKindPriority \<Rightarrow> (c, None)
      | frameKindData \<Rightarrow>
          (c, Some (ConnError ErrCodeProtocol (''stream '' @ itoa (unat sid) @ '': DATA on idle stream'')))
      | frameKindContinuation \<Rightarrow>
          (c, Some (ConnError ErrCodeProtocol
            (''stream '' @ itoa (unat sid) @ '': CONTINUATION with nothing pending'')))
      | _ \<Rightarrow>
          (c, Some (ConnError ErrCodeProtocol
            (''stream '' @ itoa (unat sid) @ '': '' @ kindName kind @ '' on idle stream''))))"

definition checkStreamRecv :: "('d, 'e) conn \<Rightarrow> u32 \<Rightarrow> frameKind \<Rightarrow> ('d, 'e) conn \<times> h2err option" where
  "checkStreamRecv c sid kind =
     (case c_streams c sid of
        None \<Rightarrow> checkIdleRecv c sid kind
      | Some s \<Rightarrow>
          if s_state s \<in> {StreamHalfClosedRemote, StreamClosed}
             \<and> kind \<in> {frameKindData, frameKindHeaders} then
            (c, Some (StreamError sid ErrCodeStreamClosed
              (kindName kind @ '' on half-closed(remote)/closed stream'')))
          else if s_state s = StreamHalfClosedLocal \<and> kind = frameKindHeaders then
            (c, Some (StreamError sid ErrCodeStreamClosed ''HEADERS on half-closed(local) stream''))
          else if sid > c_maxPeerStreamID c then (c\<lparr>c_maxPeerStreamID := sid\<rparr>, None)
          else (c, None))"

section \<open>Window updates\<close>

definition onConnWindowUpdate :: "('d, 'e) conn \<Rightarrow> frame \<Rightarrow> ('d, 'e) conn \<times> h2err option" where
  "onConnWindowUpdate c f =
     (let inc = u32_at (f_Payload f) 0; i = wrap32 (uint inc) in
      if inc = 0 then (c, Some (Wrapped ErrBadFrameLength ''connection WINDOW_UPDATE increment 0''))
      else if c_sendWindow c > wrap32 ((2 ^ 31 - 1) - i) then
        (c, Some (ConnError ErrCodeFlowControl
          (''connection window overflow: '' @ itoa_int (c_sendWindow c) @ '' + '' @ itoa (unat inc))))
      else (flushPending (c\<lparr>c_sendWindow := wrap32 (c_sendWindow c + i)\<rparr>), None))"

definition onStreamWindowUpdate :: "('d, 'e) conn \<Rightarrow> frame \<Rightarrow> ('d, 'e) conn \<times> h2err option" where
  "onStreamWindowUpdate c f =
     (case checkStreamRecv c (f_StreamID f) frameKindWindowUpdate of
        (c, Some e) \<Rightarrow> (c, Some e)
      | (c, None) \<Rightarrow>
          (let inc = u32_at (f_Payload f) 0; i = wrap32 (uint inc) in
           if inc = 0 then
             (c, Some (ConnError ErrCodeProtocol
               (''WINDOW_UPDATE increment 0 on stream '' @ itoa (unat (f_StreamID f)))))
           else case c_streams c (f_StreamID f) of
               None \<Rightarrow> (c, None)
             | Some s \<Rightarrow>
                 if s_sendWindow s > wrap32 ((2 ^ 31 - 1) - i) then
                   (c, Some (StreamError (f_StreamID f) ErrCodeFlowControl
                     (''stream window overflow: '' @ itoa_int (s_sendWindow s) @ '' + '' @ itoa (unat inc))))
                 else (flushPending (c\<lparr>c_streams := (c_streams c)(f_StreamID f \<mapsto>
                         s\<lparr>s_sendWindow := wrap32 (s_sendWindow s + i)\<rparr>)\<rparr>), None)))"

text \<open>\<open>giveRecvWindow\<close>: debit, check, and credit back with one WINDOW_UPDATE for the
  connection and one for the stream.\<close>

definition giveRecvWindow :: "('d, 'e) conn \<Rightarrow> u32 \<Rightarrow> int32 \<Rightarrow> ('d, 'e) conn \<times> h2err option" where
  "giveRecvWindow c sid n =
     (let c = c\<lparr>c_recvWindow := wrap32 (c_recvWindow c - n)\<rparr> in
      if c_recvWindow c < 0 then (c, Some (Wrapped ErrFlowControl ''connection window exceeded''))
      else case c_streams c sid of
          None \<Rightarrow>
            if n \<le> 0 then (c, None)
            else let c = writeFrameLocked c (AppendWindowUpdate [] 0 (word_of_int n))
                 in (c\<lparr>c_recvWindow := wrap32 (c_recvWindow c + n)\<rparr>, None)
        | Some s \<Rightarrow>
            let s = s\<lparr>s_recvWindow := wrap32 (s_recvWindow s - n)\<rparr>;
                c = c\<lparr>c_streams := (c_streams c)(sid \<mapsto> s)\<rparr>
            in if s_recvWindow s < 0 then
                 (c, Some (Wrapped ErrFlowControl (''stream '' @ itoa (unat sid) @ '' window exceeded'')))
               else if n \<le> 0 then (c, None)
               else let c = writeFrameLocked c (AppendWindowUpdate [] 0 (word_of_int n));
                        c = c\<lparr>c_recvWindow := wrap32 (c_recvWindow c + n)\<rparr>;
                        c = writeFrameLocked c (AppendWindowUpdate [] sid (word_of_int n));
                        s = s\<lparr>s_recvWindow := wrap32 (s_recvWindow s + n)\<rparr>
                    in (c\<lparr>c_streams := (c_streams c)(sid \<mapsto> s)\<rparr>, None))"

section \<open>The end of a stream\<close>

definition checkContentLength :: "stream \<Rightarrow> h2err option" where
  "checkContentLength s =
     (if s_expectContentLength s < 0 then None
      else if s_recvBodyLen s \<noteq> s_expectContentLength s then
        Some (StreamError (s_ID s) ErrCodeProtocol
          (''content-length mismatch: declared '' @ itoa_int (s_expectContentLength s) @ '', got ''
           @ itoa_int (s_recvBodyLen s)))
      else None)"

text \<open>\<open>applyRecvEndStream\<close> on the connection and the stream object held.\<close>

definition applyRecvEndStream :: "('d, 'e) conn \<Rightarrow> stream \<Rightarrow> bool \<Rightarrow> ('d, 'e) conn \<times> stream" where
  "applyRecvEndStream c s endStream =
     (if \<not> endStream then (c, s)
      else let s = s\<lparr>s_remoteEnded := True\<rparr> in
        (case s_state s of
           StreamOpen \<Rightarrow>
             (let s = s\<lparr>s_state := StreamHalfClosedRemote\<rparr> in (store c s, s))
         | StreamHalfClosedLocal \<Rightarrow>
             (let s = s\<lparr>s_state := StreamClosed\<rparr> in (forgetStream (store c s) (s_ID s), s))
         | _ \<Rightarrow> (store c s, s)))"

definition forgetIfClosed :: "('d, 'e) conn \<Rightarrow> stream \<Rightarrow> ('d, 'e) conn" where
  "forgetIfClosed c s = (if s_state s = StreamClosed then forgetStream c (s_ID s) else c)"

section \<open>HEADERS and CONTINUATION\<close>

text \<open>The validation step of \<open>finishHeaders\<close>: syntax only for a client, a complete
  request for a server; then the declared length.\<close>

definition header_error :: "('d, 'e) conn \<Rightarrow> HeaderField list \<Rightarrow> string" where
  "header_error c flds =
     (if c_isClient c then fst (snd (validateHeaderSyntax flds)) else snd (validateRequestHeaders flds))"

text \<open>What \<open>finishHeaders\<close> does once the fields are accepted and stored.\<close>

definition deliver_headers ::
  "('d, 'e, 'h) h2handler \<Rightarrow> ('d, 'e) conn \<Rightarrow> 'h \<Rightarrow> stream \<Rightarrow> bool
   \<Rightarrow> (('d, 'e) conn \<times> 'h) \<times> h2err option" where
  "deliver_headers h c hs s endStream =
     (let (c, hs) = (case h of None \<Rightarrow> (c, hs) | Some cb \<Rightarrow> OnHeaders cb c hs (s_ID s) (s_headers s) endStream);
          (c, s) = applyRecvEndStream c (load c s) endStream
      in case (if endStream \<and> \<not> c_isClient c then checkContentLength s else None) of
           Some e \<Rightarrow> ((c, hs), Some e)
         | None \<Rightarrow> ((forgetIfClosed c s, hs), None))"

definition finishHeaders ::
  "('d, 'e) hpack \<Rightarrow> ('d, 'e, 'h) h2handler \<Rightarrow> ('d, 'e) conn \<Rightarrow> 'h \<Rightarrow> u32 \<Rightarrow> bytes \<Rightarrow> bool
   \<Rightarrow> (('d, 'e) conn \<times> 'h) \<times> h2err option" where
  "finishHeaders hp h c hs sid block endStream =
     (case Decode hp (c_dec c) block of
        (d, Inl err) \<Rightarrow>
          ((c\<lparr>c_dec := d\<rparr>, hs), Some (ConnError ErrCodeCompression (''HPACK decode: '' @ err)))
      | (d, Inr flds) \<Rightarrow>
          (case checkStreamRecv (c\<lparr>c_dec := d\<rparr>) sid frameKindHeaders of
             (c, Some e) \<Rightarrow> ((c, hs), Some e)
           | (c, None) \<Rightarrow>
               (let (c, s) = stream c sid in
                if header_error c flds \<noteq> '''' then
                  ((c, hs), Some (StreamError sid ErrCodeProtocol (header_error c flds)))
                else
                  let s = s\<lparr>s_headers := flds\<rparr>; c = store c s in
                  if c_isClient c then deliver_headers h c hs s endStream
                  else case contentLengthOf flds of
                    (cl, ok, verr) \<Rightarrow>
                      if verr \<noteq> '''' then ((c, hs), Some (StreamError sid ErrCodeProtocol verr))
                      else let s = s\<lparr>s_expectContentLength := (if ok then cl else -1)\<rparr>
                           in deliver_headers h (store c s) hs s endStream)))"

text \<open>Cutting off the padding: the pad length is the first byte; \<open>what\<close> names the
  frame in the error.\<close>

definition strip_padding :: "string \<Rightarrow> bytes \<Rightarrow> h2err + bytes" where
  "strip_padding what payload =
     (case payload of
        [] \<Rightarrow> Inl (Wrapped ErrBadFrameLength (what @ '' padded without pad length''))
      | b # rest \<Rightarrow>
          (if unat b > length rest then
             Inl (Wrapped ErrBadFrameLength (what @ '' pad '' @ itoa (unat b) @ '' > '' @ itoa (length rest)))
           else Inr (take (length rest - unat b) rest)))"

text \<open>Padding and priority fields of a HEADERS frame.\<close>

definition headers_fragment :: "frame \<Rightarrow> h2err + bytes" where
  "headers_fragment f =
     (case (if f_Flags f AND FlagHeadersPadded \<noteq> 0 then strip_padding ''HEADERS'' (f_Payload f)
            else Inr (f_Payload f)) of
        Inl e \<Rightarrow> Inl e
      | Inr payload \<Rightarrow>
          (if f_Flags f AND FlagHeadersPriority \<noteq> 0 then
             (if length payload < 5 then
                Inl (ConnError ErrCodeFrameSize (''HEADERS priority too short: '' @ itoa (length payload)))
              else if dependency payload = f_StreamID f then
                Inl (StreamError (f_StreamID f) ErrCodeProtocol ''stream depends on itself'')
              else Inr (drop 5 payload))
           else Inr payload))"

definition onHeaders ::
  "('d, 'e) hpack \<Rightarrow> ('d, 'e, 'h) h2handler \<Rightarrow> ('d, 'e) conn \<Rightarrow> 'h \<Rightarrow> frame
   \<Rightarrow> (('d, 'e) conn \<times> 'h) \<times> h2err option" where
  "onHeaders hp h c hs f =
     (case headers_fragment f of
        Inl e \<Rightarrow> ((c, hs), Some e)
      | Inr payload \<Rightarrow>
          (let endStream = (f_Flags f AND FlagHeadersEndStream \<noteq> 0) in
           if \<not> EndHeaders f then
             ((c\<lparr>c_pendingHeaders := \<lparr>ph_streamID = f_StreamID f, ph_block = payload,
                 ph_endStream = endStream, ph_active = True\<rparr>\<rparr>, hs), None)
           else finishHeaders hp h c hs (f_StreamID f) payload endStream))"

definition onContinuation ::
  "('d, 'e) hpack \<Rightarrow> ('d, 'e, 'h) h2handler \<Rightarrow> ('d, 'e) conn \<Rightarrow> 'h \<Rightarrow> frame
   \<Rightarrow> (('d, 'e) conn \<times> 'h) \<times> h2err option" where
  "onContinuation hp h c hs f =
     (let ph = c_pendingHeaders c in
      if \<not> ph_active ph \<or> ph_streamID ph \<noteq> f_StreamID f then
        ((c, hs), Some (Wrapped ErrUnexpectedFrame
          (''CONTINUATION on stream '' @ itoa (unat (f_StreamID f)) @ '' with nothing pending'')))
      else let ph = ph\<lparr>ph_block := ph_block ph @ f_Payload f\<rparr> in
        if \<not> EndHeaders f then ((c\<lparr>c_pendingHeaders := ph\<rparr>, hs), None)
        else finishHeaders hp h (c\<lparr>c_pendingHeaders := ph\<lparr>ph_active := False\<rparr>\<rparr>) hs (f_StreamID f)
               (ph_block ph) (ph_endStream ph))"

section \<open>DATA and RST_STREAM\<close>

text \<open>\<open>onData\<close> behind the receive windows: count the body, call the handler, and at
  the end of the stream compare with the declared length.\<close>

definition deliver_data ::
  "('d, 'e, 'h) h2handler \<Rightarrow> ('d, 'e) conn \<Rightarrow> 'h \<Rightarrow> stream \<Rightarrow> bytes \<Rightarrow> bool
   \<Rightarrow> (('d, 'e) conn \<times> 'h) \<times> h2err option" where
  "deliver_data h c hs s payload endStream =
     (let s = s\<lparr>s_recvBodyLen := s_recvBodyLen s + int (length payload)\<rparr>;
          c = store c s;
          (c, hs) = (case h of
              None \<Rightarrow> (c, hs)
            | Some cb \<Rightarrow> if 0 < length payload then OnData cb c hs (s_ID s) payload endStream else (c, hs));
          s = load c s
      in case (if endStream \<and> \<not> c_isClient c then checkContentLength s else None) of
           Some e \<Rightarrow> ((c, hs), Some e)
         | None \<Rightarrow>
             (let (c, s) = applyRecvEndStream c s endStream
              in ((forgetIfClosed c s, hs), None)))"

definition onData ::
  "('d, 'e, 'h) h2handler \<Rightarrow> ('d, 'e) conn \<Rightarrow> 'h \<Rightarrow> frame \<Rightarrow> (('d, 'e) conn \<times> 'h) \<times> h2err option" where
  "onData h c hs f =
     (case (if f_Flags f AND FlagDataPadded \<noteq> 0 then strip_padding ''DATA'' (f_Payload f)
            else Inr (f_Payload f)) of
        Inl e \<Rightarrow> ((c, hs), Some e)
      | Inr payload \<Rightarrow>
          (case checkStreamRecv c (f_StreamID f) frameKindData of
             (c, Some e) \<Rightarrow> ((c, hs), Some e)
           | (c, None) \<Rightarrow>
               (case c_streams c (f_StreamID f) of
                  None \<Rightarrow>
                    ((c, hs), Some (ConnError ErrCodeProtocol
                      (''DATA on stream '' @ itoa (unat (f_StreamID f)) @ '' that is not open'')))
                | Some s \<Rightarrow>
                    (case giveRecvWindow c (f_StreamID f) (wrap32 (int (length (f_Payload f)))) of
                       (c, Some e) \<Rightarrow> ((c, hs), Some e)
                     | (c, None) \<Rightarrow>
                         deliver_data h c hs (load c s) payload (f_Flags f AND FlagDataEndStream \<noteq> 0)))))"

definition onRSTStream ::
  "('d, 'e, 'h) h2handler \<Rightarrow> ('d, 'e) conn \<Rightarrow> 'h \<Rightarrow> frame \<Rightarrow> (('d, 'e) conn \<times> 'h) \<times> h2err option" where
  "onRSTStream h c hs f =
     (case checkStreamRecv c (f_StreamID f) frameKindRSTStream of
        (c, Some e) \<Rightarrow> ((c, hs), Some e)
      | (c, None) \<Rightarrow>
          (let (c, hs) = (case h of None \<Rightarrow> (c, hs)
                | Some cb \<Rightarrow> OnRSTStream cb c hs (f_StreamID f) (u32_at (f_Payload f) 0))
           in ((forgetStream c (f_StreamID f), hs), None)))"

section \<open>Dispatch\<close>

text \<open>The frames of a single stream, behind the first \<open>switch\<close>.\<close>

definition onStreamFrame ::
  "('d, 'e) hpack \<Rightarrow> ('d, 'e, 'h) h2handler \<Rightarrow> ('d, 'e) conn \<Rightarrow> 'h \<Rightarrow> frame
   \<Rightarrow> (('d, 'e) conn \<times> 'h) \<times> h2err option" where
  "onStreamFrame hp h c hs f =
     (if f_StreamID f = 0 then
        ((c, hs), Some (ConnError ErrCodeProtocol (FrameType_String (f_Type f) @ '' on stream 0'')))
      else
        let c = (if f_StreamID f > c_lastStreamID c then c\<lparr>c_lastStreamID := f_StreamID f\<rparr> else c) in
        if f_Type f = FrameHeaders then onHeaders hp h c hs f
        else if f_Type f = FrameContinuation then onContinuation hp h c hs f
        else if f_Type f = FrameData then onData h c hs f
        else if f_Type f = FrameRSTStream then onRSTStream h c hs f
        else if f_Type f = FrameWindowUpdate then
          (case onStreamWindowUpdate c f of (c, e) \<Rightarrow> ((c, hs), e))
        else ((c, hs), None))"

definition onFrame ::
  "('d, 'e) hpack \<Rightarrow> ('d, 'e, 'h) h2handler \<Rightarrow> ('d, 'e) conn \<times> 'h \<Rightarrow> frame
   \<Rightarrow> (('d, 'e) conn \<times> 'h) \<times> h2err option" where
  "onFrame hp h st f =
     (case st of (c, hs) \<Rightarrow>
        if f_Type f = FrameSettings then (case onSettings hp c f of (c, e) \<Rightarrow> ((c, hs), e))
        else if f_Type f = FramePing then (case onPing c f of (c, e) \<Rightarrow> ((c, hs), e))
        else if f_Type f = FrameGoAway then (case onGoAway c f of (c, e) \<Rightarrow> ((c, hs), e))
        else if f_Type f = FrameWindowUpdate then
          (if f_StreamID f = 0 then (case onConnWindowUpdate c f of (c, e) \<Rightarrow> ((c, hs), e))
           else onStreamFrame hp h c hs f)
        else if f_Type f = FramePriority then (case onPriority c f of (c, e) \<Rightarrow> ((c, hs), e))
        else if f_Type f = FramePushPromise then
          ((c, hs), Some (ConnError ErrCodeProtocol ''PUSH_PROMISE not supported''))
        else if f_Type f \<in> {FrameHeaders, FrameData, FrameRSTStream, FrameContinuation} then
          onStreamFrame hp h c hs f
        else ((c, hs), None))"

section \<open>Errors and Feed\<close>

definition handleError :: "('d, 'e) conn \<Rightarrow> h2err \<Rightarrow> ('d, 'e) conn \<times> bytes" where
  "handleError c err =
     (case asStreamError err of
        Some (sid, code, _) \<Rightarrow>
          takeOutput (forgetStream (writeFrame c (AppendRSTStream [] sid code)) sid)
      | None \<Rightarrow> (case asConnError err of (code, msg) \<Rightarrow> sendGoAway c code msg))"

text \<open>\<open>c.parser.Parse(data, c.onFrame)\<close>.\<close>

definition parse_frames ::
  "('d, 'e) hpack \<Rightarrow> ('d, 'e, 'h) h2handler \<Rightarrow> ('d, 'e) conn \<Rightarrow> 'h \<Rightarrow> bytes
   \<Rightarrow> nat \<times> h2err option \<times> ('d, 'e) conn \<times> 'h" where
  "parse_frames hp h c hs dat =
     (case Parse (c_parser c) (onFrame hp h) (c, hs) dat of
        (n, err, p, (c', hs')) \<Rightarrow> (n, err, c'\<lparr>c_parser := p\<rparr>, hs'))"

text \<open>\<open>Feed\<close>: the bytes consumed, the bytes to send, the error, the connection and the
  handler's state.\<close>

definition Feed ::
  "('d, 'e) hpack \<Rightarrow> ('d, 'e, 'h) h2handler \<Rightarrow> ('d, 'e) conn \<Rightarrow> 'h \<Rightarrow> bytes
   \<Rightarrow> nat \<times> bytes \<times> h2err option \<times> ('d, 'e) conn \<times> 'h" where
  "Feed hp h c hs dat =
     (if c_state c = statePreface then
        (let c = c\<lparr>c_prefaceBuf := c_prefaceBuf c @ dat\<rparr>; consumed = length dat in
         if length (c_prefaceBuf c) < length clientPreface then (consumed, [], None, c, hs)
         else if take (length clientPreface) (c_prefaceBuf c) \<noteq> clientPreface then
           (consumed, [], Some (Wrapped ErrBadFrameHeader ''bad client preface''), c, hs)
         else
           let rest = drop (length clientPreface) (c_prefaceBuf c);
               c = c\<lparr>c_prefaceBuf := [], c_state := stateSettings\<rparr>;
               (c, hs) = (if 0 < length rest
                          then (case parse_frames hp h c hs rest of (_, _, c, hs) \<Rightarrow> (c, hs))
                          else (c, hs));
               (c, out) = takeOutput c
           in (consumed, out, None, c, hs))
      else
        (case parse_frames hp h c hs dat of
           (n, err, c, hs) \<Rightarrow>
             (let consumed = (if n > length dat then length dat else n) in
              case err of
                Some e \<Rightarrow> (case handleError c e of (c, out) \<Rightarrow> (consumed, out, Some e, c, hs))
              | None \<Rightarrow> (case takeOutput c of (c, out) \<Rightarrow> (consumed, out, None, c, hs)))))"

section \<open>Receiving keeps the invariant\<close>

lemma setting_bounds:
  "(v :: u32) \<le> 0x7fffffff \<Longrightarrow> uint v < 2 ^ 31"
  "16384 \<le> (v :: u32) \<Longrightarrow> 16384 \<le> unat v"
  by (simp add: word_le_def, simp add: word_le_nat_alt)

lemma conn_ok_settings:
  "conn_ok c \<Longrightarrow> conn_ok (c\<lparr>c_peerHeaderTable := t, c_encoder := e\<rparr>)"
  "conn_ok c \<Longrightarrow> uint v < 2 ^ 31 \<Longrightarrow> conn_ok (c\<lparr>c_peerInitialWindow := v\<rparr>)"
  "conn_ok c \<Longrightarrow> 16384 \<le> unat v \<Longrightarrow> v \<le> MaxFrameSize \<Longrightarrow> conn_ok (c\<lparr>c_peerMaxFrameSize := v\<rparr>)"
  "conn_ok c \<Longrightarrow> conn_ok (c\<lparr>c_maxPeerStreamID := v\<rparr>)"
  "conn_ok c \<Longrightarrow> conn_ok (c\<lparr>c_lastStreamID := v\<rparr>)"
  "conn_ok c \<Longrightarrow> conn_ok (c\<lparr>c_dec := d\<rparr>)"
  "conn_ok c \<Longrightarrow> p_maxFrameSize p \<le> MaxFrameSize \<Longrightarrow> conn_ok (c\<lparr>c_parser := p\<rparr>)"
  "conn_ok c \<Longrightarrow> conn_ok (c\<lparr>c_pendingHeaders := ph\<rparr>)"
  "conn_ok c \<Longrightarrow> conn_ok (c\<lparr>c_prefaceBuf := pb\<rparr>)"
  "conn_ok c \<Longrightarrow> conn_ok (c\<lparr>c_prefaceBuf := pb, c_state := st\<rparr>)"
  by (simp_all add: conn_ok_def)

lemma apply_setting_keeps: "conn_ok c \<Longrightarrow> conn_ok (fst (apply_setting hp c i v))"
  unfolding apply_setting_def
  by (simp add: conn_ok_settings setting_bounds [simplified] not_less)

lemma settings_loop_keeps: "conn_ok c \<Longrightarrow> conn_ok (fst (settings_loop hp c b))"
proof (induction hp c b rule: settings_loop.induct)
  case (1 hp c i1 i0 v3 v2 v1 v0 rest)
  obtain c' e where a: "apply_setting hp c (get16 i1 i0) (get32 v3 v2 v1 v0) = (c', e)" by fastforce
  with apply_setting_keeps [OF 1(2), of hp "get16 i1 i0" "get32 v3 v2 v1 v0"] have "conn_ok c'" by simp
  with 1(1) a show ?case by (cases e) auto
qed auto

lemma onSettings_keeps [keeps_ok]: "conn_ok c \<Longrightarrow> conn_ok (fst (onSettings hp c f))"
  using settings_loop_keeps [of c hp "f_Payload f"]
  by (auto simp: onSettings_def writeFrame_keeps split: prod.splits option.splits)

lemma onPing_keeps [keeps_ok]: "conn_ok c \<Longrightarrow> conn_ok (fst (onPing c f))"
  by (simp add: onPing_def Let_def writeFrame_keeps)

lemma onGoAway_keeps [keeps_ok]: "conn_ok c \<Longrightarrow> conn_ok (fst (onGoAway c f))"
  by (simp add: onGoAway_def conn_ok_def)

lemma onPriority_keeps [keeps_ok]: "conn_ok c \<Longrightarrow> conn_ok (fst (onPriority c f))"
  by (simp add: onPriority_def)

lemma checkStreamRecv_cases:
  assumes "checkStreamRecv c sid k = (c', e)"
  shows "c' = c \<and> (e = None \<longrightarrow> c_streams c sid \<noteq> None \<longrightarrow> sid \<le> c_maxPeerStreamID c)
           \<and> (e = None \<longrightarrow> c_streams c sid = None \<longrightarrow> k \<noteq> frameKindHeaders)
       \<or> c' = c\<lparr>c_maxPeerStreamID := sid\<rparr> \<and> c_maxPeerStreamID c < sid \<and> e = None"
proof (cases "c_streams c sid")
  case None
  then show ?thesis
    using assms
    by (cases k; simp only: checkStreamRecv_def checkIdleRecv_def option.case frameKind.case)
      (fastforce simp only: prod.inject not_le option.simps if_True if_False frameKind.simps simp_thms
        split: if_split_asm)+
next
  case (Some s)
  then show ?thesis
    using assms
    by (simp only: checkStreamRecv_def option.case)
      (fastforce simp only: prod.inject not_less option.simps simp_thms split: if_split_asm)
qed

lemma checkStreamRecv_unchanged:
  assumes "checkStreamRecv c sid k = (c', e)"
  shows "c_streams c' = c_streams c" and "c_isClient c' = c_isClient c" and "c_dec c' = c_dec c"
    and "c_maxPeerStreamID c \<le> c_maxPeerStreamID c'" and "c_outBuf c' = c_outBuf c"
    and "e = None \<Longrightarrow> k = frameKindHeaders \<or> c_streams c sid \<noteq> None \<Longrightarrow> sid \<le> c_maxPeerStreamID c'"
  using checkStreamRecv_cases [OF assms] by auto

lemma checkStreamRecv_keeps [keeps_ok]:
  "checkStreamRecv c sid k = (c', e) \<Longrightarrow> conn_ok c \<Longrightarrow> conn_ok c'"
  using checkStreamRecv_cases [of c sid k c' e] by (auto simp: conn_ok_settings)

section \<open>Windows\<close>

text \<open>An increment is accepted exactly when it is not 0 and the window stays within 31
  bits; the unmasked high bit makes it too large.\<close>

lemma window_overflow:
  fixes inc :: u32
  assumes "0 \<le> w" and "w < 2 ^ 31"
  shows "(w > wrap32 ((2 ^ 31 - 1) - wrap32 (uint inc))) = (w + uint inc \<ge> 2 ^ 31)"
    and "w + uint inc < 2 ^ 31 \<Longrightarrow> wrap32 (w + wrap32 (uint inc)) = w + uint inc"
proof -
  have u: "0 \<le> uint inc" "uint inc < 2 ^ 32" using unsigned_less [of inc] by auto
  show "wrap32 (w + wrap32 (uint inc)) = w + uint inc" if "w + uint inc < 2 ^ 31"
  proof -
    have "uint inc < 2 ^ 31" "- (2 ^ 31) \<le> w + uint inc" using that u assms by linarith+
    with that show ?thesis by (simp only: wrap32_uint wrap32_id)
  qed
  show "(w > wrap32 ((2 ^ 31 - 1) - wrap32 (uint inc))) = (w + uint inc \<ge> 2 ^ 31)"
  proof (cases "uint inc < 2 ^ 31")
    case True
    then have "- (2 ^ 31) \<le> (2 ^ 31 - 1) - uint inc" "(2 ^ 31 - 1) - uint inc < 2 ^ 31"
      using u by linarith+
    then have "wrap32 ((2 ^ 31 - 1) - wrap32 (uint inc)) = (2 ^ 31 - 1) - uint inc"
      by (simp only: wrap32_uint [OF True] wrap32_id)
    then show ?thesis by auto
  next
    case False
    then have "wrap32 (uint inc) = uint inc - 2 ^ 32"
      using u by (simp add: wrap32_def mod_pos_geq)
    then have "wrap32 ((2 ^ 31 - 1) - wrap32 (uint inc)) = (2 ^ 31 - 1) - uint inc"
      using u False by (simp add: wrap32_def mod_pos_geq)
    with False assms show ?thesis by auto
  qed
qed

lemma onConnWindowUpdate_eq:
  fixes c :: "('d, 'e) conn" and f :: frame
  assumes "conn_ok c"
  defines "inc \<equiv> uint (u32_at (f_Payload f) 0)"
  shows "onConnWindowUpdate c f =
    (if inc = 0 then (c, Some (Wrapped ErrBadFrameLength ''connection WINDOW_UPDATE increment 0''))
     else if c_sendWindow c + inc \<ge> 2 ^ 31 then
       (c, Some (ConnError ErrCodeFlowControl
          (''connection window overflow: '' @ itoa_int (c_sendWindow c) @ '' + '' @ itoa (nat inc))))
     else (flushPending (c\<lparr>c_sendWindow := c_sendWindow c + inc\<rparr>), None))"
proof -
  note w = window_overflow [OF conn_okD(1) [OF assms(1)] conn_okD(2) [OF assms(1)], of "u32_at (f_Payload f) 0"]
  have z: "(u32_at (f_Payload f) 0 = 0) = (inc = 0)"
    unfolding inc_def by (rule unsigned_eq_0_iff [symmetric])
  show ?thesis
  proof (cases "c_sendWindow c + inc \<ge> 2 ^ 31")
    case True
    then show ?thesis
      using w(1) by (simp only: onConnWindowUpdate_def Let_def z inc_def [symmetric]) (simp add: inc_def)
  next
    case False
    then show ?thesis
      using w by (simp only: onConnWindowUpdate_def Let_def z inc_def [symmetric]) (simp add: inc_def)
  qed
qed

lemma onConnWindowUpdate_keeps [keeps_ok]: 
  assumes "conn_ok c"
  shows "conn_ok (fst (onConnWindowUpdate c f))"
proof -
  have "conn_ok (c\<lparr>c_sendWindow := c_sendWindow c + uint (u32_at (f_Payload f) 0)\<rparr>)"
    if "c_sendWindow c + uint (u32_at (f_Payload f) 0) < 2 ^ 31"
    using assms that by (simp add: conn_ok_def)
  then show ?thesis using assms by (simp add: onConnWindowUpdate_eq flushPending_keeps)
qed

lemma onStreamWindowUpdate_keeps [keeps_ok]:
  assumes "conn_ok c"
  shows "conn_ok (fst (onStreamWindowUpdate c f))"
proof -
  obtain c1 e where chk: "checkStreamRecv c (f_StreamID f) frameKindWindowUpdate = (c1, e)" by fastforce
  have ok: "conn_ok c1" by (rule checkStreamRecv_keeps [OF chk assms])
  let ?inc = "u32_at (f_Payload f) 0"
  show ?thesis
  proof (cases "c_streams c1 (f_StreamID f)")
    case None
    then show ?thesis using ok by (simp add: onStreamWindowUpdate_def chk Let_def split: option.splits)
  next
    case (Some s)
    note s = conn_okD(4) [OF ok Some]
    then have "0 \<le> s_sendWindow s" "s_sendWindow s < 2 ^ 31" by (simp_all add: stream_ok_def)
    note w = window_overflow [OF this, of ?inc]
    have "conn_ok (c1\<lparr>c_streams := (c_streams c1)(f_StreamID f \<mapsto>
        s\<lparr>s_sendWindow := wrap32 (s_sendWindow s + wrap32 (uint ?inc))\<rparr>)\<rparr>)"
      if "\<not> s_sendWindow s > wrap32 ((2 ^ 31 - 1) - wrap32 (uint ?inc))"
    proof -
      have "wrap32 (s_sendWindow s + wrap32 (uint ?inc)) = s_sendWindow s + uint ?inc"
          "s_sendWindow s + uint ?inc < 2 ^ 31"
        using w that by auto
      with ok s Some show ?thesis by (auto simp: conn_ok_def stream_ok_def)
    qed
    then show ?thesis
      using ok Some by (simp add: onStreamWindowUpdate_def chk Let_def flushPending_keeps split: option.splits)
  qed
qed

text \<open>Receiving within the window credits everything back: the windows end up as they
  were, and the peer is told so on both levels.\<close>

lemma giveRecvWindow_eq:
  assumes "conn_ok c" and "0 \<le> n" and "n < 2 ^ 31"
  shows "n \<le> c_localInitialWindow c \<Longrightarrow> giveRecvWindow c sid n =
      (if n = 0 then c
       else writeFrame c (AppendWindowUpdate [] 0 (word_of_int n) @
         (if c_streams c sid = None then [] else AppendWindowUpdate [] sid (word_of_int n))), None)"
    and "n > c_localInitialWindow c \<Longrightarrow> snd (giveRecvWindow c sid n)
      = Some (Wrapped ErrFlowControl ''connection window exceeded'')"
proof -
  let ?w = "c_localInitialWindow c"
  have w: "c_recvWindow c = ?w" "65535 \<le> ?w" "?w \<le> maxRecvWindow" using assms(1) by (auto simp: conn_ok_def)
  have a: "wrap32 (?w - n) = ?w - n" and b: "wrap32 (?w - n + n) = ?w"
    using w assms(2,3) by (simp_all add: wrap32_id)
  show "n > ?w \<Longrightarrow> snd (giveRecvWindow c sid n)
      = Some (Wrapped ErrFlowControl ''connection window exceeded'')"
    by (simp add: giveRecvWindow_def w(1) a)
  assume le: "n \<le> ?w"
  show "giveRecvWindow c sid n =
      (if n = 0 then c
       else writeFrame c (AppendWindowUpdate [] 0 (word_of_int n) @
         (if c_streams c sid = None then [] else AppendWindowUpdate [] sid (word_of_int n))), None)"
  proof (cases "c_streams c sid")
    case None
    then show ?thesis
      using le assms(2) a b by (auto simp: giveRecvWindow_def w(1) writeFrame_def Let_def)
  next
    case (Some s)
    then have "s_recvWindow s = ?w" using conn_okD(4) [OF assms(1) Some] by (simp add: stream_ok_def)
    then show ?thesis
      using le assms(2) a b Some
      by (auto simp: giveRecvWindow_def w(1) writeFrame_def Let_def fun_upd_idem)
  qed
qed

lemma giveRecvWindow_keeps:
  assumes "conn_ok c" and "0 \<le> n" and "n < 2 ^ 31" and "giveRecvWindow c sid n = (c', None)"
  shows "conn_ok c' \<and> c_streams c' = c_streams c \<and> c_isClient c' = c_isClient c
    \<and> c_maxPeerStreamID c' = c_maxPeerStreamID c"
  using giveRecvWindow_eq [OF assms(1-3), of sid] assms(1,4)
  by (cases "n \<le> c_localInitialWindow c") (auto simp: writeFrame_keeps simp: writeFrame_def conn_ok_def)

lemma debit_same [simp]: "c_maxPeerStreamID (debit c sid n) = c_maxPeerStreamID c"
  by (simp add: debit_def Let_def split: option.splits)

lemma flush_loop_same: "c_maxPeerStreamID (flush_loop c) = c_maxPeerStreamID c"
proof (induction "length (c_pending c)" arbitrary: c)
  case 0
  then show ?case by (simp add: flush_loop.simps)
next
  case (Suc n)
  then obtain p ps where "c_pending c = p # ps" by (cases "c_pending c") auto
  with Suc show ?case by (simp add: flush_loop.simps [of c] Let_def writeFrame_def)
qed

lemma flushPending_same [simp]: "c_maxPeerStreamID (flushPending c) = c_maxPeerStreamID c"
  by (simp add: flushPending_def flush_loop_same)

section \<open>The end of a stream keeps the invariant\<close>

lemma applyRecvEndStream_keeps:
  assumes "conn_ok c" and "stream_ok (c_localInitialWindow c) sid s"
    and "applyRecvEndStream c s es = (c', s')"
  shows "conn_ok c' \<and> stream_ok (c_localInitialWindow c) sid s'"
proof (cases es)
  case True
  have "stream_ok (c_localInitialWindow c) sid (s\<lparr>s_remoteEnded := True\<rparr>)"
    "stream_ok (c_localInitialWindow c) sid (s\<lparr>s_remoteEnded := True, s_state := st\<rparr>)" for st
    using assms(2) by (simp_all add: stream_ok_def)
  with assms(1,3) True show ?thesis
    by (auto simp: applyRecvEndStream_def Let_def split: StreamState.splits
        intro: store_keeps [OF assms(1), of sid] forgetStream_keeps)
next
  case False
  with assms show ?thesis by (simp add: applyRecvEndStream_def)
qed

lemma forgetIfClosed_keeps [keeps_ok]: "conn_ok c \<Longrightarrow> conn_ok (forgetIfClosed c s)"
  by (simp add: forgetIfClosed_def forgetStream_keeps)

lemma store_same:
  "c_localInitialWindow (store c s) = c_localInitialWindow c"
  "c_maxPeerStreamID (store c s) = c_maxPeerStreamID c"
  "c_isClient (store c s) = c_isClient c" "c_nextRef (store c s) = c_nextRef c"
  by (simp_all add: store_def split: option.splits)

lemma applyRecvEndStream_same:
  assumes "applyRecvEndStream c s es = (c', s')"
  shows "c_maxPeerStreamID c' = c_maxPeerStreamID c" and "c_isClient c' = c_isClient c"
    and "s_expectContentLength s' = s_expectContentLength s" and "s_recvBodyLen s' = s_recvBodyLen s"
    and "s_ID s' = s_ID s"
  using assms by (auto simp: applyRecvEndStream_def Let_def forgetStream_def store_same
      split: if_splits StreamState.splits)

lemma forgetIfClosed_same [simp]: "c_maxPeerStreamID (forgetIfClosed c s) = c_maxPeerStreamID c"
  by (simp add: forgetIfClosed_def forgetStream_def)

section \<open>The contract of the stream handler\<close>

text \<open>An error that ends the connection, as opposed to none or one of a stream.\<close>

definition fatal :: "h2err option \<Rightarrow> bool" where
  "fatal err = (case err of None \<Rightarrow> False | Some e \<Rightarrow> asStreamError e = None)"

text \<open>What every step of the receiving half promises.\<close>

definition good_step :: "('d, 'e) conn \<Rightarrow> ('d, 'e) conn \<Rightarrow> bool" where
  "good_step c c' = (conn_ok c' \<and> c_maxPeerStreamID c \<le> c_maxPeerStreamID c')"

lemma good_step_trans: "c_maxPeerStreamID c \<le> c_maxPeerStreamID c1 \<Longrightarrow> good_step c1 c2 \<Longrightarrow> good_step c c2"
  by (auto simp: good_step_def)

locale conn_client =
  fixes h :: "('d, 'e, 'h) h2handler"
  assumes OnHeaders_client: "h = Some cb \<Longrightarrow> conn_ok c \<Longrightarrow> client_step c (fst (OnHeaders cb c hs sid flds es))"
    and OnData_client: "h = Some cb \<Longrightarrow> conn_ok c \<Longrightarrow> client_step c (fst (OnData cb c hs sid dat es))"
    and OnRSTStream_client: "h = Some cb \<Longrightarrow> conn_ok c \<Longrightarrow> client_step c (fst (OnRSTStream cb c hs sid code))"
begin

lemma callback_client:
  assumes "conn_ok c"
  shows "client_step c (fst (case h of None \<Rightarrow> (c, hs) | Some cb \<Rightarrow> OnHeaders cb c hs sid flds es))"
    and "client_step c (fst (case h of None \<Rightarrow> (c, hs)
           | Some cb \<Rightarrow> if p then OnData cb c hs sid dat es else (c, hs)))"
    and "client_step c (fst (case h of None \<Rightarrow> (c, hs) | Some cb \<Rightarrow> OnRSTStream cb c hs sid code))"
  using assms client_step_refl [OF assms] OnHeaders_client OnData_client OnRSTStream_client
  by (simp_all split: option.splits)

lemma deliver_headers_keeps:
  assumes ok: "conn_ok c" and s: "stream_ok (c_localInitialWindow c) sid s"
    and run: "deliver_headers h c hs s es = ((c', hs'), err)"
  shows "conn_ok c' \<and> c_maxPeerStreamID c' = c_maxPeerStreamID c"
proof -
  obtain c1 hs1 where cb: "(case h of None \<Rightarrow> (c, hs) | Some cb \<Rightarrow> OnHeaders cb c hs (s_ID s) (s_headers s) es)
      = (c1, hs1)" by fastforce
  have st: "client_step c c1"
    using callback_client(1) [OF ok, of hs "s_ID s" "s_headers s" es] cb by simp
  then have ok1: "conn_ok c1" and same: "c_maxPeerStreamID c1 = c_maxPeerStreamID c"
      "c_localInitialWindow c1 = c_localInitialWindow c"
    by (simp_all add: client_step_def)
  obtain c2 s2 where ap: "applyRecvEndStream c1 (load c1 s) es = (c2, s2)" by fastforce
  have "stream_ok (c_localInitialWindow c1) sid (load c1 s)"
    using load_ok [OF ok1, of sid s] s same by simp
  from applyRecvEndStream_keeps [OF ok1 this ap] have "conn_ok c2" by simp
  then show ?thesis
    using run applyRecvEndStream_same [OF ap] same
    by (auto simp: deliver_headers_def cb ap Let_def forgetIfClosed_keeps split: option.splits if_splits)
qed

lemma deliver_data_keeps:
  assumes ok: "conn_ok c" and s: "stream_ok (c_localInitialWindow c) sid s"
    and run: "deliver_data h c hs s dat es = ((c', hs'), err)"
  shows "conn_ok c' \<and> c_maxPeerStreamID c' = c_maxPeerStreamID c"
proof -
  let ?s = "s\<lparr>s_recvBodyLen := s_recvBodyLen s + int (length dat)\<rparr>"
  have s': "stream_ok (c_localInitialWindow c) sid ?s" using s by (simp add: stream_ok_def)
  have ok0: "conn_ok (store c ?s)" by (rule store_keeps [OF ok s'])
  obtain c1 hs1 where cb: "(case h of None \<Rightarrow> (store c ?s, hs)
      | Some cb \<Rightarrow> if 0 < length dat then OnData cb (store c ?s) hs (s_ID ?s) dat es else (store c ?s, hs))
      = (c1, hs1)" by fastforce
  have "client_step (store c ?s) c1"
    using callback_client(2) [OF ok0, of hs "0 < length dat" "s_ID ?s" dat es] cb by simp
  then have ok1: "conn_ok c1" and same: "c_maxPeerStreamID c1 = c_maxPeerStreamID c"
      "c_localInitialWindow c1 = c_localInitialWindow c"
    by (simp_all add: client_step_def store_same)
  obtain c2 s2 where ap: "applyRecvEndStream c1 (load c1 ?s) es = (c2, s2)" by fastforce
  have "stream_ok (c_localInitialWindow c1) sid (load c1 ?s)"
    using load_ok [OF ok1, of sid ?s] s' same by simp
  from applyRecvEndStream_keeps [OF ok1 this ap] have "conn_ok c2" by simp
  then show ?thesis
    using run applyRecvEndStream_same [OF ap] same ok1
    by (auto simp: deliver_data_def cb ap Let_def forgetIfClosed_keeps split: option.splits if_splits)
qed

lemma finishHeaders_keeps:
  assumes "conn_ok c" and "finishHeaders hp h c hs sid block es = ((c', hs'), err)"
  shows "good_step c c'"
proof -
  obtain d r where dec: "Decode hp (c_dec c) block = (d, r)" by fastforce
  let ?c = "c\<lparr>c_dec := d\<rparr>"
  have ok: "conn_ok ?c" using assms(1) by (rule conn_ok_settings)
  show ?thesis
  proof (cases r)
    case (Inl e)
    with assms(2) ok show ?thesis by (auto simp: finishHeaders_def dec good_step_def)
  next
    case (Inr flds)
    obtain c1 e1 where chk: "checkStreamRecv ?c sid frameKindHeaders = (c1, e1)" by fastforce
    have ok1: "conn_ok c1" by (rule checkStreamRecv_keeps [OF chk ok])
    have max1: "c_maxPeerStreamID c \<le> c_maxPeerStreamID c1"
      using checkStreamRecv_unchanged(4) [OF chk] by simp
    obtain c2 s where str: "stream c1 sid = (c2, s)" by fastforce
    have ok2: "conn_ok c2" using stream_keeps [OF ok1, of sid] str by simp
    have max2: "c_maxPeerStreamID c2 = c_maxPeerStreamID c1"
      using str by (auto simp: stream_def Let_def split: option.splits)
    have s: "stream_ok (c_localInitialWindow c2) sid s"
      by (rule conn_okD(4) [OF ok2 stream_result(1) [OF str]])
    let ?s1 = "s\<lparr>s_headers := flds\<rparr>" and ?c3 = "store c2 (s\<lparr>s_headers := flds\<rparr>)"
    have s1: "stream_ok (c_localInitialWindow c2) sid ?s1"
        "stream_ok (c_localInitialWindow c2) sid (?s1\<lparr>s_expectContentLength := n\<rparr>)" for n
      using s by (simp_all add: stream_ok_def)
    have ok3: "conn_ok ?c3" by (rule store_keeps [OF ok2 s1(1)])
    have ok4: "conn_ok (store ?c3 (?s1\<lparr>s_expectContentLength := n\<rparr>))" for n
      using store_keeps [OF ok3, of sid] s1 by (simp add: store_same)
    have d1: "good_step c c'" if "deliver_headers h ?c3 hs ?s1 es = ((c', hs'), err)"
      using deliver_headers_keeps [OF ok3 _ that, of sid] s1 max1 max2
      by (simp add: store_same good_step_def)
    have d2: "good_step c c'"
      if "deliver_headers h (store ?c3 (?s1\<lparr>s_expectContentLength := n\<rparr>)) hs
            (?s1\<lparr>s_expectContentLength := n\<rparr>) es = ((c', hs'), err)" for n
      using deliver_headers_keeps [OF ok4 _ that, of sid] s1 max1 max2
      by (simp add: store_same good_step_def)
    have "good_step c c1" "good_step c c2" "good_step c ?c3"
      using ok1 ok2 ok3 max1 max2 by (simp_all add: good_step_def store_same)
    with assms(2) show ?thesis
      unfolding finishHeaders_def dec Inr
      by (auto simp: chk str Let_def split: option.splits if_splits prod.splits intro: d1 d2)
  qed
qed

lemma onHeaders_keeps:
  assumes "conn_ok c" and "onHeaders hp h c hs f = ((c', hs'), err)"
  shows "good_step c c'"
  using assms finishHeaders_keeps [OF assms(1), of hp hs "f_StreamID f"]
  by (auto simp: onHeaders_def Let_def good_step_def conn_ok_settings split: sum.splits if_splits)

lemma onContinuation_keeps:
  assumes "conn_ok c" and "onContinuation hp h c hs f = ((c', hs'), err)"
  shows "good_step c c'"
proof -
  have ok: "conn_ok (c\<lparr>c_pendingHeaders := ph\<rparr>)" for ph by (rule conn_ok_settings [OF assms(1)])
  show ?thesis
    using assms finishHeaders_keeps [OF ok, of hp _ hs "f_StreamID f"] ok
    by (auto simp: onContinuation_def Let_def good_step_def split: if_splits)
qed

lemma onData_keeps:
  assumes "conn_ok c" and "onData h c hs f = ((c', hs'), err)"
    and "length (f_Payload f) < 2 ^ 31" and "\<not> fatal err"
  shows "good_step c c'"
proof -
  obtain c1 e1 where chk: "checkStreamRecv c (f_StreamID f) frameKindData = (c1, e1)" by fastforce
  have ok1: "conn_ok c1" by (rule checkStreamRecv_keeps [OF chk assms(1)])
  have max1: "c_maxPeerStreamID c \<le> c_maxPeerStreamID c1"
    by (rule checkStreamRecv_unchanged(4) [OF chk])
  let ?n = "wrap32 (int (length (f_Payload f)))"
  have n: "0 \<le> ?n" "?n < 2 ^ 31" using assms(3) by (simp_all add: wrap32_nat)
  obtain c2 e2 where give: "giveRecvWindow c1 (f_StreamID f) ?n = (c2, e2)" by fastforce
  show ?thesis
  proof (cases "e1 = None \<and> c_streams c1 (f_StreamID f) \<noteq> None \<and> e2 = None")
    case True
    then obtain s where s: "c_streams c1 (f_StreamID f) = Some s" by auto
    have give': "giveRecvWindow c1 (f_StreamID f) ?n = (c2, None)" using give True by simp
    note g = giveRecvWindow_keeps [OF ok1 n give']
    have lw: "c_localInitialWindow c2 = c_localInitialWindow c1"
      using giveRecvWindow_eq [OF ok1 n, of "f_StreamID f"] give'
      by (cases "?n \<le> c_localInitialWindow c1") (auto simp: writeFrame_def)
    have "stream_ok (c_localInitialWindow c2) (f_StreamID f) (load c2 s)"
      using load_ok [of c2 "f_StreamID f" s] g conn_okD(4) [OF ok1 s] lw by simp
    from deliver_data_keeps [OF _ this] g have
      dd: "deliver_data h c2 hs (load c2 s) p es = ((c', hs'), err) \<Longrightarrow> good_step c c'" for p es
      using max1 by (auto simp: good_step_def)
    have "good_step c c1" "good_step c c" using ok1 max1 assms(1) by (simp_all add: good_step_def)
    with assms(2) True show ?thesis
      by (auto simp: onData_def chk s give' intro: dd split: sum.splits if_splits)
  next
    case False
    have cc: "good_step c c1" "good_step c c" using ok1 max1 assms(1) by (simp_all add: good_step_def)
    have "e2 \<noteq> None \<Longrightarrow> fatal e2"
      using giveRecvWindow_eq [OF ok1 n, of "f_StreamID f"] give
      by (cases "?n \<le> c_localInitialWindow c1") (auto simp: fatal_def asStreamError_def)
    with False assms(2,4) cc show ?thesis
      by (auto simp: onData_def chk give split: sum.splits if_splits option.splits prod.splits)
  qed
qed

lemma onRSTStream_keeps:
  assumes "conn_ok c" and "onRSTStream h c hs f = ((c', hs'), err)"
  shows "good_step c c'"
proof -
  obtain c1 e1 where chk: "checkStreamRecv c (f_StreamID f) frameKindRSTStream = (c1, e1)" by fastforce
  have ok1: "conn_ok c1" by (rule checkStreamRecv_keeps [OF chk assms(1)])
  have max1: "c_maxPeerStreamID c \<le> c_maxPeerStreamID c1"
    by (rule checkStreamRecv_unchanged(4) [OF chk])
  let ?cb = "case h of None \<Rightarrow> (c1, hs) | Some cb \<Rightarrow> OnRSTStream cb c1 hs (f_StreamID f) (u32_at (f_Payload f) 0)"
  have "client_step c1 (fst ?cb)" by (rule callback_client(3) [OF ok1])
  then have "good_step c (forgetStream (fst ?cb) (f_StreamID f))" "good_step c c1"
    using ok1 max1 forgetStream_keeps [of "fst ?cb"]
    by (auto simp: good_step_def client_step_def forgetStream_def)
  with assms(2) show ?thesis
    by (auto simp: onRSTStream_def chk Let_def case_prod_unfold split: option.splits)
qed

lemma onStreamFrame_keeps:
  assumes "conn_ok c" and "onStreamFrame hp h c hs f = ((c', hs'), err)"
    and "length (f_Payload f) < 2 ^ 31" and "\<not> fatal err"
  shows "good_step c c'"
proof -
  let ?c = "if f_StreamID f > c_lastStreamID c then c\<lparr>c_lastStreamID := f_StreamID f\<rparr> else c"
  have ok: "conn_ok ?c" using assms(1) by (simp add: conn_ok_settings)
  have "c_maxPeerStreamID ?c = c_maxPeerStreamID c" by simp
  then have lift: "good_step ?c c' \<Longrightarrow> good_step c c'" by (simp only: good_step_def)
  have wu: "good_step ?c (fst (onStreamWindowUpdate ?c f))"
  proof -
    obtain c1 e1 where chk: "checkStreamRecv ?c (f_StreamID f) frameKindWindowUpdate = (c1, e1)" by fastforce
    have "c_maxPeerStreamID (fst (onStreamWindowUpdate ?c f)) = c_maxPeerStreamID c1"
      unfolding onStreamWindowUpdate_def chk
      by (simp add: Let_def flushPending_same split: option.splits)
    then show ?thesis
      using onStreamWindowUpdate_keeps [OF ok, of f] checkStreamRecv_unchanged(4) [OF chk]
      by (simp only: good_step_def)
  qed
  show ?thesis
  proof (cases "f_StreamID f = 0")
    case True
    then show ?thesis using assms(1,2) by (auto simp: onStreamFrame_def good_step_def)
  next
    case False
    then show ?thesis
      using assms(2-4) onHeaders_keeps [OF ok, of hp hs f] onContinuation_keeps [OF ok, of hp hs f]
        onData_keeps [OF ok, of hs f] onRSTStream_keeps [OF ok, of hs f] wu ok
      unfolding onStreamFrame_def Let_def
      by (intro lift) (auto simp: case_prod_unfold good_step_def simp del: if_split split: if_split_asm)
  qed
qed

lemma settings_loop_max: "c_maxPeerStreamID (fst (settings_loop hp c b)) = c_maxPeerStreamID c"
proof (induction hp c b rule: settings_loop.induct)
  case (1 hp c i1 i0 v3 v2 v1 v0 rest)
  obtain c' e where a: "apply_setting hp c (get16 i1 i0) (get32 v3 v2 v1 v0) = (c', e)" by fastforce
  then have "c_maxPeerStreamID c' = c_maxPeerStreamID c" by (auto simp: apply_setting_def split: if_splits)
  with 1 a show ?case by (cases e) auto
qed auto

lemma connection_frames_max:
  "c_maxPeerStreamID (fst (onSettings hp c f)) = c_maxPeerStreamID c"
  "c_maxPeerStreamID (fst (onPing c f)) = c_maxPeerStreamID c"
  "c_maxPeerStreamID (fst (onGoAway c f)) = c_maxPeerStreamID c"
  "c_maxPeerStreamID (fst (onPriority c f)) = c_maxPeerStreamID c"
  "c_maxPeerStreamID (fst (onConnWindowUpdate c f)) = c_maxPeerStreamID c"
  using settings_loop_max [of hp c "f_Payload f"]
  by (auto simp: onSettings_def onPing_def onGoAway_def onPriority_def onConnWindowUpdate_def Let_def
      writeFrame_def split: prod.splits option.splits)

lemma onFrame_keeps:
  assumes "conn_ok c" and "onFrame hp h (c, hs) f = ((c', hs'), err)"
    and "length (f_Payload f) < 2 ^ 31" and "\<not> fatal err"
  shows "good_step c c'"
proof -
  have conn: "good_step c (fst (onSettings hp c f))" "good_step c (fst (onPing c f))"
      "good_step c (fst (onGoAway c f))" "good_step c (fst (onPriority c f))"
      "good_step c (fst (onConnWindowUpdate c f))" "good_step c c"
    using assms(1) by (simp_all add: good_step_def connection_frames_max keeps_ok)
  show ?thesis
    using assms(2-4) onStreamFrame_keeps [OF assms(1), of hp hs f c' hs' err] conn
    unfolding onFrame_def
    by (auto simp: case_prod_unfold simp del: if_split split: if_split_asm)
qed

lemma parse_frames_keeps:
  assumes "conn_ok c" and "parse_frames hp h c hs dat = (n, err, c', hs')" and "\<not> fatal err"
  shows "good_step c c'"
proof -
  obtain p c1 where run: "Parse (c_parser c) (onFrame hp h) (c, hs) dat = (n, err, p, (c1, hs'))"
    and c': "c' = c1\<lparr>c_parser := p\<rparr>"
    using assms(2) by (auto simp: parse_frames_def split: prod.splits)
  let ?m = "p_maxFrameSize (c_parser c)"
  have m: "?m \<le> MaxFrameSize" using assms(1) by (simp add: conn_ok_def)
  have "good_step c (fst (snd (p, (c1, hs'))))"
  proof (rule h2.loop_keeps [where P = "\<lambda>f. length (f_Payload f) < 2 ^ 31"
        and keep = "\<lambda>ps. good_step c (fst (snd ps))" and good = "\<lambda>e. \<not> fatal e"])
    show "split_frame ?m b = Got u k \<Longrightarrow> length (f_Payload u) < 2 ^ 31" for b u k
      using split_frame_GotD [of ?m b u k] m by (simp add: word_le_nat_alt)
    show "frame_loop (split_frame ?m) (parse_step (onFrame hp h)) 0 (c_parser c, (c, hs)) dat
        = (n, err, p, (c1, hs'))"
      using run by (simp add: Parse_def)
    show "good_step c (fst (snd s'))"
      if "good_step c (fst (snd s))" "length (f_Payload u) < 2 ^ 31"
        "parse_step (onFrame hp h) s u = (s', e)" "\<not> fatal e" for s u s' e
    proof -
      obtain q d k where s: "s = (q, (d, k))" by (metis prod_cases3)
      have "conn_ok d" "c_maxPeerStreamID c \<le> c_maxPeerStreamID d"
        using that(1) by (simp_all add: s good_step_def)
      then show ?thesis
        using that(2-4) onFrame_keeps [of d hp k u] good_step_trans [of c d] that(1)
        by (auto simp: parse_step_def s split: option.splits prod.splits)
    qed
  qed (use assms in \<open>simp_all add: fatal_def good_step_def\<close>)
  then show ?thesis
    using Parse_max [OF run] m by (auto simp: good_step_def c' conn_ok_settings)
qed

lemma handleError_keeps: "conn_ok c \<Longrightarrow> good_step c (fst (handleError c e))"
  using forgetStream_keeps [of "writeFrame c b" sid for b sid]
  by (auto simp: handleError_def good_step_def keeps_ok takeOutput_def forgetStream_def writeFrame_def
      sendGoAway_def Let_def split: option.splits prod.splits) (auto simp: conn_ok_def)

lemma Feed_keeps:
  assumes "conn_ok c" and "Feed hp h c hs dat = (n, out, err, c', hs')"
    and "c_state c \<noteq> statePreface" and "\<not> fatal err"
  shows "good_step c c'"
proof -
  obtain k e c1 hs1 where run: "parse_frames hp h c hs dat = (k, e, c1, hs1)" by (metis prod_cases4)
  with assms(2,3) have e: "e = err" and c': "c' = (case err of None \<Rightarrow> fst (takeOutput c1) | Some e \<Rightarrow> fst (handleError c1 e))"
    by (auto simp: Feed_def Let_def split: option.splits prod.splits)
  from parse_frames_keeps [OF assms(1) run] assms(4) have g: "good_step c c1" by (simp add: e)
  have "good_step c1 c'"
    using g handleError_keeps [of c1]
    by (cases err) (simp_all add: c' good_step_def takeOutput_keeps, simp add: takeOutput_def)
  with g show ?thesis by (auto simp: good_step_def)
qed

text \<open>Behind the handler's callback, the stream object held is still the one that was
  stored, as far as the receiving side is concerned.\<close>

lemma load_after_callback:
  assumes "client_step (store c s) c1" and "c_streams c (s_ID s) = Some t" and "s_ref t = s_ref s"
    and "s_ref s < c_nextRef c"
  shows "recv_part (load c1 s) = recv_part s"
proof (cases "c_streams c1 (s_ID s)")
  case None
  then show ?thesis by (simp add: load_def)
next
  case (Some u)
  show ?thesis
  proof (cases "s_ref u = s_ref s")
    case True
    have "c_nextRef (store c s) = c_nextRef c" by (rule store_same)
    with Some True assms(1,4) obtain sa where
      "c_streams (store c s) (s_ID s) = Some sa" "recv_part sa = recv_part u"
      unfolding client_step_def by metis
    moreover have "c_streams (store c s) (s_ID s) = Some s"
      using assms(2,3) by (simp add: store_def)
    ultimately show ?thesis using Some True by (simp add: load_def)
  next
    case False
    with Some show ?thesis by (simp add: load_def)
  qed
qed

lemma onData_END_STREAM:
  assumes ok: "conn_ok c" and s: "c_streams c (f_StreamID f) = Some s"
    and run: "onData h c hs f = ((c', hs'), None)" and len: "length (f_Payload f) < 2 ^ 31"
    and last: "f_Flags f AND FlagDataEndStream \<noteq> 0" and server: "\<not> c_isClient c"
  shows "\<exists>payload. (if f_Flags f AND FlagDataPadded \<noteq> 0 then strip_padding ''DATA'' (f_Payload f)
       else Inr (f_Payload f)) = Inr payload \<and>
    (s_expectContentLength s < 0 \<or> s_recvBodyLen s + int (length payload) = s_expectContentLength s)"
proof -
  obtain c1 where chk: "checkStreamRecv c (f_StreamID f) frameKindData = (c1, None)"
    and un: "c_streams c1 = c_streams c" "c_isClient c1 = c_isClient c"
  proof -
    obtain c1 e1 where chk: "checkStreamRecv c (f_StreamID f) frameKindData = (c1, e1)" by fastforce
    with run have "e1 = None" by (auto simp: onData_def split: sum.splits option.splits)
    with chk checkStreamRecv_unchanged(1,2) [OF chk] that show thesis by simp
  qed
  obtain p where pad: "(if f_Flags f AND FlagDataPadded \<noteq> 0 then strip_padding ''DATA'' (f_Payload f)
       else Inr (f_Payload f)) = Inr p"
    using run by (auto simp: onData_def simp del: if_split split: sum.splits)
  let ?n = "wrap32 (int (length (f_Payload f)))"
  have n: "0 \<le> ?n" "?n < 2 ^ 31" using len by (simp_all add: wrap32_nat)
  have ok1: "conn_ok c1" by (rule checkStreamRecv_keeps [OF chk ok])
  obtain c2 where give: "giveRecvWindow c1 (f_StreamID f) ?n = (c2, None)"
    using run s un chk pad by (auto simp: onData_def simp del: if_split split: option.splits prod.splits)
  note g = giveRecvWindow_keeps [OF ok1 n give]
  have c2: "c_streams c2 (f_StreamID f) = Some s" "\<not> c_isClient c2" "load c2 s = s" "s_ID s = f_StreamID f"
    using g s un server conn_okD(4) [OF ok s] by (auto simp: load_def stream_ok_def)
  let ?s = "s\<lparr>s_recvBodyLen := s_recvBodyLen s + int (length p)\<rparr>"
  have "stream_ok (c_localInitialWindow c2) (f_StreamID f) s"
    using conn_okD(4) [of c2 "f_StreamID f" s] g c2 by simp
  then have sok: "stream_ok (c_localInitialWindow c2) (f_StreamID f) ?s" by (simp add: stream_ok_def)
  have okst: "conn_ok (store c2 ?s)" using store_keeps [OF _ sok] g by simp
  obtain c3 hs3 where cb: "(case h of None \<Rightarrow> (store c2 ?s, hs)
      | Some cb \<Rightarrow> if 0 < length p then OnData cb (store c2 ?s) hs (s_ID ?s) p True else (store c2 ?s, hs))
      = (c3, hs3)" by fastforce
  have step: "client_step (store c2 ?s) c3"
    using callback_client(2) [OF okst, of hs "0 < length p" "s_ID ?s" p True] cb by simp
  have ref: "s_ref ?s < c_nextRef c2"
    using g c2(1) by (auto simp: conn_ok_def)
  have "recv_part (load c3 ?s) = recv_part ?s"
    by (rule load_after_callback [OF step _ _ ref]) (simp_all add: c2)
  then have fields: "s_expectContentLength (load c3 ?s) = s_expectContentLength s"
      "s_recvBodyLen (load c3 ?s) = s_recvBodyLen s + int (length p)"
    by (simp_all add: recv_part_def)
  have cl: "\<not> c_isClient c3" using step c2(2) by (simp add: client_step_def store_same)
  have "deliver_data h c2 hs s p True = ((c', hs'), None)"
    using run s un chk pad give last c2(3) by (auto simp: onData_def simp del: if_split)
  then have "checkContentLength (load c3 ?s) = None"
    using cb cl by (auto simp: deliver_data_def Let_def split: option.splits prod.splits)
  with pad fields show ?thesis
    by (auto simp: checkContentLength_def split: if_splits)
qed

end

interpretation nil_handler: conn_client "None :: ('d, 'e, 'h) h2handler"
  by unfold_locales simp_all

section \<open>Properties\<close>

text \<open>C19. For every stream handler within the contract and whatever bytes arrive, a
  connection that is past its preface keeps its invariant over \<open>Feed\<close> unless the
  error is one of the connection: send windows stay within 31 bits, everything
  received is credited back, the peer's frame size stays within the protocol's
  bounds; and the highest stream id the peer has used never goes down.\<close>

theorem Feed_invariant:
  assumes "conn_client h" and "conn_ok c" and "c_state c \<noteq> statePreface"
    and "Feed hp h c hs dat = (n, out, err, c', hs')" and "\<not> fatal err"
  shows "conn_ok c' \<and> c_maxPeerStreamID c \<le> c_maxPeerStreamID c'"
  using conn_client.Feed_keeps [OF assms(1,2,4,3,5)] by (simp add: good_step_def)

lemma Feed_invariant_witness:
  "conn_ok (NewConn plain_hpack True)
    \<and> c_maxPeerStreamID (NewConn plain_hpack True) \<le> c_maxPeerStreamID (NewConn plain_hpack True)"
  by (rule Feed_invariant [of "None :: (unit, unit, unit) h2handler" "NewConn plain_hpack True" plain_hpack "()"
        "[0, 0, 0]" 0 "[]" None "NewConn plain_hpack True" "()"])
    (unfold_locales, simp_all add: NewConn_ok, simp_all add: NewConn_def Feed_def parse_frames_def Parse_def
      frame_loop.simps split_frame_def NewFrameParser_def takeOutput_def fatal_def)


definition one_request :: "(unit, unit) conn" where
  "one_request = (let (c, s) = stream (NewConn plain_hpack False) 1
     in store c (s\<lparr>s_expectContentLength := 3, s_recvBodyLen := 1\<rparr>))"

lemma one_request_ok: "conn_ok one_request"
  by (simp add: one_request_def stream_def store_def conn_ok_def stream_ok_def NewConn_def
      NewFrameParser_def wrap32_def Let_def)


text \<open>C27. A stream id is used once: HEADERS on a stream that is not open with an id not
  above the highest one the peer has used, or with the wrong parity, never reach the
  handler, and end the connection; HEADERS that open a stream raise that highest id
  to theirs.\<close>

theorem stream_ids_not_reused:
  assumes "c_streams c sid = None"
  shows "(sid \<le> c_maxPeerStreamID c \<or> (sid mod 2 = 1) = c_isClient c \<longrightarrow>
      (\<exists>d code msg. finishHeaders hp h c hs sid block es = ((c\<lparr>c_dec := d\<rparr>, hs), Some (ConnError code msg))))
    \<and> (snd (checkStreamRecv c sid frameKindHeaders) = None \<longrightarrow>
      c_maxPeerStreamID c < sid \<and> c_maxPeerStreamID (fst (checkStreamRecv c sid frameKindHeaders)) = sid)"
proof -
  have par: "sid mod 2 = 0 \<or> sid mod 2 = 1"
  proof -
    have "unat (sid mod 2) < 2" by (simp add: unat_mod_distrib)
    then have "unat (sid mod 2) = unat (0 :: u32) \<or> unat (sid mod 2) = unat (1 :: u32)" by auto
    then show ?thesis by (simp only: word_unat_eq_iff)
  qed
  obtain d r where dec: "Decode hp (c_dec c) block = (d, r)" by fastforce
  have "\<exists>code msg. checkStreamRecv (c\<lparr>c_dec := d\<rparr>) sid frameKindHeaders = (c\<lparr>c_dec := d\<rparr>, Some (ConnError code msg))"
    if "sid \<le> c_maxPeerStreamID c \<or> (sid mod 2 = 1) = c_isClient c"
    using that assms par by (simp only: checkStreamRecv_def checkIdleRecv_def option.case frameKind.case conn.simps)
      (cases "c_isClient c"; auto)
  then show ?thesis
    using assms by (cases r) (auto simp: finishHeaders_def dec checkStreamRecv_def checkIdleRecv_def not_le)
qed

lemma stream_ids_not_reused_witness:
  "\<exists>d code msg. finishHeaders plain_hpack None (NewConn plain_hpack False) () 2 [] True
      = (((NewConn plain_hpack False)\<lparr>c_dec := d\<rparr>, ()), Some (ConnError code msg))"
  using stream_ids_not_reused [of "NewConn plain_hpack False" 2 plain_hpack
      "None :: (unit, unit, unit) h2handler" "()" "[]" True]
  by (simp add: NewConn_def)

text \<open>C28. A WINDOW_UPDATE of the connection is accepted exactly when its increment, all
  32 bits of it, is not 0 and keeps the window below \<open>2^31\<close>; then the window grows by
  exactly that and the queue is flushed. Otherwise the window is left alone and the
  connection ends, with FLOW_CONTROL_ERROR when the window would overflow.\<close>

theorem conn_window_update:
  assumes "conn_ok c"
  shows "if uint (u32_at (f_Payload f) 0) \<noteq> 0 \<and> c_sendWindow c + uint (u32_at (f_Payload f) 0) < 2 ^ 31
    then onConnWindowUpdate c f =
           (flushPending (c\<lparr>c_sendWindow := c_sendWindow c + uint (u32_at (f_Payload f) 0)\<rparr>), None)
    else fst (onConnWindowUpdate c f) = c \<and> fatal (snd (onConnWindowUpdate c f))
         \<and> (fst (asConnError (the (snd (onConnWindowUpdate c f)))) = ErrCodeFlowControl)
           = (uint (u32_at (f_Payload f) 0) \<noteq> 0)"
  by (simp add: onConnWindowUpdate_eq [OF assms] fatal_def asStreamError_def asConnError_def)

lemma conn_window_update_witness:
  "if uint (u32_at [0x80, 0, 0, 1] 0) \<noteq> 0
      \<and> c_sendWindow (NewConn plain_hpack True) + uint (u32_at [0x80, 0, 0, 1] 0) < 2 ^ 31
    then onConnWindowUpdate (NewConn plain_hpack True) \<lparr>f_Type = 8, f_Flags = 0, f_StreamID = 0, f_Payload = [0x80, 0, 0, 1]\<rparr> =
           (flushPending ((NewConn plain_hpack True)\<lparr>c_sendWindow :=
              c_sendWindow (NewConn plain_hpack True) + uint (u32_at [0x80, 0, 0, 1] 0)\<rparr>), None)
    else fst (onConnWindowUpdate (NewConn plain_hpack True)
           \<lparr>f_Type = 8, f_Flags = 0, f_StreamID = 0, f_Payload = [0x80, 0, 0, 1]\<rparr>) = NewConn plain_hpack True
         \<and> fatal (snd (onConnWindowUpdate (NewConn plain_hpack True)
           \<lparr>f_Type = 8, f_Flags = 0, f_StreamID = 0, f_Payload = [0x80, 0, 0, 1]\<rparr>))
         \<and> (fst (asConnError (the (snd (onConnWindowUpdate (NewConn plain_hpack True)
             \<lparr>f_Type = 8, f_Flags = 0, f_StreamID = 0, f_Payload = [0x80, 0, 0, 1]\<rparr>)))) = ErrCodeFlowControl)
           = (uint (u32_at [0x80, 0, 0, 1] 0) \<noteq> 0)"
  using conn_window_update [OF NewConn_ok, of "\<lparr>f_Type = 8, f_Flags = 0, f_StreamID = 0, f_Payload = [0x80, 0, 0, 1]\<rparr>" plain_hpack True]
  by simp

text \<open>Receive flow control: data within the window we announced leaves both windows
  where they were, and the peer is credited the same number of bytes, once for the
  connection and once for the stream; data beyond it is a FLOW_CONTROL_ERROR.\<close>

theorem receive_window_credited:
  assumes "conn_ok c" and "c_streams c sid = Some s" and "0 < n" and "n < 2 ^ 31"
  shows "if n \<le> c_localInitialWindow c
    then giveRecvWindow c sid n =
      (c\<lparr>c_outBuf := c_outBuf c @ AppendWindowUpdate [] 0 (word_of_int n)
                              @ AppendWindowUpdate [] sid (word_of_int n)\<rparr>, None)
      \<and> uint (word_of_int n :: u32) = n
    else snd (giveRecvWindow c sid n) = Some (Wrapped ErrFlowControl ''connection window exceeded'')"
proof -
  have "take_bit 32 n = n" using assms(3,4) by (simp add: take_bit_int_eq_self)
  then show ?thesis
    using giveRecvWindow_eq [OF assms(1), of n sid] assms(2-4)
    by (simp add: writeFrame_def unsigned_of_int)
qed

lemma receive_window_credited_witness:
  "if 2 \<le> c_localInitialWindow one_request
    then giveRecvWindow one_request 1 2 =
      (one_request\<lparr>c_outBuf := c_outBuf one_request @ AppendWindowUpdate [] 0 (word_of_int 2)
                              @ AppendWindowUpdate [] 1 (word_of_int 2)\<rparr>, None)
      \<and> uint (word_of_int 2 :: u32) = 2
    else snd (giveRecvWindow one_request 1 2) = Some (Wrapped ErrFlowControl ''connection window exceeded'')"
  by (rule receive_window_credited [OF one_request_ok, of 1 "the (c_streams one_request 1)"])
    (simp_all add: one_request_def stream_def store_def NewConn_def Let_def wrap32_def)


text \<open>An error of a stream does not stay one: \<open>Feed\<close> hands it to its caller as the
  error of the call, although the connection it leaves is open; the caller
  (\<open>ConnHandler.OnData\<close>) passes it on, and the engine closes the connection.\<close>

theorem Feed_reports_stream_errors:
  assumes "c_state c \<noteq> statePreface"
    and "parse_frames hp h c hs dat = (n, Some (StreamError sid code msg), c1, hs1)"
  shows "\<exists>k. Feed hp h c hs dat =
      (k, c_outBuf c1 @ AppendRSTStream [] sid code, Some (StreamError sid code msg),
       c1\<lparr>c_outBuf := [], c_streams := (c_streams c1)(sid := None)\<rparr>, hs1)"
  using assms
  by (simp add: Feed_def handleError_def asStreamError_def takeOutput_def forgetStream_def writeFrame_def Let_def)

lemma Feed_reports_stream_errors_witness:
  "\<exists>k. Feed plain_hpack None (NewConn plain_hpack True) () [0, 0, 5, 2, 0, 0, 0, 0, 3, 0, 0, 0, 3, 16] =
      (k, c_outBuf (NewConn plain_hpack True) @ AppendRSTStream [] 3 1,
       Some (StreamError 3 1 ''stream depends on itself''),
       (NewConn plain_hpack True)\<lparr>c_outBuf := [], c_streams := (c_streams (NewConn plain_hpack True))(3 := None)\<rparr>, ())"
  by (rule Feed_reports_stream_errors [of _ _ _ _ _ 0])
    (simp_all add: NewConn_def parse_frames_def Parse_def frame_loop.simps split_frame_def NewFrameParser_def
      get24_def get32_def parse_step_def checkContinuation_def checkFrameShape_def onFrame_def onPriority_def
      dependency_def)

text \<open>The client preface may arrive in pieces: a piece shorter than the preface is
  kept, nothing is sent, and feeding the rest gives the same connection, output and
  result as feeding both at once.\<close>

theorem preface_in_pieces:
  assumes "c_state c = statePreface" and "length (c_prefaceBuf c @ a) < length clientPreface"
  shows "\<exists>c1. Feed hp h c hs a = (length a, [], None, c1, hs) \<and> c_state c1 = statePreface
    \<and> snd (Feed hp h c1 hs b) = snd (Feed hp h c hs (a @ b))"
proof -
  let ?c1 = "c\<lparr>c_prefaceBuf := c_prefaceBuf c @ a\<rparr>"
  have 1: "Feed hp h c hs a = (length a, [], None, ?c1, hs)" using assms by (simp add: Feed_def)
  have "snd (Feed hp h ?c1 hs b) = snd (Feed hp h c hs (a @ b))"
    using assms(1) by (simp add: Feed_def Let_def split: prod.splits)
  with 1 assms(1) show ?thesis by (intro exI [of _ ?c1]) simp
qed

lemma preface_in_pieces_witness:
  "\<exists>c1. Feed plain_hpack None (NewConn plain_hpack False) () [80, 82] = (length [80, 82 :: byte], [], None, c1, ())
    \<and> c_state c1 = statePreface
    \<and> snd (Feed plain_hpack None c1 () [73]) = snd (Feed plain_hpack None (NewConn plain_hpack False) () ([80, 82] @ [73]))"
  by (rule preface_in_pieces) (simp_all add: NewConn_def clientPreface_def)

text \<open>What follows the preface in the same read is parsed, but its outcome is thrown
  away: \<open>Feed\<close> reports that all of it was consumed and no error, whatever the frames
  behind the preface did to the connection, and bytes of an incomplete frame are kept
  nowhere.\<close>

theorem preface_tail_lost:
  assumes "c_state c = statePreface" and "c_prefaceBuf c = []" and "r \<noteq> []"
    and "parse_frames hp h (c\<lparr>c_prefaceBuf := [], c_state := stateSettings\<rparr>) hs r = (n, err, c1, hs1)"
  shows "Feed hp h c hs (clientPreface @ r) =
    (length (clientPreface @ r), c_outBuf c1, None, c1\<lparr>c_outBuf := []\<rparr>, hs1)"
  using assms by (simp add: Feed_def takeOutput_def Let_def)

lemma preface_tail_lost_witness:
  "Feed plain_hpack None (NewConn plain_hpack False) () (clientPreface @ [0, 0]) =
    (length (clientPreface @ [0, 0]),
     c_outBuf ((NewConn plain_hpack False)\<lparr>c_prefaceBuf := [], c_state := stateSettings\<rparr>), None,
     ((NewConn plain_hpack False)\<lparr>c_prefaceBuf := [], c_state := stateSettings\<rparr>)\<lparr>c_outBuf := []\<rparr>, ())"
  by (rule preface_tail_lost [of _ _ _ _ _ 0 None])
    (simp_all add: NewConn_def parse_frames_def Parse_def frame_loop.simps split_frame_def)

text \<open>WINDOW_UPDATE or RST_STREAM for a stream that is not in the table, be it idle or
  already closed and forgotten, ends the connection.\<close>

theorem frames_on_forgotten_streams:
  assumes "f_Type f = FrameWindowUpdate \<or> f_Type f = FrameRSTStream" and "f_StreamID f \<noteq> 0"
    and "c_streams c (f_StreamID f) = None"
  shows "\<exists>c' msg. onFrame hp h (c, hs) f = ((c', hs), Some (ConnError ErrCodeProtocol msg))"
  using assms
  by (auto simp: onFrame_def onStreamFrame_def onStreamWindowUpdate_def onRSTStream_def
      checkStreamRecv_def checkIdleRecv_def Let_def)

lemma frames_on_forgotten_streams_witness:
  "\<exists>c' msg. onFrame plain_hpack None (CloseStream one_request 1, ())
      \<lparr>f_Type = 8, f_Flags = 0, f_StreamID = 1, f_Payload = [0, 0, 0, 9]\<rparr>
    = ((c', ()), Some (ConnError ErrCodeProtocol msg))"
  by (rule frames_on_forgotten_streams) (simp_all add: CloseStream_def)

text \<open>The end of a stream that comes in an empty DATA frame is not reported to the
  handler: whatever the handler, its state is as before, and nothing but the receive
  half of the stream changes.\<close>

theorem empty_END_STREAM_not_reported:
  assumes "f_Payload f = []" and "f_Flags f AND FlagDataPadded = 0"
  shows "snd (fst (onData h c hs f)) = hs
    \<and> fst (onData h c hs f) = (fst (fst (onData (None :: ('d, 'e, 'h) h2handler) c hs f)), hs)"
  using assms
  by (auto simp: onData_def deliver_data_def Let_def split: option.splits prod.splits)

lemma empty_END_STREAM_not_reported_witness:
  "snd (fst (onData None one_request () \<lparr>f_Type = 0, f_Flags = 1, f_StreamID = 1, f_Payload = []\<rparr>)) = ()
    \<and> fst (onData (None :: (unit, unit, unit) h2handler) one_request () \<lparr>f_Type = 0, f_Flags = 1, f_StreamID = 1, f_Payload = []\<rparr>)
      = (fst (fst (onData (None :: (unit, unit, unit) h2handler) one_request ()
          \<lparr>f_Type = 0, f_Flags = 1, f_StreamID = 1, f_Payload = []\<rparr>)), ())"
  by (rule empty_END_STREAM_not_reported) simp_all

end
