(* ===== verification/H2_Engine.thy ===== *)
theory H2_Engine
  imports H2_Recv
begin

text \<open>
  The adapter between HTTP/2 and the event loop, \<^verbatim>\<open>src/http2/engine.go\<close>: what a
  connection sends when it opens, and how bytes and frames pass between
  \<open>engine.Conn\<close> and \<open>http2.Conn\<close>. Writing to the engine's connection is the
  argument \<open>w\<close>: it returns the connection and the error of \<open>engine.Conn.Write\<close>.
\<close>

section \<open>The adapter\<close>

type_synonym 'ec writer = "'ec \<Rightarrow> bytes \<Rightarrow> 'ec \<times> string option"

record ('d, 'e) conn_handler =
  ch_isClient :: bool
  ch_conn :: "('d, 'e) conn option"

definition NewConnHandler :: "('d, 'e) conn_handler" where
  "NewConnHandler = \<lparr>ch_isClient = False, ch_conn = None\<rparr>"

definition NewClientConnHandler :: "('d, 'e) conn_handler" where
  "NewClientConnHandler = \<lparr>ch_isClient = True, ch_conn = None\<rparr>"

definition sendPreface :: "('d, 'e) conn \<Rightarrow> ('d, 'e) conn" where
  "sendPreface c = WriteRaw (WriteRaw c clientPreface) (AppendSettings [] [(0x5, defaultMaxFrameSize)])"

definition sendServerSettings :: "('d, 'e) conn \<Rightarrow> ('d, 'e) conn" where
  "sendServerSettings c =
     (let c = WriteRaw c (AppendSettings [] [(0x5, defaultMaxFrameSize), (0x4, word_of_int maxRecvWindow)]);
          c = writeFrame c (AppendWindowUpdate [] 0 (word_of_int maxRecvWindow - defaultInitialWindowSize))
      in c\<lparr>c_localInitialWindow := maxRecvWindow, c_recvWindow := maxRecvWindow\<rparr>)"

text \<open>\<open>flush\<close> ignores the error of the write; \<open>writeOut\<close> returns it.\<close>

definition writeOut :: "'ec writer \<Rightarrow> ('d, 'e) conn \<Rightarrow> 'ec \<Rightarrow> ('d, 'e) conn \<times> 'ec \<times> string option" where
  "writeOut w c ec =
     (case takeOutput c of (c, out) \<Rightarrow>
        if 0 < length out then (case w ec out of (ec, err) \<Rightarrow> (c, ec, err)) else (c, ec, None))"

definition flush :: "'ec writer \<Rightarrow> ('d, 'e) conn \<Rightarrow> 'ec \<Rightarrow> ('d, 'e) conn \<times> 'ec" where
  "flush w c ec = (case writeOut w c ec of (c, ec, _) \<Rightarrow> (c, ec))"

definition OnOpen ::
  "('d, 'e) hpack \<Rightarrow> 'ec writer \<Rightarrow> ('d, 'e) conn_handler \<Rightarrow> 'ec \<Rightarrow> ('d, 'e) conn_handler \<times> 'ec" where
  "OnOpen hp w ch ec =
     (let c = NewConn hp (ch_isClient ch);
          c = (if ch_isClient ch then sendPreface c else sendServerSettings c);
          (c, ec) = flush w c ec
      in (ch\<lparr>ch_conn := Some c\<rparr>, ec))"

definition OnClose :: "('d, 'e) conn_handler \<Rightarrow> ('d, 'e) conn_handler" where
  "OnClose ch = ch\<lparr>ch_conn := None\<rparr>"

text \<open>\<open>OnData\<close>: the bytes consumed and the error handed to the engine, which keeps the
  rest of the buffer, or closes the connection.\<close>

datatype adapter_err = WriteErr string | ProtoErr h2err

definition adapter_OnData ::
  "('d, 'e) hpack \<Rightarrow> 'ec writer \<Rightarrow> ('d, 'e, 'h) h2handler \<Rightarrow> ('d, 'e) conn_handler \<Rightarrow> 'ec \<Rightarrow> 'h \<Rightarrow> bytes
   \<Rightarrow> nat \<times> adapter_err option \<times> ('d, 'e) conn_handler \<times> 'ec \<times> 'h" where
  "adapter_OnData hp w h ch ec hs buf =
     (let (ch, ec) = (if ch_conn ch = None then OnOpen hp w ch ec else (ch, ec)) in
      case Feed hp h (the (ch_conn ch)) hs buf of
        (consumed, out, err, c, hs) \<Rightarrow>
          let ch = ch\<lparr>ch_conn := Some c\<rparr>;
              (ec, werr) = (if 0 < length out then w ec out else (ec, None))
          in case werr of
               Some e \<Rightarrow> (consumed, Some (WriteErr e), ch, ec, hs)
             | None \<Rightarrow> (consumed, map_option ProtoErr err, ch, ec, hs))"

definition adapter_WriteHeaders ::
  "('d, 'e) hpack \<Rightarrow> 'ec writer \<Rightarrow> ('d, 'e) conn \<Rightarrow> 'ec \<Rightarrow> u32 \<Rightarrow> HeaderField list \<Rightarrow> bool
   \<Rightarrow> ('d, 'e) conn \<times> 'ec \<times> adapter_err option" where
  "adapter_WriteHeaders hp w c ec sid flds endStream =
     (case WriteHeaders hp c sid flds endStream of
        (c, Some e) \<Rightarrow> (c, ec, Some (ProtoErr e))
      | (c, None) \<Rightarrow> (case writeOut w c ec of (c, ec, err) \<Rightarrow> (c, ec, map_option WriteErr err)))"

definition adapter_WriteData ::
  "'ec writer \<Rightarrow> ('d, 'e) conn \<Rightarrow> 'ec \<Rightarrow> u32 \<Rightarrow> bytes \<Rightarrow> bool \<Rightarrow> ('d, 'e) conn \<times> 'ec \<times> adapter_err option" where
  "adapter_WriteData w c ec sid dat endStream =
     (case writeOut w (WriteData c sid dat endStream) ec of (c, ec, err) \<Rightarrow> (c, ec, map_option WriteErr err))"

definition adapter_WriteTrailers ::
  "('d, 'e) hpack \<Rightarrow> 'ec writer \<Rightarrow> ('d, 'e) conn \<Rightarrow> 'ec \<Rightarrow> u32 \<Rightarrow> HeaderField list
   \<Rightarrow> ('d, 'e) conn \<times> 'ec \<times> adapter_err option" where
  "adapter_WriteTrailers hp w c ec sid flds =
     (case WriteTrailers hp c sid flds of
        (c, Some e) \<Rightarrow> (c, ec, Some (ProtoErr e))
      | (c, None) \<Rightarrow> (case writeOut w c ec of (c, ec, err) \<Rightarrow> (c, ec, map_option WriteErr err)))"

section \<open>Lemmas\<close>

lemma settings_frame:
  "AppendSettings [] settings =
     enc_frame \<lparr>f_Type = FrameSettings, f_Flags = 0, f_StreamID = 0,
       f_Payload = concat (map (\<lambda>(i, v). put16 (ucast i) @ put32 v) settings)\<rparr>"
  by (simp add: AppendSettings_def enc_frame_def Let_def)

lemma window_update_frame:
  "AppendWindowUpdate [] sid inc =
     enc_frame \<lparr>f_Type = FrameWindowUpdate, f_Flags = 0, f_StreamID = sid, f_Payload = put32 inc\<rparr>"
  by (simp add: AppendWindowUpdate_def enc_frame_def)

lemma sendServerSettings_ok: "conn_ok (sendServerSettings (NewConn hp isClient))"
  by (simp add: sendServerSettings_def conn_ok_def NewConn_def NewFrameParser_def WriteRaw_def
      writeFrame_def Let_def)

lemma sendPreface_ok: "conn_ok (sendPreface (NewConn hp isClient))"
  by (simp add: sendPreface_def WriteRaw_keeps NewConn_ok)

lemma writeOut_keeps: "conn_ok (fst (writeOut w c ec)) = conn_ok c"
  using takeOutput_keeps [of c] by (simp add: writeOut_def case_prod_unfold)

section \<open>Properties\<close>

text \<open>A server opens with SETTINGS, as its first frame, and one WINDOW_UPDATE of the
  connection, and enforces on its peer exactly the windows it announces: the value of
  INITIAL_WINDOW_SIZE for every stream, and the default plus the increment for the
  connection; and its connection starts out within the invariant.\<close>

theorem server_announces_its_windows:
  "\<exists>c settings inc. OnOpen hp (\<lambda>sent b. (sent @ b, None)) NewConnHandler []
      = (\<lparr>ch_isClient = False, ch_conn = Some c\<rparr>, AppendSettings [] settings @ AppendWindowUpdate [] 0 inc)
    \<and> map_of settings 4 = Some (word_of_int (c_localInitialWindow c))
    \<and> map_of settings 5 = Some (p_maxFrameSize (c_parser c))
    \<and> c_recvWindow c = 65535 + uint inc
    \<and> conn_ok c \<and> c_state c = statePreface"
proof -
  have "conn_ok ((sendServerSettings (NewConn hp False))\<lparr>c_outBuf := []\<rparr>)"
    using sendServerSettings_ok [of hp False] by (simp add: conn_ok_def)
  then show ?thesis
    by (intro exI [of _ "(sendServerSettings (NewConn hp False))\<lparr>c_outBuf := []\<rparr>"]
        exI [of _ "[(0x5, defaultMaxFrameSize), (0x4, word_of_int maxRecvWindow)]"]
        exI [of _ "word_of_int maxRecvWindow - defaultInitialWindowSize"])
      (simp add: OnOpen_def NewConnHandler_def flush_def writeOut_def takeOutput_def Let_def
        sendServerSettings_def WriteRaw_def writeFrame_def NewConn_def NewFrameParser_def
        AppendSettings_def AppendFrameHeader_def)
qed

text \<open>C32. The two ends fit together: a server that receives what a client sends when it
  opens takes all of it, accepts the preface, applies the client's frame size and
  answers with a SETTINGS ACK.\<close>

theorem client_opening_accepted:
  "\<exists>ch bytes_sent c. OnOpen hp (\<lambda>sent b. (sent @ b, None)) NewClientConnHandler [] = (ch, bytes_sent)
    \<and> Feed hp h (NewConn hp False) hs bytes_sent = (length bytes_sent, AppendSettingsAck [], None, c, hs)
    \<and> c_state c = stateSettings \<and> c_peerMaxFrameSize c = defaultMaxFrameSize"
proof -
  let ?f = "\<lparr>f_Type = FrameSettings, f_Flags = 0, f_StreamID = 0,
       f_Payload = put16 5 @ put32 defaultMaxFrameSize\<rparr>"
  let ?c = "(NewConn hp False)\<lparr>c_state := stateSettings\<rparr>"
  have e: "AppendSettings [] [(0x5, defaultMaxFrameSize)] = enc_frame ?f"
    by (simp add: settings_frame)
  have ok: "frame_ok defaultMaxFrameSize ?f" by (simp add: frame_ok_def)
  have len: "enc_frame ?f \<noteq> []" by (simp add: enc_frame_def AppendFrameHeader_def put24n_def)
  have "settings_loop hp ?c (put16 5 @ put32 defaultMaxFrameSize) = (?c, None)"
    by (simp add: put16_def put32_def apply_setting_def get16_def get32_def NewConn_def)
  then have step: "parse_step (onFrame hp h) (NewFrameParser, (?c, hs)) ?f
      = ((note_frame NewFrameParser ?f, (writeFrame ?c (AppendSettingsAck []), hs)), None)"
    by (simp add: parse_step_def checkContinuation_def checkFrameShape_def NewFrameParser_def onFrame_def
        onSettings_def)
  have "Parse NewFrameParser (onFrame hp h) (?c, hs) (enc_frame ?f)
      = (length (enc_frame ?f), None, note_frame NewFrameParser ?f, (writeFrame ?c (AppendSettingsAck []), hs))"
    using h2.split_enc [OF ok, of "[]"] step
    by (simp add: Parse_def NewFrameParser_def h2.loop_Got h2.loop_NeedMore h2.split_Nil)
  then have run: "parse_frames hp h ?c hs (enc_frame ?f) =
      (length (enc_frame ?f), None, (writeFrame ?c (AppendSettingsAck []))\<lparr>c_parser := note_frame NewFrameParser ?f\<rparr>, hs)"
    by (simp add: parse_frames_def NewConn_def)
  have "Feed hp h (NewConn hp False) hs (clientPreface @ enc_frame ?f) =
      (length (clientPreface @ enc_frame ?f), AppendSettingsAck [], None,
       (writeFrame ?c (AppendSettingsAck []))\<lparr>c_parser := note_frame NewFrameParser ?f, c_outBuf := []\<rparr>, hs)"
    using run len by (simp add: Feed_def takeOutput_def writeFrame_def Let_def NewConn_def)
  then show ?thesis
    by (simp add: OnOpen_def NewClientConnHandler_def flush_def writeOut_def takeOutput_def sendPreface_def
        WriteRaw_def e NewConn_def clientPreface_def writeFrame_def)
qed

end
