(* ===== verification/Engine_H2.thy ===== *)
theory Engine_H2
  imports Engine_Loop H2_Engine
begin

text \<open>
  HTTP/2 on the event loop: \<^verbatim>\<open>http2.ConnHandler\<close> as a handler of \<^verbatim>\<open>engine.Conn\<close>. The writer of
  the adapter is \<^verbatim>\<open>engine.Conn.Write\<close>; the handler meets the contract of the loop, so what
  holds of every protocol holds of an HTTP/2 server and its stream handler.
\<close>

section \<open>The handler\<close>

definition io_text :: "io_err \<Rightarrow> string" where
  "io_text e =
     (case e of
        ErrClosed \<Rightarrow> ''engine: connection closed''
      | IoEOF \<Rightarrow> ''EOF''
      | EAGAIN \<Rightarrow> ''resource temporarily unavailable''
      | EINTR \<Rightarrow> ''interrupted system call''
      | Errno n \<Rightarrow> ''errno '' @ itoa n
      | OtherErr s \<Rightarrow> s)"

text \<open>The connection inside the handler is \<open>None\<close> once a write panicked.\<close>

definition conn_writer :: "pool \<Rightarrow> econn option writer" where
  "conn_writer pool ec b =
     (case ec of
        None \<Rightarrow> (None, None)
      | Some c \<Rightarrow>
          (case Write_conn pool None c b of
             None \<Rightarrow> (None, None)
           | Some (c, err) \<Rightarrow> (Some c, map_option io_text err)))"

definition adapter_io :: "adapter_err \<Rightarrow> io_err" where
  "adapter_io e = (case e of WriteErr s \<Rightarrow> OtherErr s | ProtoErr e \<Rightarrow> OtherErr (err_Error e))"

definition h2_protocol ::
  "pool \<Rightarrow> ('d, 'e) hpack \<Rightarrow> ('d, 'e, 'h) h2handler \<Rightarrow> (('d, 'e) conn_handler \<times> 'h) protocol_handler" where
  "h2_protocol pool hp h =
     \<lparr>ph_OnOpen = (\<lambda>c (ch, hs).
        (case OnOpen hp (conn_writer pool) ch (Some c) of
           (ch, None) \<Rightarrow> None | (ch, Some c) \<Rightarrow> Some (c, ch, hs))),
      ph_OnData = (\<lambda>c (ch, hs) buf.
        (case adapter_OnData hp (conn_writer pool) h ch (Some c) hs buf of
           (n, err, ch, None, hs) \<Rightarrow> None
         | (n, err, ch, Some c, hs) \<Rightarrow> Some ((c, ch, hs), int n, map_option adapter_io err))),
      ph_OnClose = (\<lambda>c (ch, hs) e. Some (c, OnClose ch, hs))\<rparr>"

section \<open>It meets the contract of the loop\<close>

lemma conn_writer_sending:
  assumes "sending c"
  shows "\<exists>c'. conn_writer pool (Some c) b = (Some c', None) \<and> sending c' \<and> same_read c c'
    \<and> written c' = written c @ b"
proof -
  have "wrote c b (Write_conn pool None c b)" using WriteRaw_wrote [OF assms] by (simp add: Write_no_hook)
  from wrote_sending [OF assms this] show ?thesis by (auto simp: conn_writer_def)
qed

lemma OnOpen_sending:
  assumes "sending c"
  shows "\<exists>ch' c'. OnOpen hp (conn_writer pool) ch (Some c) = (ch', Some c') \<and> sending c' \<and> same_read c c'
    \<and> ch_conn ch' \<noteq> None"
proof -
  define d where "d = (if ch_isClient ch then sendPreface (NewConn hp (ch_isClient ch))
    else sendServerSettings (NewConn hp (ch_isClient ch)))"
  obtain c' where "conn_writer pool (Some c) (c_outBuf d) = (Some c', None)" "sending c'" "same_read c c'"
    using conn_writer_sending [OF assms] by blast
  then show ?thesis using assms
    by (auto simp: OnOpen_def Let_def flush_def writeOut_def takeOutput_def d_def [symmetric])
qed

lemma Feed_consumes:
  assumes "Feed hp h c hs dat = (n, out, err, c', hs')"
  shows "n \<le> length dat"
  using assms by (auto simp: Feed_def Let_def split: if_splits prod.splits option.splits)

lemma adapter_OnData_sending:
  assumes "sending c"
  shows "\<exists>n err ch' c' hs'. adapter_OnData hp (conn_writer pool) h ch (Some c) hs buf = (n, err, ch', Some c', hs')
    \<and> sending c' \<and> same_read c c' \<and> n \<le> length buf"
proof -
  obtain ch1 c1 where o: "(if ch_conn ch = None then OnOpen hp (conn_writer pool) ch (Some c) else (ch, Some c))
      = (ch1, Some c1)" "sending c1" "same_read c c1"
    using OnOpen_sending [OF assms, of hp pool ch] assms by (cases "ch_conn ch") auto
  obtain n out err d hs1 where f: "Feed hp h (the (ch_conn ch1)) hs buf = (n, out, err, d, hs1)"
    by (metis prod_cases5)
  obtain c2 where w: "conn_writer pool (Some c1) out = (Some c2, None)" "sending c2" "same_read c1 c2"
    using conn_writer_sending [OF o(2)] by blast
  show ?thesis
    using o f w Feed_consumes [OF f] same_read_trans [of c c1 c2]
    by (cases "out = []") (auto simp: adapter_OnData_def Let_def)
qed

lemma h2_protocol_ok: "protocol (h2_protocol pool hp h)"
proof (rule protocol_never_closes)
  fix c :: econn and s :: "('a, 'b) conn_handler \<times> 'c" and buf e
  obtain ch hs where s: "s = (ch, hs)" by fastforce
  show "ec_closed c \<Longrightarrow> \<exists>s'. ph_OnClose (h2_protocol pool hp h) c s e = Some (c, s')"
    by (simp add: h2_protocol_def s)
  assume c: "sending c"
  show "\<exists>c' s'. ph_OnOpen (h2_protocol pool hp h) c s = Some (c', s') \<and> sending c' \<and> same_read c c'"
    using OnOpen_sending [OF c, of hp pool ch] by (auto simp: h2_protocol_def s)
  show "\<exists>c' s' n err. ph_OnData (h2_protocol pool hp h) c s buf = Some ((c', s'), n, err)
      \<and> sending c' \<and> same_read c c' \<and> n \<le> int (length buf)"
    using adapter_OnData_sending [OF c, of hp pool h ch hs buf] by (auto simp: h2_protocol_def s)
qed

interpretation h2_conn: protocol "h2_protocol pool hp h" for pool hp h
  by (rule h2_protocol_ok)

section \<open>Properties\<close>



text \<open>Activation writes the server's opening, SETTINGS and the WINDOW_UPDATE of the
  connection, and nothing else: whatever part of it the kernel takes, the rest waits behind
  it, and the descriptor is armed.\<close>

theorem h2_opening_written:
  assumes "soft_tx tx"
  shows "\<exists>c' ch. on_event pool (Some (h2_protocol pool hp h)) (new_conn fd tx rx) (NewConnHandler, hs) ActivateTask
      = Some (c', ch, hs)
    \<and> ec_sent c' @ waiting (ec_wbufList c') = c_outBuf (sendServerSettings (NewConn hp False))
    \<and> (NeedFlush c' \<longrightarrow> ec_armed c') \<and> isActivated c'"
proof -
  let ?c = "set_flag flagBusy (new_conn fd tx rx)"
  let ?out = "c_outBuf (sendServerSettings (NewConn hp False))"
  have c: "sending ?c" "written ?c = []" "has_flag flagBusy (new_conn fd tx rx) = False"
      "isActivated (new_conn fd tx rx) = False" "ec_closed (new_conn fd tx rx) = False"
    using assms by (simp_all add: sending_def write_ok_def set_flag_def new_conn_def Init_conn_def blank_conn_def
      written_def has_flag_def isActivated_def)
  have flags: "\<not> has_flag flagPendingRead ?c" "\<not> has_flag flagPendingWrite ?c"
    by (simp_all add: flag_simps, simp_all add: has_flag_def new_conn_def Init_conn_def)
  obtain c1 where w: "conn_writer pool (Some ?c) ?out = (Some c1, None)" "sending c1" "same_read ?c c1"
      "written c1 = ?out"
    using conn_writer_sending [OF c(1), of pool ?out] c(2) by auto
  then have p: "has_flag m c1 = has_flag m ?c" for m by (simp add: has_flag_def same_read_def)
  have out: "0 < length ?out"
    by (simp add: sendServerSettings_def WriteRaw_def writeFrame_def NewConn_def AppendWindowUpdate_def
      AppendFrameHeader_def put24n_def Let_def)
  let ?c' = "set_flag flagActivated (unbusy c1)"
  have open_ok: "ph_OnOpen (h2_protocol pool hp h) ?c (NewConnHandler, hs)
      = Some (c1, NewConnHandler\<lparr>ch_conn := Some (fst (takeOutput (sendServerSettings (NewConn hp False))))\<rparr>, hs)"
    using w out by (simp add: h2_protocol_def OnOpen_def NewConnHandler_def flush_def writeOut_def takeOutput_def Let_def)
  have "on_event pool (Some (h2_protocol pool hp h)) (new_conn fd tx rx) (NewConnHandler, hs) ActivateTask
      = Some (?c', NewConnHandler\<lparr>ch_conn := Some (fst (takeOutput (sendServerSettings (NewConn hp False))))\<rparr>, hs)"
    using c flags open_ok
    by (simp add: on_event_def activate_def IsClosed_def tryBusy_def setActivated_def unbusy_def p has_flag_clear)
  moreover have "ec_sent ?c' @ waiting (ec_wbufList ?c') = ?out" "NeedFlush ?c' \<longrightarrow> ec_armed ?c'" "isActivated ?c'"
    using w(2,4)
    by (simp_all add: set_flag_def unbusy_def clear_flag_def written_def sending_def write_ok_def NeedFlush_def,
        simp add: isActivated_def has_flag_def bit.conj_disj_distrib2)
  ultimately show ?thesis by blast
qed

lemma h2_opening_written_witness:
  "\<exists>c' ch. on_event (\<lambda>n. (n, n)) (Some (h2_protocol (\<lambda>n. (n, n)) plain_hpack (None :: (unit, unit, unit) h2handler)))
      (new_conn 7 [Accept 3] []) (NewConnHandler, ()) ActivateTask = Some (c', ch, ())
    \<and> ec_sent c' @ waiting (ec_wbufList c') = c_outBuf (sendServerSettings (NewConn plain_hpack False))
    \<and> (NeedFlush c' \<longrightarrow> ec_armed c') \<and> isActivated c'"
  by (rule h2_opening_written) simp

end
