(* ===== verification/Grpc_Message.thy ===== *)
theory Grpc_Message
  imports Framing
begin

text \<open>
  gRPC message framing (\<open>grpc/message.go\<close>): every message on a stream is preceded by
  a compression flag and a four byte length. \<open>MessageParser\<close> cuts messages out of
  the DATA of a stream; the boundaries of DATA frames mean nothing to it.
\<close>

section \<open>Errors of the gRPC layer\<close>

text \<open>The package's sentinels, the \<open>%w\<close> wrapping of \<open>fmt.Errorf\<close>, and an error that
  came out of a callback.\<close>

datatype grpc_err = ErrMessageTooLarge | ErrBadMessageHeader | ErrCompressed
  | Wrap string grpc_err | Suffix grpc_err string | OtherErr string

fun err_text :: "grpc_err \<Rightarrow> string" where
  "err_text ErrMessageTooLarge = ''grpc: message exceeds max size''"
| "err_text ErrBadMessageHeader = ''grpc: malformed message header''"
| "err_text ErrCompressed = ''grpc: compressed messages not supported''"
| "err_text (Wrap pre e) = pre @ err_text e"
| "err_text (Suffix e suf) = err_text e @ suf"
| "err_text (OtherErr t) = t"

section \<open>The parser\<close>

abbreviation messageHeaderLen :: nat where "messageHeaderLen \<equiv> 5"
abbreviation defaultMaxMessageSize :: int where "defaultMaxMessageSize \<equiv> 4 * 1024 * 1024"

record message_parser =
  mp_maxSize :: int
  mp_buf :: bytes

definition NewMessageParser :: "int \<Rightarrow> message_parser" where
  "NewMessageParser maxSize =
     \<lparr>mp_maxSize = (if maxSize \<le> 0 then defaultMaxMessageSize else maxSize), mp_buf = []\<rparr>"

definition Reset :: "message_parser \<Rightarrow> message_parser" where
  "Reset p = p\<lparr>mp_buf := []\<rparr>"

definition Buffered :: "message_parser \<Rightarrow> nat" where
  "Buffered p = length (mp_buf p)"

text \<open>One turn of the loop: the five byte header, its two checks, the payload. The limit
  is compared after the conversion \<open>uint32(p.maxSize)\<close>.\<close>

definition split_message :: "int \<Rightarrow> bytes \<Rightarrow> (bytes, grpc_err) split_res" where
  "split_message maxSize work =
     (case work of
        compressed # l3 # l2 # l1 # l0 # rest \<Rightarrow>
          (let len = get32 l3 l2 l1 l0 in
           if compressed \<noteq> 0 then Bad ErrCompressed
           else if len > word_of_int maxSize then
             Bad (Suffix ErrMessageTooLarge ('': '' @ itoa (unat len) @ '' > '' @ itoa_int maxSize))
           else if length rest < unat len then NeedMore
           else Got (take (unat len) rest) (messageHeaderLen + unat len))
      | _ \<Rightarrow> NeedMore)"

text \<open>\<open>Parse\<close>: the stored bytes and the new ones form the working buffer, what is left
  after the loop is stored, and all of \<open>data\<close> counts as consumed. A message whose
  callback fails stays in the buffer.\<close>

definition Parse_msgs ::
  "message_parser \<Rightarrow> ('s \<Rightarrow> bytes \<Rightarrow> 's \<times> grpc_err option) \<Rightarrow> 's \<Rightarrow> bytes
   \<Rightarrow> nat \<times> grpc_err option \<times> message_parser \<times> 's" where
  "Parse_msgs p fn s data =
     (case feed (split_message (mp_maxSize p)) fn (mp_buf p) s data of
        (rest, err, s') \<Rightarrow> (length data, err, p\<lparr>mp_buf := rest\<rparr>, s'))"

section \<open>Writing messages\<close>

definition Encode_msg :: "bytes \<Rightarrow> bytes \<Rightarrow> bytes" where
  "Encode_msg dst msg = dst @ [0] @ put32 (word_of_nat (length msg)) @ msg"

definition EncodeAll :: "bytes \<Rightarrow> bytes list \<Rightarrow> bytes" where
  "EncodeAll dst msgs = foldl Encode_msg dst msgs"

section \<open>The messages as a framing\<close>

definition enc_message :: "bytes \<Rightarrow> bytes" where
  "enc_message msg = Encode_msg [] msg"

definition message_ok :: "int \<Rightarrow> bytes \<Rightarrow> bool" where
  "message_ok maxSize msg = (length msg < 2 ^ 32 \<and> length msg \<le> unat (word_of_int maxSize :: u32))"

lemma Encode_msg_append: "Encode_msg dst msg = dst @ enc_message msg"
  by (simp add: Encode_msg_def enc_message_def)

lemma EncodeAll_concat: "EncodeAll dst msgs = dst @ concat (map enc_message msgs)"
  by (induction msgs arbitrary: dst) (simp_all add: EncodeAll_def Encode_msg_append)

lemma length_enc_message [simp]: "length (enc_message msg) = messageHeaderLen + length msg"
  by (simp add: enc_message_def Encode_msg_def)

lemma split_enc_message:
  assumes "message_ok m msg"
  shows "split_message m (enc_message msg @ x) = Got msg (length (enc_message msg))"
proof -
  have "unat (word_of_nat (length msg) :: u32) = length msg"
    using assms by (simp add: message_ok_def unat_of_nat)
  then show ?thesis
    using assms
    by (simp add: split_message_def enc_message_def Encode_msg_def put32_def get32_put32
        message_ok_def word_less_nat_alt Let_def)
qed

lemma split_message_five:
  "split_message m b \<noteq> NeedMore \<Longrightarrow> \<exists>c l3 l2 l1 l0 rest. b = c # l3 # l2 # l1 # l0 # rest"
  by (auto simp: split_message_def split: list.splits)

lemma split_message_GotD:
  "split_message m b = Got u n \<Longrightarrow>
   n = messageHeaderLen + length u \<and> n \<le> length b \<and> length u \<le> unat (word_of_int m :: u32)"
  using split_message_five [of m b]
  by (auto simp: split_message_def Let_def word_less_nat_alt split: if_splits)

lemma split_message_Got_append: "split_message m b = Got u n \<Longrightarrow> split_message m (b @ x) = Got u n"
  using split_message_five [of m b] by (auto simp: split_message_def Let_def split: if_splits)

lemma split_message_Bad_append: "split_message m b = Bad e \<Longrightarrow> split_message m (b @ x) = Bad e"
  using split_message_five [of m b] by (auto simp: split_message_def Let_def split: if_splits)

interpretation gm: frame_codec "split_message m" enc_message "message_ok m" for m
proof
  show "split_message m [] = NeedMore" by (simp add: split_message_def)
qed (auto dest: split_message_GotD split_message_Got_append split_message_Bad_append split_enc_message)

section \<open>A stream of DATA\<close>

text \<open>The parser of a stream fed with the contents of its DATA frames, up to the first
  error.\<close>

fun parse_data ::
  "message_parser \<Rightarrow> ('s \<Rightarrow> bytes \<Rightarrow> 's \<times> grpc_err option) \<Rightarrow> 's \<Rightarrow> bytes list
   \<Rightarrow> grpc_err option \<times> message_parser \<times> 's" where
  "parse_data p fn s [] = (None, p, s)"
| "parse_data p fn s (d # ds) =
     (case Parse_msgs p fn s d of
        (n, Some e, p', s') \<Rightarrow> (Some e, p', s')
      | (n, None, p', s') \<Rightarrow> parse_data p' fn s' ds)"

lemma parse_data_chunks:
  "parse_data p fn s ds =
     (case feed_chunks (split_message (mp_maxSize p)) fn (mp_buf p) s ds of
        (rest, err, s') \<Rightarrow> (err, p\<lparr>mp_buf := rest\<rparr>, s'))"
  by (induction ds arbitrary: p s)
     (auto simp: Parse_msgs_def split: option.splits prod.splits)

lemma Parse_msgs_max:
  "Parse_msgs p fn s d = (n, err, p', s') \<Longrightarrow> mp_maxSize p' = mp_maxSize p \<and> n = length d"
  by (auto simp: Parse_msgs_def split: prod.splits)

text \<open>C36. Messages that fit the limit, written back to back and followed by an incomplete
  message, are delivered one by one, in order and exactly once, however the bytes are cut
  into DATA frames (a message over several frames, several messages in one frame); the
  parser then holds exactly the incomplete tail.\<close>

theorem messages_delivered:
  assumes "\<forall>msg \<in> set msgs. message_ok (mp_maxSize p) msg" and "mp_buf p = []"
    and "split_message (mp_maxSize p) tail = NeedMore"
    and "concat ds = EncodeAll [] msgs @ tail"
  shows "parse_data p collect [] ds = (None, p\<lparr>mp_buf := tail\<rparr>, msgs)"
  using gm.feed_chunks_enc_buf [OF assms(1,3), of ds collect "[]" msgs] assms(2,4)
  by (simp add: parse_data_chunks EncodeAll_concat)

lemma messages_delivered_witness:
  "parse_data (NewMessageParser 0) collect [] [[0, 0, 0], [0, 2, 7, 8, 0, 0, 0, 0, 0, 0], [0, 0]]
   = (None, NewMessageParser 0\<lparr>mp_buf := [0, 0, 0]\<rparr>, [[7, 8], []])"
proof -
  have "message_ok (mp_maxSize (NewMessageParser 0)) [7, 8]"
    and "message_ok (mp_maxSize (NewMessageParser 0)) []"
    by (simp_all add: NewMessageParser_def message_ok_def)
  then show ?thesis
    by (intro messages_delivered)
       (simp_all add: NewMessageParser_def split_message_def EncodeAll_concat enc_message_def
          Encode_msg_def put32_def)
qed

text \<open>A message whose compression flag is set, or that is longer than the limit, is
  refused as soon as its five byte header is there: the complete messages in front of it
  are delivered first, and how the bytes are cut into DATA frames does not matter.\<close>

theorem bad_message_refused:
  assumes "\<forall>msg \<in> set msgs. message_ok (mp_maxSize p) msg" and "mp_buf p = []"
    and "compressed \<noteq> 0 \<or> len > word_of_int (mp_maxSize p)"
    and "concat ds = EncodeAll [] msgs @ [compressed] @ put32 len @ rest"
  shows "\<exists>p'. parse_data p collect [] ds =
    (Some (if compressed \<noteq> 0 then ErrCompressed
       else Suffix ErrMessageTooLarge ('': '' @ itoa (unat len) @ '' > '' @ itoa_int (mp_maxSize p))),
     p', msgs)"
proof -
  let ?m = "mp_maxSize p"
  let ?e = "if compressed \<noteq> 0 then ErrCompressed
       else Suffix ErrMessageTooLarge ('': '' @ itoa (unat len) @ '' > '' @ itoa_int ?m)"
  let ?bad = "[compressed] @ put32 len @ rest"
  have bad: "split_message ?m ?bad = Bad ?e"
    using assms(3) by (auto simp: split_message_def put32_def get32_put32 Let_def)
  have "snd (feed_chunks (split_message ?m) collect [] [] ds) = (Some ?e, msgs)"
    using assms(4) by (intro gm.feed_chunks_enc_bad [OF assms(1) bad]) (simp_all add: EncodeAll_concat)
  then show ?thesis
    using assms(2) by (auto simp: parse_data_chunks split: prod.splits)
qed

lemma bad_message_refused_witness:
  "\<exists>p'. parse_data (NewMessageParser 10) collect [] [[0, 0, 0, 0, 1, 9, 0], [0, 0, 0], [11]]
   = (Some (if (0 :: byte) \<noteq> 0 then ErrCompressed
       else Suffix ErrMessageTooLarge ('': '' @ itoa (unat (11 :: u32)) @ '' > ''
         @ itoa_int (mp_maxSize (NewMessageParser 10)))), p', [[9]])"
  by (rule bad_message_refused [where rest = "[]" and len = 11])
     (simp_all add: NewMessageParser_def message_ok_def EncodeAll_concat enc_message_def
        Encode_msg_def put32_def)

end
