(* ===== verification/Grpc_Status.thy ===== *)
theory Grpc_Status
  imports H2_Headers
begin

text \<open>
  gRPC status (\<open>grpc/status.go\<close>): the codes, the status carried in the trailer and
  the percent-encoding of its message. A nil \<open>*Status\<close> is \<open>None\<close>.
\<close>

section \<open>Codes\<close>

type_synonym Code = u32

abbreviation OK :: Code where "OK \<equiv> 0"
abbreviation Unknown :: Code where "Unknown \<equiv> 2"
abbreviation InvalidArgument :: Code where "InvalidArgument \<equiv> 3"
abbreviation NotFound :: Code where "NotFound \<equiv> 5"
abbreviation Unimplemented :: Code where "Unimplemented \<equiv> 12"
abbreviation Internal :: Code where "Internal \<equiv> 13"

definition Code_String :: "Code \<Rightarrow> string" where
  "Code_String c =
     (if c < 17 then
        [''OK'', ''Canceled'', ''Unknown'', ''InvalidArgument'', ''DeadlineExceeded'', ''NotFound'',
         ''AlreadyExists'', ''PermissionDenied'', ''ResourceExhausted'', ''FailedPrecondition'',
         ''Aborted'', ''OutOfRange'', ''Unimplemented'', ''Internal'', ''Unavailable'', ''DataLoss'',
         ''Unauthenticated''] ! unat c
      else ''Code('' @ itoa (unat c) @ '')'')"

abbreviation headerContentType :: string where "headerContentType \<equiv> ''content-type''"
abbreviation headerStatus :: string where "headerStatus \<equiv> ''grpc-status''"
abbreviation headerMessage :: string where "headerMessage \<equiv> ''grpc-message''"
abbreviation ContentType :: string where "ContentType \<equiv> ''application/grpc''"

definition IsGRPCContentType :: "string \<Rightarrow> bool" where
  "IsGRPCContentType v =
     (length v \<ge> length ContentType \<and> take (length ContentType) v = ContentType)"

section \<open>Status\<close>

record Status =
  st_Code :: Code
  st_Message :: string

definition StatusOK :: Status where
  "StatusOK = \<lparr>st_Code = OK, st_Message = ''''\<rparr>"

definition StatusNotFound :: "string \<Rightarrow> Status" where
  "StatusNotFound msg = \<lparr>st_Code = NotFound, st_Message = msg\<rparr>"

definition StatusUnimplemented :: "string \<Rightarrow> Status" where
  "StatusUnimplemented msg = \<lparr>st_Code = Unimplemented, st_Message = msg\<rparr>"

definition StatusInternal :: "string \<Rightarrow> Status" where
  "StatusInternal msg = \<lparr>st_Code = Internal, st_Message = msg\<rparr>"

definition StatusInvalidArgument :: "string \<Rightarrow> Status" where
  "StatusInvalidArgument msg = \<lparr>st_Code = InvalidArgument, st_Message = msg\<rparr>"

definition Status_Error :: "Status option \<Rightarrow> string" where
  "Status_Error so =
     (case so of
        None \<Rightarrow> ''''
      | Some s \<Rightarrow>
          if st_Code s = OK then ''''
          else if st_Message s = '''' then ''rpc error: code = '' @ Code_String (st_Code s)
          else ''rpc error: code = '' @ Code_String (st_Code s) @ '' desc = '' @ st_Message s)"

section \<open>Percent-encoding\<close>

definition unhex :: "char \<Rightarrow> byte \<times> bool" where
  "unhex ch =
     (let c = byte_of_char ch in
      if 48 \<le> c \<and> c \<le> 57 then (c - 48, True)
      else if 97 \<le> c \<and> c \<le> 102 then (c - 97 + 10, True)
      else if 65 \<le> c \<and> c \<le> 70 then (c - 65 + 10, True)
      else (0, False))"

text \<open>The second loop of \<open>percentDecode\<close>, on the rest of the string.\<close>

fun percent_loop :: "string \<Rightarrow> string" where
  "percent_loop [] = []"
| "percent_loop (c # rest) =
     (if c \<noteq> CHR ''%'' \<or> length rest < 2 then c # percent_loop rest
      else
        (let (hi, ok1) = unhex (rest ! 0); (lo, ok2) = unhex (rest ! 1) in
         if \<not> ok1 \<or> \<not> ok2 then c # percent_loop rest
         else char_of_byte (push_bit 4 hi OR lo) # percent_loop (drop 2 rest)))"

definition percentDecode :: "string \<Rightarrow> string" where
  "percentDecode s = (if list_ex (\<lambda>c. c = CHR ''%'') s then percent_loop s else s)"

text \<open>\<open>c < 0x20 || c > 0x7e || c == '%'\<close>\<close>

definition must_escape :: "char \<Rightarrow> bool" where
  "must_escape c = (byte_of_char c < 0x20 \<or> byte_of_char c > 0x7e \<or> c = CHR ''%'')"

definition hexDigits :: string where
  "hexDigits = ''0123456789ABCDEF''"

definition escape :: "char \<Rightarrow> string" where
  "escape c =
     (if must_escape c
      then [CHR ''%'', hexDigits ! unat (drop_bit 4 (byte_of_char c)),
            hexDigits ! unat (byte_of_char c AND 0xf)]
      else [c])"

definition percentEncode :: "string \<Rightarrow> string" where
  "percentEncode s = (if list_ex must_escape s then concat (map escape s) else s)"

section \<open>The trailer\<close>

text \<open>\<open>strconv.ParseUint(s, 10, 32)\<close>: digits only, at least one, at most \<open>2^32 - 1\<close>.\<close>

definition ParseUint32 :: "string \<Rightarrow> u32 option" where
  "ParseUint32 s =
     (if s = '''' then None
      else case parse_digits 0 s of
          None \<Rightarrow> None
        | Some n \<Rightarrow> if n < 2 ^ 32 then Some (word_of_nat n) else None)"

fun status_loop :: "Status \<Rightarrow> HeaderField list \<Rightarrow> Status" where
  "status_loop s [] = s"
| "status_loop s (h # hs) =
     (if Name h = headerStatus then
        (case ParseUint32 (Value h) of
           None \<Rightarrow> \<lparr>st_Code = Unknown, st_Message = ''malformed grpc-status: '' @ Value h\<rparr>
         | Some n \<Rightarrow> status_loop \<lparr>st_Code = n, st_Message = ''''\<rparr> hs)
      else if Name h = headerMessage then
        status_loop (s\<lparr>st_Message := percentDecode (Value h)\<rparr>) hs
      else status_loop s hs)"

definition StatusFromHeaders :: "HeaderField list \<Rightarrow> Status" where
  "StatusFromHeaders headers =
     status_loop \<lparr>st_Code = Unknown, st_Message = ''missing grpc-status in trailer''\<rparr> headers"

definition AppendStatus :: "HeaderField list \<Rightarrow> Status option \<Rightarrow> HeaderField list" where
  "AppendStatus dst so =
     (let code = (case so of None \<Rightarrow> OK | Some s \<Rightarrow> st_Code s);
          dst = dst @ [\<lparr>Name = headerStatus, Value = itoa (unat code)\<rparr>]
      in case so of
           None \<Rightarrow> dst
         | Some s \<Rightarrow>
             if st_Message s \<noteq> ''''
             then dst @ [\<lparr>Name = headerMessage, Value = percentEncode (st_Message s)\<rparr>] else dst)"

section \<open>Lemmas\<close>

text \<open>Characters that may stand in a header value.\<close>

definition printable :: "char \<Rightarrow> bool" where
  "printable c = (0x20 \<le> byte_of_char c \<and> byte_of_char c \<le> 0x7e)"

lemma hex_digit:
  assumes "(d :: byte) < 16"
  shows "unhex (hexDigits ! unat d) = (d, True) \<and> printable (hexDigits ! unat d)"
proof -
  have d: "d = word_of_nat (unat d)" by simp
  have "unat d < 16" using assms by (simp add: word_less_nat_alt)
  then have "unat d \<in> {0, 1, 2, 3, 4, 5, 6, 7, 8, 9, 10, 11, 12, 13, 14, 15}"
    by (simp only: insert_iff empty_iff) arith
  then show ?thesis
    by (subst (2) d, elim insertE)
       (simp_all add: unhex_def hexDigits_def byte_of_char_def printable_def Let_def)
qed

lemma nibbles: "drop_bit 4 (b :: byte) < 16" "b AND 0xf < 16"
proof -
  have "unat (drop_bit 4 b) = unat b div 16"
    by (simp only: unat_drop_bit_eq) (simp add: drop_bit_eq_div)
  then have "unat (drop_bit 4 b) < 16"
    using unat_byte_lt [of b] by (simp add: less_mult_imp_div_less)
  then show "drop_bit 4 b < 16" by (simp add: word_less_nat_alt)
  show "b AND 0xf < 16"
    using word_and_le1 [of b "0xf"] by (simp add: word_le_nat_alt word_less_nat_alt)
qed

lemma nibbles_join: "push_bit 4 (drop_bit 4 b) OR (b AND 0xf) = (b :: byte)"
proof -
  have m: "(0xf :: byte) = mask 4" by (simp add: mask_eq_exp_minus_1)
  show ?thesis unfolding m by (rule bit_word_eqI) (auto simp: bit_simps)
qed

lemma escape_printable: "list_all printable (escape c)"
  using hex_digit [OF nibbles(1)] hex_digit [OF nibbles(2)]
  by (auto simp: escape_def must_escape_def printable_def byte_of_char_def not_less)

lemma percent_loop_escape: "percent_loop (escape c @ s) = c # percent_loop s"
  using hex_digit [OF nibbles(1)] hex_digit [OF nibbles(2)]
  by (auto simp: escape_def nibbles_join must_escape_def)

lemma percent_loop_escaped: "percent_loop (concat (map escape s)) = s"
  by (induction s) (simp_all add: percent_loop_escape)

lemma percent_loop_plain: "\<not> list_ex (\<lambda>c. c = CHR ''%'') s \<Longrightarrow> percent_loop s = s"
  by (induction s) simp_all

lemma percentDecode_loop: "percentDecode s = percent_loop s"
  by (simp add: percentDecode_def percent_loop_plain)

lemma percentEncode_escape: "percentEncode s = concat (map escape s)"
proof (cases "list_ex must_escape s")
  case False
  then have "map escape s = map (\<lambda>c. [c]) s" by (auto simp: escape_def list_ex_iff)
  then have "concat (map escape s) = s" by (simp only: concat_map_singleton map_ident)
  with False show ?thesis by (simp add: percentEncode_def)
qed (simp add: percentEncode_def)

lemma percentDecode_percentEncode: "percentDecode (percentEncode s) = s"
  by (simp add: percentDecode_loop percentEncode_escape percent_loop_escaped)

lemma percentEncode_printable: "list_all printable (percentEncode s)"
  unfolding percentEncode_escape
  by (induction s) (use escape_printable in \<open>auto simp: list_all_iff\<close>)

lemma digit_printable: "d < 10 \<Longrightarrow> printable (digit_char d)"
proof -
  assume "d < 10"
  then have "d \<in> {0, 1, 2, 3, 4, 5, 6, 7, 8, 9}" by (simp only: insert_iff empty_iff) arith
  then show ?thesis
    by (elim insertE) (simp_all add: digit_char_def printable_def byte_of_char_def word_le_nat_alt)
qed

lemma itoa_printable: "list_all printable (itoa n)"
  unfolding itoa_def
proof (induction n rule: less_induct)
  case (less n)
  show ?case
    by (subst itoa_base.simps) (use less in \<open>simp add: digit_printable\<close>)
qed

lemma ParseUint32_itoa [simp]: "ParseUint32 (itoa (unat n)) = Some n"
  using unsigned_less [of n] by (simp add: ParseUint32_def)

lemma status_loop_other:
  "\<forall>f \<in> set hs. Name f \<notin> {headerStatus, headerMessage} \<Longrightarrow> status_loop s (hs @ rest) = status_loop s rest"
  by (induction hs) simp_all

section \<open>Properties\<close>

text \<open>C37. A status survives its trailer: whatever other fields stand around it, what
  \<open>AppendStatus\<close> writes is read back by \<open>StatusFromHeaders\<close> as the same code and the
  same message, byte for byte, for every code and every message (control bytes, \<open>%\<close>,
  non-ASCII); a nil status reads back as OK.\<close>

theorem status_roundtrip:
  assumes "\<forall>f \<in> set pre \<union> set post. Name f \<notin> {headerStatus, headerMessage}"
  shows "StatusFromHeaders (AppendStatus pre so @ post) =
    (case so of None \<Rightarrow> StatusOK | Some st \<Rightarrow> st)"
  using status_loop_other [of pre] status_loop_other [of post _ "[]"] ParseUint32_itoa [of 0] assms
  by (auto simp: StatusFromHeaders_def AppendStatus_def StatusOK_def percentDecode_percentEncode
      Let_def split: option.splits)

lemma status_roundtrip_witness:
  "StatusFromHeaders (AppendStatus [\<lparr>Name = ''date'', Value = ''x''\<rparr>]
       (Some (StatusNotFound ''50% of [' '] missing'')) @ [])
   = StatusNotFound ''50% of [' '] missing''"
  using status_roundtrip [of "[\<lparr>Name = ''date'', Value = ''x''\<rparr>]" "[]"
      "Some (StatusNotFound ''50% of [' '] missing'')"]
  by simp

text \<open>The percent-encoding is inverted by the decoder on every byte string, and what
  it and the code number put into the trailer is printable ASCII, as HTTP/2 header
  values have to be.\<close>

theorem percent_encoding:
  "percentDecode (percentEncode s) = s \<and> list_all printable (percentEncode s) \<and>
   list_all (\<lambda>f. list_all printable (Value f)) (AppendStatus [] so)"
  by (simp add: percentDecode_percentEncode percentEncode_printable AppendStatus_def itoa_printable
      Let_def split: option.split)

text \<open>The order of the two fields matters to the reader: a \<open>grpc-message\<close> that stands in
  front of \<open>grpc-status\<close> is lost.\<close>

lemma message_before_status_lost:
  "StatusFromHeaders [\<lparr>Name = headerMessage, Value = msg\<rparr>, \<lparr>Name = headerStatus, Value = itoa (unat c)\<rparr>]
   = \<lparr>st_Code = c, st_Message = ''''\<rparr>"
  by (simp add: StatusFromHeaders_def)

end
