(* ===== verification/Grpc_Call.thy ===== *)
theory Grpc_Call
  imports Grpc_Message Grpc_Status H2_Recv
begin

text \<open>
  The client side of gRPC (\<open>grpc/call.go\<close>): method paths, the request and response
  headers, the state of a call and the writers of \<open>ClientConn\<close>, which is a pointer to
  the HTTP/2 connection and is represented by it.
\<close>

section \<open>Method paths and headers\<close>

definition MethodPath :: "string \<Rightarrow> string \<Rightarrow> string" where
  "MethodPath service meth = ''/'' @ service @ ''/'' @ meth"

text \<open>\<open>strings.IndexByte\<close>: the first position, or -1.\<close>

definition IndexByte :: "string \<Rightarrow> char \<Rightarrow> int" where
  "IndexByte s c =
     (let i = length (takeWhile (\<lambda>d. d \<noteq> c) s) in if i < length s then int i else -1)"

definition SplitMethodPath :: "string \<Rightarrow> string \<times> string \<times> bool" where
  "SplitMethodPath path =
     (if length path < 3 \<or> path ! 0 \<noteq> CHR ''/'' then ('''', '''', False)
      else let rest = drop 1 path; i = IndexByte rest (CHR ''/'') in
        if i \<le> 0 \<or> i = int (length rest) - 1 then ('''', '''', False)
        else (take (nat i) rest, drop (nat i + 1) rest, True))"

definition RequestHeaders :: "string \<Rightarrow> string \<Rightarrow> HeaderField list \<Rightarrow> HeaderField list" where
  "RequestHeaders service meth extra =
     [\<lparr>Name = '':method'', Value = ''POST''\<rparr>,
      \<lparr>Name = '':path'', Value = MethodPath service meth\<rparr>,
      \<lparr>Name = '':scheme'', Value = ''http''\<rparr>,
      \<lparr>Name = headerContentType, Value = ContentType\<rparr>,
      \<lparr>Name = ''te'', Value = ''trailers''\<rparr>] @ extra"

definition ResponseHeaders :: "HeaderField list \<Rightarrow> HeaderField list" where
  "ResponseHeaders extra =
     [\<lparr>Name = '':status'', Value = ''200''\<rparr>,
      \<lparr>Name = headerContentType, Value = ContentType\<rparr>] @ extra"

section \<open>The state of a call\<close>

record Call =
  ca_StreamID :: u32
  ca_parser :: message_parser
  ca_status :: "Status option"
  ca_gotStatus :: bool
  ca_headers :: "HeaderField list"

definition NewCall :: "u32 \<Rightarrow> Call" where
  "NewCall sid = \<lparr>ca_StreamID = sid, ca_parser = NewMessageParser 0, ca_status = None,
     ca_gotStatus = False, ca_headers = []\<rparr>"

text \<open>\<open>Call.OnHeaders\<close>: the fields with a \<open>grpc-status\<close> among them are the trailer.\<close>

definition Call_OnHeaders :: "Call \<Rightarrow> HeaderField list \<Rightarrow> bool \<Rightarrow> Call" where
  "Call_OnHeaders c flds endStream =
     (if list_ex (\<lambda>f. Name f = headerStatus) flds
      then c\<lparr>ca_status := Some (StatusFromHeaders flds), ca_gotStatus := True\<rparr>
      else c\<lparr>ca_headers := flds\<rparr>)"

definition Call_OnData ::
  "Call \<Rightarrow> ('s \<Rightarrow> bytes \<Rightarrow> 's \<times> grpc_err option) \<Rightarrow> 's \<Rightarrow> bytes \<Rightarrow> grpc_err option \<times> Call \<times> 's" where
  "Call_OnData c fn s dat =
     (case Parse_msgs (ca_parser c) fn s dat of
        (n, err, p, s') \<Rightarrow>
          (map_option (Wrap (''grpc: stream '' @ itoa (unat (ca_StreamID c)) @ '': '')) err,
           c\<lparr>ca_parser := p\<rparr>, s'))"

definition Call_Status :: "Call \<Rightarrow> Status option" where
  "Call_Status c = (if \<not> ca_gotStatus c then None else ca_status c)"

definition Call_Done :: "Call \<Rightarrow> bool" where
  "Call_Done c = ca_gotStatus c"

section \<open>The client connection\<close>

text \<open>\<open>ClientConn.Call\<close>: HEADERS first, then the one message with END_STREAM. A failure
  of the HPACK encoder is returned; \<open>WriteData\<close> has none.\<close>

definition ClientConn_Call ::
  "('d, 'e) hpack \<Rightarrow> ('d, 'e) conn \<Rightarrow> string \<Rightarrow> string \<Rightarrow> bytes \<Rightarrow> ('d, 'e) conn \<times> (h2err + Call)" where
  "ClientConn_Call hp c service meth reqMsg =
     (let (c, sid) = NewStreamID c in
      case WriteHeaders hp c sid (RequestHeaders service meth []) False of
        (c, Some err) \<Rightarrow> (c, Inl err)
      | (c, None) \<Rightarrow> (WriteData c sid (Encode_msg [] reqMsg) True, Inr (NewCall sid)))"

definition ClientConn_CallStream ::
  "('d, 'e) hpack \<Rightarrow> ('d, 'e) conn \<Rightarrow> string \<Rightarrow> string \<Rightarrow> ('d, 'e) conn \<times> (h2err + Call)" where
  "ClientConn_CallStream hp c service meth =
     (let (c, sid) = NewStreamID c in
      case WriteHeaders hp c sid (RequestHeaders service meth []) False of
        (c, Some err) \<Rightarrow> (c, Inl err)
      | (c, None) \<Rightarrow> (c, Inr (NewCall sid)))"

definition ClientConn_Send :: "('d, 'e) conn \<Rightarrow> Call \<Rightarrow> bytes \<Rightarrow> bool \<Rightarrow> ('d, 'e) conn" where
  "ClientConn_Send c call msg lst = WriteData c (ca_StreamID call) (Encode_msg [] msg) lst"

definition ClientConn_Finish :: "('d, 'e) conn \<Rightarrow> Call \<Rightarrow> ('d, 'e) conn" where
  "ClientConn_Finish c call = WriteData c (ca_StreamID call) [] True"

definition ClientConn_WriteResponse ::
  "('d, 'e) hpack \<Rightarrow> ('d, 'e) conn \<Rightarrow> u32 \<Rightarrow> bytes \<Rightarrow> Status option \<Rightarrow> ('d, 'e) conn \<times> h2err option" where
  "ClientConn_WriteResponse hp c sid msg st =
     (case WriteHeaders hp c sid (ResponseHeaders []) False of
        (c, Some err) \<Rightarrow> (c, Some err)
      | (c, None) \<Rightarrow>
          WriteTrailers hp (WriteData c sid (Encode_msg [] msg) False) sid (AppendStatus [] st))"

definition ClientConn_WriteTrailers ::
  "('d, 'e) hpack \<Rightarrow> ('d, 'e) conn \<Rightarrow> u32 \<Rightarrow> Status option \<Rightarrow> ('d, 'e) conn \<times> h2err option" where
  "ClientConn_WriteTrailers hp c sid st = WriteTrailers hp c sid (AppendStatus [] st)"

section \<open>Lemmas\<close>

lemma takeWhile_slash: "CHR ''/'' \<notin> set s \<Longrightarrow> takeWhile (\<lambda>d. d \<noteq> CHR ''/'') (s @ CHR ''/'' # m) = s"
  by (induction s) auto

lemma SplitMethodPath_MethodPath:
  "s \<noteq> '''' \<Longrightarrow> CHR ''/'' \<notin> set s \<Longrightarrow> m \<noteq> '''' \<Longrightarrow> SplitMethodPath (MethodPath s m) = (s, m, True)"
  by (simp add: SplitMethodPath_def MethodPath_def IndexByte_def takeWhile_slash Let_def)

lemma split_at_first:
  assumes "length (takeWhile (\<lambda>d. d \<noteq> c) r) < length r"
  shows "r = takeWhile (\<lambda>d. d \<noteq> c) r @ c # drop (length (takeWhile (\<lambda>d. d \<noteq> c) r) + 1) r"
  using assms by (induction r) auto

lemma SplitMethodPath_True:
  assumes "SplitMethodPath p = (s, m, True)"
  shows "p = MethodPath s m \<and> s \<noteq> '''' \<and> CHR ''/'' \<notin> set s \<and> m \<noteq> ''''"
proof (cases p)
  case (Cons c r)
  let ?t = "takeWhile (\<lambda>d. d \<noteq> CHR ''/'') r"
  have c: "c = CHR ''/''" and t: "length ?t < length r" "0 < length ?t" "length ?t + 1 < length r"
    and sm: "s = take (length ?t) r" "m = drop (length ?t + 1) r"
    using assms by (auto simp: Cons SplitMethodPath_def IndexByte_def Let_def split: if_splits)
  have "take (length ?t) r = ?t" by (rule takeWhile_eq_take [symmetric])
  then have s: "s = ?t" using sm by simp
  then have "r = s @ CHR ''/'' # m" using split_at_first [OF t(1)] sm(2) by simp
  moreover have "CHR ''/'' \<notin> set s" using s set_takeWhileD by fastforce
  ultimately show ?thesis using t s sm by (auto simp: Cons c MethodPath_def)
qed (use assms in \<open>simp add: SplitMethodPath_def\<close>)

text \<open>The messages of a call, fed with the DATA of its stream up to the first error.\<close>

fun call_data ::
  "Call \<Rightarrow> ('s \<Rightarrow> bytes \<Rightarrow> 's \<times> grpc_err option) \<Rightarrow> 's \<Rightarrow> bytes list \<Rightarrow> grpc_err option \<times> Call \<times> 's" where
  "call_data c fn s [] = (None, c, s)"
| "call_data c fn s (d # ds) =
     (case Call_OnData c fn s d of
        (Some e, c', s') \<Rightarrow> (Some e, c', s') | (None, c', s') \<Rightarrow> call_data c' fn s' ds)"

lemma call_data_parse:
  "call_data c fn s ds =
     (case parse_data (ca_parser c) fn s ds of
        (err, p, s') \<Rightarrow>
          (map_option (Wrap (''grpc: stream '' @ itoa (unat (ca_StreamID c)) @ '': '')) err,
           c\<lparr>ca_parser := p\<rparr>, s'))"
  by (induction ds arbitrary: c s) (auto simp: Call_OnData_def split: option.splits prod.splits)

lemma default_message_ok: "length msg \<le> 4194304 \<Longrightarrow> message_ok (mp_maxSize (NewMessageParser 0)) msg"
  by (simp add: message_ok_def NewMessageParser_def)

text \<open>The fields an application adds to a request, and the request they make.\<close>

definition extra_ok :: "HeaderField list \<Rightarrow> bool" where
  "extra_ok extra = list_all (\<lambda>f. field_ok f \<and> \<not> is_pseudo f \<and> Name f \<noteq> ''content-type'') extra"

lemma filter_front: "\<forall>x \<in> set xs. P x \<Longrightarrow> \<forall>x \<in> set ys. \<not> P x \<Longrightarrow> filter P (xs @ ys) = xs"
  by simp

lemma no_status:
  assumes "\<forall>f \<in> set fs. \<not> is_pseudo f \<and> Q f"
  shows "'':status'' \<notin> Name ` set fs"
proof
  assume "'':status'' \<in> Name ` set fs"
  then obtain f where "f \<in> set fs" "Name f = '':status''" by auto
  with assms show False by (auto simp: is_pseudo_def)
qed

lemma request_headers_ok:
  assumes "extra_ok extra"
  shows "request_ok (RequestHeaders svc meth extra)"
proof -
  let ?ps = "[\<lparr>Name = '':method'', Value = ''POST''\<rparr>, \<lparr>Name = '':path'', Value = MethodPath svc meth\<rparr>,
      \<lparr>Name = '':scheme'', Value = ''http''\<rparr>]"
  let ?rs = "[\<lparr>Name = headerContentType, Value = ContentType\<rparr>, \<lparr>Name = ''te'', Value = ''trailers''\<rparr>] @ extra"
  have split: "RequestHeaders svc meth extra = ?ps @ ?rs" by (simp add: RequestHeaders_def)
  have extra: "field_ok f \<and> \<not> is_pseudo f" if "f \<in> set extra" for f
    using assms that by (simp add: extra_ok_def list_all_iff)
  have te: "TrimSpace ''trailers'' = ''trailers''" by code_simp
  have ps: "\<forall>f \<in> set ?ps. is_pseudo f \<and> field_ok f"
    by (simp add: is_pseudo_def field_ok_def is_upper_def connection_specific_def MethodPath_def)
  have "\<forall>f \<in> set [\<lparr>Name = headerContentType, Value = ContentType\<rparr>, \<lparr>Name = ''te'', Value = ''trailers''\<rparr>].
      \<not> is_pseudo f \<and> field_ok f"
    by (simp add: is_pseudo_def field_ok_def is_upper_def connection_specific_def te)
  with extra have rs: "\<forall>f \<in> set ?rs. \<not> is_pseudo f \<and> field_ok f"
    by (simp only: set_append) blast
  have fs: "filter is_pseudo (?ps @ ?rs) = ?ps"
    by (rule filter_front) (use ps rs in blast)+
  have d: "distinct (map Name (filter is_pseudo (?ps @ ?rs)))"
    unfolding fs by simp
  have st: "'':status'' \<notin> Name ` set (?ps @ ?rs)"
    using no_status [OF rs] by (simp only: set_append image_Un) simp
  have "\<forall>f \<in> set (?ps @ ?rs). field_ok f" using ps rs by auto
  moreover have "\<exists>as bs. ?ps @ ?rs = as @ bs \<and> (\<forall>f \<in> set as. is_pseudo f) \<and> (\<forall>f \<in> set bs. \<not> is_pseudo f)"
    using ps rs by (intro exI [of _ ?ps] exI [of _ ?rs]) simp
  ultimately have "syntax_ok (?ps @ ?rs)"
    using d unfolding syntax_ok_def field_ok_def by blast
  then show ?thesis
    unfolding split request_ok_def using st by simp
qed

section \<open>Properties\<close>

text \<open>\<open>SplitMethodPath\<close> accepts exactly the paths \<open>MethodPath\<close> builds from a non-empty
  service without a slash and a non-empty method, and gives these two back.\<close>

theorem SplitMethodPath_iff:
  "(SplitMethodPath p = (s, m, True)) = (p = MethodPath s m \<and> s \<noteq> '''' \<and> CHR ''/'' \<notin> set s \<and> m \<noteq> '''')"
  using SplitMethodPath_True [of p s m] SplitMethodPath_MethodPath [of s m] by blast

text \<open>C34. A caller gets back what the server answered: after the response headers, the
  DATA of any number of encoded messages of at most 4 MB, cut into frames in any way,
  and the trailer of a status, the call has handed over exactly those messages, is
  done, and reports that status.\<close>

theorem reply_reaches_caller:
  assumes "\<forall>msg \<in> set msgs. length msg \<le> 4194304" and "concat ds = EncodeAll [] msgs"
    and "\<forall>f \<in> set extra. Name f \<noteq> headerStatus"
  shows "case call_data (Call_OnHeaders (NewCall sid) (ResponseHeaders extra) False) collect [] ds of
      (err, call, got) \<Rightarrow>
        err = None \<and> got = msgs \<and> Call_Status call = None \<and>
        (let call' = Call_OnHeaders call (AppendStatus [] (Some st)) True in
         Call_Done call' \<and> Call_Status call' = Some st \<and> ca_headers call' = ResponseHeaders extra
         \<and> Buffered (ca_parser call') = 0)"
proof -
  let ?c = "Call_OnHeaders (NewCall sid) (ResponseHeaders extra) False"
  have no: "\<not> list_ex (\<lambda>f. Name f = headerStatus) (ResponseHeaders extra)"
    using assms(3) by (auto simp: ResponseHeaders_def list_ex_iff)
  then have c: "?c = (NewCall sid)\<lparr>ca_headers := ResponseHeaders extra\<rparr>"
    by (simp add: Call_OnHeaders_def)
  have p: "ca_parser (NewCall sid) = NewMessageParser 0" by (simp add: NewCall_def)
  have "feed_chunks (split_message (mp_maxSize (NewMessageParser 0))) collect [] [] ds = ([], None, msgs)"
    using assms(1,2)
    by (intro gm.feed_chunks_enc_buf [where us = msgs])
       (auto simp: default_message_ok gm.split_Nil EncodeAll_concat)
  then have run: "parse_data (NewMessageParser 0) collect [] ds = (None, NewMessageParser 0, msgs)"
    by (simp add: parse_data_chunks) (simp add: NewMessageParser_def)
  have st: "StatusFromHeaders (AppendStatus [] (Some st)) = st"
    by (simp add: StatusFromHeaders_def AppendStatus_def percentDecode_percentEncode Let_def)
  show ?thesis
    by (simp add: call_data_parse c p run Call_OnHeaders_def no st Call_Status_def Call_Done_def)
       (simp add: NewCall_def AppendStatus_def Let_def Buffered_def NewMessageParser_def)
qed

lemma reply_reaches_caller_witness:
  "case call_data (Call_OnHeaders (NewCall 1) (ResponseHeaders []) False) collect []
       [[0, 0, 0], [0, 1, 7]] of
      (err, call, got) \<Rightarrow>
        err = None \<and> got = [[7]] \<and> Call_Status call = None \<and>
        (let call' = Call_OnHeaders call (AppendStatus [] (Some (StatusNotFound ''x''))) True in
         Call_Done call' \<and> Call_Status call' = Some (StatusNotFound ''x'')
         \<and> ca_headers call' = ResponseHeaders [] \<and> Buffered (ca_parser call') = 0)"
  by (rule reply_reaches_caller)
     (simp_all add: EncodeAll_concat enc_message_def Encode_msg_def put32_def)

end
