(* ===== verification/Grpc_Server.thy ===== *)
theory Grpc_Server
  imports Grpc_Call
begin

text \<open>
  The server side of gRPC (\<open>grpc/server.go\<close>): the replies of a call, and
  \<open>ServerHandler\<close>, which turns the HTTP/2 events of a connection into calls, messages
  and ends of calls for the application's \<open>Handler\<close>. A \<open>*ServerCall\<close> is shared between
  the handler's map and the application, so the calls live in a heap (a list) and a
  pointer is an index into it.
\<close>

section \<open>The server's view of a call\<close>

record ServerCall =
  sc_StreamID :: u32
  sc_Service :: string
  sc_Method :: string
  sc_Headers :: "HeaderField list"
  sc_parser :: message_parser
  sc_replied :: bool

definition Replied :: "ServerCall \<Rightarrow> bool" where
  "Replied sc = sc_replied sc"

definition StartReply ::
  "('d, 'e) hpack \<Rightarrow> ('d, 'e) conn \<Rightarrow> ServerCall \<Rightarrow> ('d, 'e) conn \<times> h2err option" where
  "StartReply hp c sc = WriteHeaders hp c (sc_StreamID sc) (ResponseHeaders []) False"

definition Send_msg :: "('d, 'e) conn \<Rightarrow> ServerCall \<Rightarrow> bytes \<Rightarrow> bool \<Rightarrow> ('d, 'e) conn" where
  "Send_msg c sc msg lst = WriteData c (sc_StreamID sc) (Encode_msg [] msg) lst"

definition Finish ::
  "('d, 'e) hpack \<Rightarrow> ('d, 'e) conn \<Rightarrow> ServerCall \<Rightarrow> Status option
   \<Rightarrow> ('d, 'e) conn \<times> ServerCall \<times> h2err option" where
  "Finish hp c sc st =
     (let st = (case st of None \<Rightarrow> StatusOK | Some st \<Rightarrow> st) in
      case WriteTrailers hp c (sc_StreamID sc) (AppendStatus [] (Some st)) of
        (c, Some err) \<Rightarrow> (c, sc, Some err)
      | (c, None) \<Rightarrow> (c, sc\<lparr>sc_replied := True\<rparr>, None))"

text \<open>A nil message is not sent; an empty one is.\<close>

definition Reply ::
  "('d, 'e) hpack \<Rightarrow> ('d, 'e) conn \<Rightarrow> ServerCall \<Rightarrow> bytes option \<Rightarrow> Status option
   \<Rightarrow> ('d, 'e) conn \<times> ServerCall \<times> h2err option" where
  "Reply hp c sc msg st =
     (case StartReply hp c sc of
        (c, Some err) \<Rightarrow> (c, sc, Some err)
      | (c, None) \<Rightarrow>
          (let c = (case msg of None \<Rightarrow> c | Some m \<Rightarrow> WriteData c (sc_StreamID sc) (Encode_msg [] m) False)
           in Finish hp c sc st))"

definition ReplyError ::
  "('d, 'e) hpack \<Rightarrow> ('d, 'e) conn \<Rightarrow> ServerCall \<Rightarrow> Status option
   \<Rightarrow> ('d, 'e) conn \<times> ServerCall \<times> h2err option" where
  "ReplyError hp c sc st =
     (let st = (case st of None \<Rightarrow> StatusInternal ''unknown error'' | Some st \<Rightarrow> st) in
      case StartReply hp c sc of
        (c, Some err) \<Rightarrow> (c, sc, Some err)
      | (c, None) \<Rightarrow> Finish hp c sc (Some st))"

section \<open>The application and the handler\<close>

text \<open>\<open>Handler\<close>: the application sees the connection, the heap of calls, its own state
  and the pointer to the call; it may write to the connection and reply to any call.
  An error is its text.\<close>

record ('c, 'a) grpc_handler =
  OnCall :: "'c \<Rightarrow> ServerCall list \<Rightarrow> 'a \<Rightarrow> nat \<Rightarrow> ('c \<times> ServerCall list \<times> 'a) \<times> string option"
  OnMessage :: "'c \<Rightarrow> ServerCall list \<Rightarrow> 'a \<Rightarrow> nat \<Rightarrow> bytes \<Rightarrow> ('c \<times> ServerCall list \<times> 'a) \<times> string option"
  OnEnd :: "'c \<Rightarrow> ServerCall list \<Rightarrow> 'a \<Rightarrow> nat \<Rightarrow> ('c \<times> ServerCall list \<times> 'a) \<times> string option"

text \<open>\<open>ServerHandler\<close>: the map from streams to calls, with the heap and the
  application's state.\<close>

record 'a server_handler =
  sh_calls :: "u32 \<Rightarrow> nat option"
  sh_heap :: "ServerCall list"
  sh_app :: 'a

definition NewServerHandler :: "'a \<Rightarrow> 'a server_handler" where
  "NewServerHandler a = \<lparr>sh_calls = (\<lambda>_. None), sh_heap = [], sh_app = a\<rparr>"

definition forget :: "'a server_handler \<Rightarrow> u32 \<Rightarrow> 'a server_handler" where
  "forget s sid = s\<lparr>sh_calls := (sh_calls s)(sid := None)\<rparr>"

text \<open>\<open>if err != nil && !call.replied { _ = call.ReplyError(c, ...) }\<close>\<close>

definition reply_error ::
  "('d, 'e) hpack \<Rightarrow> ('d, 'e) conn \<Rightarrow> ServerCall list \<Rightarrow> nat \<Rightarrow> Status option
   \<Rightarrow> ('d, 'e) conn \<times> ServerCall list" where
  "reply_error hp c heap r st =
     (case st of
        None \<Rightarrow> (c, heap)
      | Some st \<Rightarrow>
          if sc_replied (heap ! r) then (c, heap)
          else case ReplyError hp c (heap ! r) (Some st) of (c, sc, _) \<Rightarrow> (c, heap[r := sc]))"

definition end_call ::
  "('d, 'e) hpack \<Rightarrow> (('d, 'e) conn, 'a) grpc_handler \<Rightarrow> ('d, 'e) conn \<Rightarrow> 'a server_handler \<Rightarrow> u32 \<Rightarrow> nat
   \<Rightarrow> ('d, 'e) conn \<times> 'a server_handler" where
  "end_call hp app c s sid r =
     (case OnEnd app c (sh_heap s) (sh_app s) r of
        ((c, heap, a), err) \<Rightarrow>
          (case reply_error hp c heap r (map_option StatusInternal err) of
             (c, heap) \<Rightarrow> (c, forget (s\<lparr>sh_heap := heap, sh_app := a\<rparr>) sid)))"

text \<open>The last value of a field, as the \<open>for ... switch\<close> over the headers leaves it.\<close>

fun last_value :: "string \<Rightarrow> string \<Rightarrow> HeaderField list \<Rightarrow> string" where
  "last_value n v [] = v"
| "last_value n v (f # fs) = last_value n (if Name f = n then Value f else v) fs"

definition srv_OnHeaders ::
  "('d, 'e) hpack \<Rightarrow> (('d, 'e) conn, 'a) grpc_handler \<Rightarrow> ('d, 'e) conn \<Rightarrow> 'a server_handler \<Rightarrow> u32
   \<Rightarrow> HeaderField list \<Rightarrow> bool \<Rightarrow> ('d, 'e) conn \<times> 'a server_handler" where
  "srv_OnHeaders hp app c s sid headers endStream =
     (let path = last_value '':path'' '''' headers;
          ctype = last_value ''content-type'' '''' headers in
      if \<not> IsGRPCContentType ctype then
        (fst (WriteHeaders hp c sid
           [\<lparr>Name = '':status'', Value = ''415''\<rparr>, \<lparr>Name = ''content-type'', Value = ''text/plain''\<rparr>] True), s)
      else
        let call = \<lparr>sc_StreamID = sid, sc_Service = '''', sc_Method = '''', sc_Headers = headers,
                    sc_parser = NewMessageParser 0, sc_replied = False\<rparr>;
            (svc, meth, ok) = SplitMethodPath path in
        if \<not> ok then
          (fst (ReplyError hp c call (Some (StatusUnimplemented (''malformed method path '' @ path)))), s)
        else
          let r = length (sh_heap s);
              s = s\<lparr>sh_heap := sh_heap s @ [call\<lparr>sc_Service := svc, sc_Method := meth\<rparr>],
                    sh_calls := (sh_calls s)(sid \<mapsto> r)\<rparr> in
          case OnCall app c (sh_heap s) (sh_app s) r of
            ((c, heap, a), err) \<Rightarrow>
              (case reply_error hp c heap r (map_option StatusInternal err) of
                 (c, heap) \<Rightarrow>
                   (let s = s\<lparr>sh_heap := heap, sh_app := a\<rparr> in
                    if endStream then end_call hp app c s sid r else (c, s))))"

text \<open>The callback of \<open>OnData\<close>: it swallows the application's errors.\<close>

definition on_message ::
  "('d, 'e) hpack \<Rightarrow> (('d, 'e) conn, 'a) grpc_handler \<Rightarrow> nat
   \<Rightarrow> ('d, 'e) conn \<times> ServerCall list \<times> 'a \<Rightarrow> bytes
   \<Rightarrow> (('d, 'e) conn \<times> ServerCall list \<times> 'a) \<times> grpc_err option" where
  "on_message hp app r st msg =
     (case st of (c, heap, a) \<Rightarrow>
        (case OnMessage app c heap a r msg of
           ((c, heap, a), err) \<Rightarrow>
             (case reply_error hp c heap r (map_option StatusInternal err) of
                (c, heap) \<Rightarrow> ((c, heap, a), None))))"

definition srv_OnData ::
  "('d, 'e) hpack \<Rightarrow> (('d, 'e) conn, 'a) grpc_handler \<Rightarrow> ('d, 'e) conn \<Rightarrow> 'a server_handler \<Rightarrow> u32
   \<Rightarrow> bytes \<Rightarrow> bool \<Rightarrow> ('d, 'e) conn \<times> 'a server_handler" where
  "srv_OnData hp app c s sid dat endStream =
     (case sh_calls s sid of
        None \<Rightarrow> (c, s)
      | Some r \<Rightarrow>
          (case Parse_msgs (sc_parser (sh_heap s ! r)) (on_message hp app r) (c, sh_heap s, sh_app s) dat of
             (n, err, p, (c, heap, a)) \<Rightarrow>
               (let heap = heap[r := (heap ! r)\<lparr>sc_parser := p\<rparr>];
                    s = s\<lparr>sh_heap := heap, sh_app := a\<rparr> in
                if err \<noteq> None \<and> \<not> sc_replied (heap ! r) then
                  (case reply_error hp c heap r (Some (StatusInvalidArgument (err_text (the err)))) of
                     (c, heap) \<Rightarrow> (c, forget (s\<lparr>sh_heap := heap\<rparr>) sid))
                else if endStream then end_call hp app c s sid r
                else (c, s))))"

definition srv_OnRSTStream ::
  "('d, 'e) conn \<Rightarrow> 'a server_handler \<Rightarrow> u32 \<Rightarrow> ErrCode \<Rightarrow> ('d, 'e) conn \<times> 'a server_handler" where
  "srv_OnRSTStream c s sid code = (c, forget s sid)"

text \<open>The handler a server connection is given.\<close>

definition srv_handler ::
  "('d, 'e) hpack \<Rightarrow> (('d, 'e) conn, 'a) grpc_handler \<Rightarrow> (('d, 'e) conn, 'a server_handler) stream_handler" where
  "srv_handler hp app =
     \<lparr>OnHeaders = srv_OnHeaders hp app, OnData = srv_OnData hp app, OnRSTStream = srv_OnRSTStream\<rparr>"

section \<open>The contract of an application\<close>

text \<open>What an application may do to a call and, with it, to the connection: the parser is
  private to the package, and the exported fields are for reading.\<close>

definition call_kept :: "ServerCall \<Rightarrow> ServerCall \<Rightarrow> bool" where
  "call_kept a b =
     (sc_parser b = sc_parser a \<and> sc_StreamID b = sc_StreamID a \<and> sc_Service b = sc_Service a \<and>
      sc_Method b = sc_Method a \<and> sc_Headers b = sc_Headers a \<and> (sc_replied a \<longrightarrow> sc_replied b))"

definition app_step ::
  "('d, 'e) conn \<Rightarrow> ServerCall list \<Rightarrow> ('d, 'e) conn \<Rightarrow> ServerCall list \<Rightarrow> bool" where
  "app_step c heap c' heap' = (client_step c c' \<and> list_all2 call_kept heap heap')"

lemma call_kept_refl [simp]: "call_kept a a"
  by (simp add: call_kept_def)

lemma call_kept_trans: "call_kept a b \<Longrightarrow> call_kept b c \<Longrightarrow> call_kept a c"
  by (auto simp: call_kept_def)

lemma heap_kept_refl [simp]: "list_all2 call_kept heap heap"
  by (rule list_all2_refl) simp

lemma app_step_client: "client_step c c' \<Longrightarrow> app_step c heap c' heap"
  by (simp add: app_step_def)

lemma app_step_refl: "conn_ok c \<Longrightarrow> app_step c heap c heap"
  by (simp add: app_step_client client_step_refl)

lemma heap_kept_trans:
  "list_all2 call_kept h1 h2 \<Longrightarrow> list_all2 call_kept h2 h3 \<Longrightarrow> list_all2 call_kept h1 h3"
  by (rule list_all2_trans [OF call_kept_trans])

lemma app_step_trans:
  "app_step c heap c1 heap1 \<Longrightarrow> app_step c1 heap1 c2 heap2 \<Longrightarrow> app_step c heap c2 heap2"
  unfolding app_step_def
  by (blast intro: client_step_trans heap_kept_trans)

lemma app_step_ok: "app_step c heap c' heap' \<Longrightarrow> conn_ok c'"
  by (auto simp: app_step_def dest: client_step_keeps)

lemma app_step_heap:
  "app_step c heap c' heap' \<Longrightarrow> length heap' = length heap \<and> (r < length heap \<longrightarrow> call_kept (heap ! r) (heap' ! r))"
  by (auto simp: app_step_def list_all2_conv_all_nth)

text \<open>The replies are within the contract.\<close>

lemma Finish_step:
  assumes "conn_ok c" and "Finish hp c sc st = (c', sc', err)"
  shows "client_step c c' \<and> call_kept sc sc'"
  using assms(2)
    WriteTrailers_client [OF assms(1), of hp "sc_StreamID sc"
      "AppendStatus [] (Some (case st of None \<Rightarrow> StatusOK | Some st \<Rightarrow> st))"]
  by (auto simp: Finish_def Let_def call_kept_def split: prod.splits option.splits)

lemma ReplyError_step:
  assumes "conn_ok c" and "ReplyError hp c sc st = (c', sc', err)"
  shows "client_step c c' \<and> call_kept sc sc'"
proof -
  obtain c1 e where 1: "StartReply hp c sc = (c1, e)" by fastforce
  have "client_step c c1"
    using WriteHeaders_client [OF assms(1)] 1 by (metis StartReply_def fst_conv)
  then show ?thesis
    using assms(2) Finish_step [OF client_step_keeps] client_step_trans
    by (auto simp: ReplyError_def 1 Let_def split: option.splits; blast)
qed

lemma Reply_step:
  assumes "conn_ok c" and "\<And>m. msg = Some m \<Longrightarrow> length m < 2 ^ 31 - 5"
    and "Reply hp c sc msg st = (c', sc', err)"
  shows "client_step c c' \<and> call_kept sc sc'"
proof -
  obtain c1 e where 1: "StartReply hp c sc = (c1, e)" by fastforce
  have c1: "client_step c c1"
    using WriteHeaders_client [OF assms(1)] 1 by (metis StartReply_def fst_conv)
  let ?c2 = "case msg of None \<Rightarrow> c1 | Some m \<Rightarrow> WriteData c1 (sc_StreamID sc) (Encode_msg [] m) False"
  have "client_step c1 ?c2"
    using client_step_refl [OF client_step_keeps [OF c1]]
      WriteData_client [OF client_step_keeps [OF c1]] assms(2)
    by (auto simp: Encode_msg_def split: option.splits)
  note c2 = client_step_trans [OF c1 this]
  from c1 show ?thesis
    using assms(3) Finish_step [OF client_step_keeps [OF c2]] client_step_trans [OF c2]
    by (auto simp: Reply_def 1 Let_def split: option.splits; blast)
qed

lemma heap_update_kept: "call_kept (heap ! r) sc \<Longrightarrow> list_all2 call_kept heap (heap[r := sc])"
  by (cases "r < length heap")
    (auto simp: list_all2_conv_all_nth nth_list_update list_update_beyond)

lemma reply_error_step:
  assumes "conn_ok c" and "reply_error hp c heap r st = (c', heap')"
  shows "app_step c heap c' heap'"
  using assms ReplyError_step [OF assms(1), of hp "heap ! r" st] heap_update_kept [of heap r]
  by (auto simp: reply_error_def app_step_def client_step_refl split: option.splits if_splits prod.splits)

locale grpc_app =
  fixes hp :: "('d, 'e) hpack" and app :: "(('d, 'e) conn, 'a) grpc_handler"
  assumes OnCall_step: "conn_ok c \<Longrightarrow> OnCall app c heap a r = ((c', heap', a'), err) \<Longrightarrow> app_step c heap c' heap'"
    and OnMessage_step:
      "conn_ok c \<Longrightarrow> OnMessage app c heap a r msg = ((c', heap', a'), err) \<Longrightarrow> app_step c heap c' heap'"
    and OnEnd_step: "conn_ok c \<Longrightarrow> OnEnd app c heap a r = ((c', heap', a'), err) \<Longrightarrow> app_step c heap c' heap'"
begin

lemma end_call_step:
  assumes "conn_ok c" and "end_call hp app c s sid r = (c', s')"
  shows "app_step c (sh_heap s) c' (sh_heap s') \<and> sh_calls s' = (sh_calls s)(sid := None)"
proof -
  obtain c1 heap a err where 1: "OnEnd app c (sh_heap s) (sh_app s) r = ((c1, heap, a), err)"
    by (metis prod_cases3 surj_pair)
  note s1 = OnEnd_step [OF assms(1) 1]
  obtain c2 heap2 where 2: "reply_error hp c1 heap r (map_option StatusInternal err) = (c2, heap2)"
    by fastforce
  note s2 = app_step_trans [OF s1 reply_error_step [OF app_step_ok [OF s1] 2]]
  show ?thesis using assms(2) s2 by (auto simp: end_call_def 1 2 forget_def)
qed

lemma on_message_step:
  assumes "conn_ok c" and "on_message hp app r (c, heap, a) msg = ((c', heap', a'), err)"
  shows "app_step c heap c' heap' \<and> err = None"
proof -
  obtain c1 heap1 a1 e where 1: "OnMessage app c heap a r msg = ((c1, heap1, a1), e)"
    by (metis prod_cases3 surj_pair)
  note s1 = OnMessage_step [OF assms(1) 1]
  obtain c2 heap2 where 2: "reply_error hp c1 heap1 r (map_option StatusInternal e) = (c2, heap2)"
    by fastforce
  note s2 = app_step_trans [OF s1 reply_error_step [OF app_step_ok [OF s1] 2]]
  show ?thesis using assms(2) s2 by (simp add: on_message_def 1 2)
qed

text \<open>The messages of one DATA frame.\<close>

lemma Parse_step:
  assumes "conn_ok c"
    and "Parse_msgs p (on_message hp app r) (c, heap, a) dat = (n, err, p', (c', heap', a'))"
  shows "app_step c heap c' heap'"
proof -
  let ?keep = "\<lambda>st. app_step c heap (fst st) (fst (snd st))"
  have "?keep (snd (snd (frame_loop (split_message (mp_maxSize p)) (on_message hp app r) 0
      (c, heap, a) (mp_buf p @ dat))))"
  proof (rule gm.loop_preserves [where keep = ?keep])
    fix st u st' err
    assume k: "?keep st" and run: "on_message hp app r st u = (st', err)"
    obtain c1 h1 a1 where st: "st = (c1, h1, a1)" by (cases st) auto
    obtain c2 h2 a2 where st': "st' = (c2, h2, a2)" by (cases st') auto
    from k run show "?keep st'"
      using on_message_step [of c1 r h1 a1 u c2 h2 a2 err] app_step_trans [of c heap c1 h1]
      by (simp add: st st' app_step_ok)
  qed (simp add: app_step_refl [OF assms(1)])
  then show ?thesis
    using assms(2) by (auto simp: Parse_msgs_def feed_def Let_def split: prod.splits)
qed

text \<open>Storing the parser changes nothing else of the heap.\<close>

lemma srv_OnData_client:
  assumes "conn_ok c" and "srv_OnData hp app c s sid dat es = (c', s')"
  shows "client_step c c'"
proof (cases "sh_calls s sid")
  case None
  with assms show ?thesis by (simp add: srv_OnData_def client_step_refl)
next
  case (Some r)
  obtain n err p c1 heap a where run: "Parse_msgs (sc_parser (sh_heap s ! r)) (on_message hp app r)
      (c, sh_heap s, sh_app s) dat = (n, err, p, (c1, heap, a))"
    by (metis prod_cases6)
  note s1 = Parse_step [OF assms(1) run]
  then have c1: "client_step c c1" by (simp add: app_step_def)
  let ?heap = "heap[r := (heap ! r)\<lparr>sc_parser := p\<rparr>]"
  let ?s = "s\<lparr>sh_heap := ?heap, sh_app := a\<rparr>"
  have re: "client_step c c''" if "reply_error hp c1 ?heap r st = (c'', h'')" for st c'' h''
    using reply_error_step [OF app_step_ok [OF s1] that] client_step_trans [OF c1]
    by (simp add: app_step_def)
  have en: "client_step c c''" if "end_call hp app c1 ?s sid r = (c'', s'')" for c'' s''
    using end_call_step [OF app_step_ok [OF s1] that] client_step_trans [OF c1]
    by (simp add: app_step_def)
  show ?thesis
    using assms(2) c1
    by (auto simp: srv_OnData_def Some run Let_def split: if_splits prod.splits dest: re en)
qed

lemma srv_OnHeaders_client:
  assumes "conn_ok c" and "srv_OnHeaders hp app c s sid hdrs es = (c', s')"
  shows "client_step c c'"
proof (cases "IsGRPCContentType (last_value ''content-type'' '''' hdrs)")
  case False
  with assms(2) show ?thesis
    using WriteHeaders_client [OF assms(1)] by (auto simp: srv_OnHeaders_def)
next
  case ct: True
  obtain svc meth ok where sp: "SplitMethodPath (last_value '':path'' '''' hdrs) = (svc, meth, ok)"
    by (metis prod_cases3)
  let ?call = "\<lparr>sc_StreamID = sid, sc_Service = '''', sc_Method = '''', sc_Headers = hdrs,
      sc_parser = NewMessageParser 0, sc_replied = False\<rparr>"
  show ?thesis
  proof (cases ok)
    case False
    with assms(2) show ?thesis
      using ReplyError_step [OF assms(1), of hp ?call]
      by (auto simp: srv_OnHeaders_def ct sp; metis prod.collapse)
  next
    case True
    let ?r = "length (sh_heap s)"
    let ?heap = "sh_heap s @ [\<lparr>sc_StreamID = sid, sc_Service = svc, sc_Method = meth,
      sc_Headers = hdrs, sc_parser = NewMessageParser 0, sc_replied = False\<rparr>]"
    obtain c1 heap1 a err where 1: "OnCall app c ?heap (sh_app s) ?r = ((c1, heap1, a), err)"
      by (metis prod_cases3 surj_pair)
    note s1 = OnCall_step [OF assms(1) 1]
    obtain c2 heap2 where 2: "reply_error hp c1 heap1 ?r (map_option StatusInternal err) = (c2, heap2)"
      by fastforce
    note s2 = app_step_trans [OF s1 reply_error_step [OF app_step_ok [OF s1] 2]]
    have "client_step c2 c''" if "end_call hp app c2 s'' sid ?r = (c'', t'')" for s'' c'' t''
      using end_call_step [OF app_step_ok [OF s2] that] by (simp add: app_step_def)
    then show ?thesis
      using assms(2) s2 True client_step_trans [of c c2]
      by (auto simp: srv_OnHeaders_def ct sp 1 2 Let_def app_step_def split: if_splits)
  qed
qed

lemma srv_client:
  assumes "conn_ok c"
  shows "client_step c (fst (srv_OnHeaders hp app c s sid hdrs es))"
    and "client_step c (fst (srv_OnData hp app c s sid dat es))"
    and "client_step c (fst (srv_OnRSTStream c s sid code))"
  by (rule srv_OnHeaders_client [OF assms prod.collapse [symmetric]],
      rule srv_OnData_client [OF assms prod.collapse [symmetric]],
      simp add: srv_OnRSTStream_def client_step_refl assms)

end

text \<open>A gRPC server over an application within its contract is a stream handler within
  the contract of the HTTP/2 connection.\<close>

sublocale grpc_app \<subseteq> srv: conn_client "Some (srv_handler hp app)"
  by unfold_locales (auto simp: srv_handler_def srv_client)

section \<open>What the application is handed\<close>

text \<open>An application together with a record of the messages it was handed.\<close>

definition logged ::
  "(('d, 'e) conn, 'a) grpc_handler \<Rightarrow> (('d, 'e) conn, 'a \<times> (nat \<times> bytes) list) grpc_handler" where
  "logged app =
     \<lparr>OnCall = (\<lambda>c heap al r. case OnCall app c heap (fst al) r of
        ((c, heap, a), err) \<Rightarrow> ((c, heap, (a, snd al)), err)),
      OnMessage = (\<lambda>c heap al r msg. case OnMessage app c heap (fst al) r msg of
        ((c, heap, a), err) \<Rightarrow> ((c, heap, (a, snd al @ [(r, msg)])), err)),
      OnEnd = (\<lambda>c heap al r. case OnEnd app c heap (fst al) r of
        ((c, heap, a), err) \<Rightarrow> ((c, heap, (a, snd al)), err))\<rparr>"

definition messages_of :: "nat \<Rightarrow> (nat \<times> bytes) list \<Rightarrow> bytes list" where
  "messages_of r log = map snd (filter (\<lambda>e. fst e = r) log)"

lemma messages_of_append [simp]:
  "messages_of r (log @ map (Pair k) ms) = messages_of r log @ (if k = r then ms else [])"
  by (auto simp: messages_of_def filter_map comp_def)

lemma logged_app:
  assumes "grpc_app app"
  shows "grpc_app (logged app)"
  by unfold_locales
    (auto simp: logged_def split: prod.splits
      intro: grpc_app.OnCall_step [OF assms] grpc_app.OnMessage_step [OF assms] grpc_app.OnEnd_step [OF assms])

lemma end_call_logged:
  assumes "grpc_app app" and "conn_ok c" and "end_call hp (logged app) c s sid r = (c', s')"
  shows "snd (sh_app s') = snd (sh_app s)"
  using assms(3) by (auto simp: end_call_def logged_def forget_def split: prod.splits)

text \<open>The messages cut from one DATA frame are those the parser cuts, whatever the
  application does with them.\<close>

lemma Parse_logged:
  assumes app: "grpc_app app" and ok: "conn_ok c"
    and run: "Parse_msgs p (on_message hp (logged app) r) (c, heap, (a, log)) dat
      = (n, err, p', (c', heap', al'))"
  obtains ms where "app_step c heap c' heap'"
    and "Parse_msgs p collect [] dat = (n, err, p', ms)" and "snd al' = log @ map (Pair r) ms"
proof -
  define seen where "seen = (\<lambda>st :: ('a, 'b) conn \<times> ServerCall list \<times> 'c \<times> (nat \<times> bytes) list.
    map snd (drop (length log) (snd (snd (snd st)))))"
  define keep where "keep = (\<lambda>st :: ('a, 'b) conn \<times> ServerCall list \<times> 'c \<times> (nat \<times> bytes) list.
    conn_ok (fst st) \<and> (\<exists>ms. snd (snd (snd st)) = log @ map (Pair r) ms))"
  let ?fn = "on_message hp (logged app) r"
  have step: "keep st' \<and> err = None \<and> seen st' = seen st @ [u]"
    if k: "keep st" and fn: "?fn st u = (st', err)" for st u st' err
  proof -
    obtain c1 h1 a1 l1 where st: "st = (c1, h1, a1, l1)" by (cases st) auto
    obtain c2 h2 a2 l2 where st': "st' = (c2, h2, a2, l2)" by (cases st') auto
    obtain ms where l1: "l1 = log @ map (Pair r) ms" using k by (auto simp: keep_def st)
    have "app_step c1 h1 c2 h2 \<and> err = None"
      using grpc_app.on_message_step [OF logged_app [OF app]] k fn by (auto simp: keep_def st st')
    then have "conn_ok c2 \<and> err = None" using app_step_ok by blast
    moreover have l2: "l2 = l1 @ [(r, u)]"
      using fn by (auto simp: st st' on_message_def logged_def split: prod.splits)
    then have "l2 = log @ map (Pair r) (ms @ [u])" by (simp add: l1)
    then have "\<exists>ms. l2 = log @ map (Pair r) ms" by blast
    ultimately show ?thesis
      unfolding keep_def seen_def by (simp add: st st' l1 l2 comp_def)
  qed
  obtain k where loop: "frame_loop (split_message (mp_maxSize p)) ?fn 0 (c, heap, a, log) (mp_buf p @ dat)
      = (k, err, (c', heap', al'))"
    and p': "p' = p\<lparr>mp_buf := drop k (mp_buf p @ dat)\<rparr>" "n = length dat"
    using run by (auto simp: Parse_msgs_def feed_def Let_def split: prod.splits)
  have "keep (c, heap, a, log)" using ok by (simp add: keep_def)
  from gm.loop_sim [where keep = keep and seen = seen, OF step this loop]
  have k': "keep (c', heap', al')" and
    col: "frame_loop (split_message (mp_maxSize p)) collect 0 [] (mp_buf p @ dat)
      = (k, err, seen (c', heap', al'))"
    by (simp_all add: seen_def)
  show thesis
  proof (rule that)
    show "app_step c heap c' heap'" using grpc_app.Parse_step [OF logged_app [OF app] ok run] .
    show "Parse_msgs p collect [] dat = (n, err, p', seen (c', heap', al'))"
      by (simp add: Parse_msgs_def feed_def Let_def col p')
    show "snd al' = log @ map (Pair r) (seen (c', heap', al'))"
      using k' by (auto simp: keep_def seen_def comp_def)
  qed
qed

text \<open>A stream whose call is \<open>r\<close> and whose parser holds \<open>buf\<close>.\<close>

definition tracked :: "'a server_handler \<Rightarrow> u32 \<Rightarrow> nat \<Rightarrow> bytes \<Rightarrow> bool" where
  "tracked s sid r buf =
     (sh_calls s sid = Some r \<and> r < length (sh_heap s) \<and> (\<forall>sid'. sh_calls s sid' = Some r \<longrightarrow> sid' = sid) \<and>
      sc_parser (sh_heap s ! r) = (NewMessageParser 0)\<lparr>mp_buf := buf\<rparr>)"

lemma mp_buf_default: "mp_maxSize (NewMessageParser 0) = 4194304"
  by (simp add: NewMessageParser_def)

text \<open>DATA of the stream itself, and of another one.\<close>

lemma OnData_self:
  assumes app: "grpc_app app" and ok: "conn_ok c" and tr: "tracked s sid r buf"
    and fd: "feed (split_message 4194304) collect buf [] dat = (buf', None, ms)"
    and run: "srv_OnData hp (logged app) c s sid dat False = (c', s')"
  shows "conn_ok c' \<and> tracked s' sid r buf' \<and> snd (sh_app s') = snd (sh_app s) @ map (Pair r) ms"
proof -
  let ?p = "(NewMessageParser 0)\<lparr>mp_buf := buf\<rparr>"
  have r: "sh_calls s sid = Some r" "sc_parser (sh_heap s ! r) = ?p" "r < length (sh_heap s)"
    using tr unfolding tracked_def by blast+
  obtain a log where a: "sh_app s = (a, log)" by fastforce
  obtain n err p' c1 heap al where run1: "Parse_msgs ?p (on_message hp (logged app) r)
      (c, sh_heap s, sh_app s) dat = (n, err, p', (c1, heap, al))"
    by (metis prod_cases6)
  obtain ms' where st: "app_step c (sh_heap s) c1 heap"
    and col: "Parse_msgs ?p collect [] dat = (n, err, p', ms')" and al: "snd al = log @ map (Pair r) ms'"
    by (rule Parse_logged [OF app ok run1 [unfolded a]])
  have *: "err = None" "ms' = ms" "p' = (NewMessageParser 0)\<lparr>mp_buf := buf'\<rparr>"
    using col fd by (simp_all add: Parse_msgs_def mp_buf_default)
  have len: "length heap = length (sh_heap s)" using app_step_heap [OF st] by simp
  have "(c', s') = (c1, s\<lparr>sh_heap := heap[r := (heap ! r)\<lparr>sc_parser := p'\<rparr>], sh_app := al\<rparr>)"
    unfolding run [symmetric] srv_OnData_def r(1) option.case r(2) run1 by (simp add: *(1) Let_def)
  then have "c' = c1" and s': "s' = s\<lparr>sh_heap := heap[r := (heap ! r)\<lparr>sc_parser := p'\<rparr>], sh_app := al\<rparr>"
    by simp_all
  moreover have "tracked s' sid r buf'"
    using tr r(3) len unfolding tracked_def s' by (simp add: *(3))
  ultimately show ?thesis
    using app_step_ok [OF st] by (simp add: *(2) al a)
qed

lemma heap_other:
  "app_step c heap c' heap' \<Longrightarrow> r < length heap \<Longrightarrow>
   length heap' = length heap \<and> sc_parser (heap' ! r) = sc_parser (heap ! r)"
  using app_step_heap [of c heap c' heap' r] by (simp add: call_kept_def)

lemma OnData_other:
  assumes app: "grpc_app app" and ok: "conn_ok c" and tr: "tracked s sid r buf" and "sid' \<noteq> sid"
    and run: "srv_OnData hp (logged app) c s sid' dat es = (c', s')"
  shows "conn_ok c' \<and> tracked s' sid r buf \<and> messages_of r (snd (sh_app s')) = messages_of r (snd (sh_app s))"
proof (cases "sh_calls s sid'")
  case None
  with run ok tr show ?thesis by (simp add: srv_OnData_def)
next
  case (Some k)
  have k: "k \<noteq> r" and r: "r < length (sh_heap s)" using tr Some \<open>sid' \<noteq> sid\<close> by (auto simp: tracked_def)
  obtain a log where a: "sh_app s = (a, log)" by fastforce
  obtain n err p' c1 heap al where run1: "Parse_msgs (sc_parser (sh_heap s ! k)) (on_message hp (logged app) k)
      (c, sh_heap s, sh_app s) dat = (n, err, p', (c1, heap, al))"
    by (metis prod_cases6)
  obtain ms where st: "app_step c (sh_heap s) c1 heap" and al: "snd al = log @ map (Pair k) ms"
    by (rule Parse_logged [OF app ok run1 [unfolded a]])
  let ?heap = "heap[k := (heap ! k)\<lparr>sc_parser := p'\<rparr>]"
  let ?s = "s\<lparr>sh_heap := ?heap, sh_app := al\<rparr>"
  note ok1 = app_step_ok [OF st]
  have h: "length ?heap = length (sh_heap s)" "sc_parser (?heap ! r) = sc_parser (sh_heap s ! r)"
    using heap_other [OF st r] k by simp_all
  have tr1: "tracked ?s sid r buf" using tr h k by (simp add: tracked_def)
  have msgs: "messages_of r (snd al) = messages_of r log" using k by (simp add: al)
  consider (error) e where "err = Some e" "\<not> sc_replied (?heap ! k)" | (ending) "es" "err = None \<or> sc_replied (?heap ! k)"
    | (more) "\<not> es" "err = None \<or> sc_replied (?heap ! k)"
    by (cases err; cases es; cases "sc_replied (?heap ! k)") simp_all
  then show ?thesis
  proof cases
    case error
    obtain c2 heap2 where re: "reply_error hp c1 ?heap k (Some (StatusInvalidArgument (err_text e))) = (c2, heap2)"
      by fastforce
    note st2 = reply_error_step [OF ok1 re]
    have "c' = c2" "s' = forget (?s\<lparr>sh_heap := heap2\<rparr>) sid'"
      using run by (simp_all add: srv_OnData_def Some run1 Let_def error re)
    then show ?thesis
      using tr1 app_step_ok [OF st2] heap_other [OF st2, of r] h(1) r msgs \<open>sid' \<noteq> sid\<close>
      by (auto simp: tracked_def forget_def a split: if_splits)
  next
    case ending
    then have en: "end_call hp (logged app) c1 ?s sid' k = (c', s')"
      using run by (auto simp: srv_OnData_def Some run1 Let_def)
    have st2: "app_step c1 ?heap c' (sh_heap s')" "sh_calls s' = (sh_calls s)(sid' := None)"
      using grpc_app.end_call_step [OF logged_app [OF app] ok1 en] by simp_all
    have "snd (sh_app s') = snd al" using end_call_logged [OF app ok1 en] by simp
    then show ?thesis
      using tr1 app_step_ok [OF st2(1)] heap_other [OF st2(1), of r] h(1) r msgs \<open>sid' \<noteq> sid\<close>
      by (auto simp: tracked_def st2(2) a split: if_splits)
  next
    case more
    then have "c' = c1" "s' = ?s" using run by (auto simp: srv_OnData_def Some run1 Let_def)
    then show ?thesis using tr1 ok1 msgs by (simp add: a)
  qed
qed

text \<open>The DATA events of a connection, of whatever streams, in the order they arrive.\<close>

fun srv_data ::
  "('d, 'e) hpack \<Rightarrow> (('d, 'e) conn, 'a) grpc_handler \<Rightarrow> ('d, 'e) conn \<times> 'a server_handler
   \<Rightarrow> (u32 \<times> bytes \<times> bool) list \<Rightarrow> ('d, 'e) conn \<times> 'a server_handler" where
  "srv_data hp app st [] = st"
| "srv_data hp app st ((sid, dat, es) # evs) =
     srv_data hp app (srv_OnData hp app (fst st) (snd st) sid dat es) evs"

definition chunks_of :: "u32 \<Rightarrow> (u32 \<times> bytes \<times> bool) list \<Rightarrow> bytes list" where
  "chunks_of sid evs = map (\<lambda>e. fst (snd e)) (filter (\<lambda>e. fst e = sid) evs)"

lemma srv_data_tracked:
  assumes app: "grpc_app app"
  shows "conn_ok c \<Longrightarrow> tracked s sid r buf \<Longrightarrow> list_all (\<lambda>e. fst e = sid \<longrightarrow> \<not> snd (snd e)) evs \<Longrightarrow>
    feed_chunks (split_message 4194304) collect buf us (chunks_of sid evs) = (buf', None, vs) \<Longrightarrow>
    srv_data hp (logged app) (c, s) evs = (c', s') \<Longrightarrow>
    \<exists>ms. vs = us @ ms \<and> tracked s' sid r buf' \<and>
      messages_of r (snd (sh_app s')) = messages_of r (snd (sh_app s)) @ ms"
proof (induction evs arbitrary: c s buf us)
  case Nil
  then show ?case by (simp add: chunks_of_def)
next
  case (Cons ev evs)
  obtain sid' dat es where ev: "ev = (sid', dat, es)" by (cases ev) auto
  obtain c1 s1 where run: "srv_OnData hp (logged app) c s sid' dat es = (c1, s1)" by fastforce
  have rest: "srv_data hp (logged app) (c1, s1) evs = (c', s')" using Cons.prems(5) by (simp add: ev run)
  have evs: "list_all (\<lambda>e. fst e = sid \<longrightarrow> \<not> snd (snd e)) evs" using Cons.prems(3) by simp
  show ?case
  proof (cases "sid' = sid")
    case False
    note o = OnData_other [OF app Cons.prems(1,2) False run]
    have "feed_chunks (split_message 4194304) collect buf us (chunks_of sid evs) = (buf', None, vs)"
      using Cons.prems(4) False by (simp add: ev chunks_of_def)
    from Cons.IH [OF _ _ evs this rest] o show ?thesis by simp
  next
    case True
    then have run': "srv_OnData hp (logged app) c s sid dat False = (c1, s1)"
      using run Cons.prems(3) by (simp add: ev)
    obtain b1 e1 ms1 where f: "feed (split_message 4194304) collect buf [] dat = (b1, e1, ms1)"
      by (metis prod_cases3)
    from gm.feed_collect [OF this, of us] have f': "feed (split_message 4194304) collect buf us dat = (b1, e1, us @ ms1)" .
    have e1: "e1 = None" and tl: "feed_chunks (split_message 4194304) collect b1 (us @ ms1) (chunks_of sid evs) = (buf', None, vs)"
      using Cons.prems(4) True by (auto simp: ev chunks_of_def f' split: option.splits)
    note o = OnData_self [OF app Cons.prems(1,2) f [unfolded e1] run']
    from Cons.IH [OF _ _ evs tl rest] o obtain ms where "vs = (us @ ms1) @ ms" "tracked s' sid r buf'"
      "messages_of r (snd (sh_app s')) = messages_of r (snd (sh_app s1)) @ ms" by blast
    with o show ?thesis by simp
  qed
qed

section \<open>Calls being opened\<close>

lemma call_registered:
  assumes app: "grpc_app app" and ok: "conn_ok c"
    and ct: "IsGRPCContentType (last_value ''content-type'' '''' hdrs)"
    and sp: "SplitMethodPath (last_value '':path'' '''' hdrs) = (svc, meth, True)"
    and run: "srv_OnHeaders hp app c s sid hdrs False = (c', s')"
  shows "conn_ok c' \<and> sh_calls s' = (sh_calls s)(sid \<mapsto> length (sh_heap s)) \<and>
    length (sh_heap s') = length (sh_heap s) + 1 \<and>
    (let call = sh_heap s' ! length (sh_heap s) in
       sc_StreamID call = sid \<and> sc_Service call = svc \<and> sc_Method call = meth \<and>
       sc_Headers call = hdrs \<and> sc_parser call = NewMessageParser 0)"
proof -
  let ?r = "length (sh_heap s)"
  let ?call = "\<lparr>sc_StreamID = sid, sc_Service = svc, sc_Method = meth,
      sc_Headers = hdrs, sc_parser = NewMessageParser 0, sc_replied = False\<rparr>"
  obtain c1 heap1 a err where 1: "OnCall app c (sh_heap s @ [?call]) (sh_app s) ?r = ((c1, heap1, a), err)"
    by (metis prod_cases3 surj_pair)
  note s1 = grpc_app.OnCall_step [OF app ok 1]
  obtain c2 heap2 where 2: "reply_error hp c1 heap1 ?r (map_option StatusInternal err) = (c2, heap2)"
    by fastforce
  note s2 = app_step_trans [OF s1 reply_error_step [OF app_step_ok [OF s1] 2]]
  have "c' = c2" "sh_heap s' = heap2" "sh_calls s' = (sh_calls s)(sid \<mapsto> ?r)"
    using run by (auto simp: srv_OnHeaders_def ct sp 1 2 Let_def)
  then show ?thesis
    using app_step_heap [OF s2, of ?r] app_step_ok [OF s2] by (simp add: call_kept_def Let_def)
qed

lemma call_refused:
  assumes "\<not> (IsGRPCContentType (last_value ''content-type'' '''' hdrs)
      \<and> snd (snd (SplitMethodPath (last_value '':path'' '''' hdrs))))"
  shows "snd (srv_OnHeaders hp app c s sid hdrs es) = s"
  using assms
  by (cases "SplitMethodPath (last_value '':path'' '''' hdrs)")
    (auto simp: srv_OnHeaders_def Let_def)

lemma last_value_other: "list_all (\<lambda>f. Name f \<noteq> n) fs \<Longrightarrow> last_value n v fs = v"
  by (induction fs arbitrary: v) simp_all

lemma extra_okD:
  assumes "extra_ok extra"
  shows "last_value '':path'' v extra = v" and "last_value ''content-type'' v extra = v"
proof -
  have "Name f \<noteq> '':path'' \<and> Name f \<noteq> ''content-type''" if "f \<in> set extra" for f
    using assms that by (cases f) (auto simp: extra_ok_def list_all_iff is_pseudo_def)
  then show "last_value '':path'' v extra = v" "last_value ''content-type'' v extra = v"
    by (simp_all add: last_value_other list_all_iff)
qed

section \<open>An application\<close>

text \<open>The unary echo service: the first message is answered with \<open>echo: \<close> and the message,
  an empty request with \<open>echo: \<close>; a message over 4 MB is an error.\<close>

definition echo_reply ::
  "('d, 'e) hpack \<Rightarrow> ('d, 'e) conn \<Rightarrow> ServerCall list \<Rightarrow> 'a \<Rightarrow> nat \<Rightarrow> bytes
   \<Rightarrow> (('d, 'e) conn \<times> ServerCall list \<times> 'a) \<times> string option" where
  "echo_reply hp c heap a r msg =
     (if Replied (heap ! r) then ((c, heap, a), None)
      else if length msg > 4194304 then ((c, heap, a), Some ''message too large'')
      else case Reply hp c (heap ! r) (Some (bytes_of_string ''echo: '' @ msg)) (Some StatusOK) of
          (c, sc, err) \<Rightarrow> ((c, heap[r := sc], a), map_option err_Error err))"

definition echo_app :: "('d, 'e) hpack \<Rightarrow> (('d, 'e) conn, 'a) grpc_handler" where
  "echo_app hp =
     \<lparr>OnCall = (\<lambda>c heap a r. ((c, heap, a), None)),
      OnMessage = echo_reply hp,
      OnEnd = (\<lambda>c heap a r. echo_reply hp c heap a r [])\<rparr>"

lemma echo_reply_step:
  assumes "conn_ok c" and "echo_reply hp c heap a r msg = ((c', heap', a'), err)"
  shows "app_step c heap c' heap'"
proof -
  obtain c1 sc e where 1: "Reply hp c (heap ! r) (Some (bytes_of_string ''echo: '' @ msg)) (Some StatusOK) = (c1, sc, e)"
    by (metis prod_cases3)
  have "length msg \<le> 4194304 \<Longrightarrow> client_step c c1 \<and> call_kept (heap ! r) sc"
    by (rule Reply_step [OF assms(1) _ 1]) auto
  then show ?thesis
    using assms(2) app_step_refl [OF assms(1), of heap] heap_update_kept [of heap r sc]
    by (auto simp: echo_reply_def 1 app_step_def split: if_splits)
qed

interpretation echo: grpc_app hp "echo_app hp" for hp
  by unfold_locales (auto simp: echo_app_def intro: echo_reply_step app_step_refl)

section \<open>Replies on the wire\<close>

lemma stream_same:
  "c_outBuf (fst (stream c sid)) = c_outBuf c" "c_encoder (fst (stream c sid)) = c_encoder c"
  "c_peerMaxFrameSize (fst (stream c sid)) = c_peerMaxFrameSize c"
  "c_sendWindow (fst (stream c sid)) = c_sendWindow c"
  "c_nextStreamID (fst (stream c sid)) = c_nextStreamID c"
  by (simp_all add: stream_def Let_def split: option.split)

lemma writeFrame_same:
  "c_outBuf (writeFrame c b) = c_outBuf c @ b" "c_encoder (writeFrame c b) = c_encoder c"
  "c_peerMaxFrameSize (writeFrame c b) = c_peerMaxFrameSize c"
  "c_sendWindow (writeFrame c b) = c_sendWindow c" "c_nextStreamID (writeFrame c b) = c_nextStreamID c"
  by (simp_all add: writeFrame_def)

lemma WriteHeaders_out:
  assumes "conn_ok c" and "Encode hp (c_encoder c) flds = (e, Inr block)"
  obtains fs where "WriteHeaders hp c sid flds es =
      (writeFrame (fst (stream (c\<lparr>c_encoder := e\<rparr>) sid)) (concat (map enc_frame fs)), None)"
    and "header_run sid (unat (c_peerMaxFrameSize c)) fs block es"
proof -
  let ?c = "fst (stream (c\<lparr>c_encoder := e\<rparr>) sid)"
  have "conn_ok ?c" using assms(1) by (simp add: stream_keeps encoder_keeps)
  from writeHeaderBlock_run [OF this, of sid block es] obtain fs
    where "writeHeaderBlock ?c sid block es = writeFrame ?c (concat (map enc_frame fs))"
      and "header_run sid (unat (c_peerMaxFrameSize ?c)) fs block es" by blast
  then show thesis
    by (intro that [of fs]) (simp_all add: WriteHeaders_def assms(2) Let_def stream_same)
qed

lemma WriteTrailers_out:
  assumes "conn_ok c" and "Encode hp (c_encoder c) flds = (e, Inr block)"
  obtains fs where "WriteTrailers hp c sid flds =
      (writeFrame (c\<lparr>c_encoder := e\<rparr>) (concat (map enc_frame fs)), None)"
    and "header_run sid (unat (c_peerMaxFrameSize c)) fs block True"
proof -
  let ?c = "c\<lparr>c_encoder := e\<rparr>"
  have "conn_ok ?c" using assms(1) by (simp add: encoder_keeps)
  from writeHeaderBlock_run [OF this, of sid block True] obtain fs
    where "writeHeaderBlock ?c sid block True = writeFrame ?c (concat (map enc_frame fs))"
      and "header_run sid (unat (c_peerMaxFrameSize ?c)) fs block True" by blast
  then show thesis
    by (intro that [of fs]) (simp_all add: WriteTrailers_def assms(2) Let_def writeHeaderBlock_def split: if_splits)
qed

lemma WriteData_one:
  assumes "length dat \<le> unat (c_peerMaxFrameSize c)" and "int (length dat) \<le> c_sendWindow c" and "conn_ok c"
  shows "WriteData c sid dat es = writeFrame c (enc_frame (data_frame sid dat es))"
proof -
  have "int (length dat) < 2 ^ 31" using assms(2) conn_okD(2) [OF assms(3)] by linarith
  then have "length dat < 2 ^ 31" by simp
  with assms show ?thesis by (simp add: WriteData_def writeDataLocked_def wrap32_nat AppendData_enc)
qed

section \<open>Properties\<close>


text \<open>Two calls, whose DATA frames arrive interleaved.\<close>

definition two_calls :: "(unit \<times> (nat \<times> bytes) list) server_handler" where
  "two_calls = \<lparr>sh_calls = (\<lambda>_. None)(1 \<mapsto> 0, 3 \<mapsto> 1),
     sh_heap = [\<lparr>sc_StreamID = 1, sc_Service = ''s'', sc_Method = ''m'', sc_Headers = [],
        sc_parser = NewMessageParser 0, sc_replied = False\<rparr>,
       \<lparr>sc_StreamID = 3, sc_Service = ''s'', sc_Method = ''m'', sc_Headers = [],
        sc_parser = NewMessageParser 0, sc_replied = False\<rparr>],
     sh_app = ((), [])\<rparr>"


text \<open>A call is opened by exactly the HEADERS whose content type has the gRPC prefix and
  whose path is a method path: then the stream is bound to a new call with the service
  and the method of the path and a fresh message parser; otherwise the table of calls
  stays as it is and the application is not involved.\<close>

theorem OnHeaders_opens_call:
  assumes "grpc_app app" and "conn_ok c" and "srv_OnHeaders hp app c s sid hdrs False = (c', s')"
  shows "if IsGRPCContentType (last_value ''content-type'' '''' hdrs) \<and>
       (\<exists>svc meth. last_value '':path'' '''' hdrs = MethodPath svc meth
          \<and> svc \<noteq> '''' \<and> CHR ''/'' \<notin> set svc \<and> meth \<noteq> '''')
     then conn_ok c' \<and> sh_calls s' = (sh_calls s)(sid \<mapsto> length (sh_heap s)) \<and>
       (let call = sh_heap s' ! length (sh_heap s) in
          sc_StreamID call = sid \<and> MethodPath (sc_Service call) (sc_Method call) = last_value '':path'' '''' hdrs
          \<and> CHR ''/'' \<notin> set (sc_Service call) \<and> sc_parser call = NewMessageParser 0)
     else s' = s"
proof -
  obtain svc meth ok where sp: "SplitMethodPath (last_value '':path'' '''' hdrs) = (svc, meth, ok)"
    by (metis prod_cases3)
  have iff: "ok = (\<exists>svc meth. last_value '':path'' '''' hdrs = MethodPath svc meth
      \<and> svc \<noteq> '''' \<and> CHR ''/'' \<notin> set svc \<and> meth \<noteq> '''')"
  proof
    assume ok
    then have "SplitMethodPath (last_value '':path'' '''' hdrs) = (svc, meth, True)" using sp by simp
    from SplitMethodPath_True [OF this] show "\<exists>svc meth. last_value '':path'' '''' hdrs = MethodPath svc meth
        \<and> svc \<noteq> '''' \<and> CHR ''/'' \<notin> set svc \<and> meth \<noteq> ''''"
      by blast
  next
    assume "\<exists>svc meth. last_value '':path'' '''' hdrs = MethodPath svc meth
        \<and> svc \<noteq> '''' \<and> CHR ''/'' \<notin> set svc \<and> meth \<noteq> ''''"
    then show ok using SplitMethodPath_MethodPath sp by (metis prod.inject)
  qed
  show ?thesis
  proof (cases "IsGRPCContentType (last_value ''content-type'' '''' hdrs) \<and> ok")
    case True
    then have t: "SplitMethodPath (last_value '':path'' '''' hdrs) = (svc, meth, True)" using sp by simp
    from True iff show ?thesis
      using call_registered [OF assms(1,2) _ t assms(3)] SplitMethodPath_True [OF t]
      by (simp add: Let_def)
  next
    case False
    then have "s' = s" using call_refused [of hdrs hp app c s sid False] sp assms(3) by simp
    with False iff show ?thesis by presburger
  qed
qed

text \<open>C35. What the client sends, the server takes: the headers \<open>RequestHeaders\<close> builds for a
  service without a slash and a method, with whatever well-formed fields the
  application adds, are a valid HTTP/2 request, and the handler opens a call with that
  service and that method.\<close>

theorem request_opens_call:
  assumes "svc \<noteq> ''''" and "CHR ''/'' \<notin> set svc" and "meth \<noteq> ''''" and "extra_ok extra"
    and "grpc_app app" and "conn_ok c"
    and "srv_OnHeaders hp app c s sid (RequestHeaders svc meth extra) False = (c', s')"
  shows "snd (validateRequestHeaders (RequestHeaders svc meth extra)) = '''' \<and>
    sh_calls s' sid = Some (length (sh_heap s)) \<and>
    (let call = sh_heap s' ! length (sh_heap s) in
       sc_StreamID call = sid \<and> sc_Service call = svc \<and> sc_Method call = meth
       \<and> sc_Headers call = RequestHeaders svc meth extra)"
proof -
  have lv: "last_value '':path'' '''' (RequestHeaders svc meth extra) = MethodPath svc meth"
    "last_value ''content-type'' '''' (RequestHeaders svc meth extra) = ContentType"
    using extra_okD [OF assms(4)] by (simp_all add: RequestHeaders_def)
  then have reg: "sh_calls s' = (sh_calls s)(sid \<mapsto> length (sh_heap s))"
    "let call = sh_heap s' ! length (sh_heap s) in
       sc_StreamID call = sid \<and> sc_Service call = svc \<and> sc_Method call = meth
       \<and> sc_Headers call = RequestHeaders svc meth extra"
    using call_registered [OF assms(5,6) _ _ assms(7), of svc meth] SplitMethodPath_MethodPath [OF assms(1-3)]
    by (simp_all add: IsGRPCContentType_def Let_def)
  have "request_ok (RequestHeaders svc meth extra)"
    using assms(4) by (rule request_headers_ok)
  with reg show ?thesis by (simp add: validate_iff)
qed

lemma request_opens_call_witness:
  "let hdrs = RequestHeaders ''pkg.Greeter'' ''Hello'' [\<lparr>Name = ''x-id'', Value = ''1''\<rparr>];
       s' = snd (srv_OnHeaders plain_hpack (echo_app plain_hpack) (NewConn plain_hpack False)
              (NewServerHandler ()) 1 hdrs False)
   in snd (validateRequestHeaders hdrs) = '''' \<and> sh_calls s' 1 = Some 0 \<and>
     (let call = sh_heap s' ! 0 in
        sc_StreamID call = 1 \<and> sc_Service call = ''pkg.Greeter'' \<and> sc_Method call = ''Hello''
        \<and> sc_Headers call = hdrs)"
proof -
  have "extra_ok [\<lparr>Name = ''x-id'', Value = ''1''\<rparr>]"
    by (simp add: extra_ok_def field_ok_def is_pseudo_def is_upper_def connection_specific_def)
  from request_opens_call [OF _ _ _ this echo.grpc_app_axioms [of plain_hpack]
      NewConn_ok [of plain_hpack False] prod.collapse [symmetric],
      where svc = "''pkg.Greeter''" and meth = "''Hello''" and hp = plain_hpack
        and s = "NewServerHandler ()" and sid = 1]
  show ?thesis by (simp add: Let_def NewServerHandler_def)
qed

lemma OnHeaders_opens_call_witness:
  "let (c', s') = srv_OnHeaders plain_hpack (echo_app plain_hpack) (NewConn plain_hpack False)
       (NewServerHandler ()) 1 [\<lparr>Name = '':path'', Value = ''/s''\<rparr>] False
   in s' = NewServerHandler ()"
  using OnHeaders_opens_call [OF echo.grpc_app_axioms [of plain_hpack] NewConn_ok [of plain_hpack False]
      prod.collapse [symmetric], where hp = plain_hpack and s = "NewServerHandler ()" and sid = 1
        and hdrs = "[\<lparr>Name = '':path'', Value = ''/s''\<rparr>]"]
  by (simp add: IsGRPCContentType_def case_prod_beta)

text \<open>A reply is, on the wire: the response headers, one DATA frame with the length-prefixed
  message and without END_STREAM, and the trailer with the status and END_STREAM,
  all on the stream of the call, directly behind what was already in the buffer; each
  header block is HPACK-coded in this order and cut to the peer's frame size, and the
  call counts as replied.\<close>

theorem Reply_frames:
  assumes "conn_ok c" and "Encode hp (c_encoder c) (ResponseHeaders []) = (e1, Inr b1)"
    and "Encode hp e1 (AppendStatus [] (Some st)) = (e2, Inr b2)"
    and "length msg + 5 \<le> unat (c_peerMaxFrameSize c)" and "int (length msg + 5) \<le> c_sendWindow c"
  shows "case Reply hp c sc (Some msg) (Some st) of (c', sc', err) \<Rightarrow>
    err = None \<and> sc' = sc\<lparr>sc_replied := True\<rparr> \<and> conn_ok c' \<and>
    (\<exists>hs ts. c_outBuf c' = c_outBuf c
        @ concat (map enc_frame (hs @ [data_frame (sc_StreamID sc) (Encode_msg [] msg) False] @ ts))
      \<and> header_run (sc_StreamID sc) (unat (c_peerMaxFrameSize c)) hs b1 False
      \<and> header_run (sc_StreamID sc) (unat (c_peerMaxFrameSize c)) ts b2 True)"
proof -
  let ?sid = "sc_StreamID sc" and ?mx = "unat (c_peerMaxFrameSize c)"
  obtain hs where h: "WriteHeaders hp c ?sid (ResponseHeaders []) False =
      (writeFrame (fst (stream (c\<lparr>c_encoder := e1\<rparr>) ?sid)) (concat (map enc_frame hs)), None)"
    and hs: "header_run ?sid ?mx hs b1 False"
    by (rule WriteHeaders_out [OF assms(1,2)])
  let ?c1 = "writeFrame (fst (stream (c\<lparr>c_encoder := e1\<rparr>) ?sid)) (concat (map enc_frame hs))"
  have ok1: "conn_ok ?c1" using client_step_keeps [OF WriteHeaders_client [OF assms(1)]] h by (metis fst_conv)
  have len: "length (Encode_msg [] msg) = length msg + 5" by (simp add: Encode_msg_def)
  have d: "WriteData ?c1 ?sid (Encode_msg [] msg) False =
      writeFrame ?c1 (enc_frame (data_frame ?sid (Encode_msg [] msg) False))"
    using assms(4,5) by (intro WriteData_one ok1) (simp_all add: len writeFrame_same stream_same)
  let ?c2 = "writeFrame ?c1 (enc_frame (data_frame ?sid (Encode_msg [] msg) False))"
  have ok2: "conn_ok ?c2" using ok1 by (simp add: writeFrame_keeps)
  have enc: "Encode hp (c_encoder ?c2) (AppendStatus [] (Some st)) = (e2, Inr b2)"
    using assms(3) by (simp add: writeFrame_same stream_same)
  have mx: "unat (c_peerMaxFrameSize ?c2) = ?mx" by (simp add: writeFrame_same stream_same)
  obtain ts where t: "WriteTrailers hp ?c2 ?sid (AppendStatus [] (Some st)) =
      (writeFrame (?c2\<lparr>c_encoder := e2\<rparr>) (concat (map enc_frame ts)), None)"
    and ts: "header_run ?sid ?mx ts b2 True"
    using WriteTrailers_out [OF ok2 enc] unfolding mx by blast
  have reply: "Reply hp c sc (Some msg) (Some st) =
      (writeFrame (?c2\<lparr>c_encoder := e2\<rparr>) (concat (map enc_frame ts)), sc\<lparr>sc_replied := True\<rparr>, None)"
    by (simp add: Reply_def StartReply_def h d Finish_def t)
  have "conn_ok (writeFrame (?c2\<lparr>c_encoder := e2\<rparr>) (concat (map enc_frame ts)))"
    using ok2 by (simp add: writeFrame_keeps encoder_keeps)
  then show ?thesis
    unfolding reply using hs ts by (auto simp: writeFrame_same stream_same)
qed

lemma Reply_frames_witness:
  "case Reply plain_hpack (NewConn plain_hpack False) (hd (sh_heap two_calls)) (Some [7]) (Some StatusOK) of
     (c', sc', err) \<Rightarrow>
    err = None \<and> sc' = (hd (sh_heap two_calls))\<lparr>sc_replied := True\<rparr> \<and> conn_ok c' \<and>
    (\<exists>hs ts. c_outBuf c' = c_outBuf (NewConn plain_hpack False)
        @ concat (map enc_frame (hs @ [data_frame (sc_StreamID (hd (sh_heap two_calls))) (Encode_msg [] [7]) False] @ ts))
      \<and> header_run (sc_StreamID (hd (sh_heap two_calls)))
          (unat (c_peerMaxFrameSize (NewConn plain_hpack False))) hs [] False
      \<and> header_run (sc_StreamID (hd (sh_heap two_calls)))
          (unat (c_peerMaxFrameSize (NewConn plain_hpack False))) ts [] True)"
  by (rule Reply_frames [OF NewConn_ok])
    (simp_all add: NewConn_def plain_hpack_def Encode_def ResponseHeaders_def AppendStatus_def StatusOK_def)

end
