(* ===== verification/Http1_Request.thy ===== *)
theory Http1_Request
  imports Prelude "HOL-Library.AList"
begin

text \<open>
  HTTP/1.1 requests, \<^verbatim>\<open>http/request.go\<close> and \<^verbatim>\<open>http/parser.go\<close>: a \<^verbatim>\<open>Request\<close> is put together
  from the callbacks of the third-party \<^verbatim>\<open>httparser\<close>, and the \<^verbatim>\<open>Parser\<close> around it stops at the
  end of the first message of a buffer.

  \<^verbatim>\<open>httparser\<close> is the record \<open>httparser\<close> of functions over its state. Its callbacks return
  nothing, so a call of \<open>Execute\<close> is modelled by the list of the callbacks it makes, in
  order, with the fields of the parser a callback reads. A Go map is an association list
  with distinct keys; the order in which \<^verbatim>\<open>range\<close> visits it is the argument \<open>rng\<close>.
\<close>

section \<open>Requests\<close>

record request =
  rq_Method :: string
  rq_Target :: string
  rq_Proto :: string
  rq_Header :: "(string \<times> string) list"
  rq_Body :: bytes
  rq_ContentLength :: int

type_synonym 'v range_order = "(string \<times> 'v) list \<Rightarrow> (string \<times> 'v) list"

text \<open>\<open>equalFold\<close>: ASCII upper case letters count as lower case ones.\<close>

definition fold_char :: "char \<Rightarrow> char" where
  "fold_char c = (let n = of_char c :: nat in if 65 \<le> n \<and> n \<le> 90 then char_of (n + 32) else c)"

fun equalFold_loop :: "string \<Rightarrow> string \<Rightarrow> bool" where
  "equalFold_loop (a # as) (b # bs) = (if fold_char a \<noteq> fold_char b then False else equalFold_loop as bs)"
| "equalFold_loop _ _ = True"

definition equalFold :: "string \<Rightarrow> string \<Rightarrow> bool" where
  "equalFold a b = (if length a \<noteq> length b then False else equalFold_loop a b)"

definition Get :: "string range_order \<Rightarrow> request \<Rightarrow> string \<Rightarrow> string \<times> bool" where
  "Get rng r name =
     (case find (\<lambda>(k, v). equalFold k name) (rng (rq_Header r)) of
        Some (k, v) \<Rightarrow> (v, True)
      | None \<Rightarrow> ('''', False))"

section \<open>The callbacks\<close>

datatype http_event =
    EvURL bytes
  | EvHeaderField bytes
  | EvHeaderValue bytes
  | EvHeadersComplete string nat nat
  | EvBody bytes
  | EvMessageComplete int bool

record 'p httparser =
  hp_New :: 'p
  hp_SetMaxHeaderSize :: "'p \<Rightarrow> int \<Rightarrow> 'p"
  hp_Reset :: "'p \<Rightarrow> 'p"
  hp_Execute :: "'p \<Rightarrow> bytes \<Rightarrow> 'p \<times> http_event list \<times> nat \<times> string option"

record 'p http_parser =
  pr_p :: 'p
  pr_req :: request
  pr_curField :: bytes
  pr_done :: bool
  pr_endOffset :: int
  pr_upgrade :: bool
  pr_maxHeaderSize :: int

definition blank_request :: request where
  "blank_request = \<lparr>rq_Method = '''', rq_Target = '''', rq_Proto = '''', rq_Header = [], rq_Body = [],
     rq_ContentLength = -1\<rparr>"

text \<open>The closures of \<open>setting\<close>. Once the message is done, nothing is recorded any more.\<close>

definition on_header_value :: "'p http_parser \<Rightarrow> bytes \<Rightarrow> 'p http_parser" where
  "on_header_value p buf =
     (let name = string_of_bytes (pr_curField p); r = pr_req p in
      if name = '''' then p
      else case map_of (rq_Header r) name of
          Some lst \<Rightarrow> p\<lparr>pr_req := r\<lparr>rq_Header := AList.update name (lst @ '', '' @ string_of_bytes buf) (rq_Header r)\<rparr>\<rparr>
        | None \<Rightarrow> p\<lparr>pr_req := r\<lparr>rq_Header := AList.update name (string_of_bytes buf) (rq_Header r)\<rparr>\<rparr>)"

definition on_headers_complete ::
  "string range_order \<Rightarrow> 'p http_parser \<Rightarrow> string \<Rightarrow> nat \<Rightarrow> nat \<Rightarrow> 'p http_parser" where
  "on_headers_complete rng p meth major minor =
     (let r = (pr_req p)\<lparr>rq_Proto := ''HTTP/'' @ itoa major @ ''.'' @ itoa minor, rq_Method := meth\<rparr> in
      case Get rng r ''Content-Length'' of
        (cl, True) \<Rightarrow>
          (case ParseInt64 cl of
             Some n \<Rightarrow> p\<lparr>pr_req := r\<lparr>rq_ContentLength := n\<rparr>\<rparr>
           | None \<Rightarrow> p\<lparr>pr_req := r\<rparr>)
      | _ \<Rightarrow> p\<lparr>pr_req := r\<rparr>)"

definition on_http_event :: "string range_order \<Rightarrow> http_event \<Rightarrow> 'p http_parser \<Rightarrow> 'p http_parser" where
  "on_http_event rng ev p =
     (if pr_done p then p
      else case ev of
          EvURL buf \<Rightarrow> p\<lparr>pr_req := (pr_req p)\<lparr>rq_Target := rq_Target (pr_req p) @ string_of_bytes buf\<rparr>\<rparr>
        | EvHeaderField buf \<Rightarrow> p\<lparr>pr_curField := buf\<rparr>
        | EvHeaderValue buf \<Rightarrow> on_header_value p buf
        | EvHeadersComplete meth major minor \<Rightarrow> on_headers_complete rng p meth major minor
        | EvBody buf \<Rightarrow> p\<lparr>pr_req := (pr_req p)\<lparr>rq_Body := rq_Body (pr_req p) @ buf\<rparr>\<rparr>
        | EvMessageComplete offset upgrade \<Rightarrow>
            (let p = p\<lparr>pr_done := True, pr_endOffset := offset\<rparr>
             in if upgrade then p\<lparr>pr_upgrade := True\<rparr> else p))"

section \<open>The parser\<close>

datatype http_err = ErrHeaderTooLarge | ErrBadMessage | BadMessage string | ErrNoUpgrade

definition DefaultMaxHeaderSize :: int where
  "DefaultMaxHeaderSize = 8 * 1024"

definition NewParser :: "'p httparser \<Rightarrow> int \<Rightarrow> 'p http_parser" where
  "NewParser lib maxHeaderSize =
     (let mx = (if maxHeaderSize \<le> 0 then DefaultMaxHeaderSize else maxHeaderSize) in
      \<lparr>pr_p = hp_SetMaxHeaderSize lib (hp_New lib) mx, pr_req = blank_request, pr_curField = [],
       pr_done = False, pr_endOffset = 0, pr_upgrade = False, pr_maxHeaderSize = mx\<rparr>)"

definition Parse_http ::
  "'p httparser \<Rightarrow> string range_order \<Rightarrow> 'p http_parser \<Rightarrow> bytes \<Rightarrow> 'p http_parser \<times> int \<times> http_err option" where
  "Parse_http lib rng p buf =
     (if pr_done p then (p, 0, Some ErrBadMessage)
      else case hp_Execute lib (pr_p p) buf of
        (hp, evs, n, err) \<Rightarrow>
          let p = fold (on_http_event rng) evs (p\<lparr>pr_p := hp\<rparr>) in
          case err of
            Some e \<Rightarrow> (p, int n, Some (BadMessage e))
          | None \<Rightarrow> if \<not> pr_done p then (p, int n, None) else (p, pr_endOffset p + 1, None))"

definition Request_of :: "'p http_parser \<Rightarrow> request option" where
  "Request_of p = (if \<not> pr_done p then None else Some (pr_req p))"

text \<open>\<open>Reset\<close>, with the \<open>reset\<close> of the builder.\<close>

definition Reset_parser :: "'p httparser \<Rightarrow> 'p http_parser \<Rightarrow> 'p http_parser" where
  "Reset_parser lib p =
     p\<lparr>pr_p := hp_SetMaxHeaderSize lib (hp_Reset lib (pr_p p)) (pr_maxHeaderSize p),
       pr_req := blank_request, pr_curField := [], pr_done := False, pr_upgrade := False, pr_endOffset := 0\<rparr>"

section \<open>Case-insensitive names\<close>

lemma fold_char_idem: "fold_char (fold_char c) = fold_char c"
proof (cases "65 \<le> (of_char c :: nat) \<and> (of_char c :: nat) \<le> 90")
  case True
  then have "(of_char (fold_char c) :: nat) = of_char c + 32" by (simp add: fold_char_def Let_def)
  then show ?thesis using True by (simp add: fold_char_def [of "fold_char c"] Let_def)
next
  case False
  then have "fold_char c = c" by (auto simp: fold_char_def Let_def)
  then show ?thesis by simp
qed

lemma equalFold_iff: "equalFold a b = (map fold_char a = map fold_char b)"
proof -
  have "length a = length b \<Longrightarrow> equalFold_loop a b = (map fold_char a = map fold_char b)"
    by (induction a b rule: equalFold_loop.induct) auto
  then show ?thesis by (auto simp: equalFold_def dest: map_eq_imp_length_eq)
qed

text \<open>A header without two names that differ only in case: then \<open>Get\<close> does not depend on
  the order in which the map is visited.\<close>

definition case_distinct :: "(string \<times> 'v) list \<Rightarrow> bool" where
  "case_distinct h = distinct (map (\<lambda>(k, _). map fold_char k) h)"

definition visits_all :: "'v range_order \<Rightarrow> bool" where
  "visits_all rng = (\<forall>h. set (rng h) = set h)"

lemma case_distinct_unique:
  assumes "case_distinct h" and "(k, v) \<in> set h" and "(k', v') \<in> set h" and "equalFold k k'"
  shows "k = k' \<and> v = v'"
  using assms by (induction h) (force simp: case_distinct_def equalFold_iff)+

lemma equalFold_sym: "equalFold a b = equalFold b a"
  by (auto simp: equalFold_iff)

lemma equalFold_trans: "equalFold a b \<Longrightarrow> equalFold b c \<Longrightarrow> equalFold a c"
  by (simp add: equalFold_iff)

lemma Get_cases:
  assumes "visits_all rng"
  obtains "Get rng r name = ('''', False)" and "\<And>k v. (k, v) \<in> set (rq_Header r) \<Longrightarrow> \<not> equalFold k name"
    | k v where "Get rng r name = (v, True)" and "(k, v) \<in> set (rq_Header r)" and "equalFold k name"
proof -
  have s: "set (rng (rq_Header r)) = set (rq_Header r)" using assms by (simp add: visits_all_def)
  show ?thesis
  proof (cases "find (\<lambda>(k, v). equalFold k name) (rng (rq_Header r))")
    case None
    then have "(k, v) \<in> set (rq_Header r) \<Longrightarrow> \<not> equalFold k name" for k v
      using s by (auto simp: find_None_iff)
    then show ?thesis using None that(1) by (simp add: Get_def)
  next
    case (Some kv)
    obtain k v where kv: "kv = (k, v)" by fastforce
    have "kv \<in> set (rng (rq_Header r))" "equalFold k name"
      using Some kv by (auto simp: find_Some_iff in_set_conv_nth)
    then show ?thesis using that(2) [of v k] s kv Some by (simp add: Get_def)
  qed
qed

text \<open>Header look-up: \<open>Get\<close> ignores the case of ASCII letters and finds a field exactly
  when one is there; and when no two names differ only in case, what it returns is the
  value of that field, whatever the order in which Go visits the map.\<close>

theorem Get_case_insensitive:
  assumes "visits_all rng" and "case_distinct (rq_Header r)"
  shows "(Get rng r name = (v, True)) =
      (\<exists>k. (k, v) \<in> set (rq_Header r) \<and> map fold_char k = map fold_char name)
    \<and> snd (Get rng r name) = (\<exists>k v. (k, v) \<in> set (rq_Header r) \<and> map fold_char k = map fold_char name)"
proof -
  have "(Get rng r name = (v, True)) = (\<exists>k. (k, v) \<in> set (rq_Header r) \<and> equalFold k name)"
    using assms(1)
  proof (cases rule: Get_cases [of rng r name])
    case (2 k' v')
    have "v = v'" if "(k, v) \<in> set (rq_Header r)" "equalFold k name" for k
      using case_distinct_unique [OF assms(2) that(1) 2(2)] that(2) 2(3) by (simp add: equalFold_iff)
    then show ?thesis using 2 by auto
  qed simp_all
  moreover have "snd (Get rng r name) = (\<exists>k v. (k, v) \<in> set (rq_Header r) \<and> equalFold k name)"
    using assms(1) by (cases rule: Get_cases [of rng r name]) auto
  ultimately show ?thesis by (simp add: equalFold_iff)
qed

lemma Get_case_insensitive_witness:
  "(Get rev (blank_request\<lparr>rq_Header := [(''Host'', ''x''), (''CONTENT-Length'', ''5'')]\<rparr>) ''Content-Length'' = (''5'', True))
      = (\<exists>k. (k, ''5'') \<in> {(''Host'', ''x''), (''CONTENT-Length'', ''5'')} \<and> map fold_char k = ''content-length'')
    \<and> snd (Get rev (blank_request\<lparr>rq_Header := [(''Host'', ''x''), (''CONTENT-Length'', ''5'')]\<rparr>) ''Content-Length'')
      = (\<exists>k v. (k, v) \<in> {(''Host'', ''x''), (''CONTENT-Length'', ''5'')} \<and> map fold_char k = ''content-length'')"
proof -
  have f: "map fold_char ''Content-Length'' = ''content-length''" by code_simp
  have "case_distinct [(''Host'', ''x''), (''CONTENT-Length'', ''5'')]" by code_simp
  then show ?thesis
    using Get_case_insensitive [of rev "blank_request\<lparr>rq_Header := [(''Host'', ''x''), (''CONTENT-Length'', ''5'')]\<rparr>"
        "''Content-Length''" "''5''"]
    by (simp add: visits_all_def f del: list.map)
qed

text \<open>With two spellings of a name, the map order decides.\<close>

lemma Get_depends_on_map_order:
  "Get id (blank_request\<lparr>rq_Header := [(''A'', ''1''), (''a'', ''2'')]\<rparr>) ''a'' = (''1'', True)
    \<and> Get rev (blank_request\<lparr>rq_Header := [(''A'', ''1''), (''a'', ''2'')]\<rparr>) ''a'' = (''2'', True)"
  by code_simp

section \<open>Putting a request together\<close>

text \<open>The callbacks of one message, with every name and every value in one piece.\<close>

definition header_events :: "(string \<times> string) list \<Rightarrow> http_event list" where
  "header_events hs = concat (map (\<lambda>(n, v). [EvHeaderField (bytes_of_string n), EvHeaderValue (bytes_of_string v)]) hs)"

definition message_events ::
  "bytes list \<Rightarrow> (string \<times> string) list \<Rightarrow> string \<Rightarrow> nat \<Rightarrow> nat \<Rightarrow> bytes list \<Rightarrow> int \<Rightarrow> bool \<Rightarrow> http_event list" where
  "message_events urls hs meth major minor bodies off upg =
     map EvURL urls @ header_events hs @ [EvHeadersComplete meth major minor] @ map EvBody bodies
       @ [EvMessageComplete off upg]"

text \<open>What the header map has to be: for every name the values sent under it, joined.\<close>

fun joined :: "string list \<Rightarrow> string option" where
  "joined [] = None"
| "joined [v] = Some v"
| "joined (v # w # vs) = joined ((v @ '', '' @ w) # vs)"

definition values_of :: "string \<Rightarrow> (string \<times> string) list \<Rightarrow> string list" where
  "values_of k hs = map snd (filter (\<lambda>h. fst h = k) hs)"

lemma joined_snoc: "vs \<noteq> [] \<Longrightarrow> joined (vs @ [v]) = map_option (\<lambda>l. l @ '', '' @ v) (joined vs)"
  by (induction vs rule: joined.induct) auto

lemma joined_Cons_snoc [simp]: "joined (b # vs @ [v]) = map_option (\<lambda>l. l @ '', '' @ v) (joined (b # vs))"
  using joined_snoc [of "b # vs" v] by simp

lemma joined_None [simp]: "joined vs = None \<longleftrightarrow> vs = []"
  by (induction vs rule: joined.induct) auto

lemma fold_urls:
  "\<not> pr_done p \<Longrightarrow> fold (on_http_event rng) (map EvURL us) p =
     p\<lparr>pr_req := (pr_req p)\<lparr>rq_Target := rq_Target (pr_req p) @ concat (map string_of_bytes us)\<rparr>\<rparr>"
  by (induction us arbitrary: p) (simp_all add: on_http_event_def)

lemma fold_bodies:
  "\<not> pr_done p \<Longrightarrow> fold (on_http_event rng) (map EvBody bs) p =
     p\<lparr>pr_req := (pr_req p)\<lparr>rq_Body := rq_Body (pr_req p) @ concat bs\<rparr>\<rparr>"
  by (induction bs arbitrary: p) (simp_all add: on_http_event_def)

lemma fold_done: "pr_done p \<Longrightarrow> fold (on_http_event rng) evs p = p"
  by (induction evs) (simp_all add: on_http_event_def)

text \<open>What the header callbacks leave alone, and the map they build.\<close>

definition same_but_header :: "'p http_parser \<Rightarrow> 'p http_parser \<Rightarrow> bool" where
  "same_but_header p q = (pr_p q = pr_p p \<and> pr_done q = pr_done p \<and> pr_endOffset q = pr_endOffset p
     \<and> pr_upgrade q = pr_upgrade p \<and> pr_maxHeaderSize q = pr_maxHeaderSize p
     \<and> rq_Method (pr_req q) = rq_Method (pr_req p) \<and> rq_Target (pr_req q) = rq_Target (pr_req p)
     \<and> rq_Proto (pr_req q) = rq_Proto (pr_req p) \<and> rq_Body (pr_req q) = rq_Body (pr_req p)
     \<and> rq_ContentLength (pr_req q) = rq_ContentLength (pr_req p))"

lemma header_pair:
  assumes "\<not> pr_done p" and "n \<noteq> ''''"
  shows "\<exists>q. fold (on_http_event rng) [EvHeaderField (bytes_of_string n), EvHeaderValue (bytes_of_string v)] p = q
    \<and> same_but_header p q
    \<and> rq_Header (pr_req q) = AList.update n (case map_of (rq_Header (pr_req p)) n of
        Some l \<Rightarrow> l @ '', '' @ v | None \<Rightarrow> v) (rq_Header (pr_req p))"
  using assms by (simp add: on_http_event_def on_header_value_def Let_def same_but_header_def split: option.split)

lemma fold_headers:
  assumes "\<not> pr_done p" and "list_all (\<lambda>h. fst h \<noteq> '''') hs"
    and "\<And>k. map_of (rq_Header (pr_req p)) k = joined (values_of k pre)"
    and "distinct (map fst (rq_Header (pr_req p)))"
  shows "\<exists>q. fold (on_http_event rng) (header_events hs) p = q \<and> same_but_header p q
    \<and> (\<forall>k. map_of (rq_Header (pr_req q)) k = joined (values_of k (pre @ hs)))
    \<and> distinct (map fst (rq_Header (pr_req q)))"
  using assms
proof (induction hs arbitrary: p pre)
  case Nil
  then show ?case by (simp add: header_events_def same_but_header_def)
next
  case (Cons h hs)
  obtain n v where h: "h = (n, v)" by fastforce
  have n: "n \<noteq> ''''" using Cons.prems(2) h by simp
  obtain q where q: "fold (on_http_event rng) [EvHeaderField (bytes_of_string n), EvHeaderValue (bytes_of_string v)] p = q"
      "same_but_header p q"
      "rq_Header (pr_req q) = AList.update n (case map_of (rq_Header (pr_req p)) n of
        Some l \<Rightarrow> l @ '', '' @ v | None \<Rightarrow> v) (rq_Header (pr_req p))"
    using header_pair [OF Cons.prems(1) n] by blast
  have "\<not> pr_done q" using q(2) Cons.prems(1) by (simp add: same_but_header_def)
  moreover have "map_of (rq_Header (pr_req q)) k = joined (values_of k (pre @ [h]))" for k
    using Cons.prems(3) [of k] Cons.prems(3) [of n]
    by (cases "values_of k pre")
      (auto simp: q(3) h AList.update_conv' values_of_def joined_snoc split: option.splits)
  moreover have "distinct (map fst (rq_Header (pr_req q)))"
    using Cons.prems(4) by (simp add: q(3) distinct_update)
  moreover have "list_all (\<lambda>h. fst h \<noteq> '''') hs" using Cons.prems(2) by simp
  ultimately obtain q' where "fold (on_http_event rng) (header_events hs) q = q' \<and> same_but_header q q'
      \<and> (\<forall>k. map_of (rq_Header (pr_req q')) k = joined (values_of k ((pre @ [h]) @ hs)))
      \<and> distinct (map fst (rq_Header (pr_req q')))"
    using Cons.IH [of q "pre @ [h]"] by blast
  then show ?case using q(1,2) by (auto simp: header_events_def h same_but_header_def)
qed

definition header_length :: "string range_order \<Rightarrow> request \<Rightarrow> int" where
  "header_length rng r = (case Get rng r ''Content-Length'' of
     (cl, True) \<Rightarrow> (case ParseInt64 cl of Some n \<Rightarrow> n | None \<Rightarrow> -1) | _ \<Rightarrow> -1)"

lemma on_headers_complete_eq:
  assumes "rq_ContentLength (pr_req p) = -1"
    and r: "r = (pr_req p)\<lparr>rq_Proto := ''HTTP/'' @ itoa major @ ''.'' @ itoa minor, rq_Method := meth\<rparr>"
  shows "on_headers_complete rng p meth major minor = p\<lparr>pr_req := r\<lparr>rq_ContentLength := header_length rng r\<rparr>\<rparr>"
proof -
  have self: "r\<lparr>rq_ContentLength := -1\<rparr> = r" using assms by (cases "pr_req p") simp
  obtain cl found where g: "Get rng r ''Content-Length'' = (cl, found)" by fastforce
  show ?thesis unfolding on_headers_complete_def r [symmetric] Let_def
    by (cases found; cases "ParseInt64 cl") (simp_all add: g header_length_def self)
qed

lemma builds_request:
  assumes "\<not> pr_done p" and "pr_req p = blank_request" and "list_all (\<lambda>h. fst h \<noteq> '''') hs"
  shows "\<exists>q. fold (on_http_event rng) (message_events urls hs meth major minor bodies off upg @ rest) p = q
    \<and> pr_done q \<and> pr_endOffset q = off \<and> pr_upgrade q = (pr_upgrade p \<or> upg) \<and> pr_p q = pr_p p
    \<and> (\<exists>r. Request_of q = Some r \<and> rq_Method r = meth \<and> rq_Target r = concat (map string_of_bytes urls)
        \<and> rq_Proto r = ''HTTP/'' @ itoa major @ ''.'' @ itoa minor \<and> rq_Body r = concat bodies
        \<and> (\<forall>k. map_of (rq_Header r) k = joined (values_of k hs))
        \<and> rq_ContentLength r = header_length rng r)"
proof -
  let ?f = "fold (on_http_event rng)"
  define p1 where "p1 = ?f (map EvURL urls) p"
  have p1: "p1 = p\<lparr>pr_req := blank_request\<lparr>rq_Target := concat (map string_of_bytes urls)\<rparr>\<rparr>"
    using assms(1,2) by (simp add: p1_def fold_urls, simp add: blank_request_def)
  obtain p2 where p2: "?f (header_events hs) p1 = p2" "same_but_header p1 p2"
      "\<And>k. map_of (rq_Header (pr_req p2)) k = joined (values_of k hs)"
    using fold_headers [of p1 hs "[]" rng] assms(1,3)
    by (auto simp: p1 blank_request_def values_of_def)
  define p3 where "p3 = on_headers_complete rng p2 meth major minor"
  have "\<not> pr_done p2" using p2(2) assms(1) by (simp add: same_but_header_def p1)
  then have e3: "on_http_event rng (EvHeadersComplete meth major minor) p2 = p3"
    by (simp add: on_http_event_def p3_def)
  define r2 where "r2 = (pr_req p2)\<lparr>rq_Proto := ''HTTP/'' @ itoa major @ ''.'' @ itoa minor, rq_Method := meth\<rparr>"
  have "rq_ContentLength (pr_req p2) = -1" using p2(2) by (simp add: same_but_header_def p1 blank_request_def)
  from on_headers_complete_eq [OF this r2_def, of rng]
  have p3: "p3 = p2\<lparr>pr_req := r2\<lparr>rq_ContentLength := header_length rng r2\<rparr>\<rparr>" by (simp add: p3_def)
  have done3: "\<not> pr_done p3" using \<open>\<not> pr_done p2\<close> by (simp add: p3)
  define p4 where "p4 = ?f (map EvBody bodies) p3"
  have p4: "p4 = p3\<lparr>pr_req := (pr_req p3)\<lparr>rq_Body := concat bodies\<rparr>\<rparr>"
    using p2(2) by (simp add: p4_def fold_bodies [OF done3], simp add: p3 r2_def same_but_header_def p1 blank_request_def)
  define q where "q = on_http_event rng (EvMessageComplete off upg) p4"
  have q: "pr_done q" "pr_endOffset q = off" "pr_req q = pr_req p4" "pr_p q = pr_p p" "pr_upgrade q = (pr_upgrade p \<or> upg)"
    using done3 p2(2) by (simp_all add: q_def p4 on_http_event_def Let_def p3 same_but_header_def p1)
  have "?f (message_events urls hs meth major minor bodies off upg @ rest) p = q"
    using q(1) by (simp add: message_events_def p1_def [symmetric] p2(1) e3 p4_def [symmetric] q_def [symmetric] fold_done)
  moreover have "Request_of q = Some ((pr_req p3)\<lparr>rq_Body := concat bodies\<rparr>)"
    using q by (simp add: Request_of_def p4)
  moreover have "header_length rng ((pr_req p3)\<lparr>rq_Body := concat bodies\<rparr>) = header_length rng r2"
    by (simp add: header_length_def Get_def p3)
  ultimately show ?thesis
    using q p2 by (intro exI [of _ q] conjI exI [of _ "(pr_req p3)\<lparr>rq_Body := concat bodies\<rparr>"])
      (simp_all add: p3 r2_def same_but_header_def p1)
qed

text \<open>One message, one request: from the callbacks of a message, however the target and
  the body are cut, the builder makes the request with exactly that method, target, version,
  body and header fields, repeated fields joined by commas in order; and whatever callbacks
  follow in the same buffer (the next requests of a pipeline) change nothing.\<close>

theorem request_built:
  assumes "\<not> pr_done p" and "pr_req p = blank_request" and "list_all (\<lambda>h. fst h \<noteq> '''') hs"
  shows "\<exists>q. fold (on_http_event rng) (message_events urls hs meth major minor bodies off upg @ rest) p = q
    \<and> pr_done q \<and> pr_endOffset q = off \<and> pr_upgrade q = (pr_upgrade p \<or> upg) \<and> pr_p q = pr_p p
    \<and> (\<exists>r. Request_of q = Some r \<and> rq_Method r = meth \<and> rq_Target r = concat (map string_of_bytes urls)
        \<and> rq_Proto r = ''HTTP/'' @ itoa major @ ''.'' @ itoa minor \<and> rq_Body r = concat bodies
        \<and> (\<forall>k. map_of (rq_Header r) k = joined (values_of k hs))
        \<and> rq_ContentLength r = header_length rng r)"
  by (rule builds_request [OF assms])

lemma request_built_witness:
  "\<exists>q. fold (on_http_event id) (message_events [[47], [97]] [(''A'', ''1''), (''Content-Length'', ''2''), (''A'', ''2'')]
        ''POST'' 1 1 [[104], [105]] 70 False @ [EvURL [47]])
      \<lparr>pr_p = (), pr_req = blank_request, pr_curField = [], pr_done = False, pr_endOffset = 0, pr_upgrade = False,
       pr_maxHeaderSize = 8192\<rparr> = q
    \<and> (\<exists>r. Request_of q = Some r \<and> rq_Target r = ''/a'' \<and> rq_Body r = [104, 105]
        \<and> map_of (rq_Header r) ''A'' = Some ''1, 2'' \<and> rq_Proto r = ''HTTP/1.1'')"
proof -
  have e: "concat (map string_of_bytes [[47], [97]]) = ''/a''" "''HTTP/'' @ itoa 1 @ ''.'' @ itoa 1 = ''HTTP/1.1''"
    by code_simp+
  show ?thesis
    using request_built [of "\<lparr>pr_p = (), pr_req = blank_request, pr_curField = [], pr_done = False, pr_endOffset = 0,
        pr_upgrade = False, pr_maxHeaderSize = 8192\<rparr>" "[(''A'', ''1''), (''Content-Length'', ''2''), (''A'', ''2'')]" id
        "[[47], [97]]" "''POST''" 1 1 "[[104], [105]]" 70 False "[EvURL [47]]"]
    unfolding e by (auto simp: values_of_def)
qed

text \<open>A name that the library reports in two pieces loses the first: the callback for names
  replaces what it has, although its comment says it collects.\<close>

lemma split_name_lost:
  assumes "\<not> pr_done p" and "pr_req p = blank_request" and "b \<noteq> []"
  shows "rq_Header (pr_req (fold (on_http_event rng) [EvHeaderField a, EvHeaderField b, EvHeaderValue v] p))
    = [(string_of_bytes b, string_of_bytes v)]"
  using assms by (simp add: on_http_event_def on_header_value_def blank_request_def string_of_bytes_def)

end
