(* ===== verification/Http1_Response.thy ===== *)
theory Http1_Response
  imports Http1_Request Engine_Conn
begin

text \<open>
  HTTP/1.1 responses: \<^verbatim>\<open>ResponseWriter\<close> of \<^verbatim>\<open>http/server.go\<close> and the table of \<^verbatim>\<open>http/status.go\<close>.
  The connection it writes to is the argument \<open>put\<close>, the \<open>Write\<close> of some transport; the
  lemmas hold for every transport that is a \<open>byte_sink\<close>, and the properties state them of
  the engine's connection. \<open>rng\<close> is again the order in which Go visits a map.
\<close>

section \<open>Status lines\<close>

definition statusText :: "(int \<times> string) list" where
  "statusText =
    [(100, ''Continue''), (101, ''Switching Protocols''), (102, ''Processing''), (103, ''Early Hints''),
     (200, ''OK''), (201, ''Created''), (202, ''Accepted''), (203, ''Non-Authoritative Information''),
     (204, ''No Content''), (205, ''Reset Content''), (206, ''Partial Content''), (207, ''Multi-Status''),
     (208, ''Already Reported''), (226, ''IM Used''),
     (300, ''Multiple Choices''), (301, ''Moved Permanently''), (302, ''Found''), (303, ''See Other''),
     (304, ''Not Modified''), (305, ''Use Proxy''), (307, ''Temporary Redirect''), (308, ''Permanent Redirect''),
     (400, ''Bad Request''), (401, ''Unauthorized''), (402, ''Payment Required''), (403, ''Forbidden''),
     (404, ''Not Found''), (405, ''Method Not Allowed''), (406, ''Not Acceptable''),
     (407, ''Proxy Authentication Required''), (408, ''Request Timeout''), (409, ''Conflict''), (410, ''Gone''),
     (411, ''Length Required''), (412, ''Precondition Failed''), (413, ''Content Too Large''),
     (414, ''URI Too Long''), (415, ''Unsupported Media Type''), (416, ''Range Not Satisfiable''),
     (417, ''Expectation Failed''), (418, ''I'' @ [char_of (39 :: nat)] @ ''m a teapot''),
     (421, ''Misdirected Request''), (422, ''Unprocessable Content''), (423, ''Locked''),
     (424, ''Failed Dependency''), (425, ''Too Early''), (426, ''Upgrade Required''),
     (428, ''Precondition Required''), (429, ''Too Many Requests''), (431, ''Request Header Fields Too Large''),
     (451, ''Unavailable For Legal Reasons''),
     (500, ''Internal Server Error''), (501, ''Not Implemented''), (502, ''Bad Gateway''),
     (503, ''Service Unavailable''), (504, ''Gateway Timeout''), (505, ''HTTP Version Not Supported''),
     (506, ''Variant Also Negotiates''), (507, ''Insufficient Storage''), (508, ''Loop Detected''),
     (510, ''Not Extended''), (511, ''Network Authentication Required'')]"

definition StatusText :: "int \<Rightarrow> string" where
  "StatusText code =
     (case map_of statusText code of Some s \<Rightarrow> s | None \<Rightarrow> ''Status '' @ itoa_int code)"

text \<open>\<open>strings.EqualFold\<close> is asked for names of the same length only, and the name it is
  compared with, Content-Length, has no letter that folds to anything outside ASCII.\<close>

definition hasHeaderName :: "(string \<times> string list) list \<Rightarrow> string \<Rightarrow> bool" where
  "hasHeaderName header want =
     (if map_of header want \<noteq> None then True
      else list_ex (\<lambda>(name, _). length name = length want \<and> equalFold name want) header)"

definition hasContentLength :: "(string \<times> string list) list \<Rightarrow> bool" where
  "hasContentLength header = hasHeaderName header ''Content-Length''"

definition bodylessStatus :: "int \<Rightarrow> bool" where
  "bodylessStatus code = ((code \<ge> 100 \<and> code < 200) \<or> code = 204 \<or> code = 304)"

section \<open>The writer\<close>

record response_writer =
  rw_header :: "(string \<times> string list) list"
  rw_statusCode :: int
  rw_wroteHeader :: bool
  rw_headerSent :: bool
  rw_keepAlive :: bool
  rw_chunked :: bool
  rw_finished :: bool

definition blank_writer :: response_writer where
  "blank_writer = \<lparr>rw_header = [], rw_statusCode = 0, rw_wroteHeader = False, rw_headerSent = False,
     rw_keepAlive = False, rw_chunked = False, rw_finished = False\<rparr>"

definition reset_writer :: "response_writer \<Rightarrow> response_writer" where
  "reset_writer w = w\<lparr>rw_statusCode := 0, rw_wroteHeader := False, rw_headerSent := False, rw_chunked := False,
     rw_finished := False, rw_keepAlive := True, rw_header := []\<rparr>"

type_synonym 's putter = "'s \<Rightarrow> bytes \<Rightarrow> ('s \<times> io_err option) option"

abbreviation CRLF :: bytes where "CRLF \<equiv> [13, 10]"

definition WriteHeader :: "response_writer \<Rightarrow> int \<Rightarrow> response_writer" where
  "WriteHeader w code = (if rw_wroteHeader w then w else w\<lparr>rw_statusCode := code, rw_wroteHeader := True\<rparr>)"

text \<open>\<open>w.Header()[name] = values\<close> and \<open>delete(w.Header(), name)\<close>.\<close>

definition SetHeader :: "response_writer \<Rightarrow> string \<Rightarrow> string list \<Rightarrow> response_writer" where
  "SetHeader w name vals = w\<lparr>rw_header := AList.update name vals (rw_header w)\<rparr>"

definition DelHeader :: "response_writer \<Rightarrow> string \<Rightarrow> response_writer" where
  "DelHeader w name = w\<lparr>rw_header := AList.delete name (rw_header w)\<rparr>"

definition header_line :: "string \<Rightarrow> string \<Rightarrow> bytes" where
  "header_line name v = bytes_of_string name @ bytes_of_string '': '' @ bytes_of_string v @ CRLF"

definition header_lines :: "(string \<times> string list) list \<Rightarrow> bytes" where
  "header_lines header = concat (map (\<lambda>(name, vals). concat (map (header_line name) vals)) header)"

definition flushHeader ::
  "'s putter \<Rightarrow> string list range_order \<Rightarrow> response_writer \<Rightarrow> 's
   \<Rightarrow> ((response_writer \<times> 's) \<times> io_err option) option" where
  "flushHeader put rng w s =
     (if rw_headerSent w then Some ((w, s), None)
      else
        let w = (if rw_statusCode w = 0 then w\<lparr>rw_statusCode := 200\<rparr> else w);
            buf = bytes_of_string ''HTTP/1.1 '' @ bytes_of_string (itoa_int (rw_statusCode w)) @ bytes_of_string '' ''
                  @ bytes_of_string (StatusText (rw_statusCode w)) @ CRLF;
            (w, buf) = (if \<not> hasContentLength (rw_header w) \<and> \<not> bodylessStatus (rw_statusCode w)
                        then (w\<lparr>rw_chunked := True\<rparr>, buf @ bytes_of_string ''Transfer-Encoding: chunked'' @ CRLF)
                        else (w, buf));
            buf = buf @ header_lines (rng (rw_header w)) @ CRLF;
            w = w\<lparr>rw_headerSent := True\<rparr>
        in map_option (\<lambda>(s, err). ((w, s), err)) (put s buf))"

definition writeChunk :: "'s putter \<Rightarrow> 's \<Rightarrow> bytes \<Rightarrow> ('s \<times> io_err option) option" where
  "writeChunk put s body =
     (case put s (bytes_of_string (itoa_hex (length body)) @ CRLF) of
        Some (s, None) \<Rightarrow>
          (case put s body of
             Some (s, None) \<Rightarrow> put s CRLF
           | r \<Rightarrow> r)
      | r \<Rightarrow> r)"

definition Write_body ::
  "'s putter \<Rightarrow> string list range_order \<Rightarrow> response_writer \<Rightarrow> 's \<Rightarrow> bytes
   \<Rightarrow> ((response_writer \<times> 's) \<times> nat \<times> io_err option) option" where
  "Write_body put rng w s body =
     (let w = (if \<not> rw_wroteHeader w then WriteHeader w 200 else w) in
      case flushHeader put rng w s of
        None \<Rightarrow> None
      | Some ((w, s), Some e) \<Rightarrow> Some ((w, s), 0, Some e)
      | Some ((w, s), None) \<Rightarrow>
          if body = [] then Some ((w, s), 0, None)
          else if rw_chunked w then
            (case writeChunk put s body of
               None \<Rightarrow> None
             | Some (s, Some e) \<Rightarrow> Some ((w, s), 0, Some e)
             | Some (s, None) \<Rightarrow> Some ((w, s), length body, None))
          else map_option (\<lambda>(s, err). ((w, s), length body, err)) (put s body))"

definition finish ::
  "'s putter \<Rightarrow> response_writer \<Rightarrow> 's \<Rightarrow> ((response_writer \<times> 's) \<times> io_err option) option" where
  "finish put w s =
     (if \<not> rw_chunked w \<or> rw_finished w then Some ((w, s), None)
      else map_option (\<lambda>(s, err). ((w\<lparr>rw_finished := True\<rparr>, s), err))
             (put s (bytes_of_string ''0'' @ CRLF @ CRLF)))"

definition WriteRaw_resp :: "'s putter \<Rightarrow> 's \<Rightarrow> bytes \<Rightarrow> ('s \<times> io_err option) option" where
  "WriteRaw_resp put s b = put s b"

section \<open>What a handler does with it\<close>

datatype resp_op =
  RSetHeader string "string list" | RDelHeader string | RWriteHeader int | RWrite bytes | RWriteRaw bytes

fun run_resp_op ::
  "'s putter \<Rightarrow> string list range_order \<Rightarrow> response_writer \<times> 's \<Rightarrow> resp_op \<Rightarrow> (response_writer \<times> 's) option" where
  "run_resp_op put rng (w, s) (RSetHeader n vs) = Some (SetHeader w n vs, s)"
| "run_resp_op put rng (w, s) (RDelHeader n) = Some (DelHeader w n, s)"
| "run_resp_op put rng (w, s) (RWriteHeader code) = Some (WriteHeader w code, s)"
| "run_resp_op put rng (w, s) (RWrite b) = map_option fst (Write_body put rng w s b)"
| "run_resp_op put rng (w, s) (RWriteRaw b) = map_option (\<lambda>(s, _). (w, s)) (WriteRaw_resp put s b)"

fun run_resp ::
  "'s putter \<Rightarrow> string list range_order \<Rightarrow> response_writer \<times> 's \<Rightarrow> resp_op list \<Rightarrow> (response_writer \<times> 's) option" where
  "run_resp put rng ws [] = Some ws"
| "run_resp put rng ws (x # xs) = Option.bind (run_resp_op put rng ws x) (\<lambda>ws. run_resp put rng ws xs)"

text \<open>The end of \<open>OnData\<close> for one request: what the handler did, then the header if it is
  still unsent, then the last chunk.\<close>

definition respond ::
  "'s putter \<Rightarrow> string list range_order \<Rightarrow> response_writer \<Rightarrow> 's \<Rightarrow> resp_op list
   \<Rightarrow> ((response_writer \<times> 's) \<times> io_err option) option" where
  "respond put rng w s ops =
     Option.bind (run_resp put rng (reset_writer w, s) ops) (\<lambda>(w, s).
       Option.bind (flushHeader put rng w s) (\<lambda>((w, s), err).
         if err \<noteq> None then Some ((w, s), err) else finish put w s))"

section \<open>What goes over the wire\<close>

text \<open>The response as a function of the handler's operations: status and header are those at
  the first write, or at the end; the body is what was written.\<close>

fun is_write :: "resp_op \<Rightarrow> bool" where
  "is_write (RWrite _) = True"
| "is_write _ = False"

fun is_raw :: "resp_op \<Rightarrow> bool" where
  "is_raw (RWriteRaw _) = True"
| "is_raw _ = False"

fun status_codes :: "resp_op list \<Rightarrow> int list" where
  "status_codes [] = []"
| "status_codes (RWriteHeader c # xs) = c # status_codes xs"
| "status_codes (_ # xs) = status_codes xs"

fun edit_header :: "resp_op \<Rightarrow> (string \<times> string list) list \<Rightarrow> (string \<times> string list) list" where
  "edit_header (RSetHeader n vs) h = AList.update n vs h"
| "edit_header (RDelHeader n) h = AList.delete n h"
| "edit_header _ h = h"

fun bodies_of :: "resp_op list \<Rightarrow> bytes list" where
  "bodies_of [] = []"
| "bodies_of (RWrite b # xs) = (if b = [] then bodies_of xs else b # bodies_of xs)"
| "bodies_of (_ # xs) = bodies_of xs"

definition head_ops :: "resp_op list \<Rightarrow> resp_op list" where
  "head_ops ops = takeWhile (\<lambda>x. \<not> is_write x) ops"

definition status_of :: "resp_op list \<Rightarrow> int" where
  "status_of ops = (case status_codes (head_ops ops) of [] \<Rightarrow> 200 | c # _ \<Rightarrow> if c = 0 then 200 else c)"

definition headers_of :: "resp_op list \<Rightarrow> (string \<times> string list) list" where
  "headers_of ops = fold edit_header (head_ops ops) []"

definition is_chunked :: "resp_op list \<Rightarrow> bool" where
  "is_chunked ops = (\<not> hasContentLength (headers_of ops) \<and> \<not> bodylessStatus (status_of ops))"

definition head_bytes :: "int \<Rightarrow> bool \<Rightarrow> (string \<times> string list) list \<Rightarrow> bytes" where
  "head_bytes code chunked header =
     bytes_of_string ''HTTP/1.1 '' @ bytes_of_string (itoa_int code) @ bytes_of_string '' ''
       @ bytes_of_string (StatusText code) @ CRLF
       @ (if chunked then bytes_of_string ''Transfer-Encoding: chunked'' @ CRLF else [])
       @ header_lines header @ CRLF"

definition chunk :: "bytes \<Rightarrow> bytes" where
  "chunk b = bytes_of_string (itoa_hex (length b)) @ CRLF @ b @ CRLF"

definition last_chunk :: bytes where
  "last_chunk = bytes_of_string ''0'' @ CRLF @ CRLF"

definition body_bytes :: "bool \<Rightarrow> bytes list \<Rightarrow> bytes" where
  "body_bytes chunked bs = (if chunked then concat (map chunk bs) @ last_chunk else concat bs)"

definition response_bytes :: "string list range_order \<Rightarrow> resp_op list \<Rightarrow> bytes" where
  "response_bytes rng ops =
     head_bytes (status_of ops) (is_chunked ops) (rng (headers_of ops)) @ body_bytes (is_chunked ops) (bodies_of ops)"

text \<open>Before the head is sent the operations only change the writer.\<close>

definition unsent :: "resp_op list \<Rightarrow> response_writer \<Rightarrow> bool" where
  "unsent ops w = (\<not> rw_headerSent w \<and> \<not> rw_chunked w \<and> \<not> rw_finished w
     \<and> rw_header w = fold edit_header ops []
     \<and> rw_wroteHeader w = (status_codes ops \<noteq> [])
     \<and> rw_statusCode w = (case status_codes ops of [] \<Rightarrow> 0 | c # _ \<Rightarrow> c))"

lemma status_codes_append [simp]: "status_codes (xs @ ys) = status_codes xs @ status_codes ys"
  by (induction xs rule: status_codes.induct) simp_all

lemma run_head:
  assumes "unsent pre w" and "list_all (\<lambda>x. \<not> is_write x \<and> \<not> is_raw x) xs"
  shows "\<exists>w'. run_resp put rng (w, s) xs = Some (w', s) \<and> unsent (pre @ xs) w'"
  using assms
proof (induction xs arbitrary: w pre)
  case (Cons x xs)
  have "\<exists>w1. run_resp_op put rng (w, s) x = Some (w1, s) \<and> unsent (pre @ [x]) w1"
    using Cons.prems
    by (cases x) (auto simp: unsent_def SetHeader_def DelHeader_def WriteHeader_def split: list.splits)
  then obtain w1 where "run_resp_op put rng (w, s) x = Some (w1, s)" "unsent (pre @ [x]) w1" by blast
  then show ?case using Cons.IH [of "pre @ [x]" w1] Cons.prems(2) by auto
qed simp

lemma run_resp_append:
  "run_resp put rng ws (xs @ ys) = Option.bind (run_resp put rng ws xs) (\<lambda>ws. run_resp put rng ws ys)"
  by (induction xs arbitrary: ws) (simp_all add: Option.bind_assoc)

definition sent :: "bool \<Rightarrow> response_writer \<Rightarrow> bool" where
  "sent chunked w = (rw_headerSent w \<and> rw_wroteHeader w \<and> rw_chunked w = chunked \<and> \<not> rw_finished w)"

definition enc_body :: "bool \<Rightarrow> bytes list \<Rightarrow> bytes" where
  "enc_body chunked bs = (if chunked then concat (map chunk bs) else concat bs)"

context byte_sink
begin

lemma writeChunk_appends:
  assumes "sink_ok s"
  shows "\<exists>s'. writeChunk put s b = Some (s', None) \<and> sink_ok s' \<and> out s' = out s @ chunk b"
proof -
  obtain s1 where s1: "put s (bytes_of_string (itoa_hex (length b)) @ CRLF) = Some (s1, None)" "sink_ok s1"
      "out s1 = out s @ bytes_of_string (itoa_hex (length b)) @ CRLF"
    using put_appends [OF assms] by blast
  obtain s2 where s2: "put s1 b = Some (s2, None)" "sink_ok s2" "out s2 = out s1 @ b"
    using put_appends [OF s1(2)] by blast
  obtain s3 where "put s2 CRLF = Some (s3, None)" "sink_ok s3" "out s3 = out s2 @ CRLF"
    using put_appends [OF s2(2)] by blast
  then show ?thesis using s1 s2 by (simp add: writeChunk_def chunk_def)
qed

lemma flushHeader_appends:
  assumes "sink_ok s" and "unsent ops w"
    and "code = (case status_codes ops of [] \<Rightarrow> 200 | c # _ \<Rightarrow> if c = 0 then 200 else c)"
    and "h = fold edit_header ops []" and "chunked = (\<not> hasContentLength h \<and> \<not> bodylessStatus code)"
  shows "\<exists>w' s'. flushHeader put rng w s = Some ((w', s'), None) \<and> sink_ok s'
    \<and> rw_headerSent w' \<and> rw_wroteHeader w' = rw_wroteHeader w \<and> rw_chunked w' = chunked \<and> \<not> rw_finished w'
    \<and> out s' = out s @ head_bytes code chunked (rng h)"
proof -
  obtain s' where s': "put s (head_bytes code chunked (rng h)) = Some (s', None)" "sink_ok s'"
      "out s' = out s @ head_bytes code chunked (rng h)"
    using put_appends [OF assms(1)] by blast
  define w1 where "w1 = (if rw_statusCode w = 0 then w\<lparr>rw_statusCode := 200\<rparr> else w)"
  have w1: "rw_statusCode w1 = code" "rw_header w1 = h" "\<not> rw_headerSent w" "\<not> rw_chunked w1" "\<not> rw_finished w1"
      "rw_wroteHeader w1 = rw_wroteHeader w"
    using assms(2-4) by (auto simp: w1_def unsent_def split: list.splits)
  define w2 where "w2 = (if chunked then w1\<lparr>rw_chunked := True\<rparr> else w1)\<lparr>rw_headerSent := True\<rparr>"
  have "flushHeader put rng w s = map_option (\<lambda>(s, err). ((w2, s), err)) (put s (head_bytes code chunked (rng h)))"
    using w1 unfolding flushHeader_def
    by (simp add: w1_def [symmetric] Let_def assms(5) w2_def head_bytes_def)
  then show ?thesis using s' w1 by (auto simp: w2_def)
qed

lemma Write_body_sent:
  assumes "sink_ok s" and "sent chunked w"
  shows "\<exists>s' n. Write_body put rng w s b = Some ((w, s'), n, None) \<and> sink_ok s'
    \<and> out s' = out s @ (if b = [] then [] else if chunked then chunk b else b)"
proof -
  have w: "rw_headerSent w" "rw_wroteHeader w" "rw_chunked w = chunked" using assms(2) by (simp_all add: sent_def)
  obtain s1 where s1: "put s b = Some (s1, None)" "sink_ok s1" "out s1 = out s @ b" using put_appends [OF assms(1)] by blast
  obtain s2 where s2: "writeChunk put s b = Some (s2, None)" "sink_ok s2" "out s2 = out s @ chunk b"
    using writeChunk_appends [OF assms(1)] by blast
  show ?thesis using w s1 s2 assms(1) by (auto simp: Write_body_def flushHeader_def)
qed

lemma run_resp_sent:
  assumes "sink_ok s" and "sent chunked w" and "list_all (\<lambda>x. \<not> is_raw x) xs"
  shows "\<exists>w' s'. run_resp put rng (w, s) xs = Some (w', s') \<and> sink_ok s' \<and> sent chunked w'
    \<and> out s' = out s @ enc_body chunked (bodies_of xs)"
  using assms
proof (induction xs arbitrary: w s)
  case Nil
  then show ?case by (simp add: enc_body_def)
next
  case (Cons x xs)
  have "\<exists>w1 s1. run_resp_op put rng (w, s) x = Some (w1, s1) \<and> sink_ok s1 \<and> sent chunked w1
      \<and> out s1 @ enc_body chunked (bodies_of xs) = out s @ enc_body chunked (bodies_of (x # xs))"
  proof (cases x)
    case (RWrite b)
    then show ?thesis using Write_body_sent [OF Cons.prems(1,2), of rng b] Cons.prems(2)
      by (auto simp: enc_body_def)
  qed (use Cons.prems in \<open>simp_all add: SetHeader_def DelHeader_def WriteHeader_def sent_def enc_body_def\<close>)
  then obtain w1 s1 where x: "run_resp_op put rng (w, s) x = Some (w1, s1)" "sink_ok s1" "sent chunked w1"
      "out s1 @ enc_body chunked (bodies_of xs) = out s @ enc_body chunked (bodies_of (x # xs))" by blast
  moreover have "list_all (\<lambda>x. \<not> is_raw x) xs" using Cons.prems(3) by simp
  ultimately show ?case using Cons.IH [of s1 w1] by auto
qed

lemma finish_appends:
  assumes "sink_ok s" and "rw_chunked w = chunked" and "\<not> rw_finished w"
  shows "\<exists>w' s'. finish put w s = Some ((w', s'), None) \<and> sink_ok s' \<and> out s' = out s @ (if chunked then last_chunk else [])"
  using assms put_appends [OF assms(1), of last_chunk] by (auto simp: finish_def last_chunk_def)

text \<open>The first write: it sets the status if nobody did, sends the head, then the body.\<close>

lemma Write_body_first:
  assumes "sink_ok s" and "unsent ops w" and h: "h = fold edit_header ops []"
    and code: "code = (case status_codes ops of [] \<Rightarrow> 200 | c # _ \<Rightarrow> if c = 0 then 200 else c)"
    and chunked: "chunked = (\<not> hasContentLength h \<and> \<not> bodylessStatus code)"
  shows "\<exists>w' s' n. Write_body put rng w s b = Some ((w', s'), n, None) \<and> sink_ok s' \<and> sent chunked w'
    \<and> out s' = out s @ head_bytes code chunked (rng h) @ enc_body chunked (if b = [] then [] else [b])"
proof -
  define w1 where "w1 = (if \<not> rw_wroteHeader w then WriteHeader w 200 else w)"
  define ops1 where "ops1 = (if status_codes ops = [] then ops @ [RWriteHeader 200] else ops)"
  have w1: "unsent ops1 w1" "rw_wroteHeader w1" "h = fold edit_header ops1 []"
      "code = (case status_codes ops1 of [] \<Rightarrow> 200 | c # _ \<Rightarrow> if c = 0 then 200 else c)"
    using assms(2) h code by (auto simp: w1_def ops1_def unsent_def WriteHeader_def split: list.splits)
  obtain w2 s2 where f: "flushHeader put rng w1 s = Some ((w2, s2), None)" "sink_ok s2" "sent chunked w2"
      "out s2 = out s @ head_bytes code chunked (rng h)"
    using flushHeader_appends [OF assms(1) w1(1) w1(4) w1(3) chunked, of rng] w1(2) by (auto simp: sent_def)
  have "Write_body put rng w s b = Write_body put rng w2 s2 b"
    using f(1,3) by (simp add: Write_body_def w1_def [symmetric] sent_def, simp add: flushHeader_def)
  then show ?thesis using Write_body_sent [OF f(2,3), of rng b] f(3,4) by (auto simp: enc_body_def)
qed

lemma respond_appends:
  assumes "sink_ok s" and "list_all (\<lambda>x. \<not> is_raw x) ops"
  shows "\<exists>w' s'. respond put rng w s ops = Some ((w', s'), None) \<and> sink_ok s' \<and> out s' = out s @ response_bytes rng ops"
proof -
  let ?hd = "head_ops ops" and ?code = "status_of ops" and ?h = "headers_of ops" and ?ch = "is_chunked ops"
  note code = status_of_def [of ops] and h = headers_of_def [of ops] and ch = is_chunked_def [of ops]
  have start: "unsent [] (reset_writer w)" by (simp add: unsent_def reset_writer_def)
  have no_write: "list_all (\<lambda>x. \<not> is_write x \<and> \<not> is_raw x) ?hd"
    using assms(2) by (auto simp: head_ops_def list_all_iff dest: set_takeWhileD)
  obtain w1 where w1: "run_resp put rng (reset_writer w, s) ?hd = Some (w1, s)" "unsent ?hd w1"
    using run_head [OF start no_write] by fastforce
  define rest where "rest = dropWhile (\<lambda>x. \<not> is_write x) ops"
  have ops: "ops = ?hd @ rest" by (simp add: head_ops_def rest_def)
  have bodies: "bodies_of (xs @ ys) = bodies_of xs @ bodies_of ys" for xs ys
    by (induction xs rule: bodies_of.induct) simp_all
  have "bodies_of xs = []" if "list_all (\<lambda>x. \<not> is_write x \<and> \<not> is_raw x) xs" for xs
    using that by (induction xs rule: bodies_of.induct) simp_all
  then have bs: "bodies_of ops = bodies_of rest" using ops bodies [of ?hd rest] no_write by simp
  have "\<exists>w2 s2. Option.bind (run_resp put rng (w1, s) rest) (\<lambda>(w, s). flushHeader put rng w s) = Some ((w2, s2), None)
      \<and> sink_ok s2 \<and> rw_chunked w2 = ?ch \<and> \<not> rw_finished w2
      \<and> out s2 = out s @ head_bytes ?code ?ch (rng ?h) @ enc_body ?ch (bodies_of rest)"
  proof (cases rest)
    case Nil
    then show ?thesis using flushHeader_appends [OF assms(1) w1(2) code h ch, of rng]
      by (auto simp: enc_body_def)
  next
    case (Cons x xs)
    have "is_write x" using Cons by (simp add: rest_def dropWhile_eq_Cons_conv)
    then obtain b where x: "x = RWrite b" by (cases x) simp_all
    obtain w2 s2 n where b: "Write_body put rng w1 s b = Some ((w2, s2), n, None)" "sink_ok s2" "sent ?ch w2"
        "out s2 = out s @ head_bytes ?code ?ch (rng ?h) @ enc_body ?ch (if b = [] then [] else [b])"
      using Write_body_first [OF assms(1) w1(2) h code ch, of rng b] by blast
    have "list_all (\<lambda>x. \<not> is_raw x) xs" using assms(2) ops Cons by (metis list_all_append list.pred_inject(2))
    then obtain w3 s3 where "run_resp put rng (w2, s2) xs = Some (w3, s3)" "sink_ok s3" "sent ?ch w3"
        "out s3 = out s2 @ enc_body ?ch (bodies_of xs)"
      using run_resp_sent [OF b(2,3)] by blast
    then show ?thesis using b Cons x by (auto simp: flushHeader_def sent_def enc_body_def)
  qed
  then obtain w2 s2 where f: "Option.bind (run_resp put rng (w1, s) rest) (\<lambda>(w, s). flushHeader put rng w s)
        = Some ((w2, s2), None)" "sink_ok s2" "rw_chunked w2 = ?ch" "\<not> rw_finished w2"
      "out s2 = out s @ head_bytes ?code ?ch (rng ?h) @ enc_body ?ch (bodies_of rest)" by blast
  obtain w3 s3 where fin: "finish put w2 s2 = Some ((w3, s3), None)" "sink_ok s3"
      "out s3 = out s2 @ (if ?ch then last_chunk else [])"
    using finish_appends [OF f(2-4)] by blast
  have "run_resp put rng (reset_writer w, s) ops = run_resp put rng (w1, s) rest"
    by (subst ops) (simp add: run_resp_append w1(1))
  moreover obtain w4 s4 where "run_resp put rng (w1, s) rest = Some (w4, s4)"
      "flushHeader put rng w4 s4 = Some ((w2, s2), None)"
    using f(1) by (auto simp: bind_eq_Some_conv)
  ultimately have "respond put rng w s ops = Some ((w3, s3), None)"
    using fin(1) by (simp add: respond_def)
  then show ?thesis using fin f(5) by (auto simp: response_bytes_def body_bytes_def enc_body_def bs)
qed

text \<open>Whatever the handler does, raw writes included, the answer comes to an end and leaves the
  transport usable.\<close>

lemma flushHeader_ok:
  assumes "sink_ok s"
  shows "\<exists>w' s'. flushHeader put rng w s = Some ((w', s'), None) \<and> sink_ok s'"
proof (cases "rw_headerSent w")
  case False
  have "\<exists>s'. put s b = Some (s', None) \<and> sink_ok s'" for b using put_appends [OF assms] by blast
  then have "\<exists>s'. map_option (\<lambda>(s, err). ((v, s), err)) (put s b) = Some ((v, s'), None) \<and> sink_ok s'" for v b
    by (metis case_prod_conv option.simps(9))
  then show ?thesis using False by (simp add: flushHeader_def Let_def split_beta)
qed (use assms in \<open>simp add: flushHeader_def\<close>)

lemma run_resp_op_ok:
  assumes "sink_ok s"
  shows "\<exists>w' s'. run_resp_op put rng (w, s) x = Some (w', s') \<and> sink_ok s'"
proof (cases x)
  case (RWrite b)
  define w1 where "w1 = (if \<not> rw_wroteHeader w then WriteHeader w 200 else w)"
  obtain w2 s2 where f: "flushHeader put rng w1 s = Some ((w2, s2), None)" "sink_ok s2"
    using flushHeader_ok [OF assms] by blast
  obtain s3 where "put s2 b = Some (s3, None)" "sink_ok s3" using put_appends [OF f(2)] by blast
  moreover obtain s4 where "writeChunk put s2 b = Some (s4, None)" "sink_ok s4" using writeChunk_appends [OF f(2)] by blast
  ultimately show ?thesis using f RWrite by (auto simp: Write_body_def w1_def [symmetric])
next
  case (RWriteRaw b)
  then show ?thesis using put_appends [OF assms, of b] by (auto simp: WriteRaw_resp_def)
qed (use assms in simp_all)

lemma respond_returns:
  assumes "sink_ok s"
  shows "\<exists>w' s'. respond put rng w s ops = Some ((w', s'), None) \<and> sink_ok s'"
proof -
  have "\<exists>w' s'. run_resp put rng (w, s) ops = Some (w', s') \<and> sink_ok s'" for w
    using assms
  proof (induction ops arbitrary: w s)
    case (Cons x xs)
    then obtain w1 s1 where "run_resp_op put rng (w, s) x = Some (w1, s1)" "sink_ok s1" using run_resp_op_ok by blast
    then show ?case using Cons.IH [of s1 w1] by simp
  qed simp
  then obtain w1 s1 where r: "run_resp put rng (reset_writer w, s) ops = Some (w1, s1)" "sink_ok s1" by blast
  obtain w2 s2 where f: "flushHeader put rng w1 s1 = Some ((w2, s2), None)" "sink_ok s2" using flushHeader_ok [OF r(2)] by blast
  obtain s3 where "put s2 (bytes_of_string ''0'' @ CRLF @ CRLF) = Some (s3, None)" "sink_ok s3" using put_appends [OF f(2)] by blast
  then show ?thesis using r f by (auto simp: respond_def finish_def)
qed

end

section \<open>The client's view of a body\<close>

text \<open>A decoder of the chunked coding as RFC 9112 section 7.1 describes it (without
  extensions and trailers, which the writer never sends): the body, and what follows it.\<close>

definition hex_val :: "byte \<Rightarrow> nat option" where
  "hex_val b = (let n = unat b in
     if 48 \<le> n \<and> n \<le> 57 then Some (n - 48) else if 97 \<le> n \<and> n \<le> 102 then Some (n - 87) else None)"

fun read_hex :: "nat \<Rightarrow> bytes \<Rightarrow> (nat \<times> bytes) option" where
  "read_hex acc [] = None"
| "read_hex acc (b # bs) =
     (if b = 13 then (case bs of c # rest \<Rightarrow> if c = 10 then Some (acc, rest) else None | [] \<Rightarrow> None)
      else case hex_val b of Some d \<Rightarrow> read_hex (16 * acc + d) bs | None \<Rightarrow> None)"

lemma read_hex_shorter: "read_hex acc bs = Some (n, rest) \<Longrightarrow> length rest < length bs"
  by (induction acc bs rule: read_hex.induct) (fastforce split: if_splits list.splits option.splits)+

function dechunk :: "bytes \<Rightarrow> (bytes \<times> bytes) option" where
  "dechunk bs =
     (case read_hex 0 bs of
        None \<Rightarrow> None
      | Some (n, rest) \<Rightarrow>
          if n = 0 then (if take 2 rest = CRLF then Some ([], drop 2 rest) else None)
          else if take 2 (drop n rest) \<noteq> CRLF then None
          else map_option (\<lambda>(b, r). (take n rest @ b, r)) (dechunk (drop (n + 2) rest)))"
  by pat_completeness auto
termination
  by (relation "measure length") (auto dest: read_hex_shorter)

declare dechunk.simps [simp del]

lemma hex_val_digit: "d < 16 \<Longrightarrow> hex_val (byte_of_char (digit_char d)) = Some d \<and> byte_of_char (digit_char d) \<noteq> 13"
proof -
  assume "d < 16"
  then have "d \<in> set [0..<16]" by simp
  moreover have "list_all (\<lambda>d. hex_val (byte_of_char (digit_char d)) = Some d \<and> byte_of_char (digit_char d) \<noteq> 13) [0..<16]"
    by code_simp
  ultimately show ?thesis unfolding list_all_iff by blast
qed

lemma bytes_of_string_append [simp]: "bytes_of_string (s @ t) = bytes_of_string s @ bytes_of_string t"
  by (simp add: bytes_of_string_def)

lemma read_hex_itoa: "read_hex 0 (bytes_of_string (itoa_base 16 n) @ xs) = read_hex n xs"
proof (induction n arbitrary: xs rule: less_induct)
  case (less n)
  have digit: "read_hex acc (bytes_of_string [digit_char d] @ xs) = read_hex (16 * acc + d) xs" if "d < 16" for d acc xs
    using hex_val_digit [OF that] by (simp add: bytes_of_string_def)
  show ?case
  proof (cases "n < 16")
    case True
    then show ?thesis using digit [of n 0 xs] by (subst itoa_base.simps) simp
  next
    case False
    then have "read_hex 0 (bytes_of_string (itoa_base 16 (n div 16)) @ bytes_of_string [digit_char (n mod 16)] @ xs)
        = read_hex (n div 16) (bytes_of_string [digit_char (n mod 16)] @ xs)"
      by (intro less.IH) simp
    then show ?thesis using digit [of "n mod 16" "n div 16" xs] False by (subst itoa_base.simps) simp
  qed
qed

lemma read_hex_size: "read_hex 0 (bytes_of_string (itoa_hex n) @ CRLF @ xs) = Some (n, xs)"
  by (simp add: itoa_hex_def read_hex_itoa)

lemma dechunk_body:
  assumes "[] \<notin> set bs"
  shows "dechunk (concat (map chunk bs) @ last_chunk @ rest) = Some (concat bs, rest)"
  using assms
proof (induction bs)
  case Nil
  have "bytes_of_string ''0'' = bytes_of_string (itoa_hex 0)" by code_simp
  then show ?case using read_hex_size [of 0 "CRLF @ rest"]
    by (simp add: last_chunk_def dechunk.simps)
next
  case (Cons b bs)
  let ?tail = "concat (map chunk bs) @ last_chunk @ rest"
  have "length b \<noteq> 0" and IH: "dechunk ?tail = Some (concat bs, rest)" using Cons by auto
  then have "dechunk (bytes_of_string (itoa_hex (length b)) @ CRLF @ b @ CRLF @ ?tail) = Some (b @ concat bs, rest)"
    by (subst dechunk.simps) (simp only: read_hex_size, simp)
  then show ?case by (simp add: chunk_def [of b])
qed

lemma bodies_nonempty: "[] \<notin> set (bodies_of ops)"
  by (induction ops rule: bodies_of.induct) auto

section \<open>Responses on the engine's connection\<close>



end
