(* ===== verification/Http1_Server.thy ===== *)
theory Http1_Server
  imports Http1_Response Engine_Loop
begin

text \<open>
  \<^verbatim>\<open>ConnHandler\<close> of \<^verbatim>\<open>http/server.go\<close>: what a connection does with the bytes it reads. Every
  complete request goes to the application and is answered before the next one is parsed.

  The loop is written over any transport (\<open>put\<close> writes, \<open>close\<close> closes) and instantiated with
  the engine's connection in \<open>http_protocol\<close>. The application is a function from its state
  and the request to its new state and the operations it performs on the \<^verbatim>\<open>ResponseWriter\<close>.
  \<open>None\<close> is a panic or a loop that does not end.
\<close>

section \<open>Keep-alive\<close>

definition containsFold :: "string \<Rightarrow> string \<Rightarrow> bool" where
  "containsFold s sub =
     (if length sub = 0 then True
      else if length s < length sub then False
      else list_ex (\<lambda>i. equalFold (take (length sub) (drop i s)) sub) [0..<length s - length sub + 1])"

definition wantClose :: "string range_order \<Rightarrow> request \<Rightarrow> bool" where
  "wantClose rng r =
     (case Get rng r ''Connection'' of
        (_, False) \<Rightarrow> rq_Proto r \<noteq> ''HTTP/1.1''
      | (conn, True) \<Rightarrow>
          (let hasClose = containsFold conn ''close''; hasKeepAlive = containsFold conn ''keep-alive'' in
           if hasClose then True
           else if hasKeepAlive \<and> rq_Proto r \<noteq> ''HTTP/1.1'' then False
           else rq_Proto r \<noteq> ''HTTP/1.1''))"

section \<open>The connection handler\<close>

text \<open>The parts the code takes from elsewhere: the library parser, the transport, and the
  order in which Go visits a map of request fields and one of response fields.\<close>

record ('p, 's) http_env =
  he_lib :: "'p httparser"
  he_put :: "'s putter"
  he_close :: "'s \<Rightarrow> 's option"
  he_rng :: "string range_order"
  he_rngs :: "string list range_order"

record ('s, 'a) http_conn_handler =
  ch_handler :: "'a \<Rightarrow> request \<Rightarrow> 'a \<times> resp_op list"
  ch_maxHeaderSize :: int
  ch_onUpgrade :: "('s \<Rightarrow> 'a \<Rightarrow> request \<Rightarrow> ('s \<times> 'a) option) option"

definition NewConnHandler_http :: "('a \<Rightarrow> request \<Rightarrow> 'a \<times> resp_op list) \<Rightarrow> int \<Rightarrow> ('s, 'a) http_conn_handler" where
  "NewConnHandler_http h maxHeaderSize = \<lparr>ch_handler = h, ch_maxHeaderSize = maxHeaderSize, ch_onUpgrade = None\<rparr>"

definition OnUpgrade_http ::
  "('s, 'a) http_conn_handler \<Rightarrow> ('s \<Rightarrow> 'a \<Rightarrow> request \<Rightarrow> ('s \<times> 'a) option) \<Rightarrow> ('s, 'a) http_conn_handler" where
  "OnUpgrade_http ch f = ch\<lparr>ch_onUpgrade := Some f\<rparr>"

record 'p http_state =
  hs_parser :: "'p http_parser"
  hs_w :: "response_writer option"

definition newState :: "'p httparser \<Rightarrow> ('s, 'a) http_conn_handler \<Rightarrow> 'p http_state" where
  "newState lib ch = \<lparr>hs_parser = NewParser lib (ch_maxHeaderSize ch), hs_w = None\<rparr>"

text \<open>\<open>state\<close>: the connection's state, made when it is not there yet.\<close>

definition state_of :: "'p httparser \<Rightarrow> ('s, 'a) http_conn_handler \<Rightarrow> 'p http_state option \<Rightarrow> 'p http_state" where
  "state_of lib ch ud = (case ud of Some st \<Rightarrow> st | None \<Rightarrow> newState lib ch)"

definition OnOpen_http ::
  "'p httparser \<Rightarrow> ('s, 'a) http_conn_handler \<Rightarrow> 'p http_state option \<Rightarrow> 'p http_state option" where
  "OnOpen_http lib ch ud = (if ud = None then Some (newState lib ch) else ud)"

definition writer_of :: "'p http_state \<Rightarrow> response_writer" where
  "writer_of st = (case hs_w st of None \<Rightarrow> blank_writer | Some w \<Rightarrow> w)"

definition error_response :: "int \<Rightarrow> bytes" where
  "error_response code = bytes_of_string (''HTTP/1.1 '' @ itoa_int code @ '' '' @ StatusText code) @ CRLF
     @ bytes_of_string ''Content-Length: 0'' @ CRLF @ bytes_of_string ''Connection: close'' @ CRLF @ CRLF"

text \<open>\<open>writeError\<close>: what \<^verbatim>\<open>WriteRaw\<close> returns is dropped.\<close>

definition writeError ::
  "('p, 's) http_env \<Rightarrow> 's \<Rightarrow> 'p http_state \<Rightarrow> int \<Rightarrow> ('s \<times> 'p http_state) option" where
  "writeError env s st code =
     (let w = WriteHeader (reset_writer (writer_of st)) code in
      Option.bind (WriteRaw_resp (he_put env) s (error_response code)) (\<lambda>(s, _).
      Option.bind (he_close env s) (\<lambda>s.
        Some (s, st\<lparr>hs_w := Some w\<rparr>))))"

datatype http_result_err = HttpErr http_err | IoErr io_err

text \<open>The loop of \<open>OnData\<close>. A slice from a negative index panics; \<open>Request\<close> of a message that
  is done is never nil.\<close>

partial_function (option) OnData_loop ::
  "('p, 's) http_env \<Rightarrow> ('s, 'a) http_conn_handler \<Rightarrow> bytes \<Rightarrow> int \<Rightarrow> 's \<Rightarrow> 'p http_state \<Rightarrow> 'a
   \<Rightarrow> (('s \<times> 'p http_state \<times> 'a) \<times> int \<times> http_result_err option) option" where
  "OnData_loop env ch buf used s st a =
     (if \<not> used < int (length buf) then Some ((s, st, a), used, None)
      else if used < 0 then None
      else case Parse_http (he_lib env) (he_rng env) (hs_parser st) (drop (nat used) buf) of
        (p, n, err) \<Rightarrow>
          let st = st\<lparr>hs_parser := p\<rparr> in
          if err \<noteq> None then
            Option.bind (writeError env s st 400) (\<lambda>(s, st).
              Some ((s, st, a), int (length buf), map_option HttpErr err))
          else
            let used = used + n in
            if \<not> pr_done p then Some ((s, st, a), used, None)
            else Option.bind (Request_of p) (\<lambda>req.
              if pr_upgrade p then
                (case ch_onUpgrade ch of
                   Some f \<Rightarrow> Option.bind (f s a req) (\<lambda>(s, a). Some ((s, st, a), used, None))
                 | None \<Rightarrow> Option.bind (writeError env s st 400) (\<lambda>(s, st).
                     Some ((s, st, a), used, Some (HttpErr ErrNoUpgrade))))
              else
                case ch_handler ch a req of
                  (a, ops) \<Rightarrow>
                    Option.bind (respond (he_put env) (he_rngs env) (writer_of st) s ops) (\<lambda>((w, s), err).
                      let st = st\<lparr>hs_w := Some w\<rparr> in
                      if err \<noteq> None then Some ((s, st, a), used, map_option IoErr err)
                      else if wantClose (he_rng env) req then
                        Option.bind (he_close env s) (\<lambda>s. Some ((s, st, a), int (length buf), None))
                      else OnData_loop env ch buf used s
                             (st\<lparr>hs_parser := Reset_parser (he_lib env) (hs_parser st)\<rparr>) a)))"

definition OnData_http ::
  "('p, 's) http_env \<Rightarrow> ('s, 'a) http_conn_handler \<Rightarrow> 's \<Rightarrow> 'p http_state option \<Rightarrow> 'a \<Rightarrow> bytes
   \<Rightarrow> (('s \<times> 'p http_state option \<times> 'a) \<times> int \<times> http_result_err option) option" where
  "OnData_http env ch s ud a buf =
     map_option (\<lambda>((s, st, a), r). ((s, Some st, a), r))
       (OnData_loop env ch buf 0 s (state_of (he_lib env) ch ud) a)"

text \<open>The handler as the engine calls it. \<open>c.Close()\<close> runs \<open>OnClose\<close>, which does nothing here.\<close>

fun http_err_text :: "http_err \<Rightarrow> string" where
  "http_err_text ErrHeaderTooLarge = ''http: header too large''"
| "http_err_text ErrBadMessage = ''http: malformed message''"
| "http_err_text (BadMessage e) = ''http: malformed message'' @ [CHR 0x0A] @ e"
| "http_err_text ErrNoUpgrade = ''http: upgrade request but no handler''"

fun engine_err :: "http_result_err \<Rightarrow> io_err" where
  "engine_err (HttpErr e) = OtherErr (http_err_text e)"
| "engine_err (IoErr e) = e"

definition engine_env ::
  "pool \<Rightarrow> write_hook \<Rightarrow> 'p httparser \<Rightarrow> string range_order \<Rightarrow> string list range_order \<Rightarrow> ('p, econn) http_env" where
  "engine_env pool hook lib rng rngs =
     \<lparr>he_lib = lib, he_put = Write_conn pool hook, he_close = (\<lambda>c. map_option fst (close_conn c)),
      he_rng = rng, he_rngs = rngs\<rparr>"

definition http_protocol ::
  "('p, econn) http_env \<Rightarrow> (econn, 'a) http_conn_handler \<Rightarrow> ('p http_state option \<times> 'a) protocol_handler" where
  "http_protocol env ch =
     \<lparr>ph_OnOpen = (\<lambda>c (ud, a). Some (c, OnOpen_http (he_lib env) ch ud, a)),
      ph_OnData = (\<lambda>c (ud, a) buf.
        map_option (\<lambda>((c, ud, a), n, err). ((c, ud, a), n, map_option engine_err err)) (OnData_http env ch c ud a buf)),
      ph_OnClose = (\<lambda>c h e. Some (c, h))\<rparr>"

section \<open>Keep-alive as the standard says it\<close>

definition mentions :: "string \<Rightarrow> string \<Rightarrow> bool" where
  "mentions s t = (\<exists>pre mid post. s = pre @ mid @ post \<and> map fold_char mid = map fold_char t)"

lemma containsFold_iff: "containsFold s sub = mentions s sub"
proof
  assume "containsFold s sub"
  then consider "sub = []" | i where "equalFold (take (length sub) (drop i s)) sub"
    unfolding containsFold_def list_ex_iff by (metis length_0_conv)
  then show "mentions s sub"
  proof cases
    case 1
    then show ?thesis by (auto simp: mentions_def)
  next
    case 2
    have "s = take i s @ take (length sub) (drop i s) @ drop (length sub) (drop i s)"
      by (simp only: append_take_drop_id)
    then show ?thesis using 2 unfolding mentions_def equalFold_iff by blast
  qed
next
  assume "mentions s sub"
  then obtain pre mid post where s: "s = pre @ mid @ post" "map fold_char mid = map fold_char sub"
    unfolding mentions_def by blast
  then have l: "length mid = length sub" using map_eq_imp_length_eq by blast
  then have "equalFold (take (length sub) (drop (length pre) s)) sub" using s by (simp add: equalFold_iff)
  moreover have "length pre < length s - length sub + 1" "length sub \<le> length s" using s(1) l by simp_all
  moreover from this have "length pre \<in> set [0..<length s - length sub + 1]" "\<not> length s < length sub" by (simp_all del: upt_Suc)
  ultimately show "containsFold s sub" unfolding containsFold_def list_ex_iff by metis
qed

definition connection_says :: "request \<Rightarrow> string \<Rightarrow> bool" where
  "connection_says r t = (\<exists>k v. (k, v) \<in> set (rq_Header r) \<and> equalFold k ''Connection'' \<and> mentions v t)"



section \<open>A buffer of requests\<close>

text \<open>What the code relies on of the library parser, for a buffer that holds the messages
  \<open>ms\<close> and then \<open>tail\<close>, a message that is not complete (each message with the callbacks it
  makes): started on the state \<open>p\<close> it makes the first message's callbacks and then the one
  that says it is complete, at its last byte; what it does with the rest of the buffer is
  left open, because the code parses it again. After \<open>Reset\<close> it is as good as new.\<close>

fun incomplete :: "http_event \<Rightarrow> bool" where
  "incomplete (EvMessageComplete _ _) = False"
| "incomplete _ = True"

type_synonym http_message = "bytes \<times> http_event list"

fun lib_reads :: "'p httparser \<Rightarrow> 'p \<Rightarrow> 'p \<Rightarrow> http_message list \<Rightarrow> bytes \<Rightarrow> bool" where
  "lib_reads lib fresh p [] tail = True"
| "lib_reads lib fresh p ((b, evs) # ms) tail =
     (b \<noteq> [] \<and> list_all incomplete evs
      \<and> (\<exists>p' extra n. hp_Execute lib p (b @ concat (map fst ms) @ tail)
           = (p', evs @ EvMessageComplete (int (length b) - 1) False # extra, n, None))
      \<and> lib_reads lib fresh fresh ms tail)"

definition lib_waits :: "'p httparser \<Rightarrow> 'p \<Rightarrow> bytes \<Rightarrow> http_event list \<Rightarrow> nat \<Rightarrow> 'p \<Rightarrow> bool" where
  "lib_waits lib p tail evs n p' =
     (list_all incomplete evs \<and> (if tail = [] then evs = [] \<and> n = 0 \<and> p' = p
      else hp_Execute lib p tail = (p', evs, n, None) \<and> n \<le> length tail))"

definition resets :: "'p httparser \<Rightarrow> int \<Rightarrow> bool" where
  "resets lib mx = (\<forall>p. hp_SetMaxHeaderSize lib (hp_Reset lib p) mx = hp_SetMaxHeaderSize lib (hp_New lib) mx)"

definition built :: "string range_order \<Rightarrow> 'p http_parser \<Rightarrow> http_event list \<Rightarrow> 'p http_parser" where
  "built rng p evs = fold (on_http_event rng) evs p"

fun requests_of :: "string range_order \<Rightarrow> 'p http_parser \<Rightarrow> 'p http_parser \<Rightarrow> http_message list \<Rightarrow> request list" where
  "requests_of rng fresh p [] = []"
| "requests_of rng fresh p ((b, evs) # ms) = pr_req (built rng p evs) # requests_of rng fresh fresh ms"

fun answers :: "('a \<Rightarrow> request \<Rightarrow> 'a \<times> resp_op list) \<Rightarrow> 'a \<Rightarrow> request list \<Rightarrow> 'a \<times> resp_op list list" where
  "answers h a [] = (a, [])"
| "answers h a (r # rs) = (case h a r of (a, ops) \<Rightarrow> case answers h a rs of (a, opss) \<Rightarrow> (a, ops # opss))"

lemma on_http_event_frame [simp]:
  "pr_maxHeaderSize (on_http_event rng ev p) = pr_maxHeaderSize p"
  "pr_p (on_http_event rng ev p) = pr_p p"
  "incomplete ev \<Longrightarrow> pr_done (on_http_event rng ev p) = pr_done p"
  "incomplete ev \<Longrightarrow> pr_upgrade (on_http_event rng ev p) = pr_upgrade p"
  by (cases ev; auto simp: on_http_event_def on_header_value_def on_headers_complete_def Let_def
      split: option.splits prod.splits bool.splits)+

lemma on_http_event_lib:
  "on_http_event rng ev (p\<lparr>pr_p := x\<rparr>) = (on_http_event rng ev p)\<lparr>pr_p := x\<rparr>"
  by (cases ev) (auto simp: on_http_event_def on_header_value_def on_headers_complete_def Let_def
      split: option.splits prod.splits bool.splits)

lemma built_frame:
  "pr_maxHeaderSize (built rng p evs) = pr_maxHeaderSize p" "pr_p (built rng p evs) = pr_p p"
  "list_all incomplete evs \<Longrightarrow> pr_done (built rng p evs) = pr_done p"
  "list_all incomplete evs \<Longrightarrow> pr_upgrade (built rng p evs) = pr_upgrade p"
  unfolding built_def by (induction evs arbitrary: p) simp_all

lemma built_lib: "built rng (p\<lparr>pr_p := x\<rparr>) evs = (built rng p evs)\<lparr>pr_p := x\<rparr>"
  unfolding built_def by (induction evs arbitrary: p) (simp_all add: on_http_event_lib)

lemma Parse_message:
  assumes "\<not> pr_done p" and "\<not> pr_upgrade p" and "list_all incomplete evs"
    and "hp_Execute lib (pr_p p) buf = (h, evs @ EvMessageComplete off False # extra, n, None)"
  shows "\<exists>q. Parse_http lib rng p buf = (q, off + 1, None) \<and> pr_done q \<and> \<not> pr_upgrade q
    \<and> Request_of q = Some (pr_req (built rng p evs)) \<and> pr_maxHeaderSize q = pr_maxHeaderSize p"
proof -
  define p1 where "p1 = built rng (p\<lparr>pr_p := h\<rparr>) evs"
  define q where "q = p1\<lparr>pr_done := True, pr_endOffset := off\<rparr>"
  have p1: "\<not> pr_done p1" "\<not> pr_upgrade p1" "pr_req p1 = pr_req (built rng p evs)"
      "pr_maxHeaderSize p1 = pr_maxHeaderSize p"
    unfolding p1_def built_lib using assms(1-3) by (simp_all add: built_frame)
  have "fold (on_http_event rng) (evs @ EvMessageComplete off False # extra) (p\<lparr>pr_p := h\<rparr>) = q"
    using p1(1,2) by (simp add: p1_def [unfolded built_def, symmetric], simp add: on_http_event_def fold_done q_def Let_def)
  then have "Parse_http lib rng p buf = (q, off + 1, None)"
    using assms(1,4) by (simp add: Parse_http_def q_def)
  then show ?thesis using p1 by (simp add: q_def Request_of_def)
qed

lemma Parse_waits:
  assumes "\<not> pr_done p" and "lib_waits lib (pr_p p) tail evs n h" and "tail \<noteq> []"
  shows "Parse_http lib rng p tail = ((built rng p evs)\<lparr>pr_p := h\<rparr>, int n, None)"
  using assms built_frame(3) [of evs rng p] built_lib [where p = p and x = h]
  by (simp add: Parse_http_def lib_waits_def built_def)

lemma Reset_fresh:
  assumes "resets lib (pr_maxHeaderSize (NewParser lib mx))" and "pr_maxHeaderSize q = pr_maxHeaderSize (NewParser lib mx)"
  shows "Reset_parser lib q = NewParser lib mx"
  using assms by (simp add: Reset_parser_def NewParser_def resets_def Let_def)

text \<open>Where the parser stands after the messages, and after the bytes of the next one.\<close>

definition parser_after :: "string range_order \<Rightarrow> 'p http_parser \<Rightarrow> 'p http_parser \<Rightarrow> http_message list
    \<Rightarrow> http_event list \<Rightarrow> 'p \<Rightarrow> 'p http_parser" where
  "parser_after rng fresh p ms evs h = (built rng (if ms = [] then p else fresh) evs)\<lparr>pr_p := h\<rparr>"

context byte_sink
begin

lemma OnData_loop_answers:
  assumes "sink_ok s" and "he_put env = put" and lib: "lib = he_lib env" and rng: "rng = he_rng env"
    and fresh: "fresh = NewParser lib mx" and "resets lib (pr_maxHeaderSize fresh)"
    and "hs_parser st = p" and "\<not> pr_done p" and "\<not> pr_upgrade p" and "pr_maxHeaderSize p = pr_maxHeaderSize fresh"
    and "lib_reads lib (pr_p fresh) (pr_p p) ms tail"
    and "lib_waits lib (pr_p (if ms = [] then p else fresh)) tail evs n h"
    and "drop used buf = concat (map fst ms) @ tail" and "used \<le> length buf"
    and "answers (ch_handler ch) a (requests_of rng fresh p ms) = (a', opss)"
    and "list_all (list_all (\<lambda>x. \<not> is_raw x)) opss"
    and "list_all (\<lambda>r. \<not> wantClose rng r) (requests_of rng fresh p ms)"
  shows "\<exists>s' st'. OnData_loop env ch buf (int used) s st a
      = Some ((s', st', a'), int (used + length (concat (map fst ms)) + n), None)
    \<and> sink_ok s' \<and> out s' = out s @ concat (map (response_bytes (he_rngs env)) opss)
    \<and> hs_parser st' = parser_after rng fresh p ms evs h"
  using assms(1,7-17)
proof (induction ms arbitrary: used s st p a opss)
  case Nil
  have buf: "drop used buf = tail" "opss = []" "a' = a" using Nil.prems by simp_all
  show ?case
  proof (cases "tail = []")
    case True
    then have "used = length buf" using buf Nil.prems by simp
    then show ?thesis using Nil.prems True
      by (subst OnData_loop.simps) (auto simp: lib_waits_def parser_after_def built_def)
  next
    case False
    then have "int used < int (length buf)" using buf by (metis drop_all linorder_not_le of_nat_less_iff)
    moreover have "Parse_http lib rng p tail = ((built rng p evs)\<lparr>pr_p := h\<rparr>, int n, None)"
      using Parse_waits [OF Nil.prems(3) _ False] Nil.prems(7) by simp
    moreover have "\<not> pr_done (built rng p evs)"
      using Nil.prems(3,7) by (simp add: lib_waits_def built_frame)
    ultimately show ?thesis using Nil.prems(1,2) buf
      by (subst OnData_loop.simps) (simp add: lib [symmetric] rng [symmetric] parser_after_def)
  qed
next
  case (Cons m ms)
  obtain b es where m: "m = (b, es)" by fastforce
  let ?rest = "concat (map fst ms) @ tail"
  obtain p' extra k where b: "b \<noteq> []" "list_all incomplete es"
      "hp_Execute lib (pr_p p) (b @ ?rest) = (p', es @ EvMessageComplete (int (length b) - 1) False # extra, k, None)"
      "lib_reads lib (pr_p fresh) (pr_p fresh) ms tail"
    using Cons.prems(6) m by auto
  have d: "drop used buf = b @ ?rest" using Cons.prems(8) m by simp
  then have l: "used + length b + length ?rest = length buf"
    using Cons.prems(9) by (metis add.assoc le_add_diff_inverse length_append length_drop)
  obtain q where q: "Parse_http lib rng p (b @ ?rest) = (q, int (length b), None)" "pr_done q" "\<not> pr_upgrade q"
      "Request_of q = Some (pr_req (built rng p es))" "pr_maxHeaderSize q = pr_maxHeaderSize p"
    using Parse_message [OF Cons.prems(3,4) b(2,3), of rng] by auto
  let ?req = "pr_req (built rng p es)"
  obtain a1 ops where h: "ch_handler ch a ?req = (a1, ops)" by fastforce
  obtain opss' where o: "answers (ch_handler ch) a1 (requests_of rng fresh fresh ms) = (a', opss')" "opss = ops # opss'"
    using Cons.prems(10) m h by (auto split: prod.splits)
  obtain w1 s1 where r: "respond put (he_rngs env) (writer_of (st\<lparr>hs_parser := q\<rparr>)) s ops = Some ((w1, s1), None)"
      "sink_ok s1" "out s1 = out s @ response_bytes (he_rngs env) ops"
    using respond_appends [OF Cons.prems(1), of ops] Cons.prems(11) o(2) by fastforce
  define st1 where "st1 = st\<lparr>hs_w := Some w1, hs_parser := fresh\<rparr>"
  have less: "int used < int (length buf)" using l b(1) by (cases b) simp_all
  have reset: "Reset_parser lib q = fresh"
    using Reset_fresh [of lib mx q] assms(6) q(5) Cons.prems(5) by (simp add: fresh)
  have "\<not> wantClose rng ?req" using Cons.prems(12) m by simp
  then have step: "OnData_loop env ch buf (int used) s st a = OnData_loop env ch buf (int (used + length b)) s1 st1 a1"
    using q r(1) h reset less Cons.prems(2) d
    by (subst OnData_loop.simps)
      (simp add: lib [symmetric] rng [symmetric] assms(2) st1_def)
  have fr: "\<not> pr_done fresh" "\<not> pr_upgrade fresh" by (simp_all add: fresh NewParser_def Let_def)
  have last: "lib_waits lib (pr_p (if ms = [] then fresh else fresh)) tail evs n h" using Cons.prems(7) by simp
  have dr: "drop (used + length b) buf = ?rest" using d by (metis add.commute append_eq_conv_conj drop_drop)
  have "\<exists>s' st'. OnData_loop env ch buf (int (used + length b)) s1 st1 a1
      = Some ((s', st', a'), int (used + length b + length (concat (map fst ms)) + n), None)
    \<and> sink_ok s' \<and> out s' = out s1 @ concat (map (response_bytes (he_rngs env)) opss')
    \<and> hs_parser st' = parser_after rng fresh fresh ms evs h"
    by (rule Cons.IH [OF r(2) _ fr _ b(4) last dr _ o(1)])
      (use Cons.prems(11,12) o(2) m l in \<open>simp_all add: st1_def\<close>)
  then show ?case using step r(3) o(2) m by (auto simp: parser_after_def)
qed

end

section \<open>The loop ends\<close>

text \<open>The library stays inside its buffer: it takes at most what it was given, and says that a
  message is complete at an index of the buffer.\<close>

definition ends_in :: "nat \<Rightarrow> http_event \<Rightarrow> bool" where
  "ends_in len ev = (case ev of EvMessageComplete off _ \<Rightarrow> 0 \<le> off \<and> off < int len | _ \<Rightarrow> True)"

definition lib_bounded :: "'p httparser \<Rightarrow> bool" where
  "lib_bounded lib = (\<forall>p buf. case hp_Execute lib p buf of
     (p', evs, n, err) \<Rightarrow> n \<le> length buf \<and> list_all (ends_in (length buf)) evs)"

lemma fold_endOffset:
  assumes "list_all (ends_in len) evs" and "pr_done p \<longrightarrow> 0 \<le> pr_endOffset p \<and> pr_endOffset p < int len"
  shows "pr_done (fold (on_http_event rng) evs p) \<longrightarrow> 0 \<le> pr_endOffset (fold (on_http_event rng) evs p)
    \<and> pr_endOffset (fold (on_http_event rng) evs p) < int len"
  using assms
proof (induction evs arbitrary: p)
  case (Cons ev evs)
  let ?q = "on_http_event rng ev p"
  have "pr_done ?q \<longrightarrow> 0 \<le> pr_endOffset ?q \<and> pr_endOffset ?q < int len"
  proof (cases "incomplete ev \<and> \<not> pr_done p")
    case False
    then show ?thesis using Cons.prems by (cases ev) (auto simp: on_http_event_def ends_in_def Let_def)
  qed simp
  then show ?case using Cons.IH [of ?q] Cons.prems(1) by simp
qed simp

lemma Parse_http_bounded:
  assumes "lib_bounded lib" and "Parse_http lib rng p buf = (q, n, None)"
  shows "0 \<le> n \<and> n \<le> int (length buf) \<and> (pr_done q \<longrightarrow> 0 < n \<and> Request_of q \<noteq> None)"
proof -
  obtain h evs k err where e: "hp_Execute lib (pr_p p) buf = (h, evs, k, err)" by (metis prod_cases4)
  have b: "k \<le> length buf" "list_all (ends_in (length buf)) evs"
    using spec [OF spec [OF assms(1) [unfolded lib_bounded_def], of "pr_p p"], of buf] e by simp_all
  have "\<not> pr_done p" using assms(2) by (auto simp: Parse_http_def)
  then show ?thesis
    using assms(2) e b fold_endOffset [of "length buf" evs "p\<lparr>pr_p := h\<rparr>" rng]
    by (auto simp: Parse_http_def Request_of_def Let_def split: option.splits if_splits)
qed

context transport
begin

lemma writeError_returns:
  assumes "sink_ok s" and "he_put env = put" and "he_close env = close"
  shows "\<exists>s' st'. writeError env s st code = Some (s', st') \<and> is_closed s'"
proof -
  obtain s1 where s1: "put s (error_response code) = Some (s1, None)" "sink_ok s1"
    using put_appends [OF assms(1)] by blast
  obtain s2 where "close s1 = Some s2" "is_closed s2" using close_closes [OF s1(2)] by blast
  then show ?thesis using s1 assms by (simp add: writeError_def WriteRaw_resp_def)
qed

text \<open>A handler of Upgrade requests that leaves the transport usable or closes it.\<close>

definition upgrade_ok :: "('s \<Rightarrow> 'a \<Rightarrow> request \<Rightarrow> ('s \<times> 'a) option) option \<Rightarrow> bool" where
  "upgrade_ok up = (\<forall>f s a req. up = Some f \<and> sink_ok s
     \<longrightarrow> (\<exists>s' a'. f s a req = Some (s', a') \<and> (sink_ok s' \<or> is_closed s')))"

lemma OnData_loop_returns:
  assumes "sink_ok s" and "he_put env = put" and "he_close env = close" and "lib_bounded (he_lib env)"
    and "upgrade_ok (ch_onUpgrade ch)" and "0 \<le> used" and "used \<le> int (length buf)"
  shows "\<exists>s' st' a' n err. OnData_loop env ch buf used s st a = Some ((s', st', a'), n, err)
    \<and> 0 \<le> n \<and> n \<le> int (length buf) \<and> (sink_ok s' \<or> is_closed s')"
  using assms(1,6,7)
proof (induction "nat (int (length buf) - used)" arbitrary: used s st a rule: less_induct)
  case less
  show ?case
  proof (cases "used < int (length buf)")
    case False
    then show ?thesis using less.prems by (subst OnData_loop.simps) auto
  next
    case True
    let ?rest = "drop (nat used) buf"
    have rest: "int (length ?rest) = int (length buf) - used" using less.prems by simp
    obtain p n err where p: "Parse_http (he_lib env) (he_rng env) (hs_parser st) ?rest = (p, n, err)"
      by (rule prod_cases3)
    let ?st = "st\<lparr>hs_parser := p\<rparr>"
    show ?thesis
    proof (cases err)
      case (Some e)
      then show ?thesis using p True less.prems writeError_returns [OF less.prems(1) assms(2,3), of ?st 400]
        by (subst OnData_loop.simps) auto
    next
      case None
      note n = Parse_http_bounded [OF assms(4) p [unfolded None]]
      show ?thesis
      proof (cases "pr_done p")
        case False
        then show ?thesis using p None True less.prems n rest by (subst OnData_loop.simps) auto
      next
        case compl: True
        then obtain req where req: "Request_of p = Some req" using n by auto
        show ?thesis
        proof (cases "pr_upgrade p")
          case up: True
          show ?thesis
          proof (cases "ch_onUpgrade ch")
            case None
            then show ?thesis using p \<open>err = None\<close> True less.prems n rest compl req up
                writeError_returns [OF less.prems(1) assms(2,3), of ?st 400]
              by (subst OnData_loop.simps) auto
          next
            case (Some f)
            then obtain s' a' where "f s a req = Some (s', a')" "sink_ok s' \<or> is_closed s'"
              using assms(5) less.prems(1) unfolding upgrade_ok_def by blast
            then show ?thesis using p None True less.prems n rest compl req up Some
              by (subst OnData_loop.simps) auto
          qed
        next
          case no_up: False
          obtain a1 ops where h: "ch_handler ch a req = (a1, ops)" by fastforce
          obtain w1 s1 where r: "respond put (he_rngs env) (writer_of ?st) s ops = Some ((w1, s1), None)" "sink_ok s1"
            using respond_returns [OF less.prems(1)] by blast
          show ?thesis
          proof (cases "wantClose (he_rng env) req")
            case want: True
            obtain s2 where "close s1 = Some s2" "is_closed s2" using close_closes [OF r(2)] by blast
            then show ?thesis using p None True less.prems compl req no_up h r want assms(2,3)
              by (subst OnData_loop.simps) auto
          next
            case keep: False
            let ?st1 = "?st\<lparr>hs_w := Some w1, hs_parser := Reset_parser (he_lib env) p\<rparr>"
            have step: "OnData_loop env ch buf used s st a = OnData_loop env ch buf (used + n) s1 ?st1 a1"
              using p None True less.prems compl req no_up h r keep assms(2)
              by (subst OnData_loop.simps) simp
            have "0 < n" "n \<le> int (length ?rest)" using n compl by blast+
            then have n': "0 < n" "n \<le> int (length buf) - used" unfolding rest .
            show ?thesis unfolding step by (rule less.hyps) (use n' less.prems r(2) True in simp_all)
          qed
        qed
      qed
    qed
  qed
qed

end

section \<open>On the engine's connection\<close>

lemma engine_env_simps [simp]:
  "he_lib (engine_env pool hook lib rng rngs) = lib" "he_rng (engine_env pool hook lib rng rngs) = rng"
  "he_rngs (engine_env pool hook lib rng rngs) = rngs"
  "he_put (engine_env pool None lib rng rngs) = WriteRaw_conn pool"
  "he_close (engine_env pool hook lib rng rngs) = (\<lambda>c. map_option fst (close_conn c))"
  by (simp_all add: engine_env_def) (intro ext, rule Write_no_hook)

definition between_requests :: "'p http_parser \<Rightarrow> 'p http_parser \<Rightarrow> bool" where
  "between_requests fresh p = (\<not> pr_done p \<and> \<not> pr_upgrade p \<and> pr_maxHeaderSize p = pr_maxHeaderSize fresh)"


text \<open>A library for the examples: a request is a line with its target.\<close>

definition line_lib :: "unit httparser" where
  "line_lib = \<lparr>hp_New = (), hp_SetMaxHeaderSize = (\<lambda>p _. p), hp_Reset = (\<lambda>p. p),
     hp_Execute = (\<lambda>p buf. let line = takeWhile (\<lambda>b. b \<noteq> 10) buf in
       if 10 \<in> set buf
       then (p, [EvURL line, EvHeadersComplete ''GET'' 1 1] @ EvMessageComplete (int (length line)) False # [],
             length buf, if 0 \<in> set line then Some ''NUL'' else None)
       else (p, [], 0, None))\<rparr>"

definition echo_target :: "nat \<Rightarrow> request \<Rightarrow> nat \<times> resp_op list" where
  "echo_target a r = (Suc a, [RWrite (bytes_of_string (rq_Target r))])"




lemma http_protocol_ok:
  assumes "lib_bounded lib" and "\<And>c. transport.upgrade_ok (sending_from c) (closed_from c) (ch_onUpgrade ch)"
  shows "protocol (http_protocol (engine_env pool None lib rng rngs) ch)"
proof
  fix c :: econn and h :: "'a http_state option \<times> 'b" and buf e
  obtain ud a where h: "h = (ud, a)" by fastforce
  let ?env = "engine_env pool None lib rng rngs"
  show "sending c \<Longrightarrow> \<exists>c' h'. ph_OnOpen (http_protocol ?env ch) c h = Some (c', h') \<and> sending c' \<and> same_read c c'"
    by (simp add: http_protocol_def h)
  show "ec_closed c \<Longrightarrow> \<exists>h'. ph_OnClose (http_protocol ?env ch) c h e = Some (c, h')"
    by (simp add: http_protocol_def)
  assume c: "sending_from c c"
  obtain c' st' a' n err where "OnData_loop ?env ch buf 0 c (state_of lib ch ud) a = Some ((c', st', a'), n, err)"
      "n \<le> int (length buf)" "sending_from c c' \<or> closed_from c c'"
    using from_conn.OnData_loop_returns [of c c ?env pool ch 0 buf "state_of lib ch ud" a] c assms by auto
  then show "\<exists>c' h' n err. ph_OnData (http_protocol ?env ch) c h buf = Some ((c', h'), n, err)
      \<and> (sending_from c c' \<or> closed_from c c') \<and> n \<le> int (length buf)"
    by (simp add: http_protocol_def h OnData_http_def)
qed

lemma line_lib_bounded: "lib_bounded line_lib"
proof -
  have "takeWhile (\<lambda>b. b \<noteq> 10) buf \<noteq> buf" if "(10 :: byte) \<in> set buf" for buf
    using that by (metis set_takeWhileD)
  then have "length (takeWhile (\<lambda>b. b \<noteq> 10) buf) < length buf" if "(10 :: byte) \<in> set buf" for buf
    using that by (metis length_takeWhile_le nat_less_le takeWhile_eq_take take_all)
  then show ?thesis by (auto simp: lib_bounded_def line_lib_def ends_in_def Let_def)
qed

interpretation http_conn: protocol "http_protocol (engine_env pool None line_lib id id) (NewConnHandler_http h mx)"
  for pool h mx
  by (rule http_protocol_ok [OF line_lib_bounded]) (simp add: from_conn.upgrade_ok_def NewConnHandler_http_def)



end
