(* ===== verification/Tls_Record.thy ===== *)
theory Tls_Record
  imports Framing
begin

text \<open>
  The record layer and the handshake framing of TLS 1.3, \<^verbatim>\<open>tls/record.go\<close>. Both parsers run
  the loop of \<open>Framing\<close>. The record parser leaves an incomplete record with its caller; the
  handshake parser keeps an incomplete message, because a message may run over several
  records.
\<close>

section \<open>Constants and errors\<close>

abbreviation recordChangeCipherSpec :: byte where "recordChangeCipherSpec \<equiv> 20"
abbreviation recordAlert :: byte where "recordAlert \<equiv> 21"
abbreviation recordHandshake :: byte where "recordHandshake \<equiv> 22"
abbreviation recordApplicationData :: byte where "recordApplicationData \<equiv> 23"

abbreviation recordHeaderLen :: nat where "recordHeaderLen \<equiv> 5"
abbreviation maxRecordPayload :: nat where "maxRecordPayload \<equiv> 16384"
abbreviation maxCiphertextLen :: nat where "maxCiphertextLen \<equiv> maxRecordPayload + 256"

abbreviation hsClientHello :: byte where "hsClientHello \<equiv> 1"
abbreviation hsServerHello :: byte where "hsServerHello \<equiv> 2"
abbreviation hsNewSessionTicket :: byte where "hsNewSessionTicket \<equiv> 4"
abbreviation hsEncryptedExtensions :: byte where "hsEncryptedExtensions \<equiv> 8"
abbreviation hsCertificate :: byte where "hsCertificate \<equiv> 11"
abbreviation hsCertificateVerify :: byte where "hsCertificateVerify \<equiv> 15"
abbreviation hsFinished :: byte where "hsFinished \<equiv> 20"
abbreviation hsKeyUpdate :: byte where "hsKeyUpdate \<equiv> 24"

abbreviation handshakeHeaderLen :: nat where "handshakeHeaderLen \<equiv> 4"

text \<open>The errors of the package. The string is what is appended to the text of a sentinel,
  or the whole text of an error that has none; \<open>NilPanic\<close> stands for a nil pointer
  dereference.\<close>

datatype tls_err =
    ErrRecordTooLarge string
  | ErrBadHandshake string
  | ErrBadClientHello
  | ErrBadServerHello
  | ErrNoSharedCipher
  | ErrHandshakeIncomplete
  | ErrAEADOpen string
  | ErrAEADNotReady
  | ErrSequenceLimit
  | FatalAlert byte
  | TlsErr string
  | NilPanic

section \<open>Records\<close>

record tls_record =
  tr_Type :: byte
  tr_Version :: u16
  tr_Payload :: bytes

definition split_record :: "bytes \<Rightarrow> (tls_record, tls_err) split_res" where
  "split_record b =
     (case b of
        t # v1 # v0 # l1 # l0 # rest \<Rightarrow>
          (let len = unat (get16 l1 l0) in
           if len > maxCiphertextLen then
             Bad (ErrRecordTooLarge ('': '' @ itoa len @ '' > '' @ itoa maxCiphertextLen))
           else if length rest < len then NeedMore
           else Got \<lparr>tr_Type = t, tr_Version = get16 v1 v0, tr_Payload = take len rest\<rparr> (recordHeaderLen + len))
      | _ \<Rightarrow> NeedMore)"

record record_parser =
  rp_buf :: bytes

definition NewRecordParser :: record_parser where
  "NewRecordParser = \<lparr>rp_buf = []\<rparr>"

definition Reset_records :: "record_parser \<Rightarrow> record_parser" where
  "Reset_records p = p\<lparr>rp_buf := []\<rparr>"

definition Buffered_records :: "record_parser \<Rightarrow> nat" where
  "Buffered_records p = length (rp_buf p)"

definition Parse_records ::
  "record_parser \<Rightarrow> ('s \<Rightarrow> tls_record \<Rightarrow> 's \<times> tls_err option) \<Rightarrow> 's \<Rightarrow> bytes
   \<Rightarrow> nat \<times> tls_err option \<times> record_parser \<times> 's" where
  "Parse_records p fn s dat =
     (case frame_loop split_record fn 0 s dat of (consumed, err, s) \<Rightarrow> (consumed, err, p, s))"

definition AppendRecord :: "bytes \<Rightarrow> byte \<Rightarrow> u16 \<Rightarrow> bytes \<Rightarrow> bytes" where
  "AppendRecord dst rtype version payload =
     dst @ [rtype] @ put16 version @ put16n (length payload) @ payload"

section \<open>Handshake messages\<close>

record handshake =
  hs_Type :: byte
  hs_Payload :: bytes

definition split_handshake :: "bytes \<Rightarrow> (handshake, tls_err) split_res" where
  "split_handshake b =
     (case b of
        t # l2 # l1 # l0 # rest \<Rightarrow>
          (let len = unat (get24 l2 l1 l0) in
           if len > 2 ^ 20 then Bad (ErrBadHandshake ('': handshake message '' @ itoa len @ '' bytes''))
           else if length rest < len then NeedMore
           else Got \<lparr>hs_Type = t, hs_Payload = take len rest\<rparr> (handshakeHeaderLen + len))
      | _ \<Rightarrow> NeedMore)"

record handshake_parser =
  hp_buf :: bytes

definition NewHandshakeParser :: handshake_parser where
  "NewHandshakeParser = \<lparr>hp_buf = []\<rparr>"

definition Reset_handshakes :: "handshake_parser \<Rightarrow> handshake_parser" where
  "Reset_handshakes p = p\<lparr>hp_buf := []\<rparr>"

definition Buffered_handshakes :: "handshake_parser \<Rightarrow> nat" where
  "Buffered_handshakes p = length (hp_buf p)"

definition Parse_handshakes ::
  "handshake_parser \<Rightarrow> ('s \<Rightarrow> handshake \<Rightarrow> 's \<times> tls_err option) \<Rightarrow> 's \<Rightarrow> bytes
   \<Rightarrow> nat \<times> tls_err option \<times> handshake_parser \<times> 's" where
  "Parse_handshakes p fn s dat =
     (let oldLen = length (hp_buf p);
          work = (if oldLen > 0 then hp_buf p @ dat else dat);
          (consumed, err, s) = frame_loop split_handshake fn 0 s work;
          p = p\<lparr>hp_buf := drop consumed work\<rparr>;
          n = int consumed - int oldLen;
          n = (if n < 0 then 0 else n);
          n = (if n > int (length dat) then int (length dat) else n)
      in (nat n, err, p, s))"

definition AppendHandshake :: "bytes \<Rightarrow> byte \<Rightarrow> bytes \<Rightarrow> bytes" where
  "AppendHandshake dst typ payload = dst @ [typ] @ put24n (length payload) @ payload"

definition handshakeTypeName :: "byte \<Rightarrow> string" where
  "handshakeTypeName t =
     (if t = hsClientHello then ''ClientHello''
      else if t = hsServerHello then ''ServerHello''
      else if t = hsNewSessionTicket then ''NewSessionTicket''
      else if t = hsEncryptedExtensions then ''EncryptedExtensions''
      else if t = hsCertificate then ''Certificate''
      else if t = hsCertificateVerify then ''CertificateVerify''
      else if t = hsFinished then ''Finished''
      else if t = hsKeyUpdate then ''KeyUpdate''
      else ''Unknown('' @ itoa (unat t) @ '')'')"

section \<open>Both are framings\<close>

definition enc_record :: "tls_record \<Rightarrow> bytes" where
  "enc_record r = AppendRecord [] (tr_Type r) (tr_Version r) (tr_Payload r)"

definition record_ok :: "tls_record \<Rightarrow> bool" where
  "record_ok r = (length (tr_Payload r) \<le> maxCiphertextLen)"

definition enc_handshake :: "handshake \<Rightarrow> bytes" where
  "enc_handshake h = AppendHandshake [] (hs_Type h) (hs_Payload h)"

definition handshake_ok :: "handshake \<Rightarrow> bool" where
  "handshake_ok h = (length (hs_Payload h) \<le> 2 ^ 20)"

lemma length_enc [simp]:
  "length (enc_record r) = recordHeaderLen + length (tr_Payload r)"
  "length (enc_handshake h) = handshakeHeaderLen + length (hs_Payload h)"
  by (simp_all add: enc_record_def AppendRecord_def enc_handshake_def AppendHandshake_def)

lemma split_enc_record: "record_ok r \<Longrightarrow> split_record (enc_record r @ x) = Got r (length (enc_record r))"
  by (cases r) (simp add: split_record_def enc_record_def AppendRecord_def put16_def put16n_def record_ok_def
      get16_put16 get16_put16n Let_def)

lemma split_enc_handshake:
  "handshake_ok h \<Longrightarrow> split_handshake (enc_handshake h @ x) = Got h (length (enc_handshake h))"
  by (cases h) (simp add: split_handshake_def enc_handshake_def AppendHandshake_def put24n_def handshake_ok_def
      get24_put24n Let_def)

interpretation recs: frame_codec split_record enc_record record_ok
proof
  show "split_record [] = NeedMore" by (simp add: split_record_def)
  show "split_record b = Got u n \<Longrightarrow> 0 < n \<and> n \<le> length b" for b u n
    by (auto simp: split_record_def Let_def split: list.splits if_splits)
  show "split_record b = Got u n \<Longrightarrow> split_record (b @ x) = Got u n" for b u n x
    by (auto simp: split_record_def Let_def split: list.splits if_splits)
  show "split_record b = Bad e \<Longrightarrow> split_record (b @ x) = Bad e" for b e x
    by (auto simp: split_record_def Let_def split: list.splits if_splits)
qed (rule split_enc_record)

interpretation hs: frame_codec split_handshake enc_handshake handshake_ok
proof
  show "split_handshake [] = NeedMore" by (simp add: split_handshake_def)
  show "split_handshake b = Got u n \<Longrightarrow> 0 < n \<and> n \<le> length b" for b u n
    by (auto simp: split_handshake_def Let_def split: list.splits if_splits)
  show "split_handshake b = Got u n \<Longrightarrow> split_handshake (b @ x) = Got u n" for b u n x
    by (auto simp: split_handshake_def Let_def split: list.splits if_splits)
  show "split_handshake b = Bad e \<Longrightarrow> split_handshake (b @ x) = Bad e" for b e x
    by (auto simp: split_handshake_def Let_def split: list.splits if_splits)
qed (rule split_enc_handshake)

lemma Parse_handshakes_feed:
  "Parse_handshakes p fn s dat = (n, err, p', s') \<Longrightarrow>
   feed split_handshake fn (hp_buf p) s dat = (hp_buf p', err, s') \<and> n \<le> length dat"
  by (cases "hp_buf p = []") (auto simp: Parse_handshakes_def feed_def Let_def split: prod.splits if_splits)

lemma records_nothing_buffered:
  "Parse_records NewRecordParser fn s dat = (n, err, p, s') \<Longrightarrow> Buffered_records p = 0"
  by (auto simp: Parse_records_def Buffered_records_def NewRecordParser_def split: prod.splits)

end
