(* ===== verification/Tls_Crypto.thy ===== *)
theory Tls_Crypto
  imports Tls_Record
begin

text \<open>
  Keys and protected records of TLS 1.3: \<^verbatim>\<open>tls/keyschedule.go\<close>, \<^verbatim>\<open>aead.go\<close> and \<^verbatim>\<open>sign.go\<close>.
  The primitives are Go's \<^verbatim>\<open>crypto\<close> packages; the record \<open>tls_crypto\<close> holds them as functions,
  and what is relied on of them are the predicates \<open>hash_ok\<close>, \<open>aead_ok\<close> and \<open>dh_ok\<close>.
  \<open>rnd\<close> is what the random source gives to a signature.
\<close>

section \<open>The primitives\<close>

text \<open>\<open>cr_hmac\<close> takes the key and the message; \<open>cr_seal\<close> and \<open>cr_open\<close> (AES-GCM) take the key,
  the nonce, the text and the associated data; \<open>cr_pub\<close> is the public key of a private one,
  \<open>cr_ecdh\<close> X25519 with the check of the peer's key.\<close>

record ('k, 'q, 'c) tls_crypto =
  cr_sha256 :: "bytes \<Rightarrow> bytes"
  cr_hmac :: "bytes \<Rightarrow> bytes \<Rightarrow> bytes"
  cr_seal :: "bytes \<Rightarrow> bytes \<Rightarrow> bytes \<Rightarrow> bytes \<Rightarrow> bytes"
  cr_open :: "bytes \<Rightarrow> bytes \<Rightarrow> bytes \<Rightarrow> bytes \<Rightarrow> bytes option"
  cr_overhead :: nat
  cr_pub :: "bytes \<Rightarrow> bytes"
  cr_ecdh :: "bytes \<Rightarrow> bytes \<Rightarrow> string + bytes"
  cr_ecdsa_sign :: "bytes \<Rightarrow> 'k \<Rightarrow> bytes \<Rightarrow> string + bytes"
  cr_rsa_sign :: "bytes \<Rightarrow> 'k \<Rightarrow> bytes \<Rightarrow> string + bytes"
  cr_ed25519_sign :: "'k \<Rightarrow> bytes \<Rightarrow> bytes"
  cr_ecdsa_verify :: "'q \<Rightarrow> bytes \<Rightarrow> bytes \<Rightarrow> bool"
  cr_rsa_verify :: "'q \<Rightarrow> bytes \<Rightarrow> bytes \<Rightarrow> bool"
  cr_ed25519_verify :: "'q \<Rightarrow> bytes \<Rightarrow> bytes \<Rightarrow> bool"
  cr_parse_certificate :: "bytes \<Rightarrow> string + 'c"

definition hash_ok :: "('k, 'q, 'c) tls_crypto \<Rightarrow> bool" where
  "hash_ok cr = ((\<forall>b. length (cr_sha256 cr b) = 32) \<and> (\<forall>k b. length (cr_hmac cr k b) = 32))"

definition aead_ok :: "('k, 'q, 'c) tls_crypto \<Rightarrow> bool" where
  "aead_ok cr = ((\<forall>k n p a. cr_open cr k n (cr_seal cr k n p a) a = Some p)
     \<and> (\<forall>k n p a. length (cr_seal cr k n p a) = length p + cr_overhead cr) \<and> cr_overhead cr \<le> 255)"

definition dh_ok :: "('k, 'q, 'c) tls_crypto \<Rightarrow> bool" where
  "dh_ok cr = ((\<forall>a. length (cr_pub cr a) = 32)
     \<and> (\<forall>a b. cr_ecdh cr a (cr_pub cr b) = cr_ecdh cr b (cr_pub cr a) \<and> (\<exists>s. cr_ecdh cr a (cr_pub cr b) = Inr s)))"

text \<open>A stand-in for the examples; it protects nothing.\<close>

definition fit32 :: "bytes \<Rightarrow> bytes" where
  "fit32 b = take 32 (b @ replicate 32 0)"

definition plain_crypto :: "(unit, unit, bytes) tls_crypto" where
  "plain_crypto =
     \<lparr>cr_sha256 = fit32, cr_hmac = (\<lambda>k b. fit32 (b @ k)),
      cr_seal = (\<lambda>k n p a. p @ replicate 16 0),
      cr_open = (\<lambda>k n c a. if drop (length c - 16) c = replicate 16 0 then Some (take (length c - 16) c) else None),
      cr_overhead = 16, cr_pub = fit32,
      cr_ecdh = (\<lambda>a b. Inr (map2 (\<lambda>x y. x XOR y) (fit32 a) (fit32 b))),
      cr_ecdsa_sign = (\<lambda>rnd k d. Inr d), cr_rsa_sign = (\<lambda>rnd k d. Inr d), cr_ed25519_sign = (\<lambda>k d. d),
      cr_ecdsa_verify = (\<lambda>k d sig. sig = d), cr_rsa_verify = (\<lambda>k d sig. sig = d), cr_ed25519_verify = (\<lambda>k d sig. sig = d),
      cr_parse_certificate = Inr\<rparr>"

lemma fit32_simps [simp]: "length (fit32 b) = 32" "fit32 (fit32 b) = fit32 b"
  by (simp_all add: fit32_def)

lemma map2_xor_comm: "length as = length bs \<Longrightarrow> map2 (\<lambda>x y. x XOR y) as bs = map2 (\<lambda>x y. x XOR y) bs (as :: bytes)"
  by (induction as bs rule: list_induct2) (simp_all add: xor.commute)

lemma plain_crypto_ok: "hash_ok plain_crypto" "aead_ok plain_crypto" "dh_ok plain_crypto"
  by (simp_all add: plain_crypto_def hash_ok_def aead_ok_def dh_ok_def map2_xor_comm)

abbreviation sha256_Size :: nat where "sha256_Size \<equiv> 32"

section \<open>Key derivation\<close>

definition hkdfExtract :: "('k, 'q, 'c) tls_crypto \<Rightarrow> bytes \<Rightarrow> bytes \<Rightarrow> bytes" where
  "hkdfExtract cr salt ikm = cr_hmac cr salt ikm"

text \<open>The loop of \<open>hkdfExpand\<close>; an HMAC without output would make the Go loop spin, and
  \<open>hash_ok\<close> excludes it.\<close>

function hkdfExpand_loop ::
  "('k, 'q, 'c) tls_crypto \<Rightarrow> bytes \<Rightarrow> bytes \<Rightarrow> nat \<Rightarrow> byte \<Rightarrow> bytes \<Rightarrow> bytes \<Rightarrow> bytes" where
  "hkdfExpand_loop cr secret info len i out t =
     (if length out < len then
        let t = cr_hmac cr secret (t @ info @ [i]) in
        if t = [] then out else hkdfExpand_loop cr secret info len (i + 1) (out @ t) t
      else out)"
  by pat_completeness auto
termination
  by (relation "measure (\<lambda>(cr, secret, info, len, i, out, t). len - length out)")
    (auto simp: less_diff_conv2 intro!: diff_less_mono2)

declare hkdfExpand_loop.simps [simp del]

definition hkdfExpand :: "('k, 'q, 'c) tls_crypto \<Rightarrow> bytes \<Rightarrow> bytes \<Rightarrow> nat \<Rightarrow> bytes" where
  "hkdfExpand cr secret info len = take len (hkdfExpand_loop cr secret info len 1 [] [])"

definition hkdfExpandLabel :: "('k, 'q, 'c) tls_crypto \<Rightarrow> bytes \<Rightarrow> string \<Rightarrow> bytes \<Rightarrow> nat \<Rightarrow> bytes" where
  "hkdfExpandLabel cr secret label ctx len =
     (let fullLabel = ''tls13 '' @ label;
          info = put16n len @ [word_of_nat (length fullLabel)] @ bytes_of_string fullLabel
                   @ [word_of_nat (length ctx)] @ ctx
      in hkdfExpand cr secret info len)"

definition deriveSecret :: "('k, 'q, 'c) tls_crypto \<Rightarrow> bytes \<Rightarrow> string \<Rightarrow> bytes \<Rightarrow> bytes" where
  "deriveSecret cr secret label th = hkdfExpandLabel cr secret label th sha256_Size"

text \<open>The running hash of the transcript is modelled by the bytes written to it.\<close>

record key_schedule =
  ks_transcript :: bytes
  ks_earlySecret :: "bytes option"
  ks_handshakeSecret :: "bytes option"
  ks_masterSecret :: "bytes option"

definition newKeySchedule :: key_schedule where
  "newKeySchedule = \<lparr>ks_transcript = [], ks_earlySecret = None, ks_handshakeSecret = None, ks_masterSecret = None\<rparr>"

definition transcript_write :: "key_schedule \<Rightarrow> bytes \<Rightarrow> key_schedule" where
  "transcript_write ks b = ks\<lparr>ks_transcript := ks_transcript ks @ b\<rparr>"

definition transcript_sum :: "('k, 'q, 'c) tls_crypto \<Rightarrow> key_schedule \<Rightarrow> bytes" where
  "transcript_sum cr ks = cr_sha256 cr (ks_transcript ks)"

definition zeros :: "nat \<Rightarrow> bytes" where
  "zeros n = replicate n 0"

definition deriveEarly :: "('k, 'q, 'c) tls_crypto \<Rightarrow> key_schedule \<Rightarrow> bytes option \<Rightarrow> key_schedule" where
  "deriveEarly cr ks psk =
     (let psk = (case psk of None \<Rightarrow> zeros sha256_Size | Some p \<Rightarrow> p)
      in ks\<lparr>ks_earlySecret := Some (hkdfExtract cr (zeros sha256_Size) psk)\<rparr>)"

definition deriveHandshake :: "('k, 'q, 'c) tls_crypto \<Rightarrow> key_schedule \<Rightarrow> bytes \<Rightarrow> tls_err + key_schedule" where
  "deriveHandshake cr ks sharedSecret =
     (case ks_earlySecret ks of
        None \<Rightarrow> Inl (TlsErr ''tls: handshake before early secret'')
      | Some early \<Rightarrow>
          (let derived = deriveSecret cr early ''derived'' (cr_sha256 cr [])
           in Inr (ks\<lparr>ks_handshakeSecret := Some (hkdfExtract cr derived sharedSecret)\<rparr>)))"

definition deriveMaster :: "('k, 'q, 'c) tls_crypto \<Rightarrow> key_schedule \<Rightarrow> tls_err + key_schedule" where
  "deriveMaster cr ks =
     (case ks_handshakeSecret ks of
        None \<Rightarrow> Inl (TlsErr ''tls: master before handshake secret'')
      | Some hss \<Rightarrow>
          (let derived = deriveSecret cr hss ''derived'' (cr_sha256 cr [])
           in Inr (ks\<lparr>ks_masterSecret := Some (hkdfExtract cr derived (zeros sha256_Size))\<rparr>)))"

text \<open>A nil slice given to a function is empty.\<close>

definition nil_bytes :: "bytes option \<Rightarrow> bytes" where
  "nil_bytes x = (case x of None \<Rightarrow> [] | Some b \<Rightarrow> b)"

record traffic_keys =
  tk_key :: bytes
  tk_iv :: bytes

definition keysFromSecret :: "('k, 'q, 'c) tls_crypto \<Rightarrow> bytes \<Rightarrow> traffic_keys" where
  "keysFromSecret cr secret =
     \<lparr>tk_key = hkdfExpandLabel cr secret ''key'' [] 16, tk_iv = hkdfExpandLabel cr secret ''iv'' [] 12\<rparr>"

definition handshakeTrafficKeys :: "('k, 'q, 'c) tls_crypto \<Rightarrow> key_schedule \<Rightarrow> bool \<Rightarrow> traffic_keys" where
  "handshakeTrafficKeys cr ks isClient =
     (let label = (if \<not> isClient then ''s hs traffic'' else ''c hs traffic'');
          secret = deriveSecret cr (nil_bytes (ks_handshakeSecret ks)) label (transcript_sum cr ks)
      in \<lparr>tk_key = hkdfExpandLabel cr secret ''key'' [] 16, tk_iv = hkdfExpandLabel cr secret ''iv'' [] 12\<rparr>)"

definition applicationTrafficKeys :: "('k, 'q, 'c) tls_crypto \<Rightarrow> key_schedule \<Rightarrow> bool \<Rightarrow> traffic_keys" where
  "applicationTrafficKeys cr ks isClient =
     (let label = (if \<not> isClient then ''s ap traffic'' else ''c ap traffic'');
          secret = deriveSecret cr (nil_bytes (ks_masterSecret ks)) label (transcript_sum cr ks)
      in \<lparr>tk_key = hkdfExpandLabel cr secret ''key'' [] 16, tk_iv = hkdfExpandLabel cr secret ''iv'' [] 12\<rparr>)"

definition finishedKey :: "('k, 'q, 'c) tls_crypto \<Rightarrow> bytes \<Rightarrow> bytes" where
  "finishedKey cr baseSecret = hkdfExpandLabel cr baseSecret ''finished'' [] sha256_Size"

definition finishedVerifyData :: "('k, 'q, 'c) tls_crypto \<Rightarrow> bytes \<Rightarrow> bytes \<Rightarrow> bytes" where
  "finishedVerifyData cr baseSecret th = cr_hmac cr (finishedKey cr baseSecret) th"

section \<open>Protected records\<close>

text \<open>A protector has one direction's key (\<open>None\<close> for a nil \<open>aead\<close>), its iv and the number of
  the next record. \<open>keysFromSecret\<close> gives ivs of 12 bytes; \<open>nonce\<close> panics on less than 8.\<close>

record protector =
  pt_aead :: "bytes option"
  pt_iv :: bytes
  pt_seq :: u64

definition newRecordProtector :: "traffic_keys \<Rightarrow> tls_err + protector" where
  "newRecordProtector keys =
     (if length (tk_key keys) \<notin> {16, 24, 32} then
        Inl (TlsErr (''crypto/aes: invalid key size '' @ itoa (length (tk_key keys))))
      else Inr \<lparr>pt_aead = Some (tk_key keys), pt_iv = tk_iv keys, pt_seq = 0\<rparr>)"

definition nonce :: "protector \<Rightarrow> bytes" where
  "nonce p =
     (let off = length (pt_iv p) - 8
      in take off (pt_iv p) @ map2 (\<lambda>a b. a XOR b) (drop off (pt_iv p)) (put64 (pt_seq p)))"

definition additionalData :: "u16 \<Rightarrow> nat \<Rightarrow> bytes" where
  "additionalData version ciphertextLen = [recordApplicationData] @ put16 version @ put16n ciphertextLen"

definition seal :: "('k, 'q, 'c) tls_crypto \<Rightarrow> protector \<Rightarrow> byte \<Rightarrow> bytes \<Rightarrow> tls_err + (bytes \<times> protector)" where
  "seal cr p innerType plaintext =
     (case pt_aead p of
        None \<Rightarrow> Inl ErrAEADNotReady
      | Some key \<Rightarrow>
          if pt_seq p = NOT 0 then Inl ErrSequenceLimit
          else let inner = plaintext @ [innerType];
                   ad = additionalData 0x0303 (length inner + cr_overhead cr);
                   out = cr_seal cr key (nonce p) inner ad
               in Inr (out, p\<lparr>pt_seq := pt_seq p + 1\<rparr>))"

text \<open>\<open>open\<close>: the error, or the content and its type; the sequence number moves on as soon as
  the record is authentic.\<close>

definition open_record ::
  "('k, 'q, 'c) tls_crypto \<Rightarrow> protector \<Rightarrow> bytes \<Rightarrow> (tls_err + (bytes \<times> byte)) \<times> protector" where
  "open_record cr p ciphertext =
     (case pt_aead p of
        None \<Rightarrow> (Inl ErrAEADNotReady, p)
      | Some key \<Rightarrow>
          if length ciphertext < cr_overhead cr then (Inl (ErrAEADOpen '': too short''), p)
          else case cr_open cr key (nonce p) ciphertext (additionalData 0x0303 (length ciphertext)) of
              None \<Rightarrow> (Inl (ErrAEADOpen ''''), p)
            | Some inner \<Rightarrow>
                (let p = p\<lparr>pt_seq := pt_seq p + 1\<rparr> in
                 if inner = [] then (Inl (ErrAEADOpen '': empty inner plaintext''), p)
                 else (Inr (butlast inner, last inner), p)))"

section \<open>Signatures\<close>

abbreviation sigRSAPSSRSAE_SHA256 :: u16 where "sigRSAPSSRSAE_SHA256 \<equiv> 0x0804"
abbreviation sigECDSAP256_SHA256 :: u16 where "sigECDSAP256_SHA256 \<equiv> 0x0403"
abbreviation sigEd25519 :: u16 where "sigEd25519 \<equiv> 0x0807"

text \<open>The dynamic types of \<^verbatim>\<open>crypto.PrivateKey\<close> and \<^verbatim>\<open>crypto.PublicKey\<close> that the code knows, and
  the others with the name of their type.\<close>

datatype 'k private_key = EcdsaKey 'k | RsaKey 'k | Ed25519Key 'k | OtherKey string
datatype 'q public_key = EcdsaPub 'q | RsaPub 'q | Ed25519Pub 'q | OtherPub string

definition certificateVerifyInput :: "bool \<Rightarrow> bytes \<Rightarrow> bytes" where
  "certificateVerifyInput isClient th =
     replicate 64 0x20
       @ bytes_of_string (if isClient then ''TLS 1.3, client CertificateVerify'' else ''TLS 1.3, server CertificateVerify'')
       @ [0] @ th"

definition lib_result :: "string + 'a \<Rightarrow> tls_err + 'a" where
  "lib_result r = (case r of Inl e \<Rightarrow> Inl (TlsErr e) | Inr x \<Rightarrow> Inr x)"

definition signWithKey :: "('k, 'q, 'c) tls_crypto \<Rightarrow> bytes \<Rightarrow> 'k private_key \<Rightarrow> bytes \<Rightarrow> tls_err + bytes" where
  "signWithKey cr rnd priv message =
     (let digest = cr_sha256 cr message in
      case priv of
        EcdsaKey k \<Rightarrow> lib_result (cr_ecdsa_sign cr rnd k digest)
      | RsaKey k \<Rightarrow> lib_result (cr_rsa_sign cr rnd k digest)
      | Ed25519Key k \<Rightarrow> Inr (cr_ed25519_sign cr k message)
      | OtherKey t \<Rightarrow> Inl (TlsErr (''tls: unsupported private key type '' @ t)))"

definition ErrBadSignature :: tls_err where
  "ErrBadSignature = TlsErr ''tls: certificate verify signature invalid''"

definition verifyWithKey :: "('k, 'q, 'c) tls_crypto \<Rightarrow> 'q public_key \<Rightarrow> bytes \<Rightarrow> bytes \<Rightarrow> u16 \<Rightarrow> tls_err option" where
  "verifyWithKey cr pub message sig algo =
     (let digest = cr_sha256 cr message in
      case pub of
        EcdsaPub k \<Rightarrow> if \<not> cr_ecdsa_verify cr k digest sig then Some ErrBadSignature else None
      | RsaPub k \<Rightarrow> if \<not> cr_rsa_verify cr k digest sig then Some ErrBadSignature else None
      | Ed25519Pub k \<Rightarrow> if \<not> cr_ed25519_verify cr k message sig then Some ErrBadSignature else None
      | OtherPub t \<Rightarrow> Some (TlsErr (''tls: unsupported public key type '' @ t)))"

definition signatureAlgorithm :: "'k private_key \<Rightarrow> u16" where
  "signatureAlgorithm priv =
     (case priv of
        EcdsaKey _ \<Rightarrow> sigECDSAP256_SHA256 | RsaKey _ \<Rightarrow> sigRSAPSSRSAE_SHA256 | Ed25519Key _ \<Rightarrow> sigEd25519 | OtherKey _ \<Rightarrow> 0)"

definition parseCertificateVerify :: "bytes \<Rightarrow> tls_err + (u16 \<times> bytes)" where
  "parseCertificateVerify payload =
     (case payload of
        a1 # a0 # l1 # l0 # rest \<Rightarrow>
          (let sigLen = unat (get16 l1 l0) in
           if 4 + sigLen > length payload then Inl (TlsErr ''tls: CertificateVerify signature truncated'')
           else Inr (get16 a1 a0, take sigLen rest))
      | _ \<Rightarrow> Inl (TlsErr ''tls: CertificateVerify truncated''))"

text \<open>\<open>parseCertificate\<close>: the list of entries, each a certificate and extensions that are
  skipped; \<open>b\<close> is what is left of the list.\<close>

function certificate_loop :: "('k, 'q, 'c) tls_crypto \<Rightarrow> bytes \<Rightarrow> 'c list \<Rightarrow> tls_err + 'c list" where
  "certificate_loop cr b certs =
     (case b of
        d2 # d1 # d0 # rest \<Rightarrow>
          (let derLen = unat (get24 d2 d1 d0) in
           if derLen > length rest then Inl (TlsErr ''tls: Certificate entry truncated'')
           else case cr_parse_certificate cr (take derLen rest) of
               Inl e \<Rightarrow> Inl (TlsErr (''tls: parse certificate: '' @ e))
             | Inr c \<Rightarrow>
                 (case drop derLen rest of
                    e1 # e0 # rest2 \<Rightarrow> certificate_loop cr (drop (unat (get16 e1 e0)) rest2) (certs @ [c])
                  | _ \<Rightarrow> Inr (certs @ [c])))
      | _ \<Rightarrow> Inr certs)"
  by pat_completeness auto
termination
proof (relation "measure (\<lambda>(cr, b, certs). length b)", goal_cases)
  case (2 cr b certs d2 xs d1 ys d0 rest derLen c e1 zs e0 rest2)
  then have "length (drop derLen rest) = length (e1 # e0 # rest2)" by simp
  then have "length rest2 < length rest" by simp
  with 2 show ?case by simp
qed simp

declare certificate_loop.simps [simp del]

definition parseCertificate :: "('k, 'q, 'c) tls_crypto \<Rightarrow> bytes \<Rightarrow> tls_err + 'c list" where
  "parseCertificate cr payload =
     (case payload of
        [] \<Rightarrow> Inl (TlsErr ''tls: empty Certificate message'')
      | ctxLen # rest \<Rightarrow>
          if unat ctxLen > length rest then Inl (TlsErr ''tls: Certificate context truncated'')
          else case drop (unat ctxLen) rest of
              l2 # l1 # l0 # list \<Rightarrow>
                (let listLen = unat (get24 l2 l1 l0) in
                 if listLen > length list then Inl (TlsErr ''tls: Certificate list truncated'')
                 else case certificate_loop cr (take listLen list) [] of
                     Inl e \<Rightarrow> Inl e
                   | Inr certs \<Rightarrow>
                       if certs = [] then Inl (TlsErr ''tls: Certificate message has no certificates'')
                       else Inr certs)
            | _ \<Rightarrow> Inl (TlsErr ''tls: Certificate list truncated''))"

section \<open>Lengths of derived keys\<close>

lemma hkdfExpand_loop_length:
  "hash_ok cr \<Longrightarrow> len \<le> length (hkdfExpand_loop cr secret info len i out t)"
proof (induction cr secret info len i out t rule: hkdfExpand_loop.induct)
  case (1 cr secret info len i out t)
  have "cr_hmac cr secret b \<noteq> []" for b using 1(2) by (metis hash_ok_def list.size(3) zero_neq_numeral)
  then show ?case using 1 by (subst hkdfExpand_loop.simps) (simp add: Let_def)
qed

lemma hkdf_lengths [simp]:
  assumes "hash_ok cr"
  shows "length (hkdfExpandLabel cr secret label ctx len) = len" "length (deriveSecret cr secret label th) = sha256_Size"
    "length (finishedVerifyData cr secret th) = sha256_Size" "length (cr_sha256 cr b) = sha256_Size"
proof -
  have l: "length (hkdfExpandLabel cr secret label ctx len) = len" for label ctx len
    using hkdfExpand_loop_length [OF assms, of len] by (simp add: hkdfExpandLabel_def hkdfExpand_def Let_def)
  show "length (hkdfExpandLabel cr secret label ctx len) = len" "length (deriveSecret cr secret label th) = sha256_Size"
    by (simp_all add: l deriveSecret_def)
  show "length (finishedVerifyData cr secret th) = sha256_Size" "length (cr_sha256 cr b) = sha256_Size"
    using assms by (simp_all add: finishedVerifyData_def hash_ok_def)
qed

lemma keysFromSecret_ok:
  assumes "hash_ok cr"
  shows "newRecordProtector (keysFromSecret cr secret)
    = Inr \<lparr>pt_aead = Some (tk_key (keysFromSecret cr secret)), pt_iv = tk_iv (keysFromSecret cr secret), pt_seq = 0\<rparr>"
    and "length (tk_iv (keysFromSecret cr secret)) = 12"
  using assms by (simp_all add: newRecordProtector_def keysFromSecret_def)

section \<open>Nonces\<close>

lemma map2_xor_eq:
  "length as = length iv \<Longrightarrow> length bs = length iv \<Longrightarrow>
   map2 (\<lambda>a b. a XOR b) iv as = map2 (\<lambda>a b. a XOR b) iv bs \<Longrightarrow> as = (bs :: bytes)"
proof (induction iv arbitrary: as bs)
  case (Cons i iv)
  obtain a as' b bs' where ab: "as = a # as'" "bs = b # bs'" using Cons.prems(1,2) by (cases as; cases bs) auto
  have "i XOR a = i XOR b" using Cons.prems(3) ab by simp
  then have "i XOR (i XOR a) = i XOR (i XOR b)" by simp
  then have "a = b" by (simp flip: xor.assoc)
  then show ?case using Cons.IH [of as' bs'] Cons.prems ab by simp
qed simp

lemma put64_inj: "put64 v = put64 w \<Longrightarrow> v = w"
proof -
  assume eq: "put64 v = put64 w"
  have b: "put64 v = be_bytes 8 v" for v by (simp add: put64_def be_bytes_def numeral_eq_Suc)
  have "foldl shift_in 0 (be_bytes 8 v) = v" for v :: u64
    unfolding foldl_shift_in by (rule bit_word_eqI) (auto simp: bit_simps)
  then show ?thesis using eq unfolding b by metis
qed

lemma nonce_inj:
  assumes "8 \<le> length (pt_iv p)" and "nonce (p\<lparr>pt_seq := v\<rparr>) = nonce (p\<lparr>pt_seq := w\<rparr>)"
  shows "v = w"
proof (rule put64_inj, rule map2_xor_eq)
  let ?iv = "drop (length (pt_iv p) - 8) (pt_iv p)"
  show "length (put64 v) = length ?iv" "length (put64 w) = length ?iv" using assms(1) by simp_all
  show "map2 (\<lambda>a b. a XOR b) ?iv (put64 v) = map2 (\<lambda>a b. a XOR b) ?iv (put64 w)"
    using assms(2) by (simp add: nonce_def Let_def)
qed

text \<open>A sequence of records under one key, and the nonces they are sealed under.\<close>

fun seals :: "('k, 'q, 'c) tls_crypto \<Rightarrow> protector \<Rightarrow> (byte \<times> bytes) list \<Rightarrow> tls_err + (bytes list \<times> protector)" where
  "seals cr p [] = Inr ([], p)"
| "seals cr p ((t, b) # xs) =
     (case seal cr p t b of
        Inl e \<Rightarrow> Inl e
      | Inr (c, p) \<Rightarrow> (case seals cr p xs of Inl e \<Rightarrow> Inl e | Inr (cs, p) \<Rightarrow> Inr (c # cs, p)))"

fun nonces :: "('k, 'q, 'c) tls_crypto \<Rightarrow> protector \<Rightarrow> (byte \<times> bytes) list \<Rightarrow> bytes list" where
  "nonces cr p [] = []"
| "nonces cr p ((t, b) # xs) = (case seal cr p t b of Inl e \<Rightarrow> [] | Inr (c, q) \<Rightarrow> nonce p # nonces cr q xs)"

fun opens :: "('k, 'q, 'c) tls_crypto \<Rightarrow> protector \<Rightarrow> bytes list \<Rightarrow> (tls_err + (bytes \<times> byte) list) \<times> protector" where
  "opens cr p [] = (Inr [], p)"
| "opens cr p (c # cs) =
     (case open_record cr p c of
        (Inl e, p) \<Rightarrow> (Inl e, p)
      | (Inr r, p) \<Rightarrow> (case opens cr p cs of (Inl e, p) \<Rightarrow> (Inl e, p) | (Inr rs, p) \<Rightarrow> (Inr (r # rs), p)))"

lemma seal_cases:
  assumes "seal cr p t b = Inr (c, q)"
  obtains key where "pt_aead p = Some key" and "q = p\<lparr>pt_seq := pt_seq p + 1\<rparr>"
    and "c = cr_seal cr key (nonce p) (b @ [t]) (additionalData 0x0303 (Suc (length b) + cr_overhead cr))"
    and "unat (pt_seq q) = unat (pt_seq p) + 1"
proof -
  obtain key where k: "pt_aead p = Some key" "pt_seq p \<noteq> NOT 0"
    using assms by (auto simp: seal_def split: option.splits if_splits)
  then have "pt_seq p \<noteq> - 1" by simp
  then have "1 + pt_seq p \<noteq> 0" by (simp add: add_eq_0_iff)
  then have "unat (pt_seq p + 1) = unat (pt_seq p) + 1" using unatSuc [of "pt_seq p"] by (simp add: add.commute)
  then show ?thesis using that k assms by (simp add: seal_def Let_def)
qed

lemma nonces_later:
  "n \<in> set (nonces cr p items) \<Longrightarrow> \<exists>w. n = nonce (p\<lparr>pt_seq := w\<rparr>) \<and> unat (pt_seq p) \<le> unat w"
  proof (induction cr p items rule: nonces.induct)
    case (2 cr p t b xs)
    show ?case
    proof (cases "seal cr p t b")
      case (Inr r)
      obtain c q where cq: "seal cr p t b = Inr (c, q)" using Inr by (cases r) simp
      then consider "n = nonce p" | "n \<in> set (nonces cr q xs)" using 2(2) by auto
      then show ?thesis
      proof cases
        case 1
        then show ?thesis by (intro exI [of _ "pt_seq p"]) simp
      next
        case 2
        from seal_cases [OF cq] obtain "q = p\<lparr>pt_seq := pt_seq p + 1\<rparr>" "unat (pt_seq q) = unat (pt_seq p) + 1" by blast
        then show ?thesis using "2.IH" [OF cq refl 2] by auto
      qed
    qed (use 2(2) in simp)
  qed simp

text \<open>C10. No nonce is used twice with a key, whatever records are sealed and however many:
  the limit on the sequence number stops the protector before it wraps around.\<close>

theorem nonces_distinct:
  assumes "8 \<le> length (pt_iv p)"
  shows "distinct (nonces cr p items)"
proof -
  show ?thesis using assms
  proof (induction cr p items rule: nonces.induct)
    case (2 cr p t b xs)
    show ?case
    proof (cases "seal cr p t b")
      case (Inr r)
      obtain c q where cq: "seal cr p t b = Inr (c, q)" using Inr by (cases r) simp
      obtain q: "q = p\<lparr>pt_seq := pt_seq p + 1\<rparr>" "unat (pt_seq q) = unat (pt_seq p) + 1" using seal_cases [OF cq] by blast
      have "nonce p \<notin> set (nonces cr q xs)"
      proof
        assume "nonce p \<in> set (nonces cr q xs)"
        then obtain w where w: "nonce p = nonce (q\<lparr>pt_seq := w\<rparr>)" "unat (pt_seq q) \<le> unat w" using nonces_later by blast
        then have "nonce (p\<lparr>pt_seq := pt_seq p\<rparr>) = nonce (p\<lparr>pt_seq := w\<rparr>)" by (simp add: q(1))
        then have "pt_seq p = w" by (rule nonce_inj [OF 2(2)])
        then show False using w(2) q(2) by simp
      qed
      then show ?thesis using "2.IH" [OF cq refl] 2(2) q cq by simp
    qed simp
  qed simp
qed

lemma nonces_distinct_witness:
  "distinct (nonces plain_crypto \<lparr>pt_aead = Some [], pt_iv = replicate 12 7, pt_seq = 2 ^ 64 - 3\<rparr>
     [(23, [1]), (23, [1]), (23, [1])])"
  by (rule nonces_distinct) simp

text \<open>C11. What one end seals the other end opens: with the same key, iv and sequence number,
  every record comes out with its content and its type, in order, and the two ends stay in
  step.\<close>

theorem sealed_records_open:
  assumes "aead_ok cr" and "seals cr p items = Inr (cs, p')"
  shows "opens cr p cs = (Inr (map (\<lambda>(t, b). (b, t)) items), p')"
  using assms(2)
proof (induction items arbitrary: p cs)
  case (Cons x xs)
  obtain t b where x: "x = (t, b)" by fastforce
  obtain c q cs' where s: "seal cr p t b = Inr (c, q)" "seals cr q xs = Inr (cs', p')" "cs = c # cs'"
    using Cons.prems by (auto simp: x split: sum.splits)
  from seal_cases [OF s(1)] obtain key where k: "pt_aead p = Some key" "q = p\<lparr>pt_seq := pt_seq p + 1\<rparr>"
      "c = cr_seal cr key (nonce p) (b @ [t]) (additionalData 0x0303 (Suc (length b) + cr_overhead cr))" by blast
  have "open_record cr p c = (Inr (b, t), q)"
    using assms(1) k by (simp add: open_record_def aead_ok_def Let_def)
  then show ?case using Cons.IH [OF s(2)] s(3) by (simp add: x)
qed simp

lemma sealed_records_open_witness:
  "opens plain_crypto \<lparr>pt_aead = Some [], pt_iv = replicate 12 7, pt_seq = 0\<rparr>
      [[104, 105, 23] @ replicate 16 0, [22] @ replicate 16 0]
    = (Inr [([104, 105], 23), ([], 22)], \<lparr>pt_aead = Some [], pt_iv = replicate 12 7, pt_seq = 2\<rparr>)"
proof -
  have "seals plain_crypto \<lparr>pt_aead = Some [], pt_iv = replicate 12 7, pt_seq = 0\<rparr> [(23, [104, 105]), (22, [])]
      = Inr ([[104, 105, 23] @ replicate 16 0, [22] @ replicate 16 0], \<lparr>pt_aead = Some [], pt_iv = replicate 12 7, pt_seq = 2\<rparr>)"
    by (simp add: seal_def Let_def plain_crypto_def)
  from sealed_records_open [OF plain_crypto_ok(2) this] show ?thesis by simp
qed

end
