(* ===== verification/Tls_Handshake.thy ===== *)
theory Tls_Handshake
  imports Tls_Record
begin

text \<open>
  The messages of the TLS 1.3 handshake, \<^verbatim>\<open>tls/handshake.go\<close>: ClientHello and ServerHello with
  their extensions, the key shares, and the negotiation of the application protocol. A parser
  that calls a function for every extension is modelled by the list of the extensions it
  visits; the function is folded over it.
\<close>

section \<open>States and messages\<close>

datatype handshake_state =
    StateStart | StateWaitClientHello | StateWaitServerHello | StateWaitEncryptedExtensions
  | StateWaitCertificate | StateWaitCertificateVerify | StateWaitServerFinished
  | StateWaitFinished | StateEstablished | StateFailed

definition HandshakeState_String :: "handshake_state \<Rightarrow> string" where
  "HandshakeState_String s =
     (case s of
        StateStart \<Rightarrow> ''Start''
      | StateWaitClientHello \<Rightarrow> ''WaitClientHello''
      | StateWaitServerHello \<Rightarrow> ''WaitServerHello''
      | StateWaitEncryptedExtensions \<Rightarrow> ''WaitEncryptedExtensions''
      | StateWaitCertificate \<Rightarrow> ''StateWaitCertificate''
      | StateWaitCertificateVerify \<Rightarrow> ''StateWaitCertificateVerify''
      | StateWaitServerFinished \<Rightarrow> ''WaitServerFinished''
      | StateWaitFinished \<Rightarrow> ''WaitFinished''
      | StateEstablished \<Rightarrow> ''Established''
      | StateFailed \<Rightarrow> ''Failed'')"

record client_hello =
  chl_LegacyVersion :: u16
  chl_Random :: bytes
  chl_SessionID :: bytes
  chl_CipherSuites :: "u16 list"
  chl_ServerName :: string
  chl_ALPN :: "string list"

record server_hello =
  shl_LegacyVersion :: u16
  shl_Random :: bytes
  shl_SessionID :: bytes
  shl_CipherSuite :: u16

abbreviation TLS_AES_128_GCM_SHA256 :: u16 where "TLS_AES_128_GCM_SHA256 \<equiv> 0x1301"
abbreviation TLS_AES_256_GCM_SHA384 :: u16 where "TLS_AES_256_GCM_SHA384 \<equiv> 0x1302"
abbreviation TLS_CHACHA20_POLY1305_SHA256 :: u16 where "TLS_CHACHA20_POLY1305_SHA256 \<equiv> 0x1303"

abbreviation extServerName :: u16 where "extServerName \<equiv> 0"
abbreviation extSupportedGroups :: u16 where "extSupportedGroups \<equiv> 10"
abbreviation extSignatureAlgorithms :: u16 where "extSignatureAlgorithms \<equiv> 13"
abbreviation extALPN :: u16 where "extALPN \<equiv> 16"
abbreviation extSupportedVersions :: u16 where "extSupportedVersions \<equiv> 43"
abbreviation extKeyShare :: u16 where "extKeyShare \<equiv> 51"

abbreviation x25519Group :: u16 where "x25519Group \<equiv> 0x001d"

section \<open>Extensions\<close>

function parseExtensions :: "bytes \<Rightarrow> (u16 \<times> bytes) list" where
  "parseExtensions b =
     (case b of
        t1 # t0 # l1 # l0 # rest \<Rightarrow>
          (let len = unat (get16 l1 l0) in
           if len > length rest then []
           else (get16 t1 t0, take len rest) # parseExtensions (drop len rest))
      | _ \<Rightarrow> [])"
  by pat_completeness auto
termination
  by (relation "measure length") auto

declare parseExtensions.simps [simp del]

definition appendExtension :: "bytes \<Rightarrow> u16 \<Rightarrow> bytes \<Rightarrow> bytes" where
  "appendExtension dst typ dat = dst @ put16 typ @ put16n (length dat) @ dat"

definition appendKeyShareEntry :: "bytes \<Rightarrow> bytes" where
  "appendKeyShareEntry pub = [0, ucast x25519Group] @ put16n (length pub) @ pub"

definition appendKeyShare :: "bytes \<Rightarrow> bytes" where
  "appendKeyShare pub =
     (let entry = [0, ucast x25519Group] @ put16n (length pub) @ pub in put16n (length entry) @ entry)"

definition appendSupportedGroups :: bytes where
  "appendSupportedGroups = (let groups = [x25519Group] in put16n (length groups * 2) @ concat (map put16 groups))"

definition appendSignatureAlgorithms :: bytes where
  "appendSignatureAlgorithms =
     (let algs = [0x0804, 0x0403, 0x0807] in put16n (length algs * 2) @ concat (map put16 algs))"

definition appendServerName :: "string \<Rightarrow> bytes" where
  "appendServerName name =
     (let inner = [0] @ put16n (length name) @ bytes_of_string name in put16n (length inner) @ inner)"

definition alpn_entry :: "string \<Rightarrow> bytes" where
  "alpn_entry p = [word_of_nat (length p)] @ bytes_of_string p"

definition appendALPNList :: "string list \<Rightarrow> bytes" where
  "appendALPNList protos = (let inner = concat (map alpn_entry protos) in put16n (length inner) @ inner)"

function alpn_names :: "bytes \<Rightarrow> string list" where
  "alpn_names [] = []"
| "alpn_names (n # p) =
     (if unat n > length p then [] else string_of_bytes (take (unat n) p) # alpn_names (drop (unat n) p))"
  by pat_completeness auto
termination
  by (relation "measure length") auto

section \<open>ClientHello\<close>

fun u16s :: "bytes \<Rightarrow> u16 list" where
  "u16s (a # b # r) = get16 a b # u16s r"
| "u16s _ = []"

definition client_ext :: "u16 \<times> bytes \<Rightarrow> client_hello \<Rightarrow> client_hello" where
  "client_ext ext ch =
     (case ext of (typ, dat) \<Rightarrow>
        if typ = extServerName then
          if length dat < 5 then ch
          else let nameLen = unat (get16 (dat ! 3) (dat ! 4)) in
            if 5 + nameLen \<le> length dat
            then ch\<lparr>chl_ServerName := string_of_bytes (take nameLen (drop 5 dat))\<rparr> else ch
        else if typ = extALPN then
          if length dat < 2 then ch
          else let listLen = unat (get16 (dat ! 0) (dat ! 1)) in
            if 2 + listLen > length dat then ch
            else ch\<lparr>chl_ALPN := chl_ALPN ch @ alpn_names (take listLen (drop 2 dat))\<rparr>
        else ch)"

definition ParseClientHello :: "bytes \<Rightarrow> tls_err + client_hello" where
  "ParseClientHello b =
     (if length b < 34 then Inl ErrBadClientHello
      else case drop 34 b of
          [] \<Rightarrow> Inl ErrBadClientHello
        | sidLen # r \<Rightarrow>
            if unat sidLen > length r then Inl ErrBadClientHello
            else case drop (unat sidLen) r of
                c1 # c0 # r2 \<Rightarrow>
                  (let csLen = unat (get16 c1 c0) in
                   if csLen mod 2 \<noteq> 0 \<or> csLen > length r2 then Inl ErrBadClientHello
                   else case drop csLen r2 of
                       [] \<Rightarrow> Inl ErrBadClientHello
                     | cmLen # r3 \<Rightarrow>
                         if unat cmLen > length r3 then Inl ErrBadClientHello
                         else
                           let ch = \<lparr>chl_LegacyVersion = get16 (b ! 0) (b ! 1), chl_Random = take 32 (drop 2 b),
                                     chl_SessionID = take (unat sidLen) r, chl_CipherSuites = u16s (take csLen r2),
                                     chl_ServerName = '''', chl_ALPN = []\<rparr>
                           in case drop (unat cmLen) r3 of
                               e1 # e0 # r4 \<Rightarrow>
                                 (let extLen = unat (get16 e1 e0) in
                                  if extLen > length r4 then Inl ErrBadClientHello
                                  else Inr (fold client_ext (parseExtensions (take extLen r4)) ch))
                             | _ \<Rightarrow> Inr ch)
              | _ \<Rightarrow> Inl ErrBadClientHello)"

definition client_extensions :: "client_hello \<Rightarrow> bytes \<Rightarrow> bytes" where
  "client_extensions ch keyShare =
     (let exts = appendExtension [] extSupportedVersions [2, 0x03, 0x04];
          exts = appendExtension exts extSupportedGroups appendSupportedGroups;
          exts = appendExtension exts extKeyShare (appendKeyShare keyShare);
          exts = appendExtension exts extSignatureAlgorithms appendSignatureAlgorithms;
          exts = (if chl_ServerName ch \<noteq> ''''
                  then appendExtension exts extServerName (appendServerName (chl_ServerName ch)) else exts);
          exts = (if length (chl_ALPN ch) > 0
                  then appendExtension exts extALPN (appendALPNList (chl_ALPN ch)) else exts)
      in exts)"

definition client_hello_body :: "client_hello \<Rightarrow> bytes \<Rightarrow> bytes" where
  "client_hello_body ch keyShare =
     (let exts = client_extensions ch keyShare in
      put16 (chl_LegacyVersion ch) @ chl_Random ch
        @ [word_of_nat (length (chl_SessionID ch))] @ chl_SessionID ch
        @ put16n (length (chl_CipherSuites ch) * 2) @ concat (map put16 (chl_CipherSuites ch))
        @ [1, 0] @ put16n (length exts) @ exts)"

definition AppendClientHello :: "bytes \<Rightarrow> client_hello \<Rightarrow> bytes \<Rightarrow> bytes" where
  "AppendClientHello dst ch keyShare = AppendHandshake dst hsClientHello (client_hello_body ch keyShare)"

section \<open>ServerHello\<close>

definition ParseServerHello :: "bytes \<Rightarrow> tls_err + server_hello" where
  "ParseServerHello b =
     (if length b < 34 then Inl ErrBadServerHello
      else case drop 34 b of
          [] \<Rightarrow> Inl ErrBadServerHello
        | sidLen # r \<Rightarrow>
            if unat sidLen > length r then Inl ErrBadServerHello
            else case drop (unat sidLen) r of
                c1 # c0 # _ \<Rightarrow>
                  Inr \<lparr>shl_LegacyVersion = get16 (b ! 0) (b ! 1), shl_Random = take 32 (drop 2 b),
                       shl_SessionID = take (unat sidLen) r, shl_CipherSuite = get16 c1 c0\<rparr>
              | _ \<Rightarrow> Inl ErrBadServerHello)"

definition server_hello_body :: "server_hello \<Rightarrow> bytes \<Rightarrow> bytes" where
  "server_hello_body sh keyShare =
     (let exts = appendExtension [] extSupportedVersions [0x03, 0x04];
          exts = appendExtension exts extKeyShare (appendKeyShareEntry keyShare)
      in put16 (shl_LegacyVersion sh) @ shl_Random sh
           @ [word_of_nat (length (shl_SessionID sh))] @ shl_SessionID sh
           @ put16 (shl_CipherSuite sh) @ [0] @ put16n (length exts) @ exts)"

definition AppendServerHello :: "bytes \<Rightarrow> server_hello \<Rightarrow> bytes \<Rightarrow> bytes" where
  "AppendServerHello dst sh keyShare = AppendHandshake dst hsServerHello (server_hello_body sh keyShare)"

section \<open>Key shares\<close>

definition unsupported_group :: "u16 \<Rightarrow> tls_err" where
  "unsupported_group g = TlsErr (''tls: unsupported group 0x'' @ itoa_hex (unat g))"

definition parseKeyShare :: "bytes \<Rightarrow> tls_err + bytes" where
  "parseKeyShare dat =
     (case dat of
        g1 # g0 # l1 # l0 # rest \<Rightarrow>
          (let len = unat (get16 l1 l0) in
           if get16 g1 g0 \<noteq> x25519Group then Inl (unsupported_group (get16 g1 g0))
           else if len > length rest then Inl (TlsErr ''tls: key_share truncated'')
           else Inr (take len rest))
      | _ \<Rightarrow> Inl (TlsErr ''tls: key_share too short''))"

definition parseKeyShareEntry :: "bytes \<Rightarrow> tls_err + bytes" where
  "parseKeyShareEntry dat =
     (case dat of
        g1 # g0 # l1 # l0 # rest \<Rightarrow>
          (let len = unat (get16 l1 l0) in
           if get16 g1 g0 \<noteq> x25519Group then Inl (unsupported_group (get16 g1 g0))
           else if len > length rest then Inl (TlsErr ''tls: key_share entry truncated'')
           else Inr (take len rest))
      | _ \<Rightarrow> Inl (TlsErr ''tls: key_share entry too short''))"

function client_shares :: "bytes \<Rightarrow> tls_err + bytes" where
  "client_shares b =
     (case b of
        g1 # g0 # l1 # l0 # rest \<Rightarrow>
          (let len = unat (get16 l1 l0) in
           if len > length rest then Inl (TlsErr ''tls: client key_share entry truncated'')
           else if get16 g1 g0 = x25519Group then Inr (take len rest)
           else client_shares (drop len rest))
      | _ \<Rightarrow> Inl (TlsErr ''tls: no x25519 key share''))"
  by pat_completeness auto
termination
  by (relation "measure length") auto

declare client_shares.simps [simp del]

definition parseClientKeyShare :: "bytes \<Rightarrow> tls_err + bytes" where
  "parseClientKeyShare dat =
     (case dat of
        t1 # t0 # rest \<Rightarrow>
          (let total = unat (get16 t1 t0) in
           if total > length rest then Inl (TlsErr ''tls: client key_share truncated'')
           else client_shares (take total rest))
      | _ \<Rightarrow> Inl (TlsErr ''tls: client key_share too short''))"

definition key_share_ext :: "u16 \<times> bytes \<Rightarrow> bytes option \<times> tls_err option \<Rightarrow> bytes option \<times> tls_err option" where
  "key_share_ext ext acc =
     (case ext of (typ, dat) \<Rightarrow> case acc of (found, findErr) \<Rightarrow>
        if typ \<noteq> extKeyShare \<or> found \<noteq> None \<or> findErr \<noteq> None then acc
        else case parseKeyShareEntry dat of
            Inr k \<Rightarrow> (Some k, None)
          | Inl _ \<Rightarrow> (case parseClientKeyShare dat of Inr k \<Rightarrow> (Some k, None) | Inl e \<Rightarrow> (None, Some e)))"

definition findKeyShare :: "bytes \<Rightarrow> nat \<Rightarrow> tls_err + bytes" where
  "findKeyShare b off =
     (if off + 2 > length b then Inl (TlsErr ''tls: no extensions'')
      else let extLen = unat (get16 (b ! off) (b ! (off + 1))); off = off + 2 in
        if off + extLen > length b then Inl (TlsErr ''tls: extensions truncated'')
        else case fold key_share_ext (parseExtensions (take extLen (drop off b))) (None, None) of
            (_, Some e) \<Rightarrow> Inl e
          | (None, None) \<Rightarrow> Inl (TlsErr ''tls: no key_share extension'')
          | (Some k, None) \<Rightarrow> Inr k)"

definition clientKeyShare :: "bytes \<Rightarrow> tls_err + bytes" where
  "clientKeyShare ch =
     (let off = 34 in
      if off \<ge> length ch then Inl ErrBadClientHello
      else let off = off + (1 + unat (ch ! off)) in
        if off + 2 > length ch then Inl ErrBadClientHello
        else let off = off + 2 + unat (get16 (ch ! off) (ch ! (off + 1))) in
          if off \<ge> length ch then Inl ErrBadClientHello
          else findKeyShare ch (off + (1 + unat (ch ! off))))"

definition serverKeyShare :: "bytes \<Rightarrow> tls_err + bytes" where
  "serverKeyShare sh =
     (let off = 34 in
      if off \<ge> length sh then Inl ErrBadServerHello
      else findKeyShare sh (off + (1 + unat (sh ! off)) + 3))"

section \<open>ALPN\<close>

definition negotiateALPN :: "string list \<Rightarrow> string list \<Rightarrow> string" where
  "negotiateALPN clientProtos serverProtos =
     (if clientProtos = [] \<or> serverProtos = [] then ''''
      else case find (\<lambda>sp. list_ex (\<lambda>cp. sp = cp) clientProtos) serverProtos of
          Some sp \<Rightarrow> sp | None \<Rightarrow> '''')"

definition appendALPNServerExtension :: "string \<Rightarrow> bytes" where
  "appendALPNServerExtension proto =
     (let exts = (if proto \<noteq> '''' then appendExtension [] extALPN (appendALPNList [proto]) else [])
      in put16n (length exts) @ exts)"

definition alpn_ext :: "u16 \<times> bytes \<Rightarrow> string \<Rightarrow> string" where
  "alpn_ext ext got =
     (case ext of (typ, dat) \<Rightarrow>
        if typ \<noteq> extALPN \<or> length dat < 2 then got
        else let n = unat (get16 (dat ! 0) (dat ! 1)) in
          if 2 + n > length dat \<or> n < 1 then got
          else let p = take n (drop 2 dat); nameLen = unat (p ! 0) in
            if 1 + nameLen > length p then got else string_of_bytes (take nameLen (drop 1 p)))"

definition parseALPNServerExtension :: "bytes \<Rightarrow> string" where
  "parseALPNServerExtension body =
     (case body of
        l1 # l0 # rest \<Rightarrow>
          (let listLen = unat (get16 l1 l0) in
           if listLen > length rest then ''''
           else fold alpn_ext (parseExtensions (take listLen rest)) '''')
      | _ \<Rightarrow> '''')"

section \<open>Reading back what is written\<close>

lemma parseExtensions_Nil [simp]: "parseExtensions [] = []"
  by (simp add: parseExtensions.simps)

lemma parseExtensions_step [simp]:
  "length dat < 65536 \<Longrightarrow> parseExtensions (put16 t @ put16n (length dat) @ dat @ rest) = (t, dat) # parseExtensions rest"
  by (subst parseExtensions.simps) (simp add: put16_def put16n_def be_simps Let_def)

lemma u16s_put16 [simp]: "u16s (concat (map put16 ws)) = ws"
  by (induction ws) (simp_all add: put16_def be_simps)

lemma length_put16s [simp]: "length (concat (map put16 ws)) = 2 * length ws"
  by (induction ws) simp_all

lemma alpn_names_entries:
  "list_all (\<lambda>p. length p < 256) ps \<Longrightarrow> alpn_names (concat (map alpn_entry ps)) = ps"
  by (induction ps) (simp_all add: alpn_entry_def unat_of_nat)

text \<open>What fits the length fields of a ClientHello.\<close>

definition client_hello_fits :: "client_hello \<Rightarrow> bytes \<Rightarrow> bool" where
  "client_hello_fits ch keyShare =
     (length (chl_Random ch) = 32 \<and> length (chl_SessionID ch) < 256 \<and> length (chl_CipherSuites ch) * 2 < 65536
      \<and> list_all (\<lambda>p. length p < 256) (chl_ALPN ch) \<and> length (client_extensions ch keyShare) < 65536
      \<and> length keyShare = 32)"

definition client_ext_list :: "client_hello \<Rightarrow> bytes \<Rightarrow> (u16 \<times> bytes) list" where
  "client_ext_list ch keyShare =
     [(extSupportedVersions, [2, 3, 4]), (extSupportedGroups, appendSupportedGroups),
      (extKeyShare, appendKeyShare keyShare), (extSignatureAlgorithms, appendSignatureAlgorithms)]
     @ (if chl_ServerName ch \<noteq> '''' then [(extServerName, appendServerName (chl_ServerName ch))] else [])
     @ (if chl_ALPN ch \<noteq> [] then [(extALPN, appendALPNList (chl_ALPN ch))] else [])"

lemma parse_client_extensions:
  assumes "client_hello_fits ch ks"
  shows "parseExtensions (client_extensions ch ks) = client_ext_list ch ks"
proof -
  let ?e = "\<lambda>(t, d). put16 t @ put16n (length d) @ d"
  have e: "client_extensions ch ks = concat (map ?e (client_ext_list ch ks))"
    by (simp add: client_extensions_def client_ext_list_def appendExtension_def Let_def)
  have "parseExtensions (concat (map ?e xs)) = xs" if "length (concat (map ?e xs)) < 65536" for xs
    using that by (induction xs) auto
  then show ?thesis using assms e by (simp add: client_hello_fits_def)
qed

lemma client_ext_names:
  assumes "length (appendServerName name) < 65536"
  shows "client_ext (extServerName, appendServerName name) ch = ch\<lparr>chl_ServerName := name\<rparr>"
  using assms by (simp add: client_ext_def appendServerName_def put16n_def be_simps Let_def)

lemma client_ext_alpn:
  assumes "length (appendALPNList ps) < 65536" and "list_all (\<lambda>p. length p < 256) ps"
  shows "client_ext (extALPN, appendALPNList ps) ch = ch\<lparr>chl_ALPN := chl_ALPN ch @ ps\<rparr>"
  using assms by (simp add: client_ext_def appendALPNList_def put16n_def be_simps Let_def alpn_names_entries)

lemma fold_client_ext:
  assumes "client_hello_fits ch ks" and "chl_ServerName base = ''''" and "chl_ALPN base = []"
  shows "fold client_ext (client_ext_list ch ks) base = base\<lparr>chl_ServerName := chl_ServerName ch, chl_ALPN := chl_ALPN ch\<rparr>"
proof -
  have len: "length (client_extensions ch ks) < 65536" "list_all (\<lambda>p. length p < 256) (chl_ALPN ch)"
    using assms(1) by (simp_all add: client_hello_fits_def)
  have other: "client_ext (t, d) c = c" if "t \<noteq> extServerName" "t \<noteq> extALPN" for t d c
    using that by (simp add: client_ext_def)
  have n: "chl_ServerName ch \<noteq> '''' \<Longrightarrow> length (appendServerName (chl_ServerName ch)) < 65536"
    and a: "chl_ALPN ch \<noteq> [] \<Longrightarrow> length (appendALPNList (chl_ALPN ch)) < 65536"
    using len by (auto simp: client_extensions_def appendExtension_def Let_def split: if_splits)
  have self: "base\<lparr>chl_ServerName := ''''\<rparr> = base" "base\<lparr>chl_ALPN := []\<rparr> = base"
    "base\<lparr>chl_ServerName := '''', chl_ALPN := []\<rparr> = base"
    using assms(2,3) by (cases base, simp)+
  show ?thesis
    using n a assms(2,3) len(2)
    by (cases "chl_ServerName ch = ''''"; cases "chl_ALPN ch = []")
      (simp_all add: client_ext_list_def other client_ext_names client_ext_alpn self)
qed

lemma fold_key_share_found: "fold key_share_ext xs (Some k, None) = (Some k, None)"
  by (induction xs) (simp_all add: key_share_ext_def split: prod.splits)

lemma key_share_client:
  "length ks = 32 \<Longrightarrow> key_share_ext (extKeyShare, appendKeyShare ks) (None, None) = (Some ks, None)"
  by (simp add: key_share_ext_def appendKeyShare_def parseKeyShareEntry_def parseClientKeyShare_def put16n_def
      client_shares.simps be_simps Let_def, simp add: get16_def)

lemma client_body_split:
  assumes "client_hello_fits ch ks"
  shows "\<exists>v1 v0. client_hello_body ch ks = v1 # v0 # chl_Random ch @
      [word_of_nat (length (chl_SessionID ch))] @ chl_SessionID ch
        @ put16n (length (chl_CipherSuites ch) * 2) @ concat (map put16 (chl_CipherSuites ch))
        @ [1, 0] @ put16n (length (client_extensions ch ks)) @ client_extensions ch ks
    \<and> get16 v1 v0 = chl_LegacyVersion ch"
  by (simp add: client_hello_body_def Let_def put16_def be_simps)

lemma put16n_cases: "n < 65536 \<Longrightarrow> \<exists>l1 l0. put16n n = [l1, l0] \<and> unat (get16 l1 l0) = n"
  using get16_put16n [of n] by (simp add: put16n_def)

lemma ParseClientHello_pieces:
  assumes "drop 34 b = sl # sid @ [l1, l0] @ cs @ [1, 0] @ [e1, e0] @ exts"
    and "unat sl = length sid" and "unat (get16 l1 l0) = length cs" and "even (length cs)"
    and "unat (get16 e1 e0) = length exts"
  shows "ParseClientHello b = Inr (fold client_ext (parseExtensions exts)
    \<lparr>chl_LegacyVersion = get16 (b ! 0) (b ! 1), chl_Random = take 32 (drop 2 b), chl_SessionID = sid,
     chl_CipherSuites = u16s cs, chl_ServerName = '''', chl_ALPN = []\<rparr>)"
proof -
  have "34 < length b" using assms(1) by (metis drop_all linorder_not_le list.distinct(1))
  then show ?thesis
    using assms(4) by (simp add: ParseClientHello_def assms(1-3,5) Let_def even_iff_mod_2_eq_zero)
qed

lemma parse_client_body:
  assumes "client_hello_fits ch ks"
  shows "ParseClientHello (client_hello_body ch ks) = Inr ch"
proof -
  let ?sid = "chl_SessionID ch" and ?cs = "concat (map put16 (chl_CipherSuites ch))" and ?exts = "client_extensions ch ks"
  obtain v1 v0 where b: "client_hello_body ch ks = v1 # v0 # chl_Random ch @
      [word_of_nat (length ?sid)] @ ?sid @ put16n (length (chl_CipherSuites ch) * 2) @ ?cs
        @ [1, 0] @ put16n (length ?exts) @ ?exts" "get16 v1 v0 = chl_LegacyVersion ch"
    using client_body_split [OF assms] by blast
  let ?c0 = "\<lparr>chl_LegacyVersion = chl_LegacyVersion ch, chl_Random = chl_Random ch, chl_SessionID = ?sid,
    chl_CipherSuites = chl_CipherSuites ch, chl_ServerName = '''', chl_ALPN = []\<rparr>"
  have f: "length (chl_Random ch) = 32" "length ?sid < 256" "length (chl_CipherSuites ch) * 2 < 65536"
      "length ?exts < 65536" using assms by (simp_all add: client_hello_fits_def)
  obtain l1 l0 where l: "put16n (length (chl_CipherSuites ch) * 2) = [l1, l0]"
      "unat (get16 l1 l0) = length (chl_CipherSuites ch) * 2" using put16n_cases [OF f(3)] by blast
  obtain e1 e0 where e: "put16n (length ?exts) = [e1, e0]" "unat (get16 e1 e0) = length ?exts"
    using put16n_cases [OF f(4)] by blast
  have d0: "drop 34 (client_hello_body ch ks)
      = word_of_nat (length ?sid) # ?sid @ [l1, l0] @ ?cs @ [1, 0] @ [e1, e0] @ ?exts"
    using f(1) by (simp add: b(1) l e)
  have "ParseClientHello (client_hello_body ch ks) = Inr (fold client_ext (parseExtensions ?exts)
    \<lparr>chl_LegacyVersion = get16 (client_hello_body ch ks ! 0) (client_hello_body ch ks ! 1),
     chl_Random = take 32 (drop 2 (client_hello_body ch ks)), chl_SessionID = ?sid,
     chl_CipherSuites = u16s ?cs, chl_ServerName = '''', chl_ALPN = []\<rparr>)"
    by (rule ParseClientHello_pieces [OF d0]) (use f l e in \<open>simp_all add: unat_of_nat\<close>)
  also have "\<dots> = Inr (fold client_ext (client_ext_list ch ks) ?c0)"
    using f(1) by (simp add: parse_client_extensions [OF assms] b)
  also have "\<dots> = Inr ch" using fold_client_ext [OF assms, of ?c0] by simp
  finally show ?thesis .
qed

lemma nth_drop_Cons: "drop n xs = y # ys \<Longrightarrow> n < length xs \<and> xs ! n = y \<and> drop (Suc n) xs = ys"
proof -
  assume a: "drop n xs = y # ys"
  then have "n < length xs" by (metis drop_all linorder_not_le list.distinct(1))
  then show ?thesis using a Cons_nth_drop_Suc [of n xs] by simp
qed

lemma find_key_share:
  assumes "drop off b = put16n (length exts) @ exts" and "length exts < 65536" and "parseExtensions exts = xs"
    and "fold key_share_ext xs (None, None) = (Some k, None)"
  shows "findKeyShare b off = Inr k"
proof -
  obtain l1 l0 where l: "put16n (length exts) = [l1, l0]" "unat (get16 l1 l0) = length exts"
    using put16n_cases [OF assms(2)] by blast
  then have d: "drop off b = l1 # l0 # exts" using assms(1) by simp
  note d1 = nth_drop_Cons [OF d] and d0 = nth_drop_Cons [OF conjunct2 [OF conjunct2 [OF nth_drop_Cons [OF d]]]]
  have "length b = off + 2 + length exts" using d d1 by (metis add.assoc add.commute add_2_eq_Suc' le_add_diff_inverse2 length_Cons length_drop less_or_eq_imp_le)
  then show ?thesis using d1 d0 l(2) assms(3,4) by (simp add: findKeyShare_def Let_def)
qed

lemma clientKeyShare_pieces:
  assumes d0: "drop 34 b = sl # sid @ [l1, l0] @ cs @ [1, 0] @ rest"
    and "unat sl = length sid" and "unat (get16 l1 l0) = length cs"
  shows "clientKeyShare b = findKeyShare b (39 + length sid + length cs)"
    and "drop (39 + length sid + length cs) b = rest"
proof -
  have d1: "drop (Suc (length sid) + 34) b = l1 # l0 # cs @ [1, 0] @ rest"
    unfolding drop_drop [symmetric] d0 by simp
  have d2: "drop (Suc (Suc (length cs)) + (Suc (length sid) + 34)) b = 1 # 0 # rest"
    unfolding drop_drop [symmetric, of "Suc (Suc (length cs))"] d1 by simp
  have d3: "drop (Suc (Suc 0) + (Suc (Suc (length cs)) + (Suc (length sid) + 34))) b = rest"
    unfolding drop_drop [symmetric, of "Suc (Suc 0)"] d2 by simp
  have o: "Suc (length sid) + 34 = 35 + length sid" "Suc (Suc (length cs)) + (35 + length sid) = 37 + length sid + length cs"
    "Suc (Suc 0) + (37 + length sid + length cs) = 39 + length sid + length cs" by simp_all
  note d1 = d1 [unfolded o] and d2 = d2 [unfolded o] and d3 = d3 [unfolded o]
  note n0 = nth_drop_Cons [OF d0] and n1 = nth_drop_Cons [OF d1] and n2 = nth_drop_Cons [OF d2]
  note n1' = nth_drop_Cons [OF conjunct2 [OF conjunct2 [OF n1]]] and n2' = nth_drop_Cons [OF conjunct2 [OF conjunct2 [OF n2]]]
  show "clientKeyShare b = findKeyShare b (39 + length sid + length cs)"
    using n0 n1 n1' n2 n2' assms(2,3) by (simp add: clientKeyShare_def Let_def add.assoc)
  show "drop (39 + length sid + length cs) b = rest" by (rule d3)
qed

lemma client_key_share_body:
  assumes "client_hello_fits ch ks"
  shows "clientKeyShare (client_hello_body ch ks) = Inr ks"
proof -
  let ?sid = "chl_SessionID ch" and ?cs = "concat (map put16 (chl_CipherSuites ch))" and ?exts = "client_extensions ch ks"
  obtain v1 v0 where b: "client_hello_body ch ks = v1 # v0 # chl_Random ch @
      [word_of_nat (length ?sid)] @ ?sid @ put16n (length (chl_CipherSuites ch) * 2) @ ?cs
        @ [1, 0] @ put16n (length ?exts) @ ?exts"
    using client_body_split [OF assms] by blast
  have f: "length (chl_Random ch) = 32" "length ?sid < 256" "length (chl_CipherSuites ch) * 2 < 65536"
      "length ?exts < 65536" "length ks = 32" using assms by (simp_all add: client_hello_fits_def)
  obtain l1 l0 where l: "put16n (length (chl_CipherSuites ch) * 2) = [l1, l0]"
      "unat (get16 l1 l0) = length (chl_CipherSuites ch) * 2" using put16n_cases [OF f(3)] by blast
  have d0: "drop 34 (client_hello_body ch ks)
      = word_of_nat (length ?sid) # ?sid @ [l1, l0] @ ?cs @ [1, 0] @ (put16n (length ?exts) @ ?exts)"
    using f(1) by (simp add: b l)
  have "unat (word_of_nat (length ?sid) :: byte) = length ?sid" "unat (get16 l1 l0) = length ?cs"
    using f(2) l(2) by (simp_all add: unat_of_nat)
  note pieces = clientKeyShare_pieces [OF d0 this]
  have "fold key_share_ext (client_ext_list ch ks) (None, None) = (Some ks, None)"
    using key_share_client [OF f(5)]
    by (simp add: client_ext_list_def fold_key_share_found, simp add: key_share_ext_def)
  then show ?thesis
    unfolding pieces(1) by (rule find_key_share [OF pieces(2) f(4) parse_client_extensions [OF assms]])
qed


definition sample_client_hello :: client_hello where
  "sample_client_hello = \<lparr>chl_LegacyVersion = 0x0303, chl_Random = replicate 32 7, chl_SessionID = replicate 32 9,
     chl_CipherSuites = [TLS_AES_128_GCM_SHA256], chl_ServerName = ''a.b'', chl_ALPN = [''h2'', ''http/1.1'']\<rparr>"


definition server_extensions :: "bytes \<Rightarrow> bytes" where
  "server_extensions ks =
     appendExtension (appendExtension [] extSupportedVersions [0x03, 0x04]) extKeyShare (appendKeyShareEntry ks)"

lemma parse_server_extensions:
  "length ks = 32 \<Longrightarrow> parseExtensions (server_extensions ks) =
    [(extSupportedVersions, [3, 4]), (extKeyShare, appendKeyShareEntry ks)]"
  using parseExtensions_step [of "[3, 4]" extSupportedVersions "put16 extKeyShare @ put16n 36 @ appendKeyShareEntry ks"]
    parseExtensions_step [of "appendKeyShareEntry ks" extKeyShare "[]"]
  by (simp add: server_extensions_def appendExtension_def appendKeyShareEntry_def)

lemma key_share_server:
  "length ks = 32 \<Longrightarrow> key_share_ext (extKeyShare, appendKeyShareEntry ks) (None, None) = (Some ks, None)"
  by (simp add: key_share_ext_def appendKeyShareEntry_def parseKeyShareEntry_def put16n_def be_simps Let_def,
      simp add: get16_def)

lemma server_hello_pieces:
  assumes d: "drop 34 b = sl # sid @ [c1, c0] @ [0] @ rest" and s: "unat sl = length sid"
  shows "ParseServerHello b = Inr \<lparr>shl_LegacyVersion = get16 (b ! 0) (b ! 1), shl_Random = take 32 (drop 2 b),
      shl_SessionID = sid, shl_CipherSuite = get16 c1 c0\<rparr>"
    and "serverKeyShare b = findKeyShare b (38 + length sid)" and "drop (38 + length sid) b = rest"
proof -
  have l: "34 < length b" using d by (metis drop_all linorder_not_le list.distinct(1))
  show "ParseServerHello b = Inr \<lparr>shl_LegacyVersion = get16 (b ! 0) (b ! 1), shl_Random = take 32 (drop 2 b),
      shl_SessionID = sid, shl_CipherSuite = get16 c1 c0\<rparr>"
    using l by (simp add: ParseServerHello_def d s)
  show "serverKeyShare b = findKeyShare b (38 + length sid)"
    using nth_drop_Cons [OF d] s by (simp add: serverKeyShare_def Let_def)
  have e: "drop 34 b = (sl # sid @ [c1, c0, 0]) @ rest" using d by simp
  show "drop (38 + length sid) b = rest"
    using conjunct2 [OF append_eq_conv_conj [THEN iffD1, OF e [symmetric]]] by (simp del: drop_append add: drop_drop)
qed

lemma parse_server_body:
  assumes "length (shl_Random sh) = 32" and "length (shl_SessionID sh) < 256" and "length ks = 32"
  shows "ParseServerHello (server_hello_body sh ks) = Inr sh" and "serverKeyShare (server_hello_body sh ks) = Inr ks"
proof -
  let ?b = "server_hello_body sh ks" and ?sid = "shl_SessionID sh"
  obtain v1 v0 where v: "put16 (shl_LegacyVersion sh) = [v1, v0]" "get16 v1 v0 = shl_LegacyVersion sh"
    by (simp add: put16_def be_simps)
  obtain c1 c0 where c: "put16 (shl_CipherSuite sh) = [c1, c0]" "get16 c1 c0 = shl_CipherSuite sh"
    by (simp add: put16_def be_simps)
  have b: "?b = v1 # v0 # shl_Random sh @ word_of_nat (length ?sid) # ?sid @ [c1, c0] @ [0]
      @ (put16n (length (server_extensions ks)) @ server_extensions ks)"
    by (simp add: server_hello_body_def server_extensions_def Let_def v c)
  then have d: "drop 34 ?b = word_of_nat (length ?sid) # ?sid @ [c1, c0] @ [0]
      @ (put16n (length (server_extensions ks)) @ server_extensions ks)"
    using assms(1) by simp
  have s: "unat (word_of_nat (length ?sid) :: byte) = length ?sid" using assms(2) by (simp add: unat_of_nat)
  note p = server_hello_pieces [OF d s]
  show "ParseServerHello ?b = Inr sh" unfolding p(1) using assms(1) by (simp add: b v c)
  have "length (server_extensions ks) < 65536"
    using assms(3) by (simp add: server_extensions_def appendExtension_def appendKeyShareEntry_def)
  moreover have "fold key_share_ext [(extSupportedVersions, [3, 4]), (extKeyShare, appendKeyShareEntry ks)] (None, None)
      = (Some ks, None)"
    using key_share_server [OF assms(3)] by (simp, simp add: key_share_ext_def)
  ultimately show "serverKeyShare ?b = Inr ks"
    unfolding p(2) using find_key_share [OF p(3) _ parse_server_extensions [OF assms(3)]] by blast
qed

section \<open>The application protocol\<close>

lemma negotiateALPN_first:
  "negotiateALPN cs ss = (case filter (\<lambda>s. s \<in> set cs) ss of [] \<Rightarrow> '''' | s # _ \<Rightarrow> s)"
proof -
  have find: "find P xs = (case filter P xs of [] \<Rightarrow> None | x # _ \<Rightarrow> Some x)" for P and xs :: "string list"
    by (induction xs) simp_all
  have mem: "list_ex (\<lambda>cp. sp = cp) cs = (sp \<in> set cs)" for sp by (auto simp: list_ex_iff)
  show ?thesis by (auto simp: negotiateALPN_def find mem split: list.splits)
qed

lemma alpn_extension_read:
  assumes "length p < 256"
  shows "parseALPNServerExtension (appendALPNServerExtension p) = p"
proof (cases "p = ''''")
  case True
  then show ?thesis by (simp add: appendALPNServerExtension_def parseALPNServerExtension_def put16n_def be_simps Let_def get16_def)
next
  case False
  let ?d = "appendALPNList [p]"
  have ld: "length ?d < 65536" and le: "length (appendExtension [] extALPN ?d) < 65536"
    using assms by (simp_all add: appendExtension_def appendALPNList_def alpn_entry_def)
  have x: "parseExtensions (appendExtension [] extALPN ?d) = [(extALPN, ?d)]"
    using parseExtensions_step [OF ld, of extALPN "[]"] by (simp add: appendExtension_def)
  have inner: "length (alpn_entry p) < 65536" using assms by (simp add: alpn_entry_def)
  obtain n1 n0 where n: "put16n (length (alpn_entry p)) = [n1, n0]" "unat (get16 n1 n0) = length (alpn_entry p)"
    using put16n_cases [OF inner] by blast
  have ext: "alpn_ext (extALPN, ?d) '''' = p"
    using assms by (simp add: alpn_ext_def appendALPNList_def Let_def n, simp add: alpn_entry_def unat_of_nat)
  obtain e1 e0 where e: "put16n (length (appendExtension [] extALPN ?d)) = [e1, e0]"
      "unat (get16 e1 e0) = length (appendExtension [] extALPN ?d)" using put16n_cases [OF le] by blast
  show ?thesis
    using False by (simp add: appendALPNServerExtension_def Let_def e parseALPNServerExtension_def x ext)
qed

text \<open>Both ends agree on the application protocol: what the client reads from the server's
  EncryptedExtensions is the first protocol of the server's list that the client offered, and
  the empty string when there is none.\<close>

theorem alpn_agreed:
  assumes "list_all (\<lambda>p. length p < 256) ss"
  shows "parseALPNServerExtension (appendALPNServerExtension (negotiateALPN cs ss))
    = (case filter (\<lambda>s. s \<in> set cs) ss of [] \<Rightarrow> '''' | s # _ \<Rightarrow> s)"
proof -
  have "length (negotiateALPN cs ss) < 256"
    unfolding negotiateALPN_first using assms
    by (auto split: list.splits simp: list_all_iff dest!: filter_eq_ConsD)
  then show ?thesis by (simp add: alpn_extension_read flip: negotiateALPN_first)
qed

lemma alpn_agreed_witness:
  "parseALPNServerExtension (appendALPNServerExtension (negotiateALPN [''http/1.1'', ''h2''] [''h3'', ''h2'', ''http/1.1''])) = ''h2''"
  by (subst alpn_agreed) simp_all

text \<open>A ServerHello that is written is read back as it was, and the key share in it is found.\<close>

theorem server_hello_roundtrip:
  assumes "length (shl_Random sh) = 32" and "length (shl_SessionID sh) < 256" and "length ks = 32"
  shows "ParseServerHello (server_hello_body sh ks) = Inr sh \<and> serverKeyShare (server_hello_body sh ks) = Inr ks"
  using parse_server_body [OF assms] by simp

lemma server_hello_roundtrip_witness:
  "ParseServerHello (server_hello_body \<lparr>shl_LegacyVersion = 0x0303, shl_Random = replicate 32 1,
       shl_SessionID = replicate 32 9, shl_CipherSuite = TLS_AES_128_GCM_SHA256\<rparr> (replicate 32 5))
     = Inr \<lparr>shl_LegacyVersion = 0x0303, shl_Random = replicate 32 1,
       shl_SessionID = replicate 32 9, shl_CipherSuite = TLS_AES_128_GCM_SHA256\<rparr>"
  using server_hello_roundtrip [of "\<lparr>shl_LegacyVersion = 0x0303, shl_Random = replicate 32 1,
       shl_SessionID = replicate 32 9, shl_CipherSuite = TLS_AES_128_GCM_SHA256\<rparr>" "replicate 32 5"] by simp

end
