(* ===== verification/Tls_State.thy ===== *)
theory Tls_State
  imports Tls_Crypto Tls_Handshake
begin

text \<open>
  The TLS 1.3 state machine, \<^verbatim>\<open>tls/state.go\<close>. A machine is fed ciphertext and is asked for the
  bytes to send and the plaintext that came in. A handler answers the machine it leaves behind
  and the error it returns.
\<close>

section \<open>State\<close>

text \<open>Of \<^verbatim>\<open>crypto/tls.Config\<close>, what the code reads.\<close>

record 'k tls_certificate =
  tc_Certificate :: "bytes list"
  tc_PrivateKey :: "'k private_key option"

record 'k tls_config =
  cfg_Certificates :: "'k tls_certificate list"
  cfg_ServerName :: string
  cfg_NextProtos :: "string list"

text \<open>\<open>writeKeys\<close> and \<open>readKeys\<close> are pointers. During the handshake they point to the
  protectors that \<open>hsWriteKeys\<close> and \<open>hsReadKeys\<close> point to, which is \<open>HandshakeKeys\<close>; later they
  have protectors of their own.\<close>

datatype keys_ref = NilKeys | HandshakeKeys | OwnKeys protector

text \<open>\<open>sm_rand\<close> is not a field of the code: the answers the random source will give, one for
  each request; it fails when they are used up. \<open>sm_kx\<close> is the private key.\<close>

record 'k state_machine =
  sm_config :: "'k tls_config option"
  sm_isClient :: bool
  sm_state :: handshake_state
  sm_records :: record_parser
  sm_handshakes :: handshake_parser
  sm_keys :: key_schedule
  sm_kx :: "bytes option"
  sm_peerKeyShare :: bytes
  sm_writeKeys :: keys_ref
  sm_readKeys :: keys_ref
  sm_hsWriteKeys :: "protector option"
  sm_hsReadKeys :: "protector option"
  sm_hsWriteSecret :: "bytes option"
  sm_hsReadSecret :: "bytes option"
  sm_appWriteSecret :: "bytes option"
  sm_appReadSecret :: "bytes option"
  sm_out :: bytes
  sm_plaintext :: bytes
  sm_clientHello :: "client_hello option"
  sm_serverHello :: "server_hello option"
  sm_suite :: u16
  sm_negotiatedALPN :: string
  sm_err :: "tls_err option"
  sm_rand :: "bytes list"

definition init_machine :: "('k, 'q, 'c) tls_crypto \<Rightarrow> 'k tls_config option \<Rightarrow> bool \<Rightarrow> bytes list \<Rightarrow> 'k state_machine" where
  "init_machine cr config isClient rnd =
     \<lparr>sm_config = config, sm_isClient = isClient,
      sm_state = (if isClient then StateWaitServerHello else StateWaitClientHello),
      sm_records = NewRecordParser, sm_handshakes = NewHandshakeParser,
      sm_keys = deriveEarly cr newKeySchedule None, sm_kx = None, sm_peerKeyShare = [],
      sm_writeKeys = NilKeys, sm_readKeys = NilKeys, sm_hsWriteKeys = None, sm_hsReadKeys = None,
      sm_hsWriteSecret = None, sm_hsReadSecret = None, sm_appWriteSecret = None, sm_appReadSecret = None,
      sm_out = [], sm_plaintext = [], sm_clientHello = None, sm_serverHello = None, sm_suite = 0,
      sm_negotiatedALPN = '''', sm_err = None, sm_rand = rnd\<rparr>"

definition NewServerStateMachine :: "('k, 'q, 'c) tls_crypto \<Rightarrow> 'k tls_config option \<Rightarrow> bytes list \<Rightarrow> 'k state_machine" where
  "NewServerStateMachine cr config rnd = init_machine cr config False rnd"

definition NewClientStateMachine :: "('k, 'q, 'c) tls_crypto \<Rightarrow> 'k tls_config option \<Rightarrow> bytes list \<Rightarrow> 'k state_machine" where
  "NewClientStateMachine cr config rnd = init_machine cr config True rnd"

definition Established :: "'k state_machine \<Rightarrow> bool" where
  "Established sm = (sm_state sm = StateEstablished)"

text \<open>The protector a pointer points to.\<close>

definition write_protector :: "'k state_machine \<Rightarrow> protector option" where
  "write_protector sm =
     (case sm_writeKeys sm of NilKeys \<Rightarrow> None | HandshakeKeys \<Rightarrow> sm_hsWriteKeys sm | OwnKeys p \<Rightarrow> Some p)"

definition read_protector :: "'k state_machine \<Rightarrow> protector option" where
  "read_protector sm =
     (case sm_readKeys sm of NilKeys \<Rightarrow> None | HandshakeKeys \<Rightarrow> sm_hsReadKeys sm | OwnKeys p \<Rightarrow> Some p)"

definition set_write_protector :: "protector \<Rightarrow> 'k state_machine \<Rightarrow> 'k state_machine" where
  "set_write_protector p sm =
     (case sm_writeKeys sm of
        NilKeys \<Rightarrow> sm | HandshakeKeys \<Rightarrow> sm\<lparr>sm_hsWriteKeys := Some p\<rparr> | OwnKeys _ \<Rightarrow> sm\<lparr>sm_writeKeys := OwnKeys p\<rparr>)"

definition set_read_protector :: "protector \<Rightarrow> 'k state_machine \<Rightarrow> 'k state_machine" where
  "set_read_protector p sm =
     (case sm_readKeys sm of
        NilKeys \<Rightarrow> sm | HandshakeKeys \<Rightarrow> sm\<lparr>sm_hsReadKeys := Some p\<rparr> | OwnKeys _ \<Rightarrow> sm\<lparr>sm_readKeys := OwnKeys p\<rparr>)"

section \<open>Small steps\<close>

definition rand_Read :: "nat \<Rightarrow> 'k state_machine \<Rightarrow> (tls_err + bytes) \<times> 'k state_machine" where
  "rand_Read n sm =
     (case sm_rand sm of
        [] \<Rightarrow> (Inl (TlsErr ''EOF''), sm)
      | b # r \<Rightarrow> (Inr (take n (b @ zeros n)), sm\<lparr>sm_rand := r\<rparr>))"

text \<open>An X25519 key is 32 random bytes; its public part is \<open>cr_pub\<close> of it.\<close>

definition newKeyExchange :: "'k state_machine \<Rightarrow> (tls_err + bytes) \<times> 'k state_machine" where
  "newKeyExchange sm = rand_Read 32 sm"

text \<open>\<^verbatim>\<open>NewPublicKey\<close> takes any 32 bytes.\<close>

definition shared :: "('k, 'q, 'c) tls_crypto \<Rightarrow> bytes \<Rightarrow> bytes \<Rightarrow> tls_err + bytes" where
  "shared cr priv peerPub =
     (if length peerPub \<noteq> 32 then Inl (TlsErr ''tls: bad peer public key: crypto/ecdh: invalid public key'')
      else lib_result (cr_ecdh cr priv peerPub))"

definition put_out :: "bytes \<Rightarrow> 'k state_machine \<Rightarrow> 'k state_machine" where
  "put_out b sm = sm\<lparr>sm_out := sm_out sm @ b\<rparr>"

definition add_transcript :: "bytes \<Rightarrow> 'k state_machine \<Rightarrow> 'k state_machine" where
  "add_transcript msg sm = sm\<lparr>sm_keys := transcript_write (sm_keys sm) msg\<rparr>"

definition transcript_hash :: "('k, 'q, 'c) tls_crypto \<Rightarrow> 'k state_machine \<Rightarrow> bytes" where
  "transcript_hash cr sm = transcript_sum cr (sm_keys sm)"

definition writeHandshake :: "('k, 'q, 'c) tls_crypto \<Rightarrow> bytes \<Rightarrow> 'k state_machine \<Rightarrow> 'k state_machine" where
  "writeHandshake cr msg sm =
     (case sm_hsWriteKeys sm of
        None \<Rightarrow> put_out (AppendRecord [] recordHandshake 0x0303 msg) sm
      | Some p \<Rightarrow>
          if pt_aead p = None then put_out (AppendRecord [] recordHandshake 0x0303 msg) sm
          else case seal cr p recordHandshake msg of
              Inl e \<Rightarrow> sm\<lparr>sm_err := Some e\<rparr>
            | Inr (ct, p) \<Rightarrow> put_out (AppendRecord [] recordApplicationData 0x0303 ct) (sm\<lparr>sm_hsWriteKeys := Some p\<rparr>))"

definition finishedMessage :: "('k, 'q, 'c) tls_crypto \<Rightarrow> bool \<Rightarrow> 'k state_machine \<Rightarrow> bytes" where
  "finishedMessage cr isClient sm =
     AppendHandshake [] hsFinished (finishedVerifyData cr (nil_bytes (sm_hsWriteSecret sm)) (transcript_hash cr sm))"

definition cacheApplicationSecrets ::
  "('k, 'q, 'c) tls_crypto \<Rightarrow> 'k state_machine \<Rightarrow> 'k state_machine \<times> tls_err option" where
  "cacheApplicationSecrets cr sm =
     (case deriveMaster cr (sm_keys sm) of
        Inl e \<Rightarrow> (sm, Some e)
      | Inr ks \<Rightarrow>
          (let sm = sm\<lparr>sm_keys := ks\<rparr>;
               th = transcript_hash cr sm;
               c = deriveSecret cr (nil_bytes (ks_masterSecret ks)) ''c ap traffic'' th;
               s = deriveSecret cr (nil_bytes (ks_masterSecret ks)) ''s ap traffic'' th
           in (if sm_isClient sm then sm\<lparr>sm_appWriteSecret := Some c, sm_appReadSecret := Some s\<rparr>
               else sm\<lparr>sm_appWriteSecret := Some s, sm_appReadSecret := Some c\<rparr>, None)))"

definition switchToApplicationKeys ::
  "('k, 'q, 'c) tls_crypto \<Rightarrow> 'k state_machine \<Rightarrow> 'k state_machine \<times> tls_err option" where
  "switchToApplicationKeys cr sm =
     (case (sm_appWriteSecret sm, sm_appReadSecret sm) of
        (Some ws, Some rs) \<Rightarrow>
          (case newRecordProtector (keysFromSecret cr ws) of
             Inl e \<Rightarrow> (sm, Some e)
           | Inr wp \<Rightarrow>
               (case newRecordProtector (keysFromSecret cr rs) of
                  Inl e \<Rightarrow> (sm, Some e)
                | Inr rp \<Rightarrow> (sm\<lparr>sm_writeKeys := OwnKeys wp, sm_readKeys := OwnKeys rp\<rparr>, None)))
      | _ \<Rightarrow> (sm, Some (TlsErr ''tls: application secrets not cached'')))"

section \<open>The server's certificate\<close>

definition certificate_entry :: "bytes \<Rightarrow> bytes" where
  "certificate_entry der = put24n (length der) @ der @ [0, 0]"

definition serverCertificate :: "'k state_machine \<Rightarrow> tls_err + bytes" where
  "serverCertificate sm =
     (case sm_config sm of
        Some cfg \<Rightarrow>
          (case cfg_Certificates cfg of
             [] \<Rightarrow> Inl (TlsErr ''tls: no certificate configured'')
           | cert # _ \<Rightarrow>
               (let entries = concat (map certificate_entry (tc_Certificate cert)) in
                Inr (AppendHandshake [] hsCertificate ([0] @ put24n (length entries) @ entries))))
      | None \<Rightarrow> Inl (TlsErr ''tls: no certificate configured''))"

text \<open>A signature takes its randomness from the source too.\<close>

definition certificateVerify ::
  "('k, 'q, 'c) tls_crypto \<Rightarrow> 'k state_machine \<Rightarrow> (tls_err + bytes) \<times> 'k state_machine" where
  "certificateVerify cr sm =
     (case sm_config sm of
        Some cfg \<Rightarrow>
          (case cfg_Certificates cfg of
             [] \<Rightarrow> (Inl (TlsErr ''tls: no certificate configured''), sm)
           | cert # _ \<Rightarrow>
               (case tc_PrivateKey cert of
                  None \<Rightarrow> (Inl (TlsErr ''tls: certificate has no private key''), sm)
                | Some priv \<Rightarrow>
                    (let toSign = certificateVerifyInput (sm_isClient sm) (transcript_hash cr sm);
                         rnd = concat (take 1 (sm_rand sm));
                         sm = sm\<lparr>sm_rand := drop 1 (sm_rand sm)\<rparr>
                     in case signWithKey cr rnd priv toSign of
                          Inl e \<Rightarrow> (Inl e, sm)
                        | Inr sig \<Rightarrow>
                            (let body = put16 (signatureAlgorithm priv) @ put16n (length sig) @ sig
                             in (Inr (AppendHandshake [] hsCertificateVerify body), sm)))))
      | None \<Rightarrow> (Inl (TlsErr ''tls: no certificate configured''), sm))"

section \<open>The client's first message\<close>

definition Start :: "('k, 'q, 'c) tls_crypto \<Rightarrow> 'k state_machine \<Rightarrow> 'k state_machine \<times> tls_err option" where
  "Start cr sm =
     (if \<not> sm_isClient sm then (sm, Some (TlsErr ''tls: server does not start''))
      else case newKeyExchange sm of
          (Inl e, sm) \<Rightarrow> (sm, Some e)
        | (Inr kx, sm) \<Rightarrow>
            (let sm = sm\<lparr>sm_kx := Some kx\<rparr> in
             case rand_Read 32 sm of
               (Inl e, sm) \<Rightarrow> (sm, Some e)
             | (Inr random, sm) \<Rightarrow>
                 (case rand_Read 32 sm of
                    (Inl e, sm) \<Rightarrow> (sm, Some e)
                  | (Inr sid, sm) \<Rightarrow>
                      (let ch = \<lparr>chl_LegacyVersion = 0x0303, chl_Random = random, chl_SessionID = sid,
                             chl_CipherSuites = [TLS_AES_128_GCM_SHA256, TLS_AES_256_GCM_SHA384, TLS_CHACHA20_POLY1305_SHA256],
                             chl_ServerName = (case sm_config sm of None \<Rightarrow> '''' | Some cfg \<Rightarrow> cfg_ServerName cfg),
                             chl_ALPN = (case sm_config sm of None \<Rightarrow> [] | Some cfg \<Rightarrow> cfg_NextProtos cfg)\<rparr>;
                           msg = AppendClientHello [] ch (cr_pub cr kx);
                           sm = put_out (AppendRecord [] recordHandshake 0x0303 msg) sm;
                           sm = add_transcript msg sm
                       in (sm, None)))))"

section \<open>The server's answer to a ClientHello\<close>

text \<open>From the ServerHello to the protectors of the handshake. The client's and the server's
  protectors are made by the same function with the labels of the two directions swapped.\<close>

definition handshake_secrets ::
  "('k, 'q, 'c) tls_crypto \<Rightarrow> string \<Rightarrow> string \<Rightarrow> 'k state_machine \<Rightarrow> 'k state_machine \<times> tls_err option" where
  "handshake_secrets cr writeLabel readLabel sm =
     (let hss = nil_bytes (ks_handshakeSecret (sm_keys sm));
          ws = deriveSecret cr hss writeLabel (transcript_hash cr sm);
          rs = deriveSecret cr hss readLabel (transcript_hash cr sm);
          sm = sm\<lparr>sm_hsWriteSecret := Some ws, sm_hsReadSecret := Some rs\<rparr>
      in case newRecordProtector (keysFromSecret cr ws) of
          Inl e \<Rightarrow> (sm, Some e)
        | Inr wp \<Rightarrow>
            (case newRecordProtector (keysFromSecret cr rs) of
               Inl e \<Rightarrow> (sm, Some e)
             | Inr rp \<Rightarrow>
                 (sm\<lparr>sm_hsWriteKeys := Some wp, sm_hsReadKeys := Some rp,
                     sm_writeKeys := HandshakeKeys, sm_readKeys := HandshakeKeys\<rparr>, None)))"

definition send_ServerHello ::
  "('k, 'q, 'c) tls_crypto \<Rightarrow> client_hello \<Rightarrow> bytes \<Rightarrow> 'k state_machine \<Rightarrow> 'k state_machine \<times> tls_err option" where
  "send_ServerHello cr ch kx sm =
     (case rand_Read 32 sm of
        (Inl e, sm) \<Rightarrow> (sm, Some e)
      | (Inr random, sm) \<Rightarrow>
          (let sh = \<lparr>shl_LegacyVersion = 0x0303, shl_Random = random, shl_SessionID = chl_SessionID ch,
                     shl_CipherSuite = sm_suite sm\<rparr>;
               shMsg = AppendServerHello [] sh (cr_pub cr kx);
               sm = put_out (AppendRecord [] recordHandshake 0x0303 shMsg) sm;
               sm = add_transcript shMsg sm
           in handshake_secrets cr ''s hs traffic'' ''c hs traffic'' sm))"

definition send_message :: "('k, 'q, 'c) tls_crypto \<Rightarrow> bytes \<Rightarrow> 'k state_machine \<Rightarrow> 'k state_machine" where
  "send_message cr msg sm = add_transcript msg (writeHandshake cr msg sm)"

text \<open>ChangeCipherSpec, EncryptedExtensions, Certificate, CertificateVerify and Finished.\<close>

definition send_flight :: "('k, 'q, 'c) tls_crypto \<Rightarrow> 'k state_machine \<Rightarrow> 'k state_machine \<times> tls_err option" where
  "send_flight cr sm =
     (let sm = put_out (AppendRecord [] recordChangeCipherSpec 0x0303 [1]) sm;
          eeExts = appendALPNServerExtension (sm_negotiatedALPN sm);
          sm = send_message cr (AppendHandshake [] hsEncryptedExtensions eeExts) sm
      in case serverCertificate sm of
          Inl e \<Rightarrow> (sm, Some e)
        | Inr cert \<Rightarrow>
            (let sm = send_message cr cert sm in
             case certificateVerify cr sm of
               (Inl e, sm) \<Rightarrow> (sm, Some e)
             | (Inr cv, sm) \<Rightarrow>
                 (let sm = send_message cr cv sm;
                      sm = send_message cr (finishedMessage cr False sm) sm
                  in case cacheApplicationSecrets cr sm of
                      (sm, Some e) \<Rightarrow> (sm, Some e)
                    | (sm, None) \<Rightarrow> (sm\<lparr>sm_state := StateWaitFinished\<rparr>, None))))"

definition onClientHello ::
  "('k, 'q, 'c) tls_crypto \<Rightarrow> bytes \<Rightarrow> 'k state_machine \<Rightarrow> 'k state_machine \<times> tls_err option" where
  "onClientHello cr payload sm =
     (if sm_isClient sm then (sm, Some (TlsErr ''tls: ClientHello on client''))
      else case ParseClientHello payload of
          Inl e \<Rightarrow> (sm, Some e)
        | Inr ch \<Rightarrow>
            (let sm = sm\<lparr>sm_clientHello := Some ch\<rparr>;
                 sm = (if list_ex (\<lambda>cs. cs = TLS_AES_128_GCM_SHA256) (chl_CipherSuites ch)
                       then sm\<lparr>sm_suite := TLS_AES_128_GCM_SHA256\<rparr> else sm)
             in if sm_suite sm = 0 then (sm, Some ErrNoSharedCipher)
             else case clientKeyShare payload of
                 Inl e \<Rightarrow> (sm, Some e)
               | Inr ks \<Rightarrow>
                   (let sm = sm\<lparr>sm_peerKeyShare := ks\<rparr>;
                        sm = (case sm_config sm of None \<Rightarrow> sm
                              | Some cfg \<Rightarrow> sm\<lparr>sm_negotiatedALPN := negotiateALPN (chl_ALPN ch) (cfg_NextProtos cfg)\<rparr>);
                        sm = add_transcript (AppendHandshake [] hsClientHello payload) sm
                    in case newKeyExchange sm of
                        (Inl e, sm) \<Rightarrow> (sm, Some e)
                      | (Inr kx, sm) \<Rightarrow>
                          (let sm = sm\<lparr>sm_kx := Some kx\<rparr> in
                           case shared cr kx ks of
                             Inl e \<Rightarrow> (sm, Some e)
                           | Inr secret \<Rightarrow>
                               (case deriveHandshake cr (sm_keys sm) secret of
                                  Inl e \<Rightarrow> (sm, Some e)
                                | Inr keys \<Rightarrow>
                                    (case send_ServerHello cr ch kx (sm\<lparr>sm_keys := keys\<rparr>) of
                                       (sm, Some e) \<Rightarrow> (sm, Some e)
                                     | (sm, None) \<Rightarrow> send_flight cr sm))))))"

section \<open>The client's side\<close>

definition onServerHello ::
  "('k, 'q, 'c) tls_crypto \<Rightarrow> bytes \<Rightarrow> 'k state_machine \<Rightarrow> 'k state_machine \<times> tls_err option" where
  "onServerHello cr payload sm =
     (if \<not> sm_isClient sm then (sm, Some (TlsErr ''tls: ServerHello on server''))
      else case ParseServerHello payload of
          Inl e \<Rightarrow> (sm, Some e)
        | Inr sh \<Rightarrow>
            (let sm = sm\<lparr>sm_serverHello := Some sh, sm_suite := shl_CipherSuite sh\<rparr> in
             case serverKeyShare payload of
               Inl e \<Rightarrow> (sm, Some e)
             | Inr ks \<Rightarrow>
                 (let sm = add_transcript (AppendHandshake [] hsServerHello payload) sm in
                  case sm_kx sm of
                    None \<Rightarrow> (sm, Some NilPanic)
                  | Some kx \<Rightarrow>
                      (case shared cr kx ks of
                         Inl e \<Rightarrow> (sm, Some e)
                       | Inr secret \<Rightarrow>
                           (case deriveHandshake cr (sm_keys sm) secret of
                              Inl e \<Rightarrow> (sm, Some e)
                            | Inr keys \<Rightarrow>
                                (case handshake_secrets cr ''c hs traffic'' ''s hs traffic'' (sm\<lparr>sm_keys := keys\<rparr>) of
                                   (sm, Some e) \<Rightarrow> (sm, Some e)
                                 | (sm, None) \<Rightarrow> (sm\<lparr>sm_state := StateWaitEncryptedExtensions\<rparr>, None)))))))"

section \<open>Finished\<close>

definition constant_time_diff :: "bytes \<Rightarrow> bytes \<Rightarrow> byte" where
  "constant_time_diff want payload = fold (\<lambda>(w, p) diff. diff OR (w XOR p)) (zip want payload) 0"

definition onFinished ::
  "('k, 'q, 'c) tls_crypto \<Rightarrow> bytes \<Rightarrow> 'k state_machine \<Rightarrow> 'k state_machine \<times> tls_err option" where
  "onFinished cr payload sm =
     (let want = finishedVerifyData cr (nil_bytes (sm_hsReadSecret sm)) (transcript_hash cr sm) in
      if length payload \<noteq> length want then
        (sm, Some (TlsErr (''tls: Finished length '' @ itoa (length payload) @ '', want '' @ itoa (length want))))
      else if constant_time_diff want payload \<noteq> 0 then (sm, Some (TlsErr ''tls: Finished verify data mismatch''))
      else
        let sm = add_transcript (AppendHandshake [] hsFinished payload) sm in
        case (if sm_isClient sm then
                (case cacheApplicationSecrets cr sm of
                   (sm, Some e) \<Rightarrow> (sm, Some e)
                 | (sm, None) \<Rightarrow>
                     (let sm = put_out (AppendRecord [] recordChangeCipherSpec 0x0303 [1]) sm
                      in (send_message cr (finishedMessage cr True sm) sm, None)))
              else (sm, None)) of
          (sm, Some e) \<Rightarrow> (sm, Some e)
        | (sm, None) \<Rightarrow>
            (case switchToApplicationKeys cr sm of
               (sm, Some e) \<Rightarrow> (sm, Some e)
             | (sm, None) \<Rightarrow> (sm\<lparr>sm_state := StateEstablished\<rparr>, None)))"

section \<open>Dispatch\<close>

definition onHandshake ::
  "('k, 'q, 'c) tls_crypto \<Rightarrow> 'k state_machine \<Rightarrow> handshake \<Rightarrow> 'k state_machine \<times> tls_err option" where
  "onHandshake cr sm h =
     (if hs_Type h = hsClientHello then onClientHello cr (hs_Payload h) sm
      else if hs_Type h = hsServerHello then onServerHello cr (hs_Payload h) sm
      else if hs_Type h = hsEncryptedExtensions then
        (let sm = (if sm_isClient sm then sm\<lparr>sm_negotiatedALPN := parseALPNServerExtension (hs_Payload h)\<rparr> else sm);
             sm = add_transcript (AppendHandshake [] (hs_Type h) (hs_Payload h)) sm
         in (if sm_state sm = StateWaitEncryptedExtensions then sm\<lparr>sm_state := StateWaitCertificate\<rparr> else sm, None))
      else if hs_Type h = hsCertificate then
        (let sm = add_transcript (AppendHandshake [] (hs_Type h) (hs_Payload h)) sm
         in (if sm_state sm = StateWaitCertificate then sm\<lparr>sm_state := StateWaitCertificateVerify\<rparr> else sm, None))
      else if hs_Type h = hsCertificateVerify then
        (let sm = add_transcript (AppendHandshake [] (hs_Type h) (hs_Payload h)) sm
         in (if sm_state sm = StateWaitCertificateVerify then sm\<lparr>sm_state := StateWaitServerFinished\<rparr> else sm, None))
      else if hs_Type h = hsFinished then onFinished cr (hs_Payload h) sm
      else if hs_Type h = hsNewSessionTicket then (sm, None)
      else if hs_Type h = hsKeyUpdate then (sm, Some (TlsErr ''tls: KeyUpdate not implemented''))
      else (sm, None))"

definition onAlert :: "bytes \<Rightarrow> tls_err option" where
  "onAlert b =
     (case b of
        level # desc # _ \<Rightarrow> if level = 2 then Some (FatalAlert desc) else None
      | _ \<Rightarrow> None)"

definition feed_handshakes ::
  "('k, 'q, 'c) tls_crypto \<Rightarrow> bytes \<Rightarrow> 'k state_machine \<Rightarrow> 'k state_machine \<times> tls_err option" where
  "feed_handshakes cr b sm =
     (case Parse_handshakes (sm_handshakes sm) (onHandshake cr) sm b of
        (_, err, p, sm) \<Rightarrow> (sm\<lparr>sm_handshakes := p\<rparr>, err))"

definition onRecord ::
  "('k, 'q, 'c) tls_crypto \<Rightarrow> 'k state_machine \<Rightarrow> tls_record \<Rightarrow> 'k state_machine \<times> tls_err option" where
  "onRecord cr sm r =
     (if tr_Type r = recordHandshake then feed_handshakes cr (tr_Payload r) sm
      else if tr_Type r = recordApplicationData then
        (case read_protector sm of
           None \<Rightarrow> (sm, Some (TlsErr ''tls: encrypted record before keys''))
         | Some p \<Rightarrow>
             if pt_aead p = None then (sm, Some (TlsErr ''tls: encrypted record before keys''))
             else case open_record cr p (tr_Payload r) of
                 (Inl e, p) \<Rightarrow> (set_read_protector p sm, Some e)
               | (Inr (content, innerType), p) \<Rightarrow>
                   (let sm = set_read_protector p sm in
                    if innerType = recordHandshake then feed_handshakes cr content sm
                    else if innerType = recordApplicationData then (sm\<lparr>sm_plaintext := sm_plaintext sm @ content\<rparr>, None)
                    else if innerType = recordAlert then (sm, onAlert content)
                    else (sm, None)))
      else if tr_Type r = recordAlert then (sm, onAlert (tr_Payload r))
      else (sm, None))"

definition Feed_tls :: "('k, 'q, 'c) tls_crypto \<Rightarrow> 'k state_machine \<Rightarrow> bytes \<Rightarrow> nat \<times> tls_err option \<times> 'k state_machine" where
  "Feed_tls cr sm dat =
     (case sm_err sm of
        Some e \<Rightarrow> (0, Some e, sm)
      | None \<Rightarrow>
          if dat = [] then (0, None, sm)
          else case Parse_records (sm_records sm) (onRecord cr) sm dat of
              (n, Some e, p, sm) \<Rightarrow> (n, Some e, sm\<lparr>sm_records := p, sm_err := Some e\<rparr>)
            | (n, None, p, sm) \<Rightarrow> (n, None, sm\<lparr>sm_records := p\<rparr>))"

section \<open>Output and application data\<close>

definition TakeOutput :: "'k state_machine \<Rightarrow> bytes \<times> 'k state_machine" where
  "TakeOutput sm = (sm_out sm, sm\<lparr>sm_out := []\<rparr>)"

definition ReadPlaintext :: "'k state_machine \<Rightarrow> bytes \<times> 'k state_machine" where
  "ReadPlaintext sm = (sm_plaintext sm, sm\<lparr>sm_plaintext := []\<rparr>)"

text \<open>The loop of \<open>Write\<close>, over the protector it seals with.\<close>

function write_loop ::
  "('k, 'q, 'c) tls_crypto \<Rightarrow> protector \<Rightarrow> bytes \<Rightarrow> bytes \<Rightarrow> bytes \<times> tls_err option \<times> protector" where
  "write_loop cr p plain out =
     (if plain = [] then (out, None, p)
      else let n = min (length plain) maxRecordPayload in
        case seal cr p recordApplicationData (take n plain) of
          Inl e \<Rightarrow> (out, Some e, p)
        | Inr (ct, p) \<Rightarrow> write_loop cr p (drop n plain) (AppendRecord out recordApplicationData 0x0303 ct))"
  by pat_completeness auto
termination
  by (relation "measure (\<lambda>(cr, p, plain, out). length plain)") auto

declare write_loop.simps [simp del]

definition Write ::
  "('k, 'q, 'c) tls_crypto \<Rightarrow> 'k state_machine \<Rightarrow> bytes \<Rightarrow> bytes \<times> tls_err option \<times> 'k state_machine" where
  "Write cr sm plain =
     (if sm_state sm \<noteq> StateEstablished then ([], Some ErrHandshakeIncomplete, sm)
      else case write_protector sm of
          None \<Rightarrow> ([], Some ErrAEADNotReady, sm)
        | Some p \<Rightarrow>
            if pt_aead p = None then ([], Some ErrAEADNotReady, sm)
            else case write_loop cr p plain [] of (out, err, p) \<Rightarrow> (out, err, set_write_protector p sm))"

section \<open>A matching Finished\<close>

lemma byte_xor_0: "(w XOR p = 0) = (w = (p :: byte))"
proof
  assume "w XOR p = 0"
  then have "(w XOR p) XOR p = p" by simp
  then show "w = p" by (simp add: xor.assoc)
qed simp

lemma diff_fold: "length a = length b \<Longrightarrow>
  (fold (\<lambda>(w, p) diff. diff OR (w XOR p)) (zip a b) d = 0) = (d = 0 \<and> a = (b :: bytes))"
  by (induction a b arbitrary: d rule: list_induct2) (auto simp: or_eq_0_iff byte_xor_0)

lemma constant_time_diff_0: "length a = length b \<Longrightarrow> (constant_time_diff a b = 0) = (a = b)"
  by (simp add: constant_time_diff_def diff_fold)

lemma helper_fields [simp]:
  "sm_keys (put_out b sm) = sm_keys sm" "sm_hsReadSecret (put_out b sm) = sm_hsReadSecret sm"
  "sm_hsWriteSecret (put_out b sm) = sm_hsWriteSecret sm" "sm_isClient (put_out b sm) = sm_isClient sm"
  "sm_state (put_out b sm) = sm_state sm" "sm_err (put_out b sm) = sm_err sm" "sm_out (put_out b sm) = sm_out sm @ b"
  "sm_appWriteSecret (put_out b sm) = sm_appWriteSecret sm" "sm_appReadSecret (put_out b sm) = sm_appReadSecret sm"
  "sm_keys (add_transcript b sm) = transcript_write (sm_keys sm) b"
  "sm_hsReadSecret (add_transcript b sm) = sm_hsReadSecret sm"
  "sm_hsWriteSecret (add_transcript b sm) = sm_hsWriteSecret sm" "sm_isClient (add_transcript b sm) = sm_isClient sm"
  "sm_state (add_transcript b sm) = sm_state sm" "sm_err (add_transcript b sm) = sm_err sm" "sm_out (add_transcript b sm) = sm_out sm"
  "sm_appWriteSecret (add_transcript b sm) = sm_appWriteSecret sm" "sm_appReadSecret (add_transcript b sm) = sm_appReadSecret sm"
  "sm_writeKeys (add_transcript b sm) = sm_writeKeys sm" "sm_readKeys (add_transcript b sm) = sm_readKeys sm"
  "ks_transcript (transcript_write ks b) = ks_transcript ks @ b" "ks_masterSecret (transcript_write ks b) = ks_masterSecret ks"
  "ks_handshakeSecret (transcript_write ks b) = ks_handshakeSecret ks" "ks_earlySecret (transcript_write ks b) = ks_earlySecret ks"
  by (simp_all add: put_out_def add_transcript_def transcript_write_def)

lemma send_message_fields [simp]:
  "sm_keys (send_message cr m sm) = transcript_write (sm_keys sm) m"
  "sm_hsReadSecret (send_message cr m sm) = sm_hsReadSecret sm" "sm_state (send_message cr m sm) = sm_state sm"
  "sm_isClient (send_message cr m sm) = sm_isClient sm"
  "sm_appWriteSecret (send_message cr m sm) = sm_appWriteSecret sm" "sm_appReadSecret (send_message cr m sm) = sm_appReadSecret sm"
  by (simp_all add: send_message_def writeHandshake_def split: option.splits sum.splits prod.splits)

text \<open>What holds of an established machine without an error.\<close>

definition keys_for :: "('k, 'q, 'c) tls_crypto \<Rightarrow> bytes option \<Rightarrow> keys_ref \<Rightarrow> bool" where
  "keys_for cr secret k =
     (\<exists>s p. secret = Some s \<and> k = OwnKeys p \<and> pt_aead p = Some (tk_key (keysFromSecret cr s))
        \<and> pt_iv p = tk_iv (keysFromSecret cr s))"

definition peer_finished :: "('k, 'q, 'c) tls_crypto \<Rightarrow> 'k state_machine \<Rightarrow> bool" where
  "peer_finished cr sm =
     (\<exists>pre post. ks_transcript (sm_keys sm) = pre @ AppendHandshake [] hsFinished
        (finishedVerifyData cr (nil_bytes (sm_hsReadSecret sm)) (cr_sha256 cr pre)) @ post)"

definition established_ok :: "('k, 'q, 'c) tls_crypto \<Rightarrow> 'k state_machine \<Rightarrow> bool" where
  "established_ok cr sm =
     (sm_err sm = None \<longrightarrow> Established sm \<longrightarrow>
        peer_finished cr sm \<and> keys_for cr (sm_appWriteSecret sm) (sm_writeKeys sm)
        \<and> keys_for cr (sm_appReadSecret sm) (sm_readKeys sm))"

lemma switch_keys:
  assumes "switchToApplicationKeys cr sm = (sm', None)"
  shows "keys_for cr (sm_appWriteSecret sm') (sm_writeKeys sm') \<and> keys_for cr (sm_appReadSecret sm') (sm_readKeys sm')
    \<and> sm_keys sm' = sm_keys sm \<and> sm_hsReadSecret sm' = sm_hsReadSecret sm"
  using assms by (auto simp: switchToApplicationKeys_def keys_for_def newRecordProtector_def split: option.splits if_splits sum.splits)

lemma cache_fields:
  assumes "cacheApplicationSecrets cr sm = (sm', None)"
  shows "ks_transcript (sm_keys sm') = ks_transcript (sm_keys sm)" "sm_hsReadSecret sm' = sm_hsReadSecret sm"
  using assms by (auto simp: cacheApplicationSecrets_def deriveMaster_def Let_def split: option.splits sum.splits if_splits)

lemma peer_finished_write: "peer_finished cr sm \<Longrightarrow> sm_keys sm' = transcript_write (sm_keys sm) b \<Longrightarrow>
   sm_hsReadSecret sm' = sm_hsReadSecret sm \<Longrightarrow> peer_finished cr sm'"
  unfolding peer_finished_def by (metis append.assoc helper_fields(21))

text \<open>Finished is accepted only with the value that the transcript and the peer's secret give.\<close>

lemma onFinished_accepts:
  assumes "onFinished cr payload sm = (sm', None)"
  shows "payload = finishedVerifyData cr (nil_bytes (sm_hsReadSecret sm)) (transcript_hash cr sm)"
    and "established_ok cr sm'"
proof -
  let ?want = "finishedVerifyData cr (nil_bytes (sm_hsReadSecret sm)) (transcript_hash cr sm)"
  show p: "payload = ?want"
    using assms constant_time_diff_0 [of ?want payload] by (auto simp: onFinished_def Let_def split: if_splits)
  let ?sm = "add_transcript (AppendHandshake [] hsFinished payload) sm"
  have seen: "peer_finished cr ?sm"
    unfolding peer_finished_def
    by (rule exI [of _ "ks_transcript (sm_keys sm)"], rule exI [of _ "[]"]) (simp add: p transcript_hash_def transcript_sum_def)
  show "established_ok cr sm'"
  proof (cases "sm_isClient sm")
    case True
    then obtain s1 s2 where s: "cacheApplicationSecrets cr ?sm = (s1, None)"
        "switchToApplicationKeys cr (send_message cr (finishedMessage cr True (put_out (AppendRecord [] recordChangeCipherSpec 0x0303 [1]) s1))
           (put_out (AppendRecord [] recordChangeCipherSpec 0x0303 [1]) s1)) = (s2, None)" "sm' = s2\<lparr>sm_state := StateEstablished\<rparr>"
      using assms by (auto simp: onFinished_def Let_def split: if_splits prod.splits option.splits)
    have "peer_finished cr s1" using seen cache_fields [OF s(1)] by (simp add: peer_finished_def)
    then have "peer_finished cr s2" by (rule peer_finished_write) (use switch_keys [OF s(2)] in simp_all)
    then show ?thesis using switch_keys [OF s(2)] by (simp add: established_ok_def s(3) peer_finished_def)
  next
    case False
    then obtain s2 where s: "switchToApplicationKeys cr ?sm = (s2, None)" "sm' = s2\<lparr>sm_state := StateEstablished\<rparr>"
      using assms by (auto simp: onFinished_def Let_def split: if_splits prod.splits option.splits)
    then show ?thesis using switch_keys [OF s(1)] seen by (simp add: established_ok_def peer_finished_def)
  qed
qed


text \<open>The invariant is kept.\<close>

lemma established_ok_cong:
  "established_ok cr sm \<Longrightarrow> sm_err sm' = sm_err sm \<Longrightarrow> sm_state sm' = sm_state sm \<Longrightarrow> peer_finished cr sm' = peer_finished cr sm \<Longrightarrow>
   sm_appWriteSecret sm' = sm_appWriteSecret sm \<Longrightarrow> sm_appReadSecret sm' = sm_appReadSecret sm \<Longrightarrow>
   sm_writeKeys sm' = sm_writeKeys sm \<Longrightarrow> sm_readKeys sm' = sm_readKeys sm \<Longrightarrow> established_ok cr sm'"
  by (simp add: established_ok_def Established_def)

lemma onClientHello_waits: "onClientHello cr payload sm = (sm', None) \<Longrightarrow> sm_state sm' = StateWaitFinished"
  by (auto simp: onClientHello_def send_flight_def Let_def split: if_splits sum.splits prod.splits option.splits)

lemma onServerHello_waits: "onServerHello cr payload sm = (sm', None) \<Longrightarrow> sm_state sm' = StateWaitEncryptedExtensions"
  by (auto simp: onServerHello_def Let_def split: if_splits sum.splits prod.splits option.splits)

lemma established_ok_transcript:
  assumes "established_ok cr sm" and "sm_keys sm' = transcript_write (sm_keys sm) b"
    and "sm_err sm' = sm_err sm" and "sm_state sm' = sm_state sm \<or> sm_state sm' \<noteq> StateEstablished"
    and "sm_hsReadSecret sm' = sm_hsReadSecret sm" and "sm_appWriteSecret sm' = sm_appWriteSecret sm"
    and "sm_appReadSecret sm' = sm_appReadSecret sm" and "sm_writeKeys sm' = sm_writeKeys sm" and "sm_readKeys sm' = sm_readKeys sm"
  shows "established_ok cr sm'"
  using assms peer_finished_write [OF _ assms(2,5)] by (auto simp: established_ok_def Established_def)

lemma onHandshake_eqs:
  "hs_Type h = hsClientHello \<Longrightarrow> onHandshake cr sm h = onClientHello cr (hs_Payload h) sm"
  "hs_Type h = hsServerHello \<Longrightarrow> onHandshake cr sm h = onServerHello cr (hs_Payload h) sm"
  "hs_Type h = hsFinished \<Longrightarrow> onHandshake cr sm h = onFinished cr (hs_Payload h) sm"
  "hs_Type h = hsEncryptedExtensions \<Longrightarrow> onHandshake cr sm h =
     (let sm = (if sm_isClient sm then sm\<lparr>sm_negotiatedALPN := parseALPNServerExtension (hs_Payload h)\<rparr> else sm);
          sm = add_transcript (AppendHandshake [] (hs_Type h) (hs_Payload h)) sm
      in (if sm_state sm = StateWaitEncryptedExtensions then sm\<lparr>sm_state := StateWaitCertificate\<rparr> else sm, None))"
  "hs_Type h = hsCertificate \<Longrightarrow> onHandshake cr sm h =
     (let sm = add_transcript (AppendHandshake [] (hs_Type h) (hs_Payload h)) sm
      in (if sm_state sm = StateWaitCertificate then sm\<lparr>sm_state := StateWaitCertificateVerify\<rparr> else sm, None))"
  "hs_Type h = hsCertificateVerify \<Longrightarrow> onHandshake cr sm h =
     (let sm = add_transcript (AppendHandshake [] (hs_Type h) (hs_Payload h)) sm
      in (if sm_state sm = StateWaitCertificateVerify then sm\<lparr>sm_state := StateWaitServerFinished\<rparr> else sm, None))"
  "hs_Type h \<noteq> hsClientHello \<Longrightarrow> hs_Type h \<noteq> hsServerHello \<Longrightarrow> hs_Type h \<noteq> hsFinished \<Longrightarrow>
   hs_Type h \<noteq> hsEncryptedExtensions \<Longrightarrow> hs_Type h \<noteq> hsCertificate \<Longrightarrow> hs_Type h \<noteq> hsCertificateVerify \<Longrightarrow>
   onHandshake cr sm h = (sm, if hs_Type h = hsKeyUpdate then Some (TlsErr ''tls: KeyUpdate not implemented'') else None)"
  by (simp_all add: onHandshake_def)

lemma established_ok_moved:
  assumes "established_ok cr t" and "b \<noteq> StateEstablished"
  shows "established_ok cr (if sm_state s = a then add_transcript m t\<lparr>sm_state := b\<rparr> else add_transcript m t)"
proof -
  have "established_ok cr (add_transcript m t)"
    by (rule established_ok_transcript [OF assms(1), of _ m]) (simp_all)
  then show ?thesis using assms(2) by (simp add: established_ok_def Established_def)
qed

lemma onHandshake_keeps:
  assumes keep: "established_ok cr sm" and h: "onHandshake cr sm h = (sm', None)"
  shows "established_ok cr sm'"
proof -
  consider "hs_Type h = hsClientHello" | "hs_Type h = hsServerHello" | "hs_Type h = hsFinished"
    | "hs_Type h = hsEncryptedExtensions" | "hs_Type h = hsCertificate" | "hs_Type h = hsCertificateVerify"
    | (other) "hs_Type h \<noteq> hsClientHello" "hs_Type h \<noteq> hsServerHello" "hs_Type h \<noteq> hsFinished"
        "hs_Type h \<noteq> hsEncryptedExtensions" "hs_Type h \<noteq> hsCertificate" "hs_Type h \<noteq> hsCertificateVerify"
    by argo
  then show ?thesis
  proof cases
    case 1
    with h have "onClientHello cr (hs_Payload h) sm = (sm', None)" by (simp only: onHandshake_eqs)
    from onClientHello_waits [OF this] show ?thesis by (simp add: established_ok_def Established_def)
  next
    case 2
    with h have "onServerHello cr (hs_Payload h) sm = (sm', None)" by (simp only: onHandshake_eqs)
    from onServerHello_waits [OF this] show ?thesis by (simp add: established_ok_def Established_def)
  next
    case 3
    with h have "onFinished cr (hs_Payload h) sm = (sm', None)" by (simp only: onHandshake_eqs)
    then show ?thesis by (rule onFinished_accepts(2))
  next
    case 4
    let ?t = "if sm_isClient sm then sm\<lparr>sm_negotiatedALPN := parseALPNServerExtension (hs_Payload h)\<rparr> else sm"
    have t: "established_ok cr ?t" using keep by (auto simp: established_ok_def Established_def peer_finished_def)
    show ?thesis
      using h established_ok_moved [OF t] unfolding onHandshake_eqs(4) [OF 4] Let_def prod.inject by blast
  next
    case 5
    show ?thesis using h established_ok_moved [OF keep] unfolding onHandshake_eqs(5) [OF 5] Let_def prod.inject by blast
  next
    case 6
    show ?thesis using h established_ok_moved [OF keep] unfolding onHandshake_eqs(6) [OF 6] Let_def prod.inject by blast
  next
    case other
    then have "sm' = sm" using h by (simp only: onHandshake_eqs(7) [OF other] prod.inject)
    then show ?thesis using keep by simp
  qed
qed

lemma feed_handshakes_keeps:
  assumes keep: "established_ok cr sm" and "feed_handshakes cr b sm = (sm', None)"
  shows "established_ok cr sm'"
proof -
  obtain n p s where f: "Parse_handshakes (sm_handshakes sm) (onHandshake cr) sm b = (n, None, p, s)" "sm' = s\<lparr>sm_handshakes := p\<rparr>"
    using assms(2) by (auto simp: feed_handshakes_def split: prod.splits)
  then obtain c work where "frame_loop split_handshake (onHandshake cr) 0 sm work = (c, None, s)"
    by (auto simp: Parse_handshakes_def Let_def split: prod.splits)
  with keep have "established_ok cr s"
    by (rule hs.loop_keeps [where P = "\<lambda>_. True" and good = "\<lambda>e. e = None", rotated 3]) (auto intro: onHandshake_keeps)
  then show ?thesis by (rule established_ok_cong) (simp_all add: f(2) peer_finished_def)
qed

lemma open_record_fields: "open_record cr p c = (r, q) \<Longrightarrow> pt_aead q = pt_aead p \<and> pt_iv q = pt_iv p"
  by (auto simp: open_record_def Let_def split: option.splits if_splits)

lemma read_protector_keeps:
  assumes "established_ok cr sm" and "read_protector sm = Some p" and "open_record cr p c = (r, q)"
  shows "established_ok cr (set_read_protector q sm)"
  using assms open_record_fields [OF assms(3)]
  by (auto simp: established_ok_def Established_def peer_finished_def keys_for_def set_read_protector_def read_protector_def
      split: keys_ref.splits)

lemma onRecord_keeps:
  assumes keep: "established_ok cr sm" and r: "onRecord cr sm r = (sm', None)"
  shows "established_ok cr sm'"
proof (cases "tr_Type r = recordApplicationData")
  case True
  obtain p where p: "read_protector sm = Some p" "pt_aead p \<noteq> None"
    using r True by (cases "read_protector sm") (auto simp: onRecord_def split: if_splits)
  obtain x q where o: "open_record cr p (tr_Payload r) = (x, q)" by fastforce
  note k = read_protector_keeps [OF keep p(1) o]
  obtain content t where x: "x = Inr (content, t)"
    using r True p o by (cases x) (auto simp: onRecord_def)
  let ?s = "set_read_protector q sm"
  have "established_ok cr (?s\<lparr>sm_plaintext := sm_plaintext ?s @ content\<rparr>)"
    using k by (rule established_ok_cong) (simp_all add: peer_finished_def)
  then show ?thesis
    using r True p o x k feed_handshakes_keeps [OF k, of content sm']
    by (simp add: onRecord_def Let_def split: if_splits)
next
  case False
  then show ?thesis using r keep feed_handshakes_keeps [OF keep] by (simp add: onRecord_def split: if_splits)
qed

lemma records_keep:
  assumes "established_ok cr sm" and "frame_loop split_record (onRecord cr) c sm dat = (c', None, s)"
  shows "established_ok cr s"
  by (rule recs.loop_keeps [where keep = "established_ok cr" and P = "\<lambda>_. True" and good = "\<lambda>e. e = None",
        OF _ _ _ assms]) (auto intro: onRecord_keeps)

lemma Feed_tls_cases:
  assumes "Feed_tls cr sm dat = (n, err, sm')" and "sm_err sm = None" and "dat \<noteq> []"
  obtains s where "frame_loop split_record (onRecord cr) 0 sm dat = (n, err, s)"
    and "sm' = (case err of None \<Rightarrow> s\<lparr>sm_records := sm_records sm\<rparr> | Some e \<Rightarrow> s\<lparr>sm_records := sm_records sm, sm_err := Some e\<rparr>)"
  using assms by (auto simp: Feed_tls_def Parse_records_def split: prod.splits option.splits)

lemma Feed_tls_keeps:
  assumes keep: "established_ok cr sm" and f: "Feed_tls cr sm dat = (n, err, sm')"
  shows "established_ok cr sm'"
proof (cases "sm_err sm \<noteq> None \<or> dat = []")
  case True
  then show ?thesis using assms by (cases "sm_err sm") (auto simp: Feed_tls_def)
next
  case False
  then have "sm_err sm = None" "dat \<noteq> []" by simp_all
  from Feed_tls_cases [OF f this] obtain s where s: "frame_loop split_record (onRecord cr) 0 sm dat = (n, err, s)"
    "sm' = (case err of None \<Rightarrow> s\<lparr>sm_records := sm_records sm\<rparr> | Some e \<Rightarrow> s\<lparr>sm_records := sm_records sm, sm_err := Some e\<rparr>)"
    by blast
  show ?thesis
  proof (cases err)
    case None
    have "established_ok cr s" using records_keep [OF keep] s(1) None by blast
    then show ?thesis using s(2) None by (simp add: established_ok_def Established_def peer_finished_def)
  qed (simp add: s(2) established_ok_def)
qed


section \<open>Chunks\<close>

text \<open>The engine keeps what \<open>Feed_tls\<close> did not consume and puts it in front of the next read.\<close>

fun feed_reads ::
  "('k, 'q, 'c) tls_crypto \<Rightarrow> bytes \<Rightarrow> 'k state_machine \<Rightarrow> bytes list \<Rightarrow> bytes \<times> tls_err option \<times> 'k state_machine" where
  "feed_reads cr buf sm [] = (buf, None, sm)"
| "feed_reads cr buf sm (d # ds) =
     (case Feed_tls cr sm (buf @ d) of
        (n, Some e, sm) \<Rightarrow> (drop n (buf @ d), Some e, sm)
      | (n, None, sm) \<Rightarrow> feed_reads cr (drop n (buf @ d)) sm ds)"

lemma feed_reads_keeps:
  "established_ok cr sm \<Longrightarrow> feed_reads cr buf sm ds = (buf', err, sm') \<Longrightarrow> established_ok cr sm'"
proof (induction ds arbitrary: buf sm)
  case (Cons d ds)
  obtain n e s where f: "Feed_tls cr sm (buf @ d) = (n, e, s)" by (rule prod_cases3)
  note k = Feed_tls_keeps [OF Cons.prems(1) f]
  show ?case using Cons.prems(2) k by (cases e) (auto simp: f intro: Cons.IH)
qed simp

lemma new_machine_ok: "established_ok cr (init_machine cr config isClient rnd)"
  by (simp add: established_ok_def Established_def init_machine_def)

text \<open>No handler touches the record parser or takes an error back.\<close>

definition keeps_fields :: "'k state_machine \<Rightarrow> 'k state_machine \<Rightarrow> bool" where
  "keeps_fields sm sm' = (sm_records sm' = sm_records sm \<and> (sm_err sm' = None \<longrightarrow> sm_err sm = None))"

lemma keeps_trans: "keeps_fields a b \<Longrightarrow> keeps_fields b c \<Longrightarrow> keeps_fields a c"
  by (simp add: keeps_fields_def)

lemma keeps_refl [simp]: "keeps_fields a a"
  by (simp add: keeps_fields_def)

lemma keeps_updates [simp]:
  "keeps_fields a (put_out b sm) = keeps_fields a sm" "keeps_fields a (add_transcript b sm) = keeps_fields a sm"
  "keeps_fields a (sm\<lparr>sm_state := st\<rparr>) = keeps_fields a sm" "keeps_fields a (sm\<lparr>sm_keys := ks\<rparr>) = keeps_fields a sm"
  "keeps_fields a (sm\<lparr>sm_kx := kx\<rparr>) = keeps_fields a sm" "keeps_fields a (sm\<lparr>sm_suite := su\<rparr>) = keeps_fields a sm"
  "keeps_fields a (sm\<lparr>sm_negotiatedALPN := al\<rparr>) = keeps_fields a sm" "keeps_fields a (sm\<lparr>sm_peerKeyShare := pk\<rparr>) = keeps_fields a sm"
  "keeps_fields a (sm\<lparr>sm_clientHello := ch\<rparr>) = keeps_fields a sm" "keeps_fields a (sm\<lparr>sm_serverHello := sh\<rparr>) = keeps_fields a sm"
  "keeps_fields a (sm\<lparr>sm_rand := r\<rparr>) = keeps_fields a sm" "keeps_fields a (sm\<lparr>sm_plaintext := pl\<rparr>) = keeps_fields a sm"
  "keeps_fields a (sm\<lparr>sm_handshakes := hp\<rparr>) = keeps_fields a sm"
  "keeps_fields a (sm\<lparr>sm_appWriteSecret := x\<rparr>) = keeps_fields a sm" "keeps_fields a (sm\<lparr>sm_appReadSecret := x\<rparr>) = keeps_fields a sm"
  "keeps_fields a (sm\<lparr>sm_hsWriteSecret := x\<rparr>) = keeps_fields a sm" "keeps_fields a (sm\<lparr>sm_hsReadSecret := x\<rparr>) = keeps_fields a sm"
  "keeps_fields a (sm\<lparr>sm_writeKeys := k\<rparr>) = keeps_fields a sm" "keeps_fields a (sm\<lparr>sm_readKeys := k\<rparr>) = keeps_fields a sm"
  "keeps_fields a (sm\<lparr>sm_hsWriteKeys := q\<rparr>) = keeps_fields a sm" "keeps_fields a (sm\<lparr>sm_hsReadKeys := q\<rparr>) = keeps_fields a sm"
  "keeps_fields (put_out b sm) a = keeps_fields sm a" "keeps_fields (add_transcript b sm) a = keeps_fields sm a"
  "keeps_fields (sm\<lparr>sm_state := st\<rparr>) a = keeps_fields sm a" "keeps_fields (sm\<lparr>sm_keys := ks\<rparr>) a = keeps_fields sm a"
  "keeps_fields (sm\<lparr>sm_kx := kx\<rparr>) a = keeps_fields sm a" "keeps_fields (sm\<lparr>sm_suite := su\<rparr>) a = keeps_fields sm a"
  "keeps_fields (sm\<lparr>sm_negotiatedALPN := al\<rparr>) a = keeps_fields sm a" "keeps_fields (sm\<lparr>sm_peerKeyShare := pk\<rparr>) a = keeps_fields sm a"
  "keeps_fields (sm\<lparr>sm_clientHello := ch\<rparr>) a = keeps_fields sm a" "keeps_fields (sm\<lparr>sm_serverHello := sh\<rparr>) a = keeps_fields sm a"
  "keeps_fields (sm\<lparr>sm_rand := r\<rparr>) a = keeps_fields sm a" "keeps_fields (sm\<lparr>sm_plaintext := pl\<rparr>) a = keeps_fields sm a"
  "keeps_fields (sm\<lparr>sm_handshakes := hp\<rparr>) a = keeps_fields sm a"
  "keeps_fields (sm\<lparr>sm_appWriteSecret := x\<rparr>) a = keeps_fields sm a" "keeps_fields (sm\<lparr>sm_appReadSecret := x\<rparr>) a = keeps_fields sm a"
  "keeps_fields (sm\<lparr>sm_hsWriteSecret := x\<rparr>) a = keeps_fields sm a" "keeps_fields (sm\<lparr>sm_hsReadSecret := x\<rparr>) a = keeps_fields sm a"
  "keeps_fields (sm\<lparr>sm_writeKeys := k\<rparr>) a = keeps_fields sm a" "keeps_fields (sm\<lparr>sm_readKeys := k\<rparr>) a = keeps_fields sm a"
  "keeps_fields (sm\<lparr>sm_hsWriteKeys := q\<rparr>) a = keeps_fields sm a" "keeps_fields (sm\<lparr>sm_hsReadKeys := q\<rparr>) a = keeps_fields sm a"
  by (simp_all add: keeps_fields_def put_out_def add_transcript_def)

lemma keeps_send: "keeps_fields (send_message cr m sm) a \<Longrightarrow> keeps_fields sm a"
  by (auto simp: keeps_fields_def send_message_def writeHandshake_def put_out_def add_transcript_def split: option.splits sum.splits prod.splits if_splits)

lemma keeps_send_right [simp]: "keeps_fields a sm \<Longrightarrow> keeps_fields a (send_message cr m sm)"
  by (auto simp: keeps_fields_def send_message_def writeHandshake_def put_out_def add_transcript_def split: option.splits sum.splits prod.splits if_splits)

lemma keeps_cache: "cacheApplicationSecrets cr sm = (sm', e) \<Longrightarrow> keeps_fields sm sm'"
  by (cases "sm_isClient sm") (auto simp: cacheApplicationSecrets_def Let_def split: sum.splits)

lemma keeps_switch: "switchToApplicationKeys cr sm = (sm', e) \<Longrightarrow> keeps_fields sm sm'"
  by (auto simp: switchToApplicationKeys_def split: option.splits sum.splits)

lemma keeps_secrets: "handshake_secrets cr w r sm = (sm', e) \<Longrightarrow> keeps_fields sm sm'"
  by (auto simp: handshake_secrets_def Let_def split: sum.splits)

lemma keeps_rand: "rand_Read n sm = (r, sm') \<Longrightarrow> keeps_fields sm sm'"
  by (auto simp: rand_Read_def split: list.splits)

lemma keeps_cv: "certificateVerify cr sm = (r, sm') \<Longrightarrow> keeps_fields sm sm'"
  by (auto simp: certificateVerify_def Let_def split: option.splits list.splits sum.splits)

lemma keeps_send_ServerHello: "send_ServerHello cr ch kx sm = (sm', e) \<Longrightarrow> keeps_fields sm sm'"
  by (auto simp: send_ServerHello_def Let_def split: prod.splits sum.splits dest!: keeps_secrets keeps_rand dest: keeps_trans)

lemma keeps_flight: "send_flight cr sm = (sm', e) \<Longrightarrow> keeps_fields sm sm'"
  by (auto simp: send_flight_def Let_def split: prod.splits sum.splits option.splits dest!: keeps_cv keeps_cache keeps_send dest: keeps_trans)

lemma keeps_Finished: "onFinished cr payload sm = (sm', e) \<Longrightarrow> keeps_fields sm sm'"
  by (auto simp: onFinished_def Let_def split: if_splits prod.splits option.splits dest!: keeps_cache keeps_switch keeps_send dest: keeps_trans)

lemma keeps_ServerHello: "onServerHello cr payload sm = (sm', e) \<Longrightarrow> keeps_fields sm sm'"
  by (auto simp: onServerHello_def Let_def split: if_splits prod.splits option.splits sum.splits dest!: keeps_secrets)

lemma keeps_ClientHello: "onClientHello cr payload sm = (sm', e) \<Longrightarrow> keeps_fields sm sm'"
  by (auto simp: onClientHello_def newKeyExchange_def Let_def split: if_splits prod.splits option.splits sum.splits
      dest!: keeps_send_ServerHello keeps_flight keeps_rand) (blast intro: keeps_trans)+

lemma keeps_onHandshake: "onHandshake cr sm h = (sm', e) \<Longrightarrow> keeps_fields sm sm'"
  by (auto simp: onHandshake_def Let_def split: if_splits dest: keeps_Finished keeps_ServerHello keeps_ClientHello)

lemma keeps_feed_handshakes:
  assumes "feed_handshakes cr b sm = (sm', e)"
  shows "keeps_fields sm sm'"
proof -
  have "keeps_fields sm (snd (snd (frame_loop split_handshake (onHandshake cr) 0 sm work)))" for work
    by (rule hs.loop_preserves) (auto intro: keeps_trans keeps_onHandshake)
  then have k: "keeps_fields sm s" if "frame_loop split_handshake (onHandshake cr) 0 sm work = (n, x, s)" for work n x s
    using that by (metis snd_conv)
  show ?thesis using assms by (auto simp: feed_handshakes_def Parse_handshakes_def Let_def split: prod.splits dest!: k)
qed

lemma keeps_onRecord:
  assumes "onRecord cr sm r = (sm', e)"
  shows "keeps_fields sm sm'"
proof -
  have p: "keeps_fields (set_read_protector q t) x = keeps_fields t x" "keeps_fields x (set_read_protector q t) = keeps_fields x t" for q t x
    by (simp_all add: set_read_protector_def split: keys_ref.splits)
  show ?thesis
    using assms by (auto simp: onRecord_def Let_def p split: if_splits option.splits prod.splits sum.splits dest!: keeps_feed_handshakes)
qed

lemma keeps_records_loop:
  "frame_loop split_record (onRecord cr) c sm b = (n, e, sm') \<Longrightarrow> keeps_fields sm sm'"
  using recs.loop_preserves [where keep = "keeps_fields sm" and fn = "onRecord cr" and s = sm and c = c and b = b]
  by (metis keeps_onRecord keeps_refl keeps_trans snd_conv)

lemma records_unchanged: "sm_records s = p \<Longrightarrow> s\<lparr>sm_records := p\<rparr> = s"
  by (cases s) simp

lemma Feed_tls_loop:
  assumes "sm_err sm = None" and "frame_loop split_record (onRecord cr) 0 sm b = (n, None, s)"
  shows "Feed_tls cr sm b = (n, None, s)"
proof (cases "b = []")
  case True
  then show ?thesis using assms by (simp add: Feed_tls_def recs.loop_NeedMore recs.split_Nil)
next
  case False
  then show ?thesis
    using assms keeps_records_loop [OF assms(2)] by (simp add: Feed_tls_def Parse_records_def keeps_fields_def records_unchanged)
qed

lemma feed_reads_loop:
  assumes "frame_loop split_record (onRecord cr) 0 sm (buf @ concat ds) = (n, None, sm')" and "sm_err sm' = None"
    and "split_record buf = NeedMore"
  shows "feed_reads cr buf sm ds = (drop n (buf @ concat ds), None, sm')"
  using assms
proof (induction ds arbitrary: buf sm n)
  case Nil
  then show ?case by (simp add: recs.loop_NeedMore)
next
  case (Cons d ds)
  obtain k e s where l: "frame_loop split_record (onRecord cr) 0 sm (buf @ d) = (k, e, s)" by (rule prod_cases3)
  note a = recs.loop_append [OF l, of "concat ds"]
  have e: "e = None" using a Cons.prems(1) by (cases e) simp_all
  obtain m where m: "n = k + m" "frame_loop split_record (onRecord cr) 0 s (drop k (buf @ d) @ concat ds) = (m, None, sm')"
    using a Cons.prems(1) recs.loop_offset [of "onRecord cr" k s "drop k (buf @ d) @ concat ds"]
    by (auto simp: e split: prod.splits)
  have err: "sm_err sm = None"
    using keeps_records_loop [OF Cons.prems(1)] Cons.prems(2) by (simp add: keeps_fields_def)
  have need: "split_record (drop k (buf @ d)) = NeedMore" and k: "k \<le> length (buf @ d)"
    using recs.loop_stop [OF l] e by simp_all
  have "drop (k + m) ((buf @ d) @ concat ds) = drop m (drop k ((buf @ d) @ concat ds))"
    by (simp only: drop_drop add.commute)
  also have "drop k ((buf @ d) @ concat ds) = drop k (buf @ d) @ concat ds"
    using k by (simp only: drop_append) simp
  finally have "drop n (buf @ concat (d # ds)) = drop m (drop k (buf @ d) @ concat ds)" by (simp add: m(1))
  then show ?case
    using Cons.IH [OF m(2) Cons.prems(2) need] Feed_tls_loop [OF err l [unfolded e]] by simp
qed

text \<open>C9. Chunks do not matter: what a machine makes of a stream in one piece, without an error, it
  makes of it in any pieces; and what is left unconsumed is the same.\<close>

theorem chunks_do_not_matter:
  assumes "Feed_tls cr sm (concat ds) = (n, None, sm')" and "sm_err sm' = None" and "concat ds \<noteq> []"
  shows "feed_reads cr [] sm ds = (drop n (concat ds), None, sm')"
proof -
  have err: "sm_err sm = None" using assms(1) by (cases "sm_err sm") (simp_all add: Feed_tls_def)
  from Feed_tls_cases [OF assms(1) err assms(3)] obtain s where
    s: "frame_loop split_record (onRecord cr) 0 sm (concat ds) = (n, None, s)" "sm' = s\<lparr>sm_records := sm_records sm\<rparr>" by auto
  have "sm' = s" using keeps_records_loop [OF s(1)] s(2) by (simp add: keeps_fields_def records_unchanged)
  then show ?thesis using feed_reads_loop [of cr sm "[]" ds n sm'] s(1) assms(2) by (simp add: recs.split_Nil)
qed

lemma chunks_do_not_matter_witness:
  "feed_reads plain_crypto [] (NewServerStateMachine plain_crypto None []) [[21], [3, 3, 0], [], [2, 1], [0, 21]]
    = ([21], None, NewServerStateMachine plain_crypto None [])"
proof -
  let ?s = "NewServerStateMachine plain_crypto None [] :: unit state_machine"
  have err: "sm_err ?s = None" by (simp add: NewServerStateMachine_def init_machine_def)
  have "frame_loop split_record (onRecord plain_crypto) 0 ?s [21, 3, 3, 0, 2, 1, 0, 21] = (7, None, ?s)"
    by (subst recs.loop_Got [of _ "\<lparr>tr_Type = 21, tr_Version = 0x303, tr_Payload = [1, 0]\<rparr>" 7])
      (simp_all add: split_record_def Let_def get16_def onRecord_def onAlert_def recs.loop_NeedMore)
  then have "Feed_tls plain_crypto ?s (concat [[21], [3, 3, 0], [], [2, 1], [0, 21]]) = (7, None, ?s)"
    using Feed_tls_loop [OF err] by simp
  from chunks_do_not_matter [OF this err] show ?thesis by simp
qed

section \<open>The life of a machine\<close>

text \<open>Every state a machine can get into, whatever is fed to it and in whatever order its
  operations are called.\<close>

inductive machine_run :: "('k, 'q, 'c) tls_crypto \<Rightarrow> 'k state_machine \<Rightarrow> bool" for cr where
  server: "machine_run cr (NewServerStateMachine cr config rnd)"
| client: "machine_run cr (NewClientStateMachine cr config rnd)"
| started: "machine_run cr sm \<Longrightarrow> Start cr sm = (sm', err) \<Longrightarrow> machine_run cr sm'"
| fed: "machine_run cr sm \<Longrightarrow> Feed_tls cr sm dat = (n, err, sm') \<Longrightarrow> machine_run cr sm'"
| taken: "machine_run cr sm \<Longrightarrow> TakeOutput sm = (b, sm') \<Longrightarrow> machine_run cr sm'"
| plain: "machine_run cr sm \<Longrightarrow> ReadPlaintext sm = (b, sm') \<Longrightarrow> machine_run cr sm'"
| written: "machine_run cr sm \<Longrightarrow> Write cr sm dat = (b, err, sm') \<Longrightarrow> machine_run cr sm'"

lemma established_ok_updates [simp]:
  "established_ok cr (sm\<lparr>sm_kx := kx\<rparr>) = established_ok cr sm" "established_ok cr (sm\<lparr>sm_rand := r\<rparr>) = established_ok cr sm"
  "established_ok cr (sm\<lparr>sm_out := b\<rparr>) = established_ok cr sm" "established_ok cr (sm\<lparr>sm_plaintext := b\<rparr>) = established_ok cr sm"
  "established_ok cr (put_out b sm) = established_ok cr sm"
  by (simp_all add: established_ok_def Established_def peer_finished_def put_out_def)

lemma established_ok_add: "established_ok cr sm \<Longrightarrow> established_ok cr (add_transcript m sm)"
  by (rule established_ok_transcript [of cr sm _ m]) simp_all

lemma Start_keeps: "established_ok cr sm \<Longrightarrow> Start cr sm = (sm', err) \<Longrightarrow> established_ok cr sm'"
  by (auto simp: Start_def newKeyExchange_def rand_Read_def Let_def split: list.splits if_splits intro!: established_ok_add)

lemma write_loop_fields: "write_loop cr p plain out = (b, e, q) \<Longrightarrow> pt_aead q = pt_aead p \<and> pt_iv q = pt_iv p"
proof (induction cr p plain out rule: write_loop.induct)
  case (1 cr p plain out)
  show ?case
  proof (cases "plain = [] \<or> (\<exists>x. seal cr p recordApplicationData (take (min (length plain) maxRecordPayload) plain) = Inl x)")
    case True
    then show ?thesis using 1(2) by (subst (asm) write_loop.simps) (auto simp: Let_def split: if_splits)
  next
    case False
    then obtain c r where s: "seal cr p recordApplicationData (take (min (length plain) maxRecordPayload) plain) = Inr (c, r)"
      by (metis old.sum.exhaust surj_pair)
    have "write_loop cr r (drop (min (length plain) maxRecordPayload) plain) (AppendRecord out recordApplicationData 0x0303 c) = (b, e, q)"
      using 1(2) s False by (subst (asm) write_loop.simps) (simp add: Let_def)
    then have "pt_aead q = pt_aead r \<and> pt_iv q = pt_iv r" using 1(1) [OF _ refl s refl] False by simp
    moreover have "pt_aead r = pt_aead p \<and> pt_iv r = pt_iv p" by (rule seal_cases [OF s]) simp
    ultimately show ?thesis by simp
  qed
qed

lemma peer_finished_writing:
  "peer_finished cr (sm\<lparr>sm_writeKeys := k\<rparr>) = peer_finished cr sm" "peer_finished cr (sm\<lparr>sm_hsWriteKeys := q\<rparr>) = peer_finished cr sm"
  by (simp_all add: peer_finished_def)

lemma Write_keeps: "established_ok cr sm \<Longrightarrow> Write cr sm dat = (b, e, sm') \<Longrightarrow> established_ok cr sm'"
  by (auto simp: Write_def set_write_protector_def write_protector_def established_ok_def Established_def peer_finished_writing keys_for_def
      split: if_splits option.splits prod.splits keys_ref.splits dest: write_loop_fields)

text \<open>C8. Nobody gets through the handshake without the other end's Finished. Whatever comes in and
  however it is cut, a machine that is established and has no error has in its transcript a
  Finished message that was computed, with the handshake secret of the reading direction,
  over everything before it; and its two protectors hold the keys of the application secrets.\<close>

theorem established_authenticated:
  assumes "machine_run cr sm" and "sm_err sm = None" and "Established sm"
  shows "(\<exists>pre post. ks_transcript (sm_keys sm) = pre @ AppendHandshake [] hsFinished
      (finishedVerifyData cr (nil_bytes (sm_hsReadSecret sm)) (cr_sha256 cr pre)) @ post)
    \<and> keys_for cr (sm_appWriteSecret sm) (sm_writeKeys sm) \<and> keys_for cr (sm_appReadSecret sm) (sm_readKeys sm)"
proof -
  from assms(1) have "established_ok cr sm"
  proof induction
    case (taken sm b sm')
    then show ?case by (auto simp: TakeOutput_def)
  next
    case (plain sm b sm')
    then show ?case by (auto simp: ReadPlaintext_def)
  qed (auto simp: NewServerStateMachine_def NewClientStateMachine_def new_machine_ok intro: Start_keeps Feed_tls_keeps Write_keeps)
  then show ?thesis using assms(2,3) by (simp add: established_ok_def peer_finished_def)
qed

end
