(* ===== verification/Tls_Run.thy ===== *)
theory Tls_Run
  imports Tls_State
begin

text \<open>
  A whole handshake of a client machine with a server machine (\<^verbatim>\<open>tls/state.go\<close>): what every
  handler leaves behind where nothing fails, and the two machines run against each other.
\<close>

section \<open>Protectors by their secret\<close>

definition prot :: "('k, 'q, 'c) tls_crypto \<Rightarrow> bytes \<Rightarrow> u64 \<Rightarrow> protector" where
  "prot cr secret n =
     \<lparr>pt_aead = Some (tk_key (keysFromSecret cr secret)), pt_iv = tk_iv (keysFromSecret cr secret), pt_seq = n\<rparr>"

definition sealed :: "('k, 'q, 'c) tls_crypto \<Rightarrow> bytes \<Rightarrow> u64 \<Rightarrow> byte \<Rightarrow> bytes \<Rightarrow> bytes" where
  "sealed cr secret n t b =
     cr_seal cr (tk_key (keysFromSecret cr secret)) (nonce (prot cr secret n)) (b @ [t])
       (additionalData 0x0303 (Suc (length b) + cr_overhead cr))"

lemma prot_fields [simp]: "pt_aead (prot cr secret n) = Some (tk_key (keysFromSecret cr secret))"
  "pt_seq (prot cr secret n) = n"
  by (simp_all add: prot_def)

lemma new_prot [simp]: "hash_ok cr \<Longrightarrow> newRecordProtector (keysFromSecret cr secret) = Inr (prot cr secret 0)"
  by (simp add: keysFromSecret_ok(1) prot_def)

lemma seal_prot [simp]:
  "n \<noteq> - 1 \<Longrightarrow> seal cr (prot cr secret n) t b = Inr (sealed cr secret n t b, prot cr secret (n + 1))"
  by (simp add: seal_def sealed_def Let_def) (simp add: prot_def)

lemma open_prot [simp]:
  "aead_ok cr \<Longrightarrow> open_record cr (prot cr secret n) (sealed cr secret n t b) = (Inr (b, t), prot cr secret (n + 1))"
  by (simp add: open_record_def sealed_def aead_ok_def Let_def) (simp add: prot_def)

lemma length_sealed: "aead_ok cr \<Longrightarrow> length (sealed cr secret n t b) = Suc (length b) + cr_overhead cr"
  by (simp add: sealed_def aead_ok_def)

abbreviation app_record :: "bytes \<Rightarrow> bytes" where
  "app_record ct \<equiv> AppendRecord [] recordApplicationData 0x0303 ct"

lemma send_message_prot:
  "sm_hsWriteKeys sm = Some (prot cr secret n) \<Longrightarrow> n \<noteq> - 1 \<Longrightarrow>
   send_message cr m sm = sm\<lparr>sm_keys := transcript_write (sm_keys sm) m,
     sm_out := sm_out sm @ app_record (sealed cr secret n recordHandshake m),
     sm_hsWriteKeys := Some (prot cr secret (n + 1))\<rparr>"
  by (simp add: send_message_def writeHandshake_def put_out_def add_transcript_def)

section \<open>The key schedule\<close>

definition early_secret :: "('k, 'q, 'c) tls_crypto \<Rightarrow> bytes" where
  "early_secret cr = hkdfExtract cr (zeros sha256_Size) (zeros sha256_Size)"

definition handshake_secret :: "('k, 'q, 'c) tls_crypto \<Rightarrow> bytes \<Rightarrow> bytes" where
  "handshake_secret cr secret = hkdfExtract cr (deriveSecret cr (early_secret cr) ''derived'' (cr_sha256 cr [])) secret"

definition master_secret :: "('k, 'q, 'c) tls_crypto \<Rightarrow> bytes \<Rightarrow> bytes" where
  "master_secret cr secret =
     hkdfExtract cr (deriveSecret cr (handshake_secret cr secret) ''derived'' (cr_sha256 cr [])) (zeros sha256_Size)"

lemma init_keys [simp]:
  "sm_keys (init_machine cr config isClient rnd) =
    \<lparr>ks_transcript = [], ks_earlySecret = Some (early_secret cr), ks_handshakeSecret = None, ks_masterSecret = None\<rparr>"
  by (simp add: init_machine_def deriveEarly_def newKeySchedule_def early_secret_def)

lemma deriveHandshake_ok: "ks_earlySecret ks = Some (early_secret cr) \<Longrightarrow>
   deriveHandshake cr ks secret = Inr (ks\<lparr>ks_handshakeSecret := Some (handshake_secret cr secret)\<rparr>)"
  by (simp add: deriveHandshake_def handshake_secret_def Let_def)

lemma deriveMaster_ok: "ks_handshakeSecret ks = Some (handshake_secret cr secret) \<Longrightarrow>
   deriveMaster cr ks = Inr (ks\<lparr>ks_masterSecret := Some (master_secret cr secret)\<rparr>)"
  by (simp add: deriveMaster_def master_secret_def Let_def)

text \<open>The secrets of a handshake: from the shared secret and the transcript so far.\<close>

definition hs_traffic :: "('k, 'q, 'c) tls_crypto \<Rightarrow> bytes \<Rightarrow> bool \<Rightarrow> bytes \<Rightarrow> bytes" where
  "hs_traffic cr secret forClient tr =
     deriveSecret cr (handshake_secret cr secret) (if forClient then ''c hs traffic'' else ''s hs traffic'') (cr_sha256 cr tr)"

definition app_traffic :: "('k, 'q, 'c) tls_crypto \<Rightarrow> bytes \<Rightarrow> bool \<Rightarrow> bytes \<Rightarrow> bytes" where
  "app_traffic cr secret forClient tr =
     deriveSecret cr (master_secret cr secret) (if forClient then ''c ap traffic'' else ''s ap traffic'') (cr_sha256 cr tr)"

definition finished_msg :: "('k, 'q, 'c) tls_crypto \<Rightarrow> bytes \<Rightarrow> bytes \<Rightarrow> bytes" where
  "finished_msg cr base tr = finishedVerifyData cr base (cr_sha256 cr tr)"

section \<open>The handlers where nothing fails\<close>

text \<open>The server's flight: a machine with the handshake keys.\<close>

definition cert_body :: "bytes list \<Rightarrow> bytes" where
  "cert_body ders = (let entries = concat (map certificate_entry ders) in [0] @ put24n (length entries) @ entries)"

definition cv_body :: "'k private_key \<Rightarrow> bytes \<Rightarrow> bytes" where
  "cv_body priv sig = put16 (signatureAlgorithm priv) @ put16n (length sig) @ sig"

lemma send_flight_steps:
  assumes "ee = AppendHandshake [] hsEncryptedExtensions (appendALPNServerExtension (sm_negotiatedALPN sm))"
    and "send_message cr ee (put_out (AppendRecord [] recordChangeCipherSpec 0x0303 [1]) sm) = s1"
    and "serverCertificate s1 = Inr ce" and "send_message cr ce s1 = s2" and "certificateVerify cr s2 = (Inr cv, s2')"
    and "send_message cr cv s2' = s3" and "finishedMessage cr False s3 = fi" and "send_message cr fi s3 = s4"
    and "cacheApplicationSecrets cr s4 = (s5, None)"
  shows "send_flight cr sm = (s5\<lparr>sm_state := StateWaitFinished\<rparr>, None)"
proof -
  have "sm_negotiatedALPN (put_out b sm) = sm_negotiatedALPN sm" for b by (simp add: put_out_def)
  then show ?thesis using assms by (simp add: send_flight_def Let_def)
qed

lemma send_flight_ok:
  assumes cfg: "sm_config sm = Some cfg" "cfg_Certificates cfg = cert # certs" "tc_PrivateKey cert = Some priv"
    and cl: "\<not> sm_isClient sm" and w: "sm_hsWriteKeys sm = Some (prot cr ws 0)" "sm_hsWriteSecret sm = Some ws"
    and k: "sm_keys sm = \<lparr>ks_transcript = tr, ks_earlySecret = es, ks_handshakeSecret = Some (handshake_secret cr secret), ks_masterSecret = ms\<rparr>"
    and ee: "ee = AppendHandshake [] hsEncryptedExtensions (appendALPNServerExtension (sm_negotiatedALPN sm))"
    and ce: "ce = AppendHandshake [] hsCertificate (cert_body (tc_Certificate cert))"
    and sig: "signWithKey cr (concat (take 1 (sm_rand sm))) priv (certificateVerifyInput False (cr_sha256 cr (tr @ ee @ ce))) = Inr sig"
    and cv: "cv = AppendHandshake [] hsCertificateVerify (cv_body priv sig)"
    and fi: "fi = AppendHandshake [] hsFinished (finished_msg cr ws (tr @ ee @ ce @ cv))"
  shows "send_flight cr sm = (sm\<lparr>
      sm_out := sm_out sm @ AppendRecord [] recordChangeCipherSpec 0x0303 [1]
        @ app_record (sealed cr ws 0 recordHandshake ee) @ app_record (sealed cr ws 1 recordHandshake ce)
        @ app_record (sealed cr ws 2 recordHandshake cv) @ app_record (sealed cr ws 3 recordHandshake fi),
      sm_hsWriteKeys := Some (prot cr ws 4), sm_rand := drop 1 (sm_rand sm),
      sm_keys := \<lparr>ks_transcript = tr @ ee @ ce @ cv @ fi, ks_earlySecret = es,
        ks_handshakeSecret = Some (handshake_secret cr secret), ks_masterSecret = Some (master_secret cr secret)\<rparr>,
      sm_appWriteSecret := Some (app_traffic cr secret False (tr @ ee @ ce @ cv @ fi)),
      sm_appReadSecret := Some (app_traffic cr secret True (tr @ ee @ ce @ cv @ fi)),
      sm_state := StateWaitFinished\<rparr>, None)"
proof -
  let ?s0 = "put_out (AppendRecord [] recordChangeCipherSpec 0x0303 [1]) sm"
  have s1: "send_message cr ee ?s0 = sm\<lparr>
      sm_out := sm_out sm @ AppendRecord [] recordChangeCipherSpec 0x0303 [1] @ app_record (sealed cr ws 0 recordHandshake ee),
      sm_hsWriteKeys := Some (prot cr ws 1), sm_keys := (sm_keys sm)\<lparr>ks_transcript := tr @ ee\<rparr>\<rparr>" (is "_ = ?s1")
    using w k by (subst send_message_prot [of _ _ ws 0]) (simp_all add: put_out_def transcript_write_def)
  have c1: "serverCertificate ?s1 = Inr ce"
    using cfg ce by (simp add: serverCertificate_def cert_body_def Let_def)
  have s2: "send_message cr ce ?s1 = ?s1\<lparr>
      sm_out := sm_out ?s1 @ app_record (sealed cr ws 1 recordHandshake ce),
      sm_hsWriteKeys := Some (prot cr ws 2), sm_keys := (sm_keys sm)\<lparr>ks_transcript := tr @ ee @ ce\<rparr>\<rparr>" (is "_ = ?s2")
    using w k by (subst send_message_prot [of _ _ ws 1]) (simp_all add: transcript_write_def)
  have c2: "certificateVerify cr ?s2 = (Inr cv, ?s2\<lparr>sm_rand := drop 1 (sm_rand sm)\<rparr>)"
    using cfg cl sig cv k by (simp add: certificateVerify_def cv_body_def transcript_hash_def transcript_sum_def Let_def)
  let ?s3 = "?s2\<lparr>sm_rand := drop 1 (sm_rand sm), sm_out := sm_out ?s2 @ app_record (sealed cr ws 2 recordHandshake cv),
      sm_hsWriteKeys := Some (prot cr ws 3), sm_keys := (sm_keys sm)\<lparr>ks_transcript := tr @ ee @ ce @ cv\<rparr>\<rparr>"
  have s3: "send_message cr cv (?s2\<lparr>sm_rand := drop 1 (sm_rand sm)\<rparr>) = ?s3"
    using w k by (subst send_message_prot [of _ _ ws 2]) (simp_all add: transcript_write_def)
  have f: "finishedMessage cr False ?s3 = fi"
    using w fi k by (simp add: finishedMessage_def finished_msg_def transcript_hash_def transcript_sum_def nil_bytes_def)
  have s4: "send_message cr fi ?s3 = ?s3\<lparr>sm_out := sm_out ?s3 @ app_record (sealed cr ws 3 recordHandshake fi),
      sm_hsWriteKeys := Some (prot cr ws 4), sm_keys := (sm_keys sm)\<lparr>ks_transcript := tr @ ee @ ce @ cv @ fi\<rparr>\<rparr>" (is "_ = ?s4")
    using w k by (subst send_message_prot [of _ _ ws 3]) (simp_all add: transcript_write_def)
  have m: "deriveMaster cr (sm_keys ?s4) = Inr ((sm_keys ?s4)\<lparr>ks_masterSecret := Some (master_secret cr secret)\<rparr>)"
    by (rule deriveMaster_ok) (simp add: k)
  have c4: "cacheApplicationSecrets cr ?s4 = (?s4\<lparr>sm_keys := (sm_keys ?s4)\<lparr>ks_masterSecret := Some (master_secret cr secret)\<rparr>,
      sm_appWriteSecret := Some (app_traffic cr secret False (tr @ ee @ ce @ cv @ fi)),
      sm_appReadSecret := Some (app_traffic cr secret True (tr @ ee @ ce @ cv @ fi))\<rparr>, None)"
    unfolding cacheApplicationSecrets_def m using cl
    by (simp add: k Let_def app_traffic_def transcript_hash_def transcript_sum_def nil_bytes_def)
  show ?thesis
    by (subst send_flight_steps [OF ee s1 c1 s2 c2 s3 f s4 c4]) (simp add: k)
qed


definition fit :: "nat \<Rightarrow> bytes \<Rightarrow> bytes" where
  "fit n b = take n (b @ zeros n)"

lemma length_fit [simp]: "length (fit n b) = n"
  by (simp add: fit_def zeros_def)

lemma handshake_secrets_ok:
  assumes "hash_ok cr" and "sm_keys sm = \<lparr>ks_transcript = tr, ks_earlySecret = es,
      ks_handshakeSecret = Some (handshake_secret cr secret), ks_masterSecret = ms\<rparr>"
    and "wl = (if c then ''c hs traffic'' else ''s hs traffic'')" and "rl = (if \<not> c then ''c hs traffic'' else ''s hs traffic'')"
  shows "handshake_secrets cr wl rl sm = (sm\<lparr>
      sm_hsWriteSecret := Some (hs_traffic cr secret c tr), sm_hsReadSecret := Some (hs_traffic cr secret (\<not> c) tr),
      sm_hsWriteKeys := Some (prot cr (hs_traffic cr secret c tr) 0),
      sm_hsReadKeys := Some (prot cr (hs_traffic cr secret (\<not> c) tr) 0),
      sm_writeKeys := HandshakeKeys, sm_readKeys := HandshakeKeys\<rparr>, None)"
  using assms by (simp add: handshake_secrets_def hs_traffic_def transcript_hash_def transcript_sum_def nil_bytes_def Let_def)

definition server_hello_of :: "client_hello \<Rightarrow> bytes \<Rightarrow> server_hello" where
  "server_hello_of ch r = \<lparr>shl_LegacyVersion = 0x0303, shl_Random = fit 32 r, shl_SessionID = chl_SessionID ch,
     shl_CipherSuite = TLS_AES_128_GCM_SHA256\<rparr>"

lemma send_ServerHello_steps:
  assumes "sm_rand sm = r2 # rnd" and "sm_suite sm = TLS_AES_128_GCM_SHA256"
    and "shm = AppendHandshake [] hsServerHello (server_hello_body (server_hello_of ch r2) (cr_pub cr kx))"
    and "add_transcript shm (put_out (AppendRecord [] recordHandshake 0x0303 shm) (sm\<lparr>sm_rand := rnd\<rparr>)) = s1"
    and "handshake_secrets cr ''s hs traffic'' ''c hs traffic'' s1 = (s2, None)"
  shows "send_ServerHello cr ch kx sm = (s2, None)"
  using assms by (simp add: send_ServerHello_def rand_Read_def Let_def AppendServerHello_def server_hello_of_def fit_def)

lemma onClientHello_ok:
  assumes ok: "hash_ok cr" and cl: "\<not> sm_isClient sm"
    and ch: "ParseClientHello b = Inr ch" "list_ex (\<lambda>cs. cs = TLS_AES_128_GCM_SHA256) (chl_CipherSuites ch)" "clientKeyShare b = Inr pub"
    and cfg: "sm_config sm = Some cfg" "cfg_Certificates cfg = cert # certs" "tc_PrivateKey cert = Some priv"
    and rnd: "sm_rand sm = r1 # r2 # rnd"
    and k: "sm_keys sm = \<lparr>ks_transcript = [], ks_earlySecret = Some (early_secret cr), ks_handshakeSecret = None, ks_masterSecret = None\<rparr>"
    and dh: "shared cr (fit 32 r1) pub = Inr secret"
    and tr: "tr = AppendHandshake [] hsClientHello b @ shm"
    and shm: "shm = AppendHandshake [] hsServerHello (server_hello_body (server_hello_of ch r2) (cr_pub cr (fit 32 r1)))"
    and ws: "ws = hs_traffic cr secret False tr"
    and ee: "ee = AppendHandshake [] hsEncryptedExtensions
        (appendALPNServerExtension (negotiateALPN (chl_ALPN ch) (cfg_NextProtos cfg)))"
    and ce: "ce = AppendHandshake [] hsCertificate (cert_body (tc_Certificate cert))"
    and sig: "signWithKey cr (concat (take 1 rnd)) priv (certificateVerifyInput False (cr_sha256 cr (tr @ ee @ ce))) = Inr sig"
    and cv: "cv = AppendHandshake [] hsCertificateVerify (cv_body priv sig)"
    and fi: "fi = AppendHandshake [] hsFinished (finished_msg cr ws (tr @ ee @ ce @ cv))"
  shows "onClientHello cr b sm = (sm\<lparr>
      sm_clientHello := Some ch, sm_suite := TLS_AES_128_GCM_SHA256, sm_peerKeyShare := pub,
      sm_negotiatedALPN := negotiateALPN (chl_ALPN ch) (cfg_NextProtos cfg), sm_kx := Some (fit 32 r1),
      sm_hsWriteSecret := Some ws, sm_hsReadSecret := Some (hs_traffic cr secret True tr),
      sm_hsWriteKeys := Some (prot cr ws 4), sm_hsReadKeys := Some (prot cr (hs_traffic cr secret True tr) 0),
      sm_writeKeys := HandshakeKeys, sm_readKeys := HandshakeKeys,
      sm_out := sm_out sm @ AppendRecord [] recordHandshake 0x0303 shm @ AppendRecord [] recordChangeCipherSpec 0x0303 [1]
        @ app_record (sealed cr ws 0 recordHandshake ee) @ app_record (sealed cr ws 1 recordHandshake ce)
        @ app_record (sealed cr ws 2 recordHandshake cv) @ app_record (sealed cr ws 3 recordHandshake fi),
      sm_rand := drop 1 rnd,
      sm_keys := \<lparr>ks_transcript = tr @ ee @ ce @ cv @ fi, ks_earlySecret = Some (early_secret cr),
        ks_handshakeSecret = Some (handshake_secret cr secret), ks_masterSecret = Some (master_secret cr secret)\<rparr>,
      sm_appWriteSecret := Some (app_traffic cr secret False (tr @ ee @ ce @ cv @ fi)),
      sm_appReadSecret := Some (app_traffic cr secret True (tr @ ee @ ce @ cv @ fi)),
      sm_state := StateWaitFinished\<rparr>, None)"
proof -
  let ?s1 = "sm\<lparr>sm_clientHello := Some ch, sm_suite := TLS_AES_128_GCM_SHA256, sm_peerKeyShare := pub,
      sm_negotiatedALPN := negotiateALPN (chl_ALPN ch) (cfg_NextProtos cfg), sm_rand := r2 # rnd, sm_kx := Some (fit 32 r1),
      sm_keys := \<lparr>ks_transcript = AppendHandshake [] hsClientHello b, ks_earlySecret = Some (early_secret cr),
        ks_handshakeSecret = Some (handshake_secret cr secret), ks_masterSecret = None\<rparr>\<rparr>"
  let ?s2 = "?s1\<lparr>sm_rand := rnd, sm_out := sm_out sm @ AppendRecord [] recordHandshake 0x0303 shm,
      sm_keys := \<lparr>ks_transcript = tr, ks_earlySecret = Some (early_secret cr),
        ks_handshakeSecret = Some (handshake_secret cr secret), ks_masterSecret = None\<rparr>,
      sm_hsWriteSecret := Some ws, sm_hsReadSecret := Some (hs_traffic cr secret True tr),
      sm_hsWriteKeys := Some (prot cr ws 0), sm_hsReadKeys := Some (prot cr (hs_traffic cr secret True tr) 0),
      sm_writeKeys := HandshakeKeys, sm_readKeys := HandshakeKeys\<rparr>"
  let ?s1' = "?s1\<lparr>sm_rand := rnd, sm_out := sm_out sm @ AppendRecord [] recordHandshake 0x0303 shm,
      sm_keys := \<lparr>ks_transcript = tr, ks_earlySecret = Some (early_secret cr),
        ks_handshakeSecret = Some (handshake_secret cr secret), ks_masterSecret = None\<rparr>\<rparr>"
  have hs: "handshake_secrets cr ''s hs traffic'' ''c hs traffic'' ?s1' = (?s2, None)"
    by (subst handshake_secrets_ok [OF ok, where c = False and tr = tr and secret = secret and
          es = "Some (early_secret cr)" and ms = None]) (simp_all add: ws)
  have sh: "send_ServerHello cr ch (fit 32 r1) ?s1 = (?s2, None)"
    by (rule send_ServerHello_steps [OF _ _ shm _ hs])
      (simp_all add: put_out_def add_transcript_def transcript_write_def tr)
  have fl: "send_flight cr ?s2 = (?s2\<lparr>
      sm_out := sm_out ?s2 @ AppendRecord [] recordChangeCipherSpec 0x0303 [1]
        @ app_record (sealed cr ws 0 recordHandshake ee) @ app_record (sealed cr ws 1 recordHandshake ce)
        @ app_record (sealed cr ws 2 recordHandshake cv) @ app_record (sealed cr ws 3 recordHandshake fi),
      sm_hsWriteKeys := Some (prot cr ws 4), sm_rand := drop 1 (sm_rand ?s2),
      sm_keys := \<lparr>ks_transcript = tr @ ee @ ce @ cv @ fi, ks_earlySecret = Some (early_secret cr),
        ks_handshakeSecret = Some (handshake_secret cr secret), ks_masterSecret = Some (master_secret cr secret)\<rparr>,
      sm_appWriteSecret := Some (app_traffic cr secret False (tr @ ee @ ce @ cv @ fi)),
      sm_appReadSecret := Some (app_traffic cr secret True (tr @ ee @ ce @ cv @ fi)),
      sm_state := StateWaitFinished\<rparr>, None)"
    by (rule send_flight_ok [of _ cfg cert certs priv]) (use cfg cl sig in \<open>simp_all add: ee ce cv fi\<close>)
  have "onClientHello cr b sm = send_flight cr ?s2"
    unfolding onClientHello_def newKeyExchange_def rand_Read_def fit_def [symmetric]
    using cl ch cfg(1) rnd k dh
    by (simp add: Let_def add_transcript_def transcript_write_def deriveHandshake_ok sh)
  then show ?thesis unfolding fl by simp
qed

lemma onServerHello_ok:
  assumes ok: "hash_ok cr" and cl: "sm_isClient sm"
    and sh: "ParseServerHello b = Inr sh" "serverKeyShare b = Inr pub"
    and kx: "sm_kx sm = Some kx" "shared cr kx pub = Inr secret"
    and k: "sm_keys sm = \<lparr>ks_transcript = ch, ks_earlySecret = Some (early_secret cr), ks_handshakeSecret = None, ks_masterSecret = None\<rparr>"
    and tr: "tr = ch @ AppendHandshake [] hsServerHello b"
  shows "onServerHello cr b sm = (sm\<lparr>sm_serverHello := Some sh, sm_suite := shl_CipherSuite sh,
      sm_keys := \<lparr>ks_transcript = tr, ks_earlySecret = Some (early_secret cr),
        ks_handshakeSecret = Some (handshake_secret cr secret), ks_masterSecret = None\<rparr>,
      sm_hsWriteSecret := Some (hs_traffic cr secret True tr), sm_hsReadSecret := Some (hs_traffic cr secret False tr),
      sm_hsWriteKeys := Some (prot cr (hs_traffic cr secret True tr) 0),
      sm_hsReadKeys := Some (prot cr (hs_traffic cr secret False tr) 0),
      sm_writeKeys := HandshakeKeys, sm_readKeys := HandshakeKeys, sm_state := StateWaitEncryptedExtensions\<rparr>, None)"
proof -
  let ?s1 = "sm\<lparr>sm_serverHello := Some sh, sm_suite := shl_CipherSuite sh,
      sm_keys := \<lparr>ks_transcript = tr, ks_earlySecret = Some (early_secret cr),
        ks_handshakeSecret = Some (handshake_secret cr secret), ks_masterSecret = None\<rparr>\<rparr>"
  have hs: "handshake_secrets cr ''c hs traffic'' ''s hs traffic'' ?s1 = (?s1\<lparr>
      sm_hsWriteSecret := Some (hs_traffic cr secret True tr), sm_hsReadSecret := Some (hs_traffic cr secret False tr),
      sm_hsWriteKeys := Some (prot cr (hs_traffic cr secret True tr) 0),
      sm_hsReadKeys := Some (prot cr (hs_traffic cr secret False tr) 0),
      sm_writeKeys := HandshakeKeys, sm_readKeys := HandshakeKeys\<rparr>, None)"
    by (subst handshake_secrets_ok [OF ok, where c = True and tr = tr and secret = secret and
          es = "Some (early_secret cr)" and ms = None]) simp_all
  then show ?thesis
    using cl sh kx k by (simp add: onServerHello_def Let_def add_transcript_def transcript_write_def deriveHandshake_ok tr)
qed

lemma switch_ok:
  "hash_ok cr \<Longrightarrow> sm_appWriteSecret sm = Some ws \<Longrightarrow> sm_appReadSecret sm = Some rs \<Longrightarrow>
   switchToApplicationKeys cr sm = (sm\<lparr>sm_writeKeys := OwnKeys (prot cr ws 0), sm_readKeys := OwnKeys (prot cr rs 0)\<rparr>, None)"
  by (simp add: switchToApplicationKeys_def)

lemma onFinished_server_ok:
  assumes "hash_ok cr" and "\<not> sm_isClient sm" and "sm_hsReadSecret sm = Some rs"
    and "payload = finished_msg cr rs (ks_transcript (sm_keys sm))"
    and "sm_appWriteSecret sm = Some aws" and "sm_appReadSecret sm = Some ars"
  shows "onFinished cr payload sm = (sm\<lparr>sm_keys := transcript_write (sm_keys sm) (AppendHandshake [] hsFinished payload),
      sm_writeKeys := OwnKeys (prot cr aws 0), sm_readKeys := OwnKeys (prot cr ars 0), sm_state := StateEstablished\<rparr>, None)"
  using assms constant_time_diff_0 [of payload payload]
  by (simp add: onFinished_def Let_def finished_msg_def transcript_hash_def transcript_sum_def nil_bytes_def switch_ok [OF assms(1)])
    (simp add: add_transcript_def)

lemma onFinished_steps:
  assumes "sm_hsReadSecret sm = Some rs" and "payload = finished_msg cr rs (ks_transcript (sm_keys sm))" and "sm_isClient sm"
    and "cacheApplicationSecrets cr (add_transcript (AppendHandshake [] hsFinished payload) sm) = (s1, None)"
    and "put_out (AppendRecord [] recordChangeCipherSpec 0x0303 [1]) s1 = s2"
    and "finishedMessage cr True s2 = fi" and "send_message cr fi s2 = s3"
    and "switchToApplicationKeys cr s3 = (s4, None)"
  shows "onFinished cr payload sm = (s4\<lparr>sm_state := StateEstablished\<rparr>, None)"
  using assms constant_time_diff_0 [of payload payload]
  by (simp add: onFinished_def Let_def finished_msg_def transcript_hash_def transcript_sum_def nil_bytes_def)

lemma onFinished_client_ok:
  assumes ok: "hash_ok cr" and cl: "sm_isClient sm" and s: "sm_hsReadSecret sm = Some rs" "sm_hsWriteSecret sm = Some ws"
    and k: "sm_keys sm = \<lparr>ks_transcript = tr, ks_earlySecret = es, ks_handshakeSecret = Some (handshake_secret cr secret), ks_masterSecret = ms\<rparr>"
    and w: "sm_hsWriteKeys sm = Some (prot cr ws n)" "n \<noteq> - 1"
    and p: "payload = finished_msg cr rs tr" and tr1: "tr1 = tr @ AppendHandshake [] hsFinished payload"
    and fi: "fi = AppendHandshake [] hsFinished (finished_msg cr ws tr1)"
  shows "onFinished cr payload sm = (sm\<lparr>
      sm_keys := \<lparr>ks_transcript = tr1 @ fi, ks_earlySecret = es,
        ks_handshakeSecret = Some (handshake_secret cr secret), ks_masterSecret = Some (master_secret cr secret)\<rparr>,
      sm_appWriteSecret := Some (app_traffic cr secret True tr1), sm_appReadSecret := Some (app_traffic cr secret False tr1),
      sm_out := sm_out sm @ AppendRecord [] recordChangeCipherSpec 0x0303 [1] @ app_record (sealed cr ws n recordHandshake fi),
      sm_hsWriteKeys := Some (prot cr ws (n + 1)),
      sm_writeKeys := OwnKeys (prot cr (app_traffic cr secret True tr1) 0),
      sm_readKeys := OwnKeys (prot cr (app_traffic cr secret False tr1) 0), sm_state := StateEstablished\<rparr>, None)"
proof -
  let ?s0 = "add_transcript (AppendHandshake [] hsFinished payload) sm"
  have m: "deriveMaster cr (sm_keys ?s0) = Inr ((sm_keys ?s0)\<lparr>ks_masterSecret := Some (master_secret cr secret)\<rparr>)"
    by (rule deriveMaster_ok) (simp add: k)
  let ?s1 = "sm\<lparr>sm_keys := \<lparr>ks_transcript = tr1, ks_earlySecret = es,
        ks_handshakeSecret = Some (handshake_secret cr secret), ks_masterSecret = Some (master_secret cr secret)\<rparr>,
      sm_appWriteSecret := Some (app_traffic cr secret True tr1), sm_appReadSecret := Some (app_traffic cr secret False tr1)\<rparr>"
  have c: "cacheApplicationSecrets cr ?s0 = (?s1, None)"
    unfolding cacheApplicationSecrets_def m using cl
    by (simp add: k tr1 Let_def app_traffic_def transcript_hash_def transcript_sum_def nil_bytes_def)
      (simp add: add_transcript_def transcript_write_def k)
  let ?s2 = "put_out (AppendRecord [] recordChangeCipherSpec 0x0303 [1]) ?s1"
  have f: "finishedMessage cr True ?s2 = fi"
    using s fi by (simp add: finishedMessage_def finished_msg_def transcript_hash_def transcript_sum_def nil_bytes_def put_out_def)
  let ?s3 = "?s1\<lparr>sm_keys := (sm_keys ?s1)\<lparr>ks_transcript := tr1 @ fi\<rparr>,
      sm_out := sm_out sm @ AppendRecord [] recordChangeCipherSpec 0x0303 [1] @ app_record (sealed cr ws n recordHandshake fi),
      sm_hsWriteKeys := Some (prot cr ws (n + 1))\<rparr>"
  have s3: "send_message cr fi ?s2 = ?s3"
    using w by (subst send_message_prot [of _ _ ws n]) (simp_all add: put_out_def transcript_write_def)
  have s4: "switchToApplicationKeys cr ?s3 = (?s3\<lparr>sm_writeKeys := OwnKeys (prot cr (app_traffic cr secret True tr1) 0),
      sm_readKeys := OwnKeys (prot cr (app_traffic cr secret False tr1) 0)\<rparr>, None)"
    by (rule switch_ok [OF ok]) simp_all
  have pk: "payload = finished_msg cr rs (ks_transcript (sm_keys sm))" by (simp add: p k)
  show ?thesis by (subst onFinished_steps [OF s(1) pk cl c refl f s3 s4]) simp
qed

section \<open>Records\<close>

lemma feed_handshakes_one:
  assumes "hp_buf (sm_handshakes sm) = []" and "handshake_ok h" and "onHandshake cr sm h = (s', None)"
  shows "feed_handshakes cr (enc_handshake h) sm = (s'\<lparr>sm_handshakes := NewHandshakeParser\<rparr>, None)"
proof -
  have "frame_loop split_handshake (onHandshake cr) 0 sm (enc_handshake h) = (length (enc_handshake h), None, s')"
    using hs.loop_enc_consumed [of "[h]" "[]" "onHandshake cr" sm s' 0] assms(2,3) by (simp add: hs.split_Nil)
  then show ?thesis
    using assms(1) by (cases "sm_handshakes sm") (simp add: feed_handshakes_def Parse_handshakes_def Let_def NewHandshakeParser_def)
qed

lemma onRecord_plain:
  assumes "hp_buf (sm_handshakes sm) = []" and "handshake_ok h" and "onHandshake cr sm h = (s', None)"
  shows "onRecord cr sm \<lparr>tr_Type = recordHandshake, tr_Version = v, tr_Payload = enc_handshake h\<rparr>
    = (s'\<lparr>sm_handshakes := NewHandshakeParser\<rparr>, None)"
  by (simp add: onRecord_def feed_handshakes_one [OF assms])

lemma onRecord_sealed:
  assumes ok: "aead_ok cr" and p: "read_protector sm = Some (prot cr rs n)"
    and b: "hp_buf (sm_handshakes sm) = []" and "handshake_ok h"
    and "onHandshake cr (set_read_protector (prot cr rs (n + 1)) sm) h = (s', None)"
  shows "onRecord cr sm \<lparr>tr_Type = recordApplicationData, tr_Version = v, tr_Payload = sealed cr rs n recordHandshake (enc_handshake h)\<rparr>
    = (s'\<lparr>sm_handshakes := NewHandshakeParser\<rparr>, None)"
proof -
  have "hp_buf (sm_handshakes (set_read_protector (prot cr rs (n + 1)) sm)) = []"
    using b by (simp add: set_read_protector_def split: keys_ref.splits)
  from feed_handshakes_one [OF this assms(4,5)] show ?thesis
    by (simp add: onRecord_def p open_prot [OF ok] Let_def)
qed

lemma Feed_tls_records:
  assumes "sm_err sm = None" and "rs \<noteq> []" and "\<forall>r \<in> set rs. record_ok r"
    and "run_units (onRecord cr) sm rs = (None, s')"
  shows "Feed_tls cr sm (concat (map enc_record rs)) = (length (concat (map enc_record rs)), None, s'\<lparr>sm_records := sm_records sm\<rparr>)"
proof -
  obtain b where b: "b = concat (map enc_record rs)" by simp
  have "b \<noteq> []" using assms(2) by (cases rs) (simp_all add: b enc_record_def AppendRecord_def)
  moreover have "frame_loop split_record (onRecord cr) 0 sm b = (length b, None, s')"
    using recs.loop_enc_consumed [OF assms(3) recs.split_Nil assms(4), of 0] by (simp add: b)
  ultimately show ?thesis using assms(1) unfolding b [symmetric] by (simp add: Feed_tls_def Parse_records_def)
qed

section \<open>The run\<close>

definition handshake_run ::
  "('k, 'q, 'c) tls_crypto \<Rightarrow> 'k state_machine \<Rightarrow> 'k state_machine \<Rightarrow> 'k state_machine \<times> 'k state_machine" where
  "handshake_run cr c s =
     (let (hello, c) = TakeOutput c; (_, _, s) = Feed_tls cr s hello;
          (flight, s) = TakeOutput s; (_, _, c) = Feed_tls cr c flight;
          (fin, c) = TakeOutput c; (_, _, s) = Feed_tls cr s fin
      in (c, s))"

definition alpn_of :: "'k tls_config option \<Rightarrow> string list" where
  "alpn_of config = (case config of None \<Rightarrow> [] | Some cfg \<Rightarrow> cfg_NextProtos cfg)"

definition name_of :: "'k tls_config option \<Rightarrow> string" where
  "name_of config = (case config of None \<Rightarrow> '''' | Some cfg \<Rightarrow> cfg_ServerName cfg)"

definition hello_of :: "'k tls_config option \<Rightarrow> bytes \<Rightarrow> bytes \<Rightarrow> client_hello" where
  "hello_of config r2 r3 = \<lparr>chl_LegacyVersion = 0x0303, chl_Random = fit 32 r2, chl_SessionID = fit 32 r3,
     chl_CipherSuites = [TLS_AES_128_GCM_SHA256, TLS_AES_256_GCM_SHA384, TLS_CHACHA20_POLY1305_SHA256],
     chl_ServerName = name_of config, chl_ALPN = alpn_of config\<rparr>"

text \<open>What the sizes of the messages demand of the configurations: every message has to fit a record,
  because the code does not cut messages.\<close>

definition client_fits :: "'k tls_config option \<Rightarrow> bool" where
  "client_fits config =
     (list_all (\<lambda>p. length p < 256) (alpn_of config)
      \<and> length (name_of config) + length (concat (map alpn_entry (alpn_of config))) \<le> 16000)"

definition server_fits :: "('k, 'q, 'c) tls_crypto \<Rightarrow> 'k tls_config \<Rightarrow> bool" where
  "server_fits cr cfg =
     (list_all (\<lambda>p. length p < 256) (cfg_NextProtos cfg)
      \<and> (\<exists>cert certs priv. cfg_Certificates cfg = cert # certs \<and> tc_PrivateKey cert = Some priv
           \<and> length (cert_body (tc_Certificate cert)) \<le> 16000
           \<and> (\<forall>rnd m. \<exists>sig. signWithKey cr rnd priv m = Inr sig \<and> length sig \<le> 16000)))"

lemma hello_fits:
  assumes "client_fits config" and "length ks = 32"
  shows "client_hello_fits (hello_of config r2 r3) ks" and "length (client_hello_body (hello_of config r2 r3) ks) \<le> 16200"
proof -
  have "length (client_extensions (hello_of config r2 r3) ks) \<le> 16000 + 84"
    using assms by (simp add: client_fits_def hello_of_def client_extensions_def appendExtension_def appendSupportedGroups_def
      appendKeyShare_def appendSignatureAlgorithms_def appendServerName_def appendALPNList_def Let_def)
  then show "client_hello_fits (hello_of config r2 r3) ks" "length (client_hello_body (hello_of config r2 r3) ks) \<le> 16200"
    using assms by (simp_all add: client_hello_fits_def client_fits_def hello_of_def client_hello_body_def Let_def)
qed

lemma Start_ok:
  "Start cr (NewClientStateMachine cr config (r1 # r2 # r3 # rnd)) =
    ((init_machine cr config True rnd)\<lparr>sm_kx := Some (fit 32 r1),
      sm_out := AppendRecord [] recordHandshake 0x0303
        (AppendHandshake [] hsClientHello (client_hello_body (hello_of config r2 r3) (cr_pub cr (fit 32 r1)))),
      sm_keys := \<lparr>ks_transcript = AppendHandshake [] hsClientHello (client_hello_body (hello_of config r2 r3) (cr_pub cr (fit 32 r1))),
        ks_earlySecret = Some (early_secret cr), ks_handshakeSecret = None, ks_masterSecret = None\<rparr>\<rparr>, None)"
proof -
  have c: "(case sm_config sm of None \<Rightarrow> '''' | Some cfg \<Rightarrow> cfg_ServerName cfg) = name_of (sm_config sm)"
    "(case sm_config sm of None \<Rightarrow> [] | Some cfg \<Rightarrow> cfg_NextProtos cfg) = alpn_of (sm_config sm)" for sm
    by (simp_all add: name_of_def alpn_of_def)
  show ?thesis
    unfolding Start_def newKeyExchange_def rand_Read_def fit_def [symmetric] c NewClientStateMachine_def
    by (simp add: init_machine_def Let_def put_out_def add_transcript_def transcript_write_def AppendClientHello_def hello_of_def
        deriveEarly_def newKeySchedule_def early_secret_def)
qed

text \<open>The records of the two flights.\<close>

definition hs_record :: "bytes \<Rightarrow> tls_record" where
  "hs_record payload = \<lparr>tr_Type = recordHandshake, tr_Version = 0x0303, tr_Payload = payload\<rparr>"

definition ccs_record :: tls_record where
  "ccs_record = \<lparr>tr_Type = recordChangeCipherSpec, tr_Version = 0x0303, tr_Payload = [1]\<rparr>"

definition sealed_record :: "('k, 'q, 'c) tls_crypto \<Rightarrow> bytes \<Rightarrow> u64 \<Rightarrow> handshake \<Rightarrow> tls_record" where
  "sealed_record cr secret n h =
     \<lparr>tr_Type = recordApplicationData, tr_Version = 0x0303, tr_Payload = sealed cr secret n recordHandshake (enc_handshake h)\<rparr>"

lemma flight_bytes:
  "AppendRecord [] recordHandshake 0x0303 b = enc_record (hs_record b)"
  "AppendRecord [] recordChangeCipherSpec 0x0303 [1] = enc_record ccs_record"
  "app_record (sealed cr secret n recordHandshake (enc_handshake h)) = enc_record (sealed_record cr secret n h)"
  by (simp_all add: enc_record_def hs_record_def ccs_record_def sealed_record_def)

lemma onRecord_ccs [simp]: "onRecord cr sm ccs_record = (sm, None)"
  by (simp add: onRecord_def ccs_record_def)

lemma parser_unchanged: "sm_handshakes s = p \<Longrightarrow> s\<lparr>sm_handshakes := p\<rparr> = s"
  by (cases s) simp

lemma hp_new [simp]: "hp_buf NewHandshakeParser = []"
  by (simp add: NewHandshakeParser_def)

lemma onRecord_hs:
  assumes "handshake_ok h" and "sm_handshakes sm = NewHandshakeParser" and "onHandshake cr sm h = (s', None)"
    and "sm_handshakes s' = NewHandshakeParser"
  shows "onRecord cr sm (hs_record (enc_handshake h)) = (s', None)"
  using onRecord_plain [OF _ assms(1,3), where v = "0x0303"] assms(2,4) by (simp add: hs_record_def parser_unchanged)

text \<open>During the handshake the reading side is at the record with number \<open>n\<close>.\<close>

lemma onRecord_hs_sealed:
  assumes "aead_ok cr" and "handshake_ok h" and "sm_readKeys sm = HandshakeKeys" and "sm_hsReadKeys sm = Some (prot cr rs n)"
    and "sm_handshakes sm = NewHandshakeParser"
    and "onHandshake cr (sm\<lparr>sm_hsReadKeys := Some (prot cr rs (n + 1))\<rparr>) h = (s', None)"
    and "sm_handshakes s' = NewHandshakeParser"
  shows "onRecord cr sm (sealed_record cr rs n h) = (s', None)"
  using onRecord_sealed [OF assms(1) _ _ assms(2), where sm = sm and s' = s' and v = "0x0303" and rs = rs and n = n] assms
  by (simp add: sealed_record_def read_protector_def set_read_protector_def parser_unchanged)

text \<open>The client reads the server's flight.\<close>

lemma client_reads_flight:
  assumes ok: "hash_ok cr" "aead_ok cr" and cl: "sm_isClient sm" and buf: "sm_handshakes sm = NewHandshakeParser"
    and sh: "ParseServerHello b = Inr shl" "serverKeyShare b = Inr pub"
    and kx: "sm_kx sm = Some kx" "shared cr kx pub = Inr secret"
    and k: "sm_keys sm = \<lparr>ks_transcript = ch, ks_earlySecret = Some (early_secret cr), ks_handshakeSecret = None, ks_masterSecret = None\<rparr>"
    and tr: "tr = ch @ enc_handshake \<lparr>hs_Type = hsServerHello, hs_Payload = b\<rparr>"
    and ws: "ws = hs_traffic cr secret False tr"
    and ee: "ee = \<lparr>hs_Type = hsEncryptedExtensions, hs_Payload = eb\<rparr>"
    and ce: "ce = \<lparr>hs_Type = hsCertificate, hs_Payload = cb\<rparr>"
    and cv: "cv = \<lparr>hs_Type = hsCertificateVerify, hs_Payload = vb\<rparr>"
    and fi: "fi = \<lparr>hs_Type = hsFinished, hs_Payload = finished_msg cr ws (tr @ enc_handshake ee @ enc_handshake ce @ enc_handshake cv)\<rparr>"
    and tr1: "tr1 = tr @ enc_handshake ee @ enc_handshake ce @ enc_handshake cv @ enc_handshake fi"
    and cf: "cf = \<lparr>hs_Type = hsFinished, hs_Payload = finished_msg cr (hs_traffic cr secret True tr) tr1\<rparr>"
    and sizes: "handshake_ok \<lparr>hs_Type = hsServerHello, hs_Payload = b\<rparr>" "handshake_ok ee" "handshake_ok ce" "handshake_ok cv"
  shows "\<exists>sm'. run_units (onRecord cr) sm
        [hs_record (enc_handshake \<lparr>hs_Type = hsServerHello, hs_Payload = b\<rparr>), ccs_record, sealed_record cr ws 0 ee,
         sealed_record cr ws 1 ce, sealed_record cr ws 2 cv, sealed_record cr ws 3 fi] = (None, sm')
    \<and> sm_state sm' = StateEstablished \<and> sm_err sm' = sm_err sm \<and> sm_handshakes sm' = NewHandshakeParser
    \<and> sm_writeKeys sm' = OwnKeys (prot cr (app_traffic cr secret True tr1) 0)
    \<and> sm_readKeys sm' = OwnKeys (prot cr (app_traffic cr secret False tr1) 0)
    \<and> sm_out sm' = sm_out sm @ enc_record ccs_record @ enc_record (sealed_record cr (hs_traffic cr secret True tr) 0 cf)
    \<and> sm_plaintext sm' = sm_plaintext sm \<and> sm_negotiatedALPN sm' = parseALPNServerExtension eb
    \<and> sm_suite sm' = shl_CipherSuite shl"
proof -
  let ?c = "hs_traffic cr secret True tr"
  let ?s1 = "sm\<lparr>sm_serverHello := Some shl, sm_suite := shl_CipherSuite shl,
      sm_keys := \<lparr>ks_transcript = tr, ks_earlySecret = Some (early_secret cr),
        ks_handshakeSecret = Some (handshake_secret cr secret), ks_masterSecret = None\<rparr>,
      sm_hsWriteSecret := Some ?c, sm_hsReadSecret := Some ws, sm_hsWriteKeys := Some (prot cr ?c 0),
      sm_hsReadKeys := Some (prot cr ws 0), sm_writeKeys := HandshakeKeys, sm_readKeys := HandshakeKeys,
      sm_state := StateWaitEncryptedExtensions, sm_handshakes := NewHandshakeParser\<rparr>"
  have tr': "tr = ch @ AppendHandshake [] hsServerHello b" by (simp add: tr enc_handshake_def)
  have r1: "onRecord cr sm (hs_record (enc_handshake \<lparr>hs_Type = hsServerHello, hs_Payload = b\<rparr>)) = (?s1, None)"
    by (rule onRecord_hs [OF sizes(1)], simp add: buf, subst onHandshake_eqs(2), simp,
        simp add: onServerHello_ok [OF ok(1) cl sh kx k tr'] ws buf, simp_all add: parser_unchanged buf)
  let ?s2 = "?s1\<lparr>sm_hsReadKeys := Some (prot cr ws 1), sm_negotiatedALPN := parseALPNServerExtension eb,
      sm_keys := (sm_keys ?s1)\<lparr>ks_transcript := tr @ enc_handshake ee\<rparr>, sm_state := StateWaitCertificate\<rparr>"
  have r2: "onRecord cr ?s1 (sealed_record cr ws 0 ee) = (?s2, None)"
    by (rule onRecord_hs_sealed [OF ok(2) sizes(2)], simp, simp, simp, subst onHandshake_eqs(4))
      (simp_all add: ee cl Let_def add_transcript_def transcript_write_def enc_handshake_def)
  let ?s3 = "?s2\<lparr>sm_hsReadKeys := Some (prot cr ws 2),
      sm_keys := (sm_keys ?s1)\<lparr>ks_transcript := tr @ enc_handshake ee @ enc_handshake ce\<rparr>, sm_state := StateWaitCertificateVerify\<rparr>"
  have r3: "onRecord cr ?s2 (sealed_record cr ws 1 ce) = (?s3, None)"
    by (rule onRecord_hs_sealed [OF ok(2) sizes(3)], simp, simp, simp, subst onHandshake_eqs(5))
      (simp_all add: ce Let_def add_transcript_def transcript_write_def enc_handshake_def)
  let ?s4 = "?s3\<lparr>sm_hsReadKeys := Some (prot cr ws 3),
      sm_keys := (sm_keys ?s1)\<lparr>ks_transcript := tr @ enc_handshake ee @ enc_handshake ce @ enc_handshake cv\<rparr>,
      sm_state := StateWaitServerFinished\<rparr>"
  have r4: "onRecord cr ?s3 (sealed_record cr ws 2 cv) = (?s4, None)"
    by (rule onRecord_hs_sealed [OF ok(2) sizes(4)], simp, simp, simp, subst onHandshake_eqs(6))
      (simp_all add: cv Let_def add_transcript_def transcript_write_def enc_handshake_def)
  let ?s4' = "?s4\<lparr>sm_hsReadKeys := Some (prot cr ws 4)\<rparr>"
  have fk: "handshake_ok fi" using ok(1) by (simp add: fi handshake_ok_def finished_msg_def)
  have f: "onFinished cr (hs_Payload fi) ?s4' = (?s4'\<lparr>
      sm_keys := \<lparr>ks_transcript = tr1 @ enc_handshake cf, ks_earlySecret = Some (early_secret cr),
        ks_handshakeSecret = Some (handshake_secret cr secret), ks_masterSecret = Some (master_secret cr secret)\<rparr>,
      sm_appWriteSecret := Some (app_traffic cr secret True tr1), sm_appReadSecret := Some (app_traffic cr secret False tr1),
      sm_out := sm_out ?s4' @ AppendRecord [] recordChangeCipherSpec 0x0303 [1] @ app_record (sealed cr ?c 0 recordHandshake (enc_handshake cf)),
      sm_hsWriteKeys := Some (prot cr ?c (0 + 1)),
      sm_writeKeys := OwnKeys (prot cr (app_traffic cr secret True tr1) 0),
      sm_readKeys := OwnKeys (prot cr (app_traffic cr secret False tr1) 0), sm_state := StateEstablished\<rparr>, None)"
    by (rule onFinished_client_ok [OF ok(1), where rs = ws and ws = ?c
          and tr = "tr @ enc_handshake ee @ enc_handshake ce @ enc_handshake cv" and ms = None])
      (simp_all add: cl fi tr1 cf enc_handshake_def)
  have r5: "onRecord cr ?s4 (sealed_record cr ws 3 fi) = (fst (onFinished cr (hs_Payload fi) ?s4'), None)"
  proof (rule onRecord_hs_sealed [OF ok(2) fk])
    have n: "3 + 1 = (4 :: u64)" and t: "hs_Type fi = hsFinished" by (simp_all add: fi)
    show "onHandshake cr (?s4\<lparr>sm_hsReadKeys := Some (prot cr ws (3 + 1))\<rparr>) fi = (fst (onFinished cr (hs_Payload fi) ?s4'), None)"
      unfolding n onHandshake_eqs(3) [OF t] f by simp
    show "sm_handshakes (fst (onFinished cr (hs_Payload fi) ?s4')) = NewHandshakeParser" unfolding f by simp
  qed simp_all
  have run: "run_units (onRecord cr) sm
      [hs_record (enc_handshake \<lparr>hs_Type = hsServerHello, hs_Payload = b\<rparr>), ccs_record, sealed_record cr ws 0 ee,
       sealed_record cr ws 1 ce, sealed_record cr ws 2 cv, sealed_record cr ws 3 fi]
      = (None, fst (onFinished cr (hs_Payload fi) ?s4'))"
    by (simp only: run_units.simps r1 r2 r3 r4 r5 onRecord_ccs prod.case option.case)
  show ?thesis
    unfolding run by (rule exI [where x = "fst (onFinished cr (hs_Payload fi) ?s4')"], rule conjI [OF refl])
      (unfold f, simp add: flight_bytes)
qed

text \<open>The server reads the ClientHello and, later, the client's Finished.\<close>

lemma server_answers:
  assumes ok: "hash_ok cr" and s0: "s0 = NewServerStateMachine cr (Some cfg) (r1 # r2 # rnd)"
    and ch: "ParseClientHello b = Inr ch" "list_ex (\<lambda>cs. cs = TLS_AES_128_GCM_SHA256) (chl_CipherSuites ch)" "clientKeyShare b = Inr pub"
    and cert: "cfg_Certificates cfg = cert # certs" "tc_PrivateKey cert = Some priv"
    and dh: "shared cr (fit 32 r1) pub = Inr secret"
    and size: "handshake_ok \<lparr>hs_Type = hsClientHello, hs_Payload = b\<rparr>"
    and sh: "sh = \<lparr>hs_Type = hsServerHello, hs_Payload = server_hello_body (server_hello_of ch r2) (cr_pub cr (fit 32 r1))\<rparr>"
    and tr: "tr = enc_handshake \<lparr>hs_Type = hsClientHello, hs_Payload = b\<rparr> @ enc_handshake sh"
    and ws: "ws = hs_traffic cr secret False tr"
    and ee: "ee = \<lparr>hs_Type = hsEncryptedExtensions,
        hs_Payload = appendALPNServerExtension (negotiateALPN (chl_ALPN ch) (cfg_NextProtos cfg))\<rparr>"
    and ce: "ce = \<lparr>hs_Type = hsCertificate, hs_Payload = cert_body (tc_Certificate cert)\<rparr>"
    and sig: "signWithKey cr (concat (take 1 rnd)) priv (certificateVerifyInput False
        (cr_sha256 cr (tr @ enc_handshake ee @ enc_handshake ce))) = Inr sig"
    and cv: "cv = \<lparr>hs_Type = hsCertificateVerify, hs_Payload = cv_body priv sig\<rparr>"
    and fi: "fi = \<lparr>hs_Type = hsFinished, hs_Payload = finished_msg cr ws (tr @ enc_handshake ee @ enc_handshake ce @ enc_handshake cv)\<rparr>"
    and tr1: "tr1 = tr @ enc_handshake ee @ enc_handshake ce @ enc_handshake cv @ enc_handshake fi"
  shows "\<exists>s. run_units (onRecord cr) s0 [hs_record (enc_handshake \<lparr>hs_Type = hsClientHello, hs_Payload = b\<rparr>)] = (None, s)
    \<and> sm_out s = concat (map enc_record [hs_record (enc_handshake sh), ccs_record, sealed_record cr ws 0 ee,
         sealed_record cr ws 1 ce, sealed_record cr ws 2 cv, sealed_record cr ws 3 fi])
    \<and> sm_err s = None \<and> sm_handshakes s = NewHandshakeParser \<and> \<not> sm_isClient s \<and> sm_plaintext s = []
    \<and> sm_hsReadSecret s = Some (hs_traffic cr secret True tr) \<and> sm_hsReadKeys s = Some (prot cr (hs_traffic cr secret True tr) 0)
    \<and> sm_readKeys s = HandshakeKeys \<and> ks_transcript (sm_keys s) = tr1
    \<and> sm_appWriteSecret s = Some (app_traffic cr secret False tr1) \<and> sm_appReadSecret s = Some (app_traffic cr secret True tr1)
    \<and> sm_negotiatedALPN s = negotiateALPN (chl_ALPN ch) (cfg_NextProtos cfg) \<and> sm_suite s = TLS_AES_128_GCM_SHA256"
proof -
  let ?H = "\<lparr>hs_Type = hsClientHello, hs_Payload = b\<rparr>"
  have i: "\<not> sm_isClient s0" "sm_config s0 = Some cfg" "sm_rand s0 = r1 # r2 # rnd" "sm_handshakes s0 = NewHandshakeParser"
      "sm_out s0 = []" "sm_err s0 = None" "sm_plaintext s0 = []"
      "sm_keys s0 = \<lparr>ks_transcript = [], ks_earlySecret = Some (early_secret cr), ks_handshakeSecret = None, ks_masterSecret = None\<rparr>"
    by (simp_all add: s0 NewServerStateMachine_def) (simp_all add: init_machine_def)
  have e: "AppendHandshake [] hsClientHello b = enc_handshake ?H"
    by (simp add: enc_handshake_def)
  note o = onClientHello_ok [OF ok i(1) ch i(2) cert i(3) i(8) dh, unfolded e, where tr = tr and ws = ws
      and shm = "enc_handshake sh" and ee = "enc_handshake ee" and ce = "enc_handshake ce" and cv = "enc_handshake cv"
      and fi = "enc_handshake fi" and sig = sig, OF tr _ ws _ _ sig]
  obtain s where s: "onClientHello cr b s0 = (s, None)"
      "sm_out s = concat (map enc_record [hs_record (enc_handshake sh), ccs_record, sealed_record cr ws 0 ee,
         sealed_record cr ws 1 ce, sealed_record cr ws 2 cv, sealed_record cr ws 3 fi])"
      "sm_err s = None \<and> sm_handshakes s = NewHandshakeParser \<and> \<not> sm_isClient s \<and> sm_plaintext s = []"
      "sm_hsReadSecret s = Some (hs_traffic cr secret True tr) \<and> sm_hsReadKeys s = Some (prot cr (hs_traffic cr secret True tr) 0)
       \<and> sm_readKeys s = HandshakeKeys \<and> ks_transcript (sm_keys s) = tr1"
      "sm_appWriteSecret s = Some (app_traffic cr secret False tr1) \<and> sm_appReadSecret s = Some (app_traffic cr secret True tr1)
       \<and> sm_negotiatedALPN s = negotiateALPN (chl_ALPN ch) (cfg_NextProtos cfg) \<and> sm_suite s = TLS_AES_128_GCM_SHA256"
    by (rule that, rule o) (simp_all add: sh ee ce cv fi tr1 i enc_handshake_def flip: flight_bytes)
  have "onRecord cr s0 (hs_record (enc_handshake ?H)) = (s, None)"
    using s(3) by (intro onRecord_hs [OF size i(4)]) (simp_all add: onHandshake_eqs(1) s(1))
  then show ?thesis using s by simp
qed

lemma server_finishes:
  assumes ok: "hash_ok cr" "aead_ok cr" and cl: "\<not> sm_isClient s" "sm_handshakes s = NewHandshakeParser"
    and rd: "sm_hsReadSecret s = Some rs" "sm_hsReadKeys s = Some (prot cr rs 0)" "sm_readKeys s = HandshakeKeys"
    and app: "sm_appWriteSecret s = Some aws" "sm_appReadSecret s = Some ars"
    and cf: "cf = \<lparr>hs_Type = hsFinished, hs_Payload = finished_msg cr rs (ks_transcript (sm_keys s))\<rparr>"
  shows "\<exists>s'. run_units (onRecord cr) s [ccs_record, sealed_record cr rs 0 cf] = (None, s')
    \<and> sm_state s' = StateEstablished \<and> sm_err s' = sm_err s \<and> sm_handshakes s' = NewHandshakeParser
    \<and> sm_writeKeys s' = OwnKeys (prot cr aws 0) \<and> sm_readKeys s' = OwnKeys (prot cr ars 0)
    \<and> sm_out s' = sm_out s \<and> sm_plaintext s' = sm_plaintext s \<and> sm_negotiatedALPN s' = sm_negotiatedALPN s \<and> sm_suite s' = sm_suite s"
proof -
  let ?s = "s\<lparr>sm_hsReadKeys := Some (prot cr rs 1)\<rparr>"
  have p: "hs_Payload cf = finished_msg cr rs (ks_transcript (sm_keys ?s))" and t: "hs_Type cf = hsFinished" by (simp_all add: cf)
  have f: "onFinished cr (hs_Payload cf) ?s = (?s\<lparr>
      sm_keys := transcript_write (sm_keys ?s) (AppendHandshake [] hsFinished (hs_Payload cf)),
      sm_writeKeys := OwnKeys (prot cr aws 0), sm_readKeys := OwnKeys (prot cr ars 0), sm_state := StateEstablished\<rparr>, None)"
    by (rule onFinished_server_ok [OF ok(1) _ _ p]) (simp_all add: cl rd app)
  have fk: "handshake_ok cf" using ok(1) by (simp add: cf handshake_ok_def finished_msg_def)
  have r: "onRecord cr s (sealed_record cr rs 0 cf) = (fst (onFinished cr (hs_Payload cf) ?s), None)"
  proof (rule onRecord_hs_sealed [OF ok(2) fk rd(3,2) cl(2)])
    have n: "0 + 1 = (1 :: u64)" by simp
    show "onHandshake cr (s\<lparr>sm_hsReadKeys := Some (prot cr rs (0 + 1))\<rparr>) cf = (fst (onFinished cr (hs_Payload cf) ?s), None)"
      unfolding n onHandshake_eqs(3) [OF t] f by simp
    show "sm_handshakes (fst (onFinished cr (hs_Payload cf) ?s)) = NewHandshakeParser" unfolding f using cl by simp
  qed
  show ?thesis
    by (rule exI [where x = "fst (onFinished cr (hs_Payload cf) ?s)"], simp add: r) (unfold f, simp add: cl)
qed

text \<open>Two machines that have a connection: each writes with the key the other reads with, both at
  record 0, and nothing is left over.\<close>

definition quiet :: "'k state_machine \<Rightarrow> bool" where
  "quiet sm = (sm_err sm = None \<and> sm_handshakes sm = NewHandshakeParser \<and> sm_out sm = [] \<and> sm_plaintext sm = [])"

definition linked :: "('k, 'q, 'c) tls_crypto \<Rightarrow> 'k state_machine \<Rightarrow> 'k state_machine \<Rightarrow> bool" where
  "linked cr c s =
     (Established c \<and> Established s \<and> quiet c \<and> quiet s
      \<and> (\<exists>cw sw. sm_writeKeys c = OwnKeys (prot cr cw 0) \<and> sm_readKeys s = OwnKeys (prot cr cw 0)
           \<and> sm_writeKeys s = OwnKeys (prot cr sw 0) \<and> sm_readKeys c = OwnKeys (prot cr sw 0)))"

lemma record_ok_simps [simp]:
  "record_ok ccs_record" "record_ok (hs_record b) = (length b \<le> maxCiphertextLen)"
  "aead_ok cr \<Longrightarrow> length (hs_Payload h) \<le> 16300 \<Longrightarrow> record_ok (sealed_record cr secret n h)"
  by (simp_all add: record_ok_def ccs_record_def hs_record_def sealed_record_def length_sealed)
    (simp add: aead_ok_def)

lemma hp_ok: "length (hs_Payload h) \<le> 16300 \<Longrightarrow> handshake_ok h"
  by (simp add: handshake_ok_def)

lemma handshake_run_steps:
  assumes "sm_out c = concat (map enc_record rs1)" and "rs1 \<noteq> []" and "\<forall>r\<in>set rs1. record_ok r"
    and "sm_err s = None" and "run_units (onRecord cr) s rs1 = (None, s1)"
    and "sm_out s1 = concat (map enc_record rs2)" and "rs2 \<noteq> []" and "\<forall>r\<in>set rs2. record_ok r"
    and "sm_err c = None" and "run_units (onRecord cr) (c\<lparr>sm_out := []\<rparr>) rs2 = (None, c1)"
    and "sm_out c1 = concat (map enc_record rs3)" and "rs3 \<noteq> []" and "\<forall>r\<in>set rs3. record_ok r"
    and "sm_err s1 = None" and "run_units (onRecord cr) (s1\<lparr>sm_records := sm_records s, sm_out := []\<rparr>) rs3 = (None, s2)"
  shows "handshake_run cr c s = (c1\<lparr>sm_records := sm_records c, sm_out := []\<rparr>, s2\<lparr>sm_records := sm_records s\<rparr>)"
proof -
  have "Feed_tls cr s (sm_out c) = (length (sm_out c), None, s1\<lparr>sm_records := sm_records s\<rparr>)"
    unfolding assms(1) by (rule Feed_tls_records [OF assms(4,2,3,5)])
  moreover have "Feed_tls cr (c\<lparr>sm_out := []\<rparr>) (sm_out s1) = (length (sm_out s1), None, c1\<lparr>sm_records := sm_records c\<rparr>)"
    unfolding assms(6) using Feed_tls_records [OF _ assms(7,8,10)] assms(9) by simp
  moreover have "Feed_tls cr (s1\<lparr>sm_records := sm_records s, sm_out := []\<rparr>) (sm_out c1) = (length (sm_out c1), None, s2\<lparr>sm_records := sm_records s\<rparr>)"
    unfolding assms(11) using Feed_tls_records [OF _ assms(12,13,15)] assms(14) by simp
  ultimately show ?thesis by (simp add: handshake_run_def TakeOutput_def Let_def)
qed

lemma dh_shared:
  assumes "dh_ok cr"
  obtains secret where "shared cr a (cr_pub cr b) = Inr secret" "shared cr b (cr_pub cr a) = Inr secret"
proof -
  have l: "length (cr_pub cr a) = 32" "length (cr_pub cr b) = 32"
    and e: "cr_ecdh cr a (cr_pub cr b) = cr_ecdh cr b (cr_pub cr a)" and x: "\<exists>s. cr_ecdh cr a (cr_pub cr b) = Inr s"
    using assms unfolding dh_ok_def by blast+
  from x obtain s where s: "cr_ecdh cr a (cr_pub cr b) = Inr s" by blast
  have "shared cr a (cr_pub cr b) = Inr s" by (simp add: shared_def lib_result_def l s)
  moreover have "shared cr b (cr_pub cr a) = Inr s" by (simp add: shared_def lib_result_def l s flip: e)
  ultimately have "shared cr a (cr_pub cr b) = Inr s" "shared cr b (cr_pub cr a) = Inr s" by simp_all
  then show ?thesis by (rule that)
qed

lemma length_negotiated:
  assumes "list_all (\<lambda>p. length p < 256) ss"
  shows "length (negotiateALPN cs ss) < 256"
proof (cases "filter (\<lambda>s. s \<in> set cs) ss")
  case (Cons p ps)
  then have "p \<in> set (filter (\<lambda>s. s \<in> set cs) ss)" by simp
  then have "p \<in> set ss" by simp
  then show ?thesis using assms Cons by (simp add: negotiateALPN_first list_all_iff)
qed (simp add: negotiateALPN_first)

lemma flight_sizes:
  "length (cr_pub cr k) = 32 \<Longrightarrow> length (server_hello_body (server_hello_of (hello_of config r2 r3) q) (cr_pub cr k)) \<le> 16300"
  "length p < 256 \<Longrightarrow> length (appendALPNServerExtension p) \<le> 16300"
  "length sig \<le> 16000 \<Longrightarrow> length (cv_body priv sig) \<le> 16300"
  "hash_ok cr \<Longrightarrow> length (finished_msg cr secret tr) \<le> 16300"
  by (simp_all add: server_hello_body_def server_hello_of_def hello_of_def appendExtension_def appendKeyShareEntry_def Let_def
      appendALPNServerExtension_def appendALPNList_def alpn_entry_def cv_body_def finished_msg_def)

lemma Start_fields:
  fixes cr :: "('k, 'q, 'c) tls_crypto" and config :: "'k tls_config option" and r1 r2 r3 :: bytes and rnd :: "bytes list"
  defines "H \<equiv> \<lparr>hs_Type = hsClientHello, hs_Payload = client_hello_body (hello_of config r2 r3) (cr_pub cr (fit 32 r1))\<rparr>"
    and "c \<equiv> fst (Start cr (NewClientStateMachine cr config (r1 # r2 # r3 # rnd)))"
  shows "sm_isClient c" "sm_handshakes c = NewHandshakeParser" "sm_kx c = Some (fit 32 r1)" "sm_err c = None" "sm_plaintext c = []"
    "sm_out c = concat (map enc_record [hs_record (enc_handshake H)])" "sm_keys c = \<lparr>ks_transcript = enc_handshake H,
        ks_earlySecret = Some (early_secret cr), ks_handshakeSecret = None, ks_masterSecret = None\<rparr>"
  by (simp_all add: c_def H_def Start_ok flip: flight_bytes) (simp_all add: init_machine_def enc_handshake_def)

lemma handshake_links:
  assumes ok: "hash_ok cr" "aead_ok cr" "dh_ok cr" and cf: "client_fits ccfg" and sf: "server_fits cr scfg"
  shows "\<exists>c s. handshake_run cr (fst (Start cr (NewClientStateMachine cr ccfg (r1 # r2 # r3 # crnd))))
      (NewServerStateMachine cr (Some scfg) (q1 # q2 # srnd)) = (c, s)
    \<and> linked cr c s \<and> sm_negotiatedALPN c = negotiateALPN (alpn_of ccfg) (cfg_NextProtos scfg)
    \<and> sm_negotiatedALPN s = negotiateALPN (alpn_of ccfg) (cfg_NextProtos scfg)
    \<and> sm_suite c = TLS_AES_128_GCM_SHA256 \<and> sm_suite s = TLS_AES_128_GCM_SHA256"
proof -
  let ?ch = "hello_of ccfg r2 r3" and ?cx = "fit 32 r1" and ?sx = "fit 32 q1"
  let ?b = "client_hello_body ?ch (cr_pub cr ?cx)" and ?H = "\<lparr>hs_Type = hsClientHello, hs_Payload = client_hello_body ?ch (cr_pub cr ?cx)\<rparr>"
  have pub: "length (cr_pub cr ?cx) = 32" "length (cr_pub cr ?sx) = 32" using ok(3) by (simp_all add: dh_ok_def)
  obtain secret where dh: "shared cr ?sx (cr_pub cr ?cx) = Inr secret" "shared cr ?cx (cr_pub cr ?sx) = Inr secret"
    by (rule dh_shared [OF ok(3), of ?sx ?cx])
  obtain cert certs priv where cert: "cfg_Certificates scfg = cert # certs" "tc_PrivateKey cert = Some priv"
      "length (cert_body (tc_Certificate cert)) \<le> 16000" "\<And>rnd m. \<exists>sig. signWithKey cr rnd priv m = Inr sig \<and> length sig \<le> 16000"
      "list_all (\<lambda>p. length p < 256) (cfg_NextProtos scfg)" using sf unfolding server_fits_def by blast
  let ?sb = "server_hello_body (server_hello_of ?ch q2) (cr_pub cr ?sx)"
  define sh where "sh = \<lparr>hs_Type = hsServerHello, hs_Payload = ?sb\<rparr>"
  define tr where "tr = enc_handshake ?H @ enc_handshake sh"
  define ws where "ws = hs_traffic cr secret False tr"
  let ?alpn = "negotiateALPN (alpn_of ccfg) (cfg_NextProtos scfg)"
  define ee where "ee = \<lparr>hs_Type = hsEncryptedExtensions, hs_Payload = appendALPNServerExtension ?alpn\<rparr>"
  define ce where "ce = \<lparr>hs_Type = hsCertificate, hs_Payload = cert_body (tc_Certificate cert)\<rparr>"
  obtain sig where sig: "signWithKey cr (concat (take 1 srnd)) priv (certificateVerifyInput False
      (cr_sha256 cr (tr @ enc_handshake ee @ enc_handshake ce))) = Inr sig" "length sig \<le> 16000" using cert(4) by blast
  define cv where "cv = \<lparr>hs_Type = hsCertificateVerify, hs_Payload = cv_body priv sig\<rparr>"
  define fi where "fi = \<lparr>hs_Type = hsFinished, hs_Payload = finished_msg cr ws (tr @ enc_handshake ee @ enc_handshake ce @ enc_handshake cv)\<rparr>"
  define tr1 where "tr1 = tr @ enc_handshake ee @ enc_handshake ce @ enc_handshake cv @ enc_handshake fi"
  define fc where "fc = \<lparr>hs_Type = hsFinished, hs_Payload = finished_msg cr (hs_traffic cr secret True tr) tr1\<rparr>"
  note alpn = length_negotiated [OF cert(5), of "alpn_of ccfg"]
  note hello = hello_fits [OF cf pub(1), of r2 r3]
  have lens: "length (hs_Payload ?H) \<le> 16300" "length (hs_Payload sh) \<le> 16300" "length (hs_Payload ee) \<le> 16300"
      "length (hs_Payload ce) \<le> 16300" "length (hs_Payload cv) \<le> 16300" "length (hs_Payload fi) \<le> 16300" "length (hs_Payload fc) \<le> 16300"
    using hello(2) flight_sizes(1) [OF pub(2)] flight_sizes(2) [OF alpn] cert(3) flight_sizes(3) [OF sig(2)] flight_sizes(4) [OF ok(1)]
    by (simp_all add: sh_def ee_def ce_def cv_def fi_def fc_def)
  let ?s0 = "NewServerStateMachine cr (Some scfg) (q1 # q2 # srnd)"
  have suites: "list_ex (\<lambda>cs. cs = TLS_AES_128_GCM_SHA256) (chl_CipherSuites ?ch)" by (simp add: hello_of_def)
  have al: "chl_ALPN ?ch = alpn_of ccfg" by (simp add: hello_of_def)
  obtain s where s: "run_units (onRecord cr) ?s0 [hs_record (enc_handshake ?H)] = (None, s)"
    "sm_out s = concat (map enc_record [hs_record (enc_handshake sh), ccs_record, sealed_record cr ws 0 ee,
         sealed_record cr ws 1 ce, sealed_record cr ws 2 cv, sealed_record cr ws 3 fi])"
    "sm_err s = None" "sm_handshakes s = NewHandshakeParser" "\<not> sm_isClient s" "sm_plaintext s = []"
    "sm_hsReadSecret s = Some (hs_traffic cr secret True tr)" "sm_hsReadKeys s = Some (prot cr (hs_traffic cr secret True tr) 0)"
    "sm_readKeys s = HandshakeKeys" "ks_transcript (sm_keys s) = tr1"
    "sm_appWriteSecret s = Some (app_traffic cr secret False tr1)" "sm_appReadSecret s = Some (app_traffic cr secret True tr1)"
    "sm_negotiatedALPN s = ?alpn" "sm_suite s = TLS_AES_128_GCM_SHA256"
    using server_answers [OF ok(1) refl parse_client_body [OF hello(1)] suites client_key_share_body [OF hello(1)] cert(1,2) dh(1)
        hp_ok [OF lens(1)] sh_def tr_def ws_def ee_def [folded al] ce_def sig(1) cv_def fi_def tr1_def] unfolding al by blast
  define c where "c = fst (Start cr (NewClientStateMachine cr ccfg (r1 # r2 # r3 # crnd)))"
  note i = Start_fields [of cr ccfg r1 r2 r3 crnd, folded c_def]
  have sb: "ParseServerHello ?sb = Inr (server_hello_of ?ch q2)" "serverKeyShare ?sb = Inr (cr_pub cr ?sx)"
    by (rule parse_server_body; simp add: server_hello_of_def hello_of_def pub)+
  obtain c1 where c1: "run_units (onRecord cr) (c\<lparr>sm_out := []\<rparr>) [hs_record (enc_handshake sh), ccs_record, sealed_record cr ws 0 ee,
         sealed_record cr ws 1 ce, sealed_record cr ws 2 cv, sealed_record cr ws 3 fi] = (None, c1)"
    "sm_state c1 = StateEstablished" "sm_err c1 = None" "sm_handshakes c1 = NewHandshakeParser"
    "sm_writeKeys c1 = OwnKeys (prot cr (app_traffic cr secret True tr1) 0)"
    "sm_readKeys c1 = OwnKeys (prot cr (app_traffic cr secret False tr1) 0)"
    "sm_out c1 = concat (map enc_record [ccs_record, sealed_record cr (hs_traffic cr secret True tr) 0 fc])"
    "sm_plaintext c1 = []" "sm_negotiatedALPN c1 = ?alpn" "sm_suite c1 = TLS_AES_128_GCM_SHA256"
    using client_reads_flight [OF ok(1,2) _ _ sb _ dh(2) _ tr_def [unfolded sh_def] ws_def ee_def ce_def cv_def fi_def tr1_def fc_def,
        of "c\<lparr>sm_out := []\<rparr>"] i lens hp_ok alpn
    by (auto simp: sh_def alpn_extension_read server_hello_of_def)
  let ?s1 = "s\<lparr>sm_records := sm_records ?s0, sm_out := []\<rparr>"
  obtain s2 where s2: "run_units (onRecord cr) ?s1 [ccs_record, sealed_record cr (hs_traffic cr secret True tr) 0 fc] = (None, s2)"
    "sm_state s2 = StateEstablished" "sm_err s2 = None" "sm_handshakes s2 = NewHandshakeParser"
    "sm_writeKeys s2 = OwnKeys (prot cr (app_traffic cr secret False tr1) 0)"
    "sm_readKeys s2 = OwnKeys (prot cr (app_traffic cr secret True tr1) 0)"
    "sm_out s2 = []" "sm_plaintext s2 = []" "sm_negotiatedALPN s2 = ?alpn" "sm_suite s2 = TLS_AES_128_GCM_SHA256"
    using server_finishes [OF ok(1,2), of ?s1 "hs_traffic cr secret True tr" "app_traffic cr secret False tr1"
        "app_traffic cr secret True tr1" fc] s(3-14) by (auto simp: fc_def)
  have "handshake_run cr c ?s0 = (c1\<lparr>sm_records := sm_records c, sm_out := []\<rparr>, s2\<lparr>sm_records := sm_records ?s0\<rparr>)"
    by (rule handshake_run_steps [OF i(6) _ _ _ s(1,2) _ _ i(4) c1(1,7) _ _ s(3) s2(1)])
      (use lens ok(2) in \<open>simp_all add: NewServerStateMachine_def init_machine_def\<close>)
  then show ?thesis
    unfolding c_def [symmetric] using c1(2-) s2(2-) by (auto simp: linked_def quiet_def Established_def)
qed



definition sample_certificate :: "unit tls_certificate" where
  "sample_certificate = \<lparr>tc_Certificate = [[1, 2, 3]], tc_PrivateKey = Some (EcdsaKey ())\<rparr>"

definition sample_server :: "unit tls_config" where
  "sample_server = \<lparr>cfg_Certificates = [sample_certificate], cfg_ServerName = '''', cfg_NextProtos = [''h2'', ''http/1.1'']\<rparr>"

definition sample_client :: "unit tls_config" where
  "sample_client = \<lparr>cfg_Certificates = [], cfg_ServerName = ''a.b'', cfg_NextProtos = [''http/1.1'']\<rparr>"

lemma sample_fits: "client_fits (Some sample_client)" "server_fits plain_crypto sample_server"
  by (simp_all add: client_fits_def sample_client_def alpn_of_def name_of_def alpn_entry_def server_fits_def sample_server_def
      sample_certificate_def cert_body_def certificate_entry_def signWithKey_def lib_result_def plain_crypto_def Let_def)


text \<open>The machine of a server that has got through a handshake, for the example.\<close>

lemma established_authenticated_witness:
  "\<exists>sm :: unit state_machine. machine_run plain_crypto sm \<and> Established sm
    \<and> keys_for plain_crypto (sm_appReadSecret sm) (sm_readKeys sm)"
proof -
  let ?c = "fst (Start plain_crypto (NewClientStateMachine plain_crypto (Some sample_client) [[1], [2], [3]]))"
  let ?s = "NewServerStateMachine plain_crypto (Some sample_server) [[4], [5], [6]]"
  obtain c s where l: "handshake_run plain_crypto ?c ?s = (c, s)" "linked plain_crypto c s"
    using handshake_links [OF plain_crypto_ok sample_fits, of "[1]" "[2]" "[3]" "[]" "[4]" "[5]" "[[6]]"] by blast
  obtain hello n1 e1 s1 n2 e2 where f: "Feed_tls plain_crypto ?s hello = (n1, e1, s1)"
      "Feed_tls plain_crypto (snd (TakeOutput s1)) (fst (TakeOutput (snd (snd (Feed_tls plain_crypto (snd (TakeOutput ?c)) (fst (TakeOutput s1))))))) = (n2, e2, s)"
    using l(1) by (auto simp: handshake_run_def Let_def TakeOutput_def split: prod.splits)
  have r: "machine_run plain_crypto s"
    by (rule machine_run.fed [OF _ f(2)], rule machine_run.taken [OF _ prod.collapse [symmetric]],
        rule machine_run.fed [OF machine_run.server f(1)])
  have "sm_err s = None" "Established s" using l(2) by (simp_all add: linked_def quiet_def)
  from established_authenticated [OF r this] r this show ?thesis by blast
qed

section \<open>What the machine lets pass\<close>

text \<open>A record with padding (RFC 8446 5.4): the byte after the content is its type and zeros follow.
  The last zero is taken for the type, and a record of type 0 is dropped without an error.\<close>

lemma padded_record_dropped:
  assumes "aead_ok cr" and "read_protector sm = Some (prot cr secret n)"
  shows "onRecord cr sm \<lparr>tr_Type = recordApplicationData, tr_Version = v,
      tr_Payload = sealed cr secret n 0 (content @ [recordApplicationData])\<rparr>
    = (set_read_protector (prot cr secret (n + 1)) sm, None)"
  by (simp add: onRecord_def assms(2) open_prot [OF assms(1)] Let_def)

text \<open>Application data is taken in every state: under the handshake keys, before the Finished.\<close>

lemma early_application_data:
  assumes "aead_ok cr" and "read_protector sm = Some (prot cr secret n)"
  shows "onRecord cr sm \<lparr>tr_Type = recordApplicationData, tr_Version = v,
      tr_Payload = sealed cr secret n recordApplicationData b\<rparr>
    = (let sm = set_read_protector (prot cr secret (n + 1)) sm in (sm\<lparr>sm_plaintext := sm_plaintext sm @ b\<rparr>, None))"
  by (simp add: onRecord_def assms(2) open_prot [OF assms(1)] Let_def)

text \<open>The client takes the Finished that follows the ServerHello, with no EncryptedExtensions,
  Certificate or CertificateVerify in between, and is established. (Neither \<open>parseCertificate\<close> nor
  \<open>verifyWithKey\<close> is called by the machine.)\<close>

lemma Finished_without_certificate:
  assumes ok: "hash_ok cr" "aead_ok cr" and cl: "sm_isClient sm" and b: "sm_handshakes sm = NewHandshakeParser"
    and st: "sm_state sm = StateWaitEncryptedExtensions" "sm_readKeys sm = HandshakeKeys" "sm_hsReadKeys sm = Some (prot cr rs 0)"
    and s: "sm_hsReadSecret sm = Some rs" "sm_hsWriteSecret sm = Some ws" "sm_hsWriteKeys sm = Some (prot cr ws 0)"
    and k: "sm_keys sm = \<lparr>ks_transcript = tr, ks_earlySecret = es, ks_handshakeSecret = Some (handshake_secret cr secret), ks_masterSecret = ms\<rparr>"
  shows "\<exists>sm'. onRecord cr sm (sealed_record cr rs 0 \<lparr>hs_Type = hsFinished, hs_Payload = finished_msg cr rs tr\<rparr>) = (sm', None)
    \<and> Established sm'"
proof -
  let ?h = "\<lparr>hs_Type = hsFinished, hs_Payload = finished_msg cr rs tr\<rparr>" and ?s = "sm\<lparr>sm_hsReadKeys := Some (prot cr rs (0 + 1))\<rparr>"
  have h: "handshake_ok ?h" using ok(1) by (simp add: handshake_ok_def finished_msg_def)
  let ?m = "\<lambda>sm :: 'a state_machine. sm_handshakes sm = NewHandshakeParser \<and> Established sm"
  have "\<exists>sm'. onFinished cr (finished_msg cr rs tr) ?s = (sm', None) \<and> ?m sm'"
    by (subst onFinished_client_ok [OF ok(1) _ _ _ _ _ _ refl refl refl, of ?s rs ws tr es secret ms 0])
      (simp_all add: cl s k b Established_def)
  then obtain sm' where "onHandshake cr ?s ?h = (sm', None)" "?m sm'" by (auto simp: onHandshake_eqs)
  then show ?thesis using onRecord_hs_sealed [OF ok(2) h st(2,3) b] by auto
qed

end
