(* ===== verification/Tls_Channel.thy ===== *)
theory Tls_Channel
  imports Tls_Run
begin

text \<open>
  An established TLS connection as a pair of byte pipes. Two linked machines are tls_joined by two
  wires that deliver bytes in any portions; each end keeps, as the engine does, what \<open>Feed_tls\<close> did
  not consume. The specification is two queues, and every run of the machines is a run of it.
\<close>

section \<open>The tls_joined machines\<close>

record 'k tls_link =
  tl_client :: "'k state_machine"
  tl_server :: "'k state_machine"
  tl_toServer :: bytes
  tl_toClient :: bytes
  tl_serverBuf :: bytes
  tl_clientBuf :: bytes

datatype link_op = ClientWrite bytes | ServerWrite bytes | ToServer nat | ToClient nat | ServerRead | ClientRead

definition write_on :: "('k, 'q, 'c) tls_crypto \<Rightarrow> 'k state_machine \<Rightarrow> bytes \<Rightarrow> bytes \<Rightarrow> 'k state_machine \<times> bytes" where
  "write_on cr w wire b = (case Write cr w b of (out, _, w) \<Rightarrow> (w, wire @ out))"

definition arrive_on ::
  "('k, 'q, 'c) tls_crypto \<Rightarrow> 'k state_machine \<Rightarrow> bytes \<Rightarrow> bytes \<Rightarrow> nat \<Rightarrow> 'k state_machine \<times> bytes \<times> bytes" where
  "arrive_on cr r buf wire j =
     (let d = buf @ take j wire in case Feed_tls cr r d of (n, _, r) \<Rightarrow> (r, drop n d, drop j wire))"

fun link_step :: "('k, 'q, 'c) tls_crypto \<Rightarrow> link_op \<Rightarrow> 'k tls_link \<Rightarrow> bytes \<times> 'k tls_link" where
  "link_step cr (ClientWrite b) l =
     (case write_on cr (tl_client l) (tl_toServer l) b of (c, w) \<Rightarrow> ([], l\<lparr>tl_client := c, tl_toServer := w\<rparr>))"
| "link_step cr (ServerWrite b) l =
     (case write_on cr (tl_server l) (tl_toClient l) b of (s, w) \<Rightarrow> ([], l\<lparr>tl_server := s, tl_toClient := w\<rparr>))"
| "link_step cr (ToServer j) l =
     (case arrive_on cr (tl_server l) (tl_serverBuf l) (tl_toServer l) j of
        (s, buf, w) \<Rightarrow> ([], l\<lparr>tl_server := s, tl_serverBuf := buf, tl_toServer := w\<rparr>))"
| "link_step cr (ToClient j) l =
     (case arrive_on cr (tl_client l) (tl_clientBuf l) (tl_toClient l) j of
        (c, buf, w) \<Rightarrow> ([], l\<lparr>tl_client := c, tl_clientBuf := buf, tl_toClient := w\<rparr>))"
| "link_step cr ServerRead l = (case ReadPlaintext (tl_server l) of (b, s) \<Rightarrow> (b, l\<lparr>tl_server := s\<rparr>))"
| "link_step cr ClientRead l = (case ReadPlaintext (tl_client l) of (b, c) \<Rightarrow> (b, l\<lparr>tl_client := c\<rparr>))"

fun link_run :: "('k, 'q, 'c) tls_crypto \<Rightarrow> link_op list \<Rightarrow> 'k tls_link \<Rightarrow> bytes list \<times> 'k tls_link" where
  "link_run cr [] l = ([], l)"
| "link_run cr (op # ops) l =
     (case link_step cr op l of (b, l) \<Rightarrow> case link_run cr ops l of (bs, l) \<Rightarrow> (b # bs, l))"

definition tls_joined :: "'k state_machine \<Rightarrow> 'k state_machine \<Rightarrow> 'k tls_link" where
  "tls_joined c s = \<lparr>tl_client = c, tl_server = s, tl_toServer = [], tl_toClient = [], tl_serverBuf = [], tl_clientBuf = []\<rparr>"

section \<open>The specification\<close>

text \<open>Of one direction: what can be read now, and what was written and has not arrived.\<close>

record pipe =
  pi_ready :: bytes
  pi_pending :: bytes

inductive pipe_step :: "link_op \<Rightarrow> bytes \<Rightarrow> pipe \<times> pipe \<Rightarrow> pipe \<times> pipe \<Rightarrow> bool" where
  "pipe_step (ClientWrite b) [] (p, q) (p\<lparr>pi_pending := pi_pending p @ b\<rparr>, q)"
| "pipe_step (ServerWrite b) [] (p, q) (p, q\<lparr>pi_pending := pi_pending q @ b\<rparr>)"
| "pi_pending p = x @ y \<Longrightarrow> pipe_step (ToServer j) [] (p, q) (\<lparr>pi_ready = pi_ready p @ x, pi_pending = y\<rparr>, q)"
| "pi_pending q = x @ y \<Longrightarrow> pipe_step (ToClient j) [] (p, q) (p, \<lparr>pi_ready = pi_ready q @ x, pi_pending = y\<rparr>)"
| "pipe_step ServerRead (pi_ready p) (p, q) (p\<lparr>pi_ready := []\<rparr>, q)"
| "pipe_step ClientRead (pi_ready q) (p, q) (p, q\<lparr>pi_ready := []\<rparr>)"

inductive pipe_run :: "link_op list \<Rightarrow> bytes list \<Rightarrow> pipe \<times> pipe \<Rightarrow> pipe \<times> pipe \<Rightarrow> bool" where
  pipe_done: "pipe_run [] [] a a"
| pipe_more: "pipe_step op b a a' \<Longrightarrow> pipe_run ops bs a' a'' \<Longrightarrow> pipe_run (op # ops) (b # bs) a a''"

definition empty_pipe :: pipe where
  "empty_pipe = \<lparr>pi_ready = [], pi_pending = []\<rparr>"

section \<open>Application data in records\<close>

function items_of :: "bytes \<Rightarrow> bytes list" where
  "items_of b = (if b = [] then [] else take maxRecordPayload b # items_of (drop maxRecordPayload b))"
  by pat_completeness auto
termination by (relation "measure length") auto

declare items_of.simps [simp del]

definition item_ok :: "bytes \<Rightarrow> bool" where
  "item_ok i = (i \<noteq> [] \<and> length i \<le> maxRecordPayload)"

lemma items_of_props: "concat (items_of b) = b \<and> (\<forall>i \<in> set (items_of b). item_ok i) \<and> length (items_of b) \<le> length b"
proof (induction b rule: items_of.induct)
  case (1 b)
  show ?case
  proof (cases "b = []")
    case False
    then have it: "items_of b = take maxRecordPayload b # items_of (drop maxRecordPayload b)"
      by (subst items_of.simps) simp
    have "length b - maxRecordPayload < length b" using False by simp
    moreover have "item_ok (take maxRecordPayload b)" using False by (simp add: item_ok_def)
    ultimately show ?thesis using 1(1) [OF False] by (simp add: it)
  qed (simp add: items_of.simps)
qed

fun app_records :: "('k, 'q, 'c) tls_crypto \<Rightarrow> bytes \<Rightarrow> u64 \<Rightarrow> bytes list \<Rightarrow> tls_record list" where
  "app_records cr k n [] = []"
| "app_records cr k n (i # is) =
     \<lparr>tr_Type = recordApplicationData, tr_Version = 0x0303, tr_Payload = sealed cr k n recordApplicationData i\<rparr>
       # app_records cr k (n + 1) is"

lemma length_app_records [simp]: "length (app_records cr k n is) = length is"
  by (induction "is" arbitrary: n) simp_all

lemma app_records_append: "app_records cr k n (is @ js) = app_records cr k n is @ app_records cr k (n + word_of_nat (length is)) js"
  by (induction "is" arbitrary: n) (simp_all add: algebra_simps)

lemma app_records_ok: "aead_ok cr \<Longrightarrow> \<forall>i \<in> set is. item_ok i \<Longrightarrow> \<forall>r \<in> set (app_records cr k n is). record_ok r"
  by (induction "is" arbitrary: n) (auto simp: record_ok_def item_ok_def length_sealed aead_ok_def)

lemma app_records_split:
  assumes a: "app_records cr k n is = us @ vs"
  obtains is1 is2 where "is = is1 @ is2" "us = app_records cr k n is1" "vs = app_records cr k (n + word_of_nat (length is1)) is2"
proof -
  let ?is1 = "take (length us) is" and ?is2 = "drop (length us) is"
  have le: "length us \<le> length is" using arg_cong [OF a, of length] by simp
  have "app_records cr k n is = app_records cr k n ?is1 @ app_records cr k (n + word_of_nat (length ?is1)) ?is2"
    using app_records_append [of cr k n ?is1 ?is2] by simp
  then have "us = app_records cr k n ?is1" "vs = app_records cr k (n + word_of_nat (length ?is1)) ?is2"
    using a le by (simp_all add: append_eq_append_conv)
  then show ?thesis using that [of ?is1 ?is2] by simp
qed

text \<open>\<open>Write\<close> puts the pieces into records, one after the other.\<close>

lemma write_loop_prot:
  "unat n + length (items_of b) < 2 ^ 64 - 1 \<Longrightarrow>
   write_loop cr (prot cr k n) b out
     = (out @ concat (map enc_record (app_records cr k n (items_of b))), None, prot cr k (n + word_of_nat (length (items_of b))))"
proof (induction b arbitrary: n out rule: items_of.induct)
  case (1 b)
  show ?case
  proof (cases "b = []")
    case True
    then show ?thesis by (simp add: write_loop.simps items_of.simps)
  next
    case False
    have it: "items_of b = take maxRecordPayload b # items_of (drop maxRecordPayload b)"
      using False by (subst items_of.simps) simp
    have n: "unat n < 2 ^ 64 - 1" using "1.prems" by simp
    then have n1: "n \<noteq> - 1" by (auto simp: unsigned_minus_1_eq_mask mask_eq_exp_minus_1)
    have "unat (n + 1) = unat n + 1" using n by (simp add: unat_word_ariths)
    then have rec: "unat (n + 1) + length (items_of (drop maxRecordPayload b)) < 2 ^ 64 - 1" using "1.prems" it by simp
    have t: "take (min (length b) maxRecordPayload) b = take maxRecordPayload b" "drop (min (length b) maxRecordPayload) b = drop maxRecordPayload b"
      by (simp_all add: min_def)
    have out: "AppendRecord out recordApplicationData 0x0303 c
        = out @ enc_record \<lparr>tr_Type = recordApplicationData, tr_Version = 0x0303, tr_Payload = c\<rparr>" for c
      by (simp add: AppendRecord_def enc_record_def)
    show ?thesis
      using "1.IH" [OF False rec] False
      by (subst write_loop.simps) (simp add: Let_def t seal_prot [OF n1] out it algebra_simps)
  qed
qed

text \<open>The reader gets the pieces back.\<close>

lemma reads_records:
  "aead_ok cr \<Longrightarrow> sm_readKeys r = OwnKeys (prot cr k n) \<Longrightarrow>
   run_units (onRecord cr) r (app_records cr k n is)
     = (None, r\<lparr>sm_readKeys := OwnKeys (prot cr k (n + word_of_nat (length is))), sm_plaintext := sm_plaintext r @ concat is\<rparr>)"
proof (induction "is" arbitrary: r n)
  case Nil
  then show ?case by (cases r) simp
next
  case (Cons i "is")
  let ?r = "r\<lparr>sm_readKeys := OwnKeys (prot cr k (n + 1)), sm_plaintext := sm_plaintext r @ i\<rparr>"
  have "onRecord cr r \<lparr>tr_Type = recordApplicationData, tr_Version = 0x0303, tr_Payload = sealed cr k n recordApplicationData i\<rparr> = (?r, None)"
    using Cons.prems by (simp add: onRecord_def read_protector_def set_read_protector_def Let_def)
  then show ?case using Cons.IH [of ?r "n + 1"] Cons.prems by (simp add: algebra_simps)
qed

section \<open>Simulation\<close>

text \<open>One direction: the writer is at record \<open>n\<close> of key \<open>k\<close>; the pieces \<open>is\<close> are on their way.\<close>

definition flows :: "('k, 'q, 'c) tls_crypto \<Rightarrow> 'k state_machine \<Rightarrow> 'k state_machine \<Rightarrow> bytes \<Rightarrow> bytes \<Rightarrow> nat \<Rightarrow> pipe \<Rightarrow> bool" where
  "flows cr w r wire buf budget p =
     (sm_state w = StateEstablished \<and> sm_err r = None \<and> split_record buf = NeedMore
      \<and> (\<exists>k n is. sm_writeKeys w = OwnKeys (prot cr k (n + word_of_nat (length is))) \<and> sm_readKeys r = OwnKeys (prot cr k n)
           \<and> buf @ wire = concat (map enc_record (app_records cr k n is)) \<and> (\<forall>i \<in> set is. item_ok i)
           \<and> unat (n + word_of_nat (length is)) + budget < 2 ^ 64 - 1
           \<and> p = \<lparr>pi_ready = sm_plaintext r, pi_pending = concat is\<rparr>))"

lemma flows_write:
  assumes f: "flows cr w r wire buf budget p" and b: "length b \<le> budget" and wr: "write_on cr w wire b = (w', wire')"
  shows "flows cr w' r wire' buf (budget - length b) (p\<lparr>pi_pending := pi_pending p @ b\<rparr>)"
    and "\<exists>q. w' = w\<lparr>sm_writeKeys := q\<rparr>"
proof -
  obtain k n "is" where k: "sm_writeKeys w = OwnKeys (prot cr k (n + word_of_nat (length is)))" "sm_readKeys r = OwnKeys (prot cr k n)"
    "buf @ wire = concat (map enc_record (app_records cr k n is))" "\<forall>i \<in> set is. item_ok i"
    "unat (n + word_of_nat (length is)) + budget < 2 ^ 64 - 1" "p = \<lparr>pi_ready = sm_plaintext r, pi_pending = concat is\<rparr>"
    "sm_state w = StateEstablished" "sm_err r = None" "split_record buf = NeedMore"
    using f unfolding flows_def by blast
  let ?m = "n + word_of_nat (length is)" and ?js = "items_of b"
  note it = items_of_props [of b]
  have fit: "unat ?m + length ?js < 2 ^ 64 - 1" using it b k(5) by linarith
  have w': "w' = w\<lparr>sm_writeKeys := OwnKeys (prot cr k (?m + word_of_nat (length ?js)))\<rparr>"
    and wire': "wire' = wire @ concat (map enc_record (app_records cr k ?m ?js))"
    using wr by (simp_all add: write_on_def Write_def k(1,7) write_protector_def set_write_protector_def write_loop_prot [OF fit])
  have "unat (word_of_nat (length ?js) :: u64) = length ?js" using fit by (simp add: unat_of_nat)
  then have "unat (?m + word_of_nat (length ?js)) = unat ?m + length ?js" using fit by (simp add: unat_word_ariths)
  then have bud: "unat (?m + word_of_nat (length ?js)) + (budget - length b) < 2 ^ 64 - 1" using it b k(5) by linarith
  have "\<exists>k' n' is'. sm_writeKeys w' = OwnKeys (prot cr k' (n' + word_of_nat (length is'))) \<and> sm_readKeys r = OwnKeys (prot cr k' n')
           \<and> buf @ wire' = concat (map enc_record (app_records cr k' n' is')) \<and> (\<forall>i \<in> set is'. item_ok i)
           \<and> unat (n' + word_of_nat (length is')) + (budget - length b) < 2 ^ 64 - 1
           \<and> p\<lparr>pi_pending := pi_pending p @ b\<rparr> = \<lparr>pi_ready = sm_plaintext r, pi_pending = concat is'\<rparr>"
    using k it bud by (intro exI [of _ k] exI [of _ n] exI [of _ "is @ ?js"]) (auto simp: w' wire' app_records_append algebra_simps)
  then show "flows cr w' r wire' buf (budget - length b) (p\<lparr>pi_pending := pi_pending p @ b\<rparr>)"
    unfolding flows_def using k(7-9) by (simp add: w')
  show "\<exists>q. w' = w\<lparr>sm_writeKeys := q\<rparr>" using w' by blast
qed

lemma flows_arrive:
  assumes ok: "aead_ok cr" and f: "flows cr w r wire buf budget p" and ar: "arrive_on cr r buf wire j = (r', buf', wire')"
  shows "\<exists>x y q t. pi_pending p = x @ y \<and> flows cr w r' wire' buf' budget \<lparr>pi_ready = pi_ready p @ x, pi_pending = y\<rparr>
    \<and> r' = r\<lparr>sm_readKeys := q, sm_plaintext := t\<rparr>"
proof -
  obtain k n "is" where k: "sm_writeKeys w = OwnKeys (prot cr k (n + word_of_nat (length is)))" "sm_readKeys r = OwnKeys (prot cr k n)"
    "buf @ wire = concat (map enc_record (app_records cr k n is))" "\<forall>i \<in> set is. item_ok i"
    "unat (n + word_of_nat (length is)) + budget < 2 ^ 64 - 1" "p = \<lparr>pi_ready = sm_plaintext r, pi_pending = concat is\<rparr>"
    "sm_state w = StateEstablished" "sm_err r = None" "split_record buf = NeedMore"
    using f unfolding flows_def by blast
  let ?d = "buf @ take j wire"
  have "concat (map enc_record (app_records cr k n is)) = ?d @ drop j wire" by (simp flip: k(3))
  from recs.enc_prefix [OF app_records_ok [OF ok k(4)] this] obtain us vs x where
    u: "app_records cr k n is = us @ vs" "?d = concat (map enc_record us) @ x" "split_record x = NeedMore"
      "x @ drop j wire = concat (map enc_record vs)" by blast
  obtain is1 is2 where i: "is = is1 @ is2" "us = app_records cr k n is1" "vs = app_records cr k (n + word_of_nat (length is1)) is2"
    by (rule app_records_split [OF u(1)])
  let ?n = "n + word_of_nat (length is1)"
  let ?r = "r\<lparr>sm_readKeys := OwnKeys (prot cr k ?n), sm_plaintext := sm_plaintext r @ concat is1\<rparr>"
  have run: "run_units (onRecord cr) r us = (None, ?r)"
    using reads_records [OF ok k(2), of is1] i by simp
  have val: "\<forall>u \<in> set us. record_ok u" using app_records_ok [OF ok k(4), of k n] u(1) by simp
  have "Feed_tls cr r ?d = (length (concat (map enc_record us)), None, ?r)"
    by (rule Feed_tls_loop [OF k(8)]) (use recs.loop_enc_consumed [OF val u(3) run, of 0] u(2) in simp)
  then have res: "r' = ?r" "buf' = x" "wire' = drop j wire"
    using ar u(2) by (simp_all add: arrive_on_def Let_def)
  have "\<exists>k' n' is'. sm_writeKeys w = OwnKeys (prot cr k' (n' + word_of_nat (length is'))) \<and> sm_readKeys ?r = OwnKeys (prot cr k' n')
           \<and> x @ drop j wire = concat (map enc_record (app_records cr k' n' is')) \<and> (\<forall>i \<in> set is'. item_ok i)
           \<and> unat (n' + word_of_nat (length is')) + budget < 2 ^ 64 - 1
           \<and> \<lparr>pi_ready = pi_ready p @ concat is1, pi_pending = concat is2\<rparr> = \<lparr>pi_ready = sm_plaintext ?r, pi_pending = concat is'\<rparr>"
    using k u(4) by (intro exI [of _ k] exI [of _ ?n] exI [of _ is2]) (auto simp: i algebra_simps)
  then have "flows cr w r' wire' buf' budget \<lparr>pi_ready = pi_ready p @ concat is1, pi_pending = concat is2\<rparr>"
    unfolding flows_def res using k(7,8) u(3) by simp
  then show ?thesis using k(6) res(1) by (intro exI [of _ "concat is1"] exI [of _ "concat is2"]) (auto simp: i)
qed

lemma flows_read:
  "flows cr w r wire buf budget p \<Longrightarrow> flows cr w (r\<lparr>sm_plaintext := []\<rparr>) wire buf budget (p\<lparr>pi_ready := []\<rparr>)"
  unfolding flows_def by fastforce

lemma flows_other [simp]:
  "flows cr (w\<lparr>sm_readKeys := x, sm_plaintext := t\<rparr>) r wire buf budget p = flows cr w r wire buf budget p"
  "flows cr (w\<lparr>sm_readKeys := x\<rparr>) r wire buf budget p = flows cr w r wire buf budget p"
  "flows cr (w\<lparr>sm_plaintext := t\<rparr>) r wire buf budget p = flows cr w r wire buf budget p"
  "flows cr w (r\<lparr>sm_writeKeys := y\<rparr>) wire buf budget p = flows cr w r wire buf budget p"
  by (simp_all add: flows_def)

lemma flows_less: "flows cr w r wire buf budget p \<Longrightarrow> flows cr w r wire buf (budget - d) p"
  unfolding flows_def by fastforce

lemma flows_drained:
  assumes "flows cr w r wire buf budget p" and "wire = []" and "buf = []"
  shows "pi_pending p = []"
proof -
  from assms obtain k n "is" where i: "concat (map enc_record (app_records cr k n is)) = []" "p = \<lparr>pi_ready = sm_plaintext r, pi_pending = concat is\<rparr>"
    unfolding flows_def by fastforce
  then have "is = []" by (cases "is") (simp_all add: enc_record_def AppendRecord_def)
  then show ?thesis using i by simp
qed

definition simulates :: "('k, 'q, 'c) tls_crypto \<Rightarrow> 'k tls_link \<Rightarrow> nat \<Rightarrow> pipe \<times> pipe \<Rightarrow> bool" where
  "simulates cr l budget a =
     (flows cr (tl_client l) (tl_server l) (tl_toServer l) (tl_serverBuf l) budget (fst a)
      \<and> flows cr (tl_server l) (tl_client l) (tl_toClient l) (tl_clientBuf l) budget (snd a))"

fun written_by :: "link_op \<Rightarrow> nat" where
  "written_by (ClientWrite b) = length b"
| "written_by (ServerWrite b) = length b"
| "written_by _ = 0"

lemma linked_simulates:
  assumes "linked cr c s" and "budget < 2 ^ 64 - 1"
  shows "simulates cr (tls_joined c s) budget (empty_pipe, empty_pipe)"
proof -
  have "flows cr w r [] [] budget empty_pipe"
    if "Established w" "quiet r" "sm_writeKeys w = OwnKeys (prot cr k 0)" "sm_readKeys r = OwnKeys (prot cr k 0)" for w r k
    unfolding flows_def
    by (intro conjI exI [of _ k] exI [of _ 0] exI [of _ "[]"])
      (use that assms(2) in \<open>simp_all add: Established_def quiet_def empty_pipe_def recs.split_Nil\<close>)
  then show ?thesis using assms(1) unfolding linked_def simulates_def by (auto simp: tls_joined_def)
qed

lemma link_step_simulates:
  assumes ok: "aead_ok cr" and sim: "simulates cr l budget a" and cost: "written_by op \<le> budget"
    and st: "link_step cr op l = (b, l')"
  shows "\<exists>a'. pipe_step op b a a' \<and> simulates cr l' (budget - written_by op) a'"
proof (cases a)
  case (Pair p q)
  note f = sim [unfolded simulates_def Pair fst_conv snd_conv, THEN conjunct1]
  note g = sim [unfolded simulates_def Pair fst_conv snd_conv, THEN conjunct2]
  show ?thesis
  proof (cases op)
    case (ClientWrite d)
    obtain w wire where w: "write_on cr (tl_client l) (tl_toServer l) d = (w, wire)" by fastforce
    note fw = flows_write [OF f _ w]
    show ?thesis
      using st w cost fw flows_less [OF g, of "length d"]
      by (auto simp: ClientWrite Pair simulates_def intro!: exI pipe_step.intros)
  next
    case (ServerWrite d)
    obtain w wire where w: "write_on cr (tl_server l) (tl_toClient l) d = (w, wire)" by fastforce
    note fw = flows_write [OF g _ w]
    show ?thesis
      using st w cost fw flows_less [OF f, of "length d"]
      by (auto simp: ServerWrite Pair simulates_def intro!: exI pipe_step.intros)
  next
    case (ToServer j)
    obtain r buf wire where r: "arrive_on cr (tl_server l) (tl_serverBuf l) (tl_toServer l) j = (r, buf, wire)" by (rule prod_cases3)
    from flows_arrive [OF ok f r] obtain x y k t where a: "pi_pending p = x @ y"
      "flows cr (tl_client l) r wire buf budget \<lparr>pi_ready = pi_ready p @ x, pi_pending = y\<rparr>"
      "r = tl_server l\<lparr>sm_readKeys := k, sm_plaintext := t\<rparr>" by blast
    then have "pipe_step op b a (\<lparr>pi_ready = pi_ready p @ x, pi_pending = y\<rparr>, q)"
      using pipe_step.intros(3) [OF a(1), of j q] st r by (simp add: ToServer Pair)
    then show ?thesis using st r a g by (auto simp: ToServer simulates_def intro!: exI)
  next
    case (ToClient j)
    obtain r buf wire where r: "arrive_on cr (tl_client l) (tl_clientBuf l) (tl_toClient l) j = (r, buf, wire)" by (rule prod_cases3)
    from flows_arrive [OF ok g r] obtain x y k t where a: "pi_pending q = x @ y"
      "flows cr (tl_server l) r wire buf budget \<lparr>pi_ready = pi_ready q @ x, pi_pending = y\<rparr>"
      "r = tl_client l\<lparr>sm_readKeys := k, sm_plaintext := t\<rparr>" by blast
    then have "pipe_step op b a (p, \<lparr>pi_ready = pi_ready q @ x, pi_pending = y\<rparr>)"
      using pipe_step.intros(4) [OF a(1), of j p] st r by (simp add: ToClient Pair)
    then show ?thesis using st r a f by (auto simp: ToClient simulates_def intro!: exI)
  next
    case ServerRead
    have "pi_ready p = sm_plaintext (tl_server l)" using f unfolding flows_def by fastforce
    then show ?thesis
      using st flows_read [OF f] g pipe_step.intros(5) [of p q]
      by (auto simp: ServerRead ReadPlaintext_def Pair simulates_def intro!: exI)
  next
    case ClientRead
    have "pi_ready q = sm_plaintext (tl_client l)" using g unfolding flows_def by fastforce
    then show ?thesis
      using st flows_read [OF g] f pipe_step.intros(6) [of q p]
      by (auto simp: ClientRead ReadPlaintext_def Pair simulates_def intro!: exI)
  qed
qed

lemma link_run_simulates:
  assumes "aead_ok cr" and "simulates cr l budget a" and "sum_list (map written_by ops) \<le> budget"
    and "link_run cr ops l = (bs, l')"
  shows "\<exists>a'. pipe_run ops bs a a' \<and> simulates cr l' (budget - sum_list (map written_by ops)) a'"
  using assms(2-4)
proof (induction ops arbitrary: l budget a bs)
  case Nil
  then show ?case by (intro exI [of _ a]) (auto intro: pipe_done)
next
  case (Cons op ops)
  obtain b l1 where st: "link_step cr op l = (b, l1)" by fastforce
  obtain cs l2 where r: "link_run cr ops l1 = (cs, l2)" by fastforce
  obtain a1 where a1: "pipe_step op b a a1" "simulates cr l1 (budget - written_by op) a1"
    using link_step_simulates [OF assms(1) Cons.prems(1) _ st] Cons.prems(2) by auto
  have e: "l2 = l'" "bs = b # cs" using Cons.prems(3) st r by simp_all
  have "sum_list (map written_by ops) \<le> budget - written_by op" using Cons.prems(2) by simp
  from Cons.IH [OF a1(2) this r [unfolded e(1)]] obtain a2 where
    "pipe_run ops cs a1 a2" "simulates cr l' (budget - written_by op - sum_list (map written_by ops)) a2" by blast
  then show ?case using pipe_more [OF a1(1)] by (intro exI [of _ a2]) (simp add: e diff_diff_left)
qed

text \<open>C7. An established connection is a pair of byte pipes: whatever the two ends write and read, and
  however the ciphertext is cut on its way, there is a run of two queues with the same
  operations and the same bytes read; when nothing is on its way, everything written can be
  read. The bound keeps the sequence numbers below their limit.\<close>

theorem tls_refines_pipes:
  assumes "aead_ok cr" and "linked cr c s" and "sum_list (map written_by ops) < 2 ^ 64 - 1"
    and "link_run cr ops (tls_joined c s) = (bs, l)"
  shows "\<exists>p q. pipe_run ops bs (empty_pipe, empty_pipe) (p, q)
    \<and> pi_ready p = sm_plaintext (tl_server l) \<and> pi_ready q = sm_plaintext (tl_client l)
    \<and> (tl_toServer l = [] \<and> tl_serverBuf l = [] \<longrightarrow> pi_pending p = [])
    \<and> (tl_toClient l = [] \<and> tl_clientBuf l = [] \<longrightarrow> pi_pending q = [])"
proof -
  obtain p q where r: "pipe_run ops bs (empty_pipe, empty_pipe) (p, q)" "simulates cr l 0 (p, q)"
    using link_run_simulates [OF assms(1) linked_simulates [OF assms(2,3)] order.refl assms(4)] by auto
  then have "pi_ready p = sm_plaintext (tl_server l)" "pi_ready q = sm_plaintext (tl_client l)"
    unfolding simulates_def flows_def by fastforce+
  then show ?thesis using r flows_drained [of cr _ _ "tl_toServer l"] flows_drained [of cr _ _ "tl_toClient l"]
    unfolding simulates_def fst_conv snd_conv by blast
qed

lemma tls_refines_pipes_witness:
  "\<exists>p q. pipe_run [ClientWrite [104], ToServer 50, ServerRead] [[], [], [104]] (empty_pipe, empty_pipe) (p, q)"
proof -
  let ?cr = plain_crypto
  let ?m = "(init_machine ?cr None True [])\<lparr>sm_state := StateEstablished, sm_writeKeys := OwnKeys (prot ?cr [1] 0),
    sm_readKeys := OwnKeys (prot ?cr [1] 0)\<rparr> :: unit state_machine"
  have l: "linked ?cr ?m ?m" by (auto simp: linked_def quiet_def Established_def init_machine_def)
  have e: "fst (link_run ?cr [ClientWrite [104], ToServer 50, ServerRead] (tls_joined ?m ?m)) = [[], [], [104]]"
    by code_simp
  have r: "link_run ?cr [ClientWrite [104], ToServer 50, ServerRead] (tls_joined ?m ?m)
      = ([[], [], [104]], snd (link_run ?cr [ClientWrite [104], ToServer 50, ServerRead] (tls_joined ?m ?m)))"
    by (rule prod_eqI) (simp_all only: e fst_conv snd_conv)
  from tls_refines_pipes [OF plain_crypto_ok(2) l _ r] show ?thesis by auto
qed

end
