(* ===== verification/Ws_Ring.thy ===== *)
theory Ws_Ring
  imports Prelude
begin

text \<open>
  The bounded queue between the event loops and the parsing workers of the WebSocket
  package (\<^verbatim>\<open>websocket/task_ring.go\<close>): a ring of cells that any number of threads push to and
  pop from without a lock. Every atomic load, store and compare-and-swap of \<open>push\<close> and
  \<open>pop\<close> is one step of the thread that makes it, and the threads' steps come in any order.
  What is shown is that the ring is a first-in-first-out queue: it simulates one, step by step.
\<close>

section \<open>The ring\<close>

text \<open>A cell has its sequence number and its task; the zero task is \<open>None\<close>. The \<open>uint64\<close>
  counters are numbers below \<open>2 ^ 64\<close>, with the wrap-around of the sums written out.\<close>

record 'a ring =
  rg_cells :: "(nat \<times> 'a option) list"
  rg_mask :: nat
  rg_limit :: nat
  rg_head :: nat
  rg_tail :: nat

definition uadd :: "nat \<Rightarrow> nat \<Rightarrow> nat" where
  "uadd a b = (a + b) mod 2 ^ 64"

definition usub :: "nat \<Rightarrow> nat \<Rightarrow> nat" where
  "usub a b = (a + 2 ^ 64 - b) mod 2 ^ 64"

text \<open>The size is doubled from 2 until it holds the limit: \<open>size\<close> is \<open>2 ^ k\<close>.\<close>

function doubled :: "nat \<Rightarrow> nat \<Rightarrow> nat" where
  "doubled k limit = (if 2 ^ k < limit then doubled (Suc k) limit else k)"
  by pat_completeness auto
termination
  by (relation "measure (\<lambda>(k, limit). limit - 2 ^ k)") (auto intro: diff_less_mono2)

declare doubled.simps [simp del]

definition newTaskRing :: "nat \<Rightarrow> 'a ring" where
  "newTaskRing limit =
     (let limit = max limit 1; size = 2 ^ doubled 1 limit
      in \<lparr>rg_cells = map (\<lambda>i. (i, None)) [0..<size], rg_mask = size - 1, rg_limit = limit,
          rg_head = 0, rg_tail = 0\<rparr>)"

definition idx :: "'a ring \<Rightarrow> nat \<Rightarrow> nat" where
  "idx r p = p AND rg_mask r"

definition cell_seq :: "'a ring \<Rightarrow> nat \<Rightarrow> nat" where
  "cell_seq r p = fst (rg_cells r ! idx r p)"

definition cell_task :: "'a ring \<Rightarrow> nat \<Rightarrow> 'a option" where
  "cell_task r p = snd (rg_cells r ! idx r p)"

definition set_seq :: "'a ring \<Rightarrow> nat \<Rightarrow> nat \<Rightarrow> 'a ring" where
  "set_seq r p s = r\<lparr>rg_cells := (rg_cells r)[idx r p := (s, cell_task r p)]\<rparr>"

definition set_task :: "'a ring \<Rightarrow> nat \<Rightarrow> 'a option \<Rightarrow> 'a ring" where
  "set_task r p v = r\<lparr>rg_cells := (rg_cells r)[idx r p := (cell_seq r p, v)]\<rparr>"

text \<open>\<open>len\<close>: exact only when nobody moves.\<close>

definition ring_len :: "'a ring \<Rightarrow> nat" where
  "ring_len r = (if rg_head r > rg_tail r then 0 else usub (rg_tail r) (rg_head r))"

section \<open>One thread\<close>

text \<open>Where a thread is inside \<open>push\<close> or \<open>pop\<close>, with the values it has loaded: the
  constructor names what it does next.\<close>

datatype 'a pc =
    Idle
  | PushTail 'a
  | PushHead 'a nat
  | PushSeq 'a nat
  | PushCas 'a nat
  | PushStore 'a nat
  | PushPublish 'a nat
  | PopHead
  | PopSeq nat
  | PopCas nat
  | PopLoad nat
  | PopClear nat "'a option"
  | PopReturn nat "'a option"

text \<open>What can be seen of a thread: the swap that makes its task the last one (\<open>Enq\<close>) or the
  first task its own (\<open>Deq\<close>), and what the calls return.\<close>

datatype 'a ring_event =
    Enq nat 'a
  | Pushed nat
  | Rejected nat
  | Deq nat
  | Got nat "'a option"
  | Empty nat

fun push_step :: "nat \<Rightarrow> 'a ring \<Rightarrow> 'a pc \<Rightarrow> 'a ring \<times> 'a pc \<times> 'a ring_event list" where
  "push_step t r (PushTail a) = (r, PushHead a (rg_tail r), [])"
| "push_step t r (PushHead a tail) =
     (let head = rg_head r in
      if head > tail then (r, PushTail a, [])
      else if usub tail head \<ge> rg_limit r then (r, Idle, [Rejected t])
      else (r, PushSeq a tail, []))"
| "push_step t r (PushSeq a tail) =
     (let seq = cell_seq r tail in
      if seq \<noteq> tail then (if seq < tail then (r, Idle, [Rejected t]) else (r, PushTail a, []))
      else (r, PushCas a tail, []))"
| "push_step t r (PushCas a tail) =
     (if rg_tail r = tail then (r\<lparr>rg_tail := uadd tail 1\<rparr>, PushStore a tail, [Enq t a])
      else (r, PushTail a, []))"
| "push_step t r (PushStore a tail) = (set_task r tail (Some a), PushPublish a tail, [])"
| "push_step t r (PushPublish a tail) = (set_seq r tail (uadd tail 1), Idle, [Pushed t])"
| "push_step t r pc = (r, pc, [])"

fun pop_step :: "nat \<Rightarrow> 'a ring \<Rightarrow> 'a pc \<Rightarrow> 'a ring \<times> 'a pc \<times> 'a ring_event list" where
  "pop_step t r PopHead = (r, PopSeq (rg_head r), [])"
| "pop_step t r (PopSeq head) =
     (let seq = cell_seq r head in
      if seq \<noteq> uadd head 1 then (if seq = head then (r, Idle, [Empty t]) else (r, PopHead, []))
      else (r, PopCas head, []))"
| "pop_step t r (PopCas head) =
     (if rg_head r = head then (r\<lparr>rg_head := uadd head 1\<rparr>, PopLoad head, [Deq t])
      else (r, PopHead, []))"
| "pop_step t r (PopLoad head) = (r, PopClear head (cell_task r head), [])"
| "pop_step t r (PopClear head v) = (set_task r head None, PopReturn head v, [])"
| "pop_step t r (PopReturn head v) = (set_seq r head (uadd (uadd head (rg_mask r)) 1), Idle, [Got t v])"
| "pop_step t r pc = (r, pc, [])"

fun in_push :: "'a pc \<Rightarrow> bool" where
  "in_push (PushTail a) = True"
| "in_push (PushHead a p) = True"
| "in_push (PushSeq a p) = True"
| "in_push (PushCas a p) = True"
| "in_push (PushStore a p) = True"
| "in_push (PushPublish a p) = True"
| "in_push pc = False"

definition thread_step :: "nat \<Rightarrow> 'a ring \<Rightarrow> 'a pc \<Rightarrow> 'a ring \<times> 'a pc \<times> 'a ring_event list" where
  "thread_step t r pc = (if in_push pc then push_step t r pc else pop_step t r pc)"

section \<open>Threads\<close>

text \<open>A schedule: a thread that is idle calls \<open>push\<close> or \<open>pop\<close>, or a thread makes its next
  step. Calls of a thread that is busy do nothing.\<close>

datatype 'a act = CallPush nat 'a | CallPop nat | Step nat

definition do_act :: "'a ring \<times> (nat \<Rightarrow> 'a pc) \<Rightarrow> 'a act \<Rightarrow> ('a ring \<times> (nat \<Rightarrow> 'a pc)) \<times> 'a ring_event list" where
  "do_act s a =
     (case s of (r, pcs) \<Rightarrow>
        (case a of
           CallPush t v \<Rightarrow> ((r, if pcs t = Idle then pcs(t := PushTail v) else pcs), [])
         | CallPop t \<Rightarrow> ((r, if pcs t = Idle then pcs(t := PopHead) else pcs), [])
         | Step t \<Rightarrow> (case thread_step t r (pcs t) of (r', pc, es) \<Rightarrow> ((r', pcs(t := pc)), es))))"

fun run_ring :: "'a ring \<times> (nat \<Rightarrow> 'a pc) \<Rightarrow> 'a act list \<Rightarrow> ('a ring \<times> (nat \<Rightarrow> 'a pc)) \<times> 'a ring_event list" where
  "run_ring s [] = (s, [])"
| "run_ring s (a # as) =
     (case do_act s a of (s', es) \<Rightarrow> (case run_ring s' as of (s'', es') \<Rightarrow> (s'', es @ es')))"

section \<open>The queue it is to be\<close>

text \<open>A first-in-first-out queue of at most \<open>limit\<close> tasks. \<open>owed\<close> is the task a thread took
  out and has not returned yet, \<open>busy\<close> the threads whose task is in the queue and whose
  \<open>push\<close> has not returned. A push is refused only when the queue is full or some pop is
  under way; a pop finds nothing only when the queue is empty or some push is under way.\<close>

record 'a fifo =
  ff_queue :: "'a list"
  ff_owed :: "nat \<Rightarrow> 'a option"
  ff_busy :: "nat set"

definition fifo_init :: "'a fifo" where
  "fifo_init = \<lparr>ff_queue = [], ff_owed = (\<lambda>_. None), ff_busy = {}\<rparr>"

inductive fifo_step :: "nat \<Rightarrow> 'a fifo \<Rightarrow> 'a ring_event \<Rightarrow> 'a fifo \<Rightarrow> bool" for limit where
  fifo_enq: "length (ff_queue f) < limit \<Longrightarrow>
     fifo_step limit f (Enq t a) (f\<lparr>ff_queue := ff_queue f @ [a], ff_busy := insert t (ff_busy f)\<rparr>)"
| fifo_pushed: "t \<in> ff_busy f \<Longrightarrow> fifo_step limit f (Pushed t) (f\<lparr>ff_busy := ff_busy f - {t}\<rparr>)"
| fifo_rejected: "length (ff_queue f) = limit \<or> (\<exists>u. ff_owed f u \<noteq> None) \<Longrightarrow>
     fifo_step limit f (Rejected t) f"
| fifo_deq: "ff_queue f = a # q \<Longrightarrow> ff_owed f t = None \<Longrightarrow>
     fifo_step limit f (Deq t) (f\<lparr>ff_queue := q, ff_owed := (ff_owed f)(t := Some a)\<rparr>)"
| fifo_got: "ff_owed f t = Some a \<Longrightarrow>
     fifo_step limit f (Got t (Some a)) (f\<lparr>ff_owed := (ff_owed f)(t := None)\<rparr>)"
| fifo_empty: "ff_queue f = [] \<or> ff_busy f \<noteq> {} \<Longrightarrow> fifo_step limit f (Empty t) f"

inductive fifo_run :: "nat \<Rightarrow> 'a fifo \<Rightarrow> 'a ring_event list \<Rightarrow> 'a fifo \<Rightarrow> bool" for limit where
  fifo_run_Nil: "fifo_run limit f [] f"
| fifo_run_Cons: "fifo_step limit f e g \<Longrightarrow> fifo_run limit g es h \<Longrightarrow> fifo_run limit f (e # es) h"

lemmas fifo_intros = fifo_enq fifo_pushed fifo_rejected fifo_deq fifo_got fifo_empty

lemma fifo_run_one: "fifo_step limit f e g \<Longrightarrow> fifo_run limit f [e] g"
  by (rule fifo_run_Cons [OF _ fifo_run_Nil])

lemma fifo_run_append: "fifo_run limit f es g \<Longrightarrow> fifo_run limit g es' h \<Longrightarrow> fifo_run limit f (es @ es') h"
  by (induction rule: fifo_run.induct) (auto intro: fifo_run_Cons)


section \<open>The invariant\<close>

text \<open>The position a thread has claimed, by a push or by a pop, and not given back.\<close>

fun pushing :: "'a pc \<Rightarrow> nat option" where
  "pushing (PushStore a p) = Some p"
| "pushing (PushPublish a p) = Some p"
| "pushing pc = None"

fun popping :: "'a pc \<Rightarrow> nat option" where
  "popping (PopLoad p) = Some p"
| "popping (PopClear p v) = Some p"
| "popping (PopReturn p v) = Some p"
| "popping pc = None"

text \<open>What a thread knows at each point; \<open>xs\<close> are the tasks enqueued so far, so that position
  \<open>p\<close> is that of \<open>xs ! p\<close>.\<close>

fun pc_ok :: "nat \<Rightarrow> 'a list \<Rightarrow> 'a ring \<Rightarrow> 'a pc \<Rightarrow> bool" where
  "pc_ok n xs r (PushHead a p) = (p \<le> rg_tail r)"
| "pc_ok n xs r (PushSeq a p) = (p \<le> rg_tail r \<and> p < rg_head r + rg_limit r)"
| "pc_ok n xs r (PushCas a p) = (p \<le> rg_tail r \<and> p < rg_head r + rg_limit r \<and> (p = rg_tail r \<longrightarrow> cell_seq r p = p))"
| "pc_ok n xs r (PushStore a p) = (rg_head r \<le> p \<and> p < rg_tail r \<and> xs ! p = a)"
| "pc_ok n xs r (PushPublish a p) = (rg_head r \<le> p \<and> p < rg_tail r \<and> xs ! p = a \<and> cell_task r p = Some a)"
| "pc_ok n xs r (PopSeq p) = (p \<le> rg_head r)"
| "pc_ok n xs r (PopCas p) = (p \<le> rg_head r \<and> (p = rg_head r \<longrightarrow> p < rg_tail r \<and> cell_seq r p = p + 1))"
| "pc_ok n xs r (PopLoad p) = (p < rg_head r \<and> rg_tail r \<le> p + n \<and> cell_task r p = Some (xs ! p))"
| "pc_ok n xs r (PopClear p v) = (p < rg_head r \<and> rg_tail r \<le> p + n \<and> v = Some (xs ! p))"
| "pc_ok n xs r (PopReturn p v) = (p < rg_head r \<and> rg_tail r \<le> p + n \<and> v = Some (xs ! p))"
| "pc_ok n xs r pc = True"

text \<open>The cells of the positions in the queue: claimed by a push that is still writing, or
  holding the task; and of the positions next in line: held by a pop of the lap before, or
  free.\<close>

definition claimed_ok :: "'a list \<Rightarrow> 'a ring \<Rightarrow> (nat \<Rightarrow> 'a pc) \<Rightarrow> nat \<Rightarrow> bool" where
  "claimed_ok xs r pcs p =
     (if \<exists>t. pushing (pcs t) = Some p then cell_seq r p = p
      else cell_seq r p = p + 1 \<and> cell_task r p = Some (xs ! p))"

definition free_ok :: "nat \<Rightarrow> 'a ring \<Rightarrow> (nat \<Rightarrow> 'a pc) \<Rightarrow> nat \<Rightarrow> bool" where
  "free_ok n r pcs p =
     (if n \<le> p \<and> (\<exists>t. popping (pcs t) = Some (p - n)) then cell_seq r p = p - n + 1 else cell_seq r p = p)"

definition shape :: "nat \<Rightarrow> nat \<Rightarrow> 'a list \<Rightarrow> 'a ring \<Rightarrow> bool" where
  "shape k limit xs r =
     (1 \<le> k \<and> length (rg_cells r) = 2 ^ k \<and> rg_mask r = 2 ^ k - 1 \<and> rg_limit r = limit
      \<and> 1 \<le> limit \<and> limit \<le> 2 ^ k
      \<and> rg_tail r = length xs \<and> rg_head r \<le> rg_tail r \<and> rg_tail r \<le> rg_head r + limit)"

definition ring_inv :: "nat \<Rightarrow> nat \<Rightarrow> 'a list \<Rightarrow> 'a ring \<Rightarrow> (nat \<Rightarrow> 'a pc) \<Rightarrow> bool" where
  "ring_inv k limit xs r pcs =
     (shape k limit xs r
      \<and> (\<forall>p. rg_head r \<le> p \<and> p < rg_tail r \<longrightarrow> claimed_ok xs r pcs p)
      \<and> (\<forall>p. rg_tail r \<le> p \<and> p < rg_head r + 2 ^ k \<longrightarrow> free_ok (2 ^ k) r pcs p)
      \<and> (\<forall>t u p. pushing (pcs t) = Some p \<and> pushing (pcs u) = Some p \<longrightarrow> t = u)
      \<and> (\<forall>t u p. popping (pcs t) = Some p \<and> popping (pcs u) = Some p \<longrightarrow> t = u)
      \<and> (\<forall>t. pc_ok (2 ^ k) xs r (pcs t)))"

section \<open>Cells\<close>

lemma idx_mod: "rg_mask r = 2 ^ k - 1 \<Longrightarrow> idx r p = p mod 2 ^ k"
  by (simp add: idx_def and_exp_eq_0_iff_not_bit take_bit_eq_mod [symmetric] take_bit_eq_mask mask_eq_exp_minus_1)

lemma idx_frame [simp]:
  "idx (set_seq r q s) p = idx r p" "idx (set_task r q v) p = idx r p"
  "idx (r\<lparr>rg_head := h\<rparr>) p = idx r p" "idx (r\<lparr>rg_tail := h\<rparr>) p = idx r p"
  by (simp_all add: idx_def set_seq_def set_task_def)

lemma cell_frame [simp]:
  "cell_seq (r\<lparr>rg_head := h\<rparr>) p = cell_seq r p" "cell_seq (r\<lparr>rg_tail := h\<rparr>) p = cell_seq r p"
  "cell_task (r\<lparr>rg_head := h\<rparr>) p = cell_task r p" "cell_task (r\<lparr>rg_tail := h\<rparr>) p = cell_task r p"
  by (simp_all add: cell_seq_def cell_task_def idx_def)

lemma set_frame [simp]:
  "rg_head (set_seq r p s) = rg_head r" "rg_tail (set_seq r p s) = rg_tail r"
  "rg_mask (set_seq r p s) = rg_mask r" "rg_limit (set_seq r p s) = rg_limit r"
  "length (rg_cells (set_seq r p s)) = length (rg_cells r)"
  "rg_head (set_task r p v) = rg_head r" "rg_tail (set_task r p v) = rg_tail r"
  "rg_mask (set_task r p v) = rg_mask r" "rg_limit (set_task r p v) = rg_limit r"
  "length (rg_cells (set_task r p v)) = length (rg_cells r)"
  by (simp_all add: set_seq_def set_task_def)

lemma idx_lt: "shape k limit xs r \<Longrightarrow> idx r p < length (rg_cells r)"
  by (simp add: shape_def idx_mod)

text \<open>Reading back what was stored, at the same position of the ring or another one.\<close>

lemma cell_set:
  assumes "shape k limit xs r"
  shows "cell_seq (set_seq r q s) p = (if idx r p = idx r q then s else cell_seq r p)"
    and "cell_task (set_seq r q s) p = cell_task r p"
    and "cell_seq (set_task r q v) p = cell_seq r p"
    and "cell_task (set_task r q v) p = (if idx r p = idx r q then v else cell_task r p)"
  using idx_lt [OF assms, of q] idx_lt [OF assms, of p]
  by (auto simp: cell_seq_def cell_task_def set_seq_def set_task_def idx_def nth_list_update)

text \<open>A cell serves one position at a time.\<close>

lemma mod_close:
  fixes p q n :: nat
  assumes "p mod n = q mod n" and "p < q + n" and "q < p + n"
  shows "p = q"
proof (cases "p \<le> q")
  case True
  with assms(1) obtain s where "q = p + n * s" using mod_eq_nat1E [of q n p] by metis
  with assms(3) show ?thesis by (cases s) auto
next
  case False
  with assms(1) obtain s where "p = q + n * s" using mod_eq_nat1E [of p n q] by (metis nat_le_linear)
  with assms(2) show ?thesis by (cases s) auto
qed

lemma idx_close:
  assumes "shape k limit xs r" and "p < q + 2 ^ k" and "q < p + 2 ^ k"
  shows "idx r p = idx r q \<longleftrightarrow> p = q"
  using assms mod_close [of p "2 ^ k" q] by (auto simp: shape_def idx_mod)

lemma idx_lap: "shape k limit xs r \<Longrightarrow> idx r (p + 2 ^ k) = idx r p"
  by (simp add: shape_def idx_mod)

lemma cell_same: "idx r p = idx r q \<Longrightarrow> cell_seq r p = cell_seq r q \<and> cell_task r p = cell_task r q"
  by (simp add: cell_seq_def cell_task_def)

text \<open>The sequence number of a position behind the head is ahead of it.\<close>

lemma window_rep:
  fixes p h n :: nat
  assumes "p < h" and "0 < n"
  shows "\<exists>q. q mod n = p mod n \<and> h \<le> q \<and> q < h + n \<and> p + n \<le> q"
proof -
  have *: "\<exists>q. q mod n = p mod n \<and> h \<le> q \<and> q < h + n"
  proof (intro exI conjI)
    let ?q = "h + (p + n * h - h) mod n"
    have "h \<le> p + n * h" using assms(2) by (cases n) auto
    then have "(h + (p + n * h - h)) mod n = p mod n" by simp
    then show "?q mod n = p mod n" by (simp add: mod_add_right_eq)
    show "?q < h + n" using assms(2) by simp
  qed simp
  then obtain q where q: "q mod n = p mod n" "h \<le> q" "q < h + n" by blast
  moreover have "p + n \<le> q"
  proof (rule ccontr)
    assume "\<not> p + n \<le> q"
    then have "q = p" using mod_close [of q n p] q assms(1) by auto
    with q assms(1) show False by simp
  qed
  ultimately show ?thesis by blast
qed

lemma seq_behind:
  assumes "ring_inv k limit xs r pcs" and "p < rg_head r"
  shows "p < cell_seq r p"
proof -
  have s: "shape k limit xs r" using assms(1) by (simp add: ring_inv_def)
  obtain q where q: "q mod 2 ^ k = p mod 2 ^ k" "rg_head r \<le> q" "q < rg_head r + 2 ^ k" "p + 2 ^ k \<le> q"
    using window_rep [OF assms(2), of "2 ^ k"] by auto
  then have e: "cell_seq r p = cell_seq r q" using s cell_same [of r p q] by (simp add: shape_def idx_mod)
  have lt: "p < q" by (rule less_le_trans [OF _ q(4)]) simp
  show ?thesis
  proof (cases "q < rg_tail r")
    case True
    then have "claimed_ok xs r pcs q" using assms(1) q by (simp add: ring_inv_def)
    then show ?thesis using e lt by (auto simp: claimed_ok_def split: if_splits)
  next
    case False
    then have "free_ok (2 ^ k) r pcs q" using assms(1) q by (simp add: ring_inv_def)
    then show ?thesis using e lt q(4) by (auto simp: free_ok_def split: if_splits)
  qed
qed


section \<open>It is a queue\<close>

text \<open>The queue a ring stands for.\<close>

definition fifo_of :: "'a list \<Rightarrow> 'a ring \<Rightarrow> (nat \<Rightarrow> 'a pc) \<Rightarrow> 'a fifo" where
  "fifo_of xs r pcs =
     \<lparr>ff_queue = drop (rg_head r) xs,
      ff_owed = (\<lambda>t. map_option (\<lambda>p. xs ! p) (popping (pcs t))),
      ff_busy = {t. pushing (pcs t) \<noteq> None}\<rparr>"

fun enqueued :: "'a ring_event list \<Rightarrow> 'a list" where
  "enqueued [] = []"
| "enqueued (Enq t a # es) = a # enqueued es"
| "enqueued (e # es) = enqueued es"

lemma enqueued_append: "enqueued (es @ es') = enqueued es @ enqueued es'"
  by (induction es rule: enqueued.induct) simp_all

definition simulates ::
  "nat \<Rightarrow> nat \<Rightarrow> 'a list \<Rightarrow> 'a ring \<Rightarrow> (nat \<Rightarrow> 'a pc) \<Rightarrow> 'a ring \<Rightarrow> (nat \<Rightarrow> 'a pc) \<Rightarrow> 'a ring_event list \<Rightarrow> bool" where
  "simulates k limit xs r pcs r' pcs' es =
     (ring_inv k limit (xs @ enqueued es) r' pcs'
      \<and> fifo_run limit (fifo_of xs r pcs) es (fifo_of (xs @ enqueued es) r' pcs'))"

text \<open>A step of one thread that only looks: nothing claimed, nothing given back.\<close>

lemma looks:
  assumes inv: "ring_inv k limit xs r pcs" and ok: "pc_ok (2 ^ k) xs r pc"
    and old: "pushing (pcs t) = None" "popping (pcs t) = None" and new: "pushing pc = None" "popping pc = None"
  shows "ring_inv k limit xs r (pcs(t := pc)) \<and> fifo_of xs r (pcs(t := pc)) = fifo_of xs r pcs"
proof -
  have e: "pushing ((pcs(t := pc)) u) = pushing (pcs u)" "popping ((pcs(t := pc)) u) = popping (pcs u)" for u
    using old new by simp_all
  then show ?thesis using inv ok
    by (auto simp: ring_inv_def claimed_ok_def free_ok_def fifo_of_def fun_upd_def simp del: fun_upd_apply)
qed

lemma looks_silent:
  assumes "ring_inv k limit xs r pcs" and "pc_ok (2 ^ k) xs r pc"
    and "pushing (pcs t) = None" "popping (pcs t) = None" and "pushing pc = None" "popping pc = None"
  shows "simulates k limit xs r pcs r (pcs(t := pc)) []"
  using looks [OF assms] by (simp add: simulates_def fifo_run_Nil)

lemma looks_event:
  assumes "ring_inv k limit xs r pcs"
    and "pushing (pcs t) = None" "popping (pcs t) = None"
    and "fifo_step limit (fifo_of xs r pcs) e (fifo_of xs r pcs)" and "enqueued [e] = []"
  shows "simulates k limit xs r pcs r (pcs(t := Idle)) [e]"
  using looks [OF assms(1), of Idle t] assms(2-) by (simp add: simulates_def fifo_run_one)

text \<open>The four swaps and stores of a push, and of a pop.\<close>

lemma inv_shape: "ring_inv k limit xs r pcs \<Longrightarrow> shape k limit xs r"
  by (simp add: ring_inv_def)

lemma inv_pc: "ring_inv k limit xs r pcs \<Longrightarrow> pc_ok (2 ^ k) xs r (pcs t)"
  by (simp add: ring_inv_def)

lemma inv_claimed: "ring_inv k limit xs r pcs \<Longrightarrow> rg_head r \<le> p \<Longrightarrow> p < rg_tail r \<Longrightarrow> claimed_ok xs r pcs p"
  by (simp add: ring_inv_def)

lemma inv_free: "ring_inv k limit xs r pcs \<Longrightarrow> rg_tail r \<le> p \<Longrightarrow> p < rg_head r + 2 ^ k \<Longrightarrow> free_ok (2 ^ k) r pcs p"
  by (simp add: ring_inv_def)

lemma pushing_pc: "pushing pc = Some p \<Longrightarrow> pc_ok n xs r pc \<Longrightarrow> rg_head r \<le> p \<and> p < rg_tail r"
  by (cases pc) auto

lemma popping_pc: "popping pc = Some p \<Longrightarrow> pc_ok n xs r pc \<Longrightarrow> p < rg_head r \<and> rg_tail r \<le> p + n"
  by (cases pc) auto

lemma two_cells: "shape k limit xs r \<Longrightarrow> (2 :: nat) \<le> 2 ^ k"
  using power_increasing [of 1 k "2 :: nat"] by (simp add: shape_def)

text \<open>A push cannot catch up with a pop of the lap before that is still in its cell.\<close>

lemma popping_not_tail:
  assumes inv: "ring_inv k limit xs r pcs" and free: "cell_seq r (rg_tail r) = rg_tail r"
    and room: "rg_tail r < rg_head r + limit" and p: "popping (pcs u) = Some p"
  shows "rg_tail r < p + 2 ^ k"
proof -
  note s = inv_shape [OF inv] and pc = popping_pc [OF p inv_pc [OF inv]]
  have "rg_tail r \<noteq> p + 2 ^ k"
  proof
    assume t: "rg_tail r = p + 2 ^ k"
    have "free_ok (2 ^ k) r pcs (rg_tail r)"
      by (rule inv_free [OF inv]) (use s room in \<open>auto simp: shape_def\<close>)
    moreover have "\<exists>u. popping (pcs u) = Some (rg_tail r - 2 ^ k)" using t p by auto
    ultimately have "cell_seq r (rg_tail r) = p + 1" using t by (simp add: free_ok_def)
    with free t two_cells [OF s] show False by simp
  qed
  with pc show ?thesis by simp
qed

lemma pc_ok_tail:
  assumes "pc_ok n xs r pc" and "rg_tail r = length xs" "rg_head r \<le> rg_tail r"
    and "\<And>p. popping pc = Some p \<Longrightarrow> rg_tail r < p + n"
  shows "pc_ok n (xs @ [a]) (r\<lparr>rg_tail := Suc (rg_tail r)\<rparr>) pc"
  using assms by (cases pc) (auto simp: nth_append)

lemma push_cas_step:
  assumes inv: "ring_inv k limit xs r pcs" and pc: "pcs t = PushCas a (rg_tail r)"
  shows "simulates k limit xs r pcs (r\<lparr>rg_tail := Suc (rg_tail r)\<rparr>) (pcs(t := PushStore a (rg_tail r))) [Enq t a]"
proof -
  let ?r = "r\<lparr>rg_tail := Suc (rg_tail r)\<rparr>" and ?pcs = "pcs(t := PushStore a (rg_tail r))" and ?xs = "xs @ [a]"
  note s = inv_shape [OF inv]
  have ok: "rg_tail r < rg_head r + limit" "cell_seq r (rg_tail r) = rg_tail r" and len: "rg_tail r = length xs"
      and le: "rg_head r \<le> rg_tail r"
    using inv_pc [OF inv, of t] pc s by (auto simp: shape_def)
  have push: "pushing (?pcs u) = (if u = t then Some (rg_tail r) else pushing (pcs u))"
    and pop: "popping (?pcs u) = popping (pcs u)" for u using pc by auto
  have no: "pushing (pcs u) \<noteq> Some (rg_tail r)" for u using pushing_pc [OF _ inv_pc [OF inv]] by blast
  have "shape k limit ?xs ?r" using s ok by (auto simp: shape_def)
  moreover have "claimed_ok ?xs ?r ?pcs p" if "rg_head r \<le> p" "p < Suc (rg_tail r)" for p
  proof (cases "p = rg_tail r")
    case True
    then show ?thesis using ok push by (auto simp: claimed_ok_def simp del: fun_upd_apply)
  next
    case False
    then have "(pushing (?pcs u) = Some p) = (pushing (pcs u) = Some p)" for u
      using push [of u] pc by (cases "u = t") auto
    then show ?thesis using inv_claimed [OF inv that(1)] that False len
      by (simp add: claimed_ok_def nth_append del: fun_upd_apply)
  qed
  moreover have "free_ok (2 ^ k) ?r ?pcs p" if "Suc (rg_tail r) \<le> p" "p < rg_head r + 2 ^ k" for p
    using inv_free [OF inv, of p] that by (simp add: free_ok_def pop del: fun_upd_apply)
  moreover have "pc_ok (2 ^ k) ?xs ?r (?pcs u)" for u
  proof (cases "u = t")
    case True
    then show ?thesis using s len by (auto simp: shape_def nth_append)
  next
    case False
    then show ?thesis
      using pc_ok_tail [OF inv_pc [OF inv] len le popping_not_tail [OF inv ok(2,1)]] by simp
  qed
  moreover have "u = v" if "pushing (?pcs u) = Some p" "pushing (?pcs v) = Some p" for u v p
    using that push no inv by (auto simp: ring_inv_def split: if_splits)
  ultimately have "ring_inv k limit ?xs ?r ?pcs" using inv pop by (simp add: ring_inv_def del: fun_upd_apply)
  moreover have "fifo_step limit (fifo_of xs r pcs) (Enq t a) (fifo_of ?xs ?r ?pcs)"
  proof -
    have o: "(\<lambda>u. map_option (\<lambda>p. ?xs ! p) (popping (?pcs u))) = (\<lambda>u. map_option (\<lambda>p. xs ! p) (popping (pcs u)))"
    proof
      fix u
      show "map_option (\<lambda>p. ?xs ! p) (popping (?pcs u)) = map_option (\<lambda>p. xs ! p) (popping (pcs u))"
        using popping_pc [OF _ inv_pc [OF inv], of u] s unfolding pop
        by (cases "popping (pcs u)") (auto simp: shape_def nth_append)
    qed
    have b: "{u. pushing (?pcs u) \<noteq> None} = insert t {u. pushing (pcs u) \<noteq> None}" using push by auto
    have "fifo_of ?xs ?r ?pcs = (fifo_of xs r pcs)
        \<lparr>ff_queue := ff_queue (fifo_of xs r pcs) @ [a], ff_busy := insert t (ff_busy (fifo_of xs r pcs))\<rparr>"
      unfolding fifo_of_def o b using le len by simp
    moreover have "length xs - rg_head r < limit" using ok len le by linarith
    then have "length (ff_queue (fifo_of xs r pcs)) < limit" by (simp add: fifo_of_def)
    ultimately show ?thesis by (metis fifo_enq)
  qed
  ultimately show ?thesis by (simp add: simulates_def fifo_run_one del: fun_upd_apply)
qed


lemma push_store_step:
  assumes inv: "ring_inv k limit xs r pcs" and pc: "pcs t = PushStore a p"
  shows "simulates k limit xs r pcs (set_task r p (Some a)) (pcs(t := PushPublish a p)) []"
proof -
  let ?r = "set_task r p (Some a)" and ?pcs = "pcs(t := PushPublish a p)"
  note s = inv_shape [OF inv] and set = cell_set [OF inv_shape [OF inv]]
  have ok: "rg_head r \<le> p" "p < rg_tail r" "xs ! p = a" using inv_pc [OF inv, of t] pc by auto
  have win: "p < rg_head r + 2 ^ k" using ok s by (auto simp: shape_def)
  have push: "pushing (?pcs u) = pushing (pcs u)" and pop: "popping (?pcs u) = popping (pcs u)" for u
    using pc by auto
  have other: "cell_task ?r q = cell_task r q" if "q \<noteq> p" "q < p + 2 ^ k" "p < q + 2 ^ k" for q
    using idx_close [OF s that(2,3)] that(1) by (simp add: set)
  have "shape k limit xs ?r" using s by (simp add: shape_def)
  moreover have "claimed_ok xs ?r ?pcs q" if "rg_head r \<le> q" "q < rg_tail r" for q
  proof (cases "q = p")
    case True
    then have "\<exists>u. pushing (?pcs u) = Some q" using push [of t] pc by auto
    then show ?thesis using inv_claimed [OF inv that] by (simp add: claimed_ok_def push set del: fun_upd_apply)
  next
    case False
    then show ?thesis using inv_claimed [OF inv that] other [of q] that ok win s
      by (simp add: claimed_ok_def push set shape_def del: fun_upd_apply)
  qed
  moreover have "free_ok (2 ^ k) ?r ?pcs q" if "rg_tail r \<le> q" "q < rg_head r + 2 ^ k" for q
    using inv_free [OF inv that] by (simp add: free_ok_def pop set del: fun_upd_apply)
  moreover have "pc_ok (2 ^ k) xs ?r (?pcs u)" for u
  proof (cases "u = t")
    case True
    then show ?thesis using ok by (simp add: set)
  next
    case False
    then have "pc_ok (2 ^ k) xs r (pcs u)" "pushing (pcs u) \<noteq> Some p"
      using inv pc by (auto simp: ring_inv_def)
    then show ?thesis using False ok win other s by (cases "pcs u") (auto simp: set shape_def)
  qed
  ultimately have "ring_inv k limit xs ?r ?pcs" using inv by (simp add: ring_inv_def push pop del: fun_upd_apply)
  moreover have "fifo_of xs ?r ?pcs = fifo_of xs r pcs" by (simp add: fifo_of_def push pop del: fun_upd_apply)
  ultimately show ?thesis by (simp add: simulates_def fifo_run_Nil del: fun_upd_apply)
qed

lemma push_publish_step:
  assumes inv: "ring_inv k limit xs r pcs" and pc: "pcs t = PushPublish a p"
  shows "simulates k limit xs r pcs (set_seq r p (Suc p)) (pcs(t := Idle)) [Pushed t]"
proof -
  let ?r = "set_seq r p (Suc p)" and ?pcs = "pcs(t := Idle)"
  note s = inv_shape [OF inv] and set = cell_set [OF inv_shape [OF inv]]
  have ok: "rg_head r \<le> p" "p < rg_tail r" "xs ! p = a" "cell_task r p = Some a" using inv_pc [OF inv, of t] pc by auto
  have win: "p < rg_head r + 2 ^ k" using ok s by (auto simp: shape_def)
  have push: "pushing (?pcs u) = (if u = t then None else pushing (pcs u))"
    and pop: "popping (?pcs u) = popping (pcs u)" for u using pc by auto
  have only: "u = t" if "pushing (pcs u) = Some p" for u using that pc inv by (auto simp: ring_inv_def)
  have other: "cell_seq ?r q = cell_seq r q" if "q \<noteq> p" "q < p + 2 ^ k" "p < q + 2 ^ k" for q
    using idx_close [OF s that(2,3)] that(1) by (simp add: set)
  have "shape k limit xs ?r" using s by (simp add: shape_def)
  moreover have "claimed_ok xs ?r ?pcs q" if "rg_head r \<le> q" "q < rg_tail r" for q
  proof (cases "q = p")
    case True
    then show ?thesis using only ok by (auto simp: claimed_ok_def push set simp del: fun_upd_apply)
  next
    case False
    then have "(pushing (?pcs u) = Some q) = (pushing (pcs u) = Some q)" for u
      using push [of u] pc by (cases "u = t") auto
    then show ?thesis using inv_claimed [OF inv that] other [of q] False that ok win s
      by (simp add: claimed_ok_def set shape_def)
  qed
  moreover have "free_ok (2 ^ k) ?r ?pcs q" if "rg_tail r \<le> q" "q < rg_head r + 2 ^ k" for q
    using inv_free [OF inv that] other [of q] that ok by (simp add: free_ok_def pop del: fun_upd_apply)
  moreover have "pc_ok (2 ^ k) xs ?r (?pcs u)" for u
  proof (cases "u = t")
    case False
    then have "pc_ok (2 ^ k) xs r (pcs u)" "pushing (pcs u) \<noteq> Some p" using only inv by (auto simp: ring_inv_def)
    moreover have "idx r (rg_head r) = idx r p \<longleftrightarrow> rg_head r = p"
      using idx_close [OF s, of "rg_head r" p] ok win by simp
    moreover have "idx r (rg_tail r) \<noteq> idx r p" if "rg_tail r < rg_head r + limit"
      using idx_close [OF s, of "rg_tail r" p] ok that s by (auto simp: shape_def)
    moreover have "cell_seq r (rg_head r) \<noteq> Suc (rg_head r)" if "rg_head r = p"
    proof -
      have "claimed_ok xs r pcs p" by (rule inv_claimed [OF inv ok(1,2)])
      moreover have "pushing (pcs t) = Some p" using pc by simp
      ultimately show ?thesis using that by (auto simp: claimed_ok_def split: if_splits)
    qed
    ultimately show ?thesis using False ok win s by (cases "pcs u") (auto simp: set shape_def)
  qed simp
  moreover have "u = v" if "pushing (?pcs u) = Some q" "pushing (?pcs v) = Some q" for u v q
    using that push inv by (auto simp: ring_inv_def split: if_splits)
  ultimately have "ring_inv k limit xs ?r ?pcs" using inv pop by (simp add: ring_inv_def del: fun_upd_apply)
  moreover have "fifo_step limit (fifo_of xs r pcs) (Pushed t) (fifo_of xs ?r ?pcs)"
  proof -
    have b: "{u. pushing (?pcs u) \<noteq> None} = {u. pushing (pcs u) \<noteq> None} - {t}" using push by auto
    have "fifo_of xs ?r ?pcs = (fifo_of xs r pcs)\<lparr>ff_busy := ff_busy (fifo_of xs r pcs) - {t}\<rparr>"
      unfolding fifo_of_def b pop by simp
    moreover have "t \<in> ff_busy (fifo_of xs r pcs)" using pc by (simp add: fifo_of_def)
    ultimately show ?thesis by (metis fifo_pushed)
  qed
  ultimately show ?thesis by (simp add: simulates_def fifo_run_one)
qed


lemma pop_cas_step:
  assumes inv: "ring_inv k limit xs r pcs" and pc: "pcs t = PopCas (rg_head r)"
  shows "simulates k limit xs r pcs (r\<lparr>rg_head := Suc (rg_head r)\<rparr>) (pcs(t := PopLoad (rg_head r))) [Deq t]"
proof -
  let ?h = "rg_head r"
  let ?r = "r\<lparr>rg_head := Suc ?h\<rparr>" and ?pcs = "pcs(t := PopLoad ?h)"
  note s = inv_shape [OF inv]
  have ok: "?h < rg_tail r" "cell_seq r ?h = Suc ?h" and len: "rg_tail r = length xs"
    using inv_pc [OF inv, of t] pc s by (auto simp: shape_def)
  have push: "pushing (?pcs u) = pushing (pcs u)"
    and pop: "popping (?pcs u) = (if u = t then Some ?h else popping (pcs u))" for u using pc by auto
  have head: "claimed_ok xs r pcs ?h" by (rule inv_claimed [OF inv]) (use ok in simp_all)
  then have no: "pushing (pcs u) \<noteq> Some ?h" and task: "cell_task r ?h = Some (xs ! ?h)" for u
    using ok by (auto simp: claimed_ok_def split: if_splits)
  have nopop: "popping (pcs u) \<noteq> Some ?h" for u using popping_pc [OF _ inv_pc [OF inv]] by blast
  have "shape k limit xs ?r" using s ok by (auto simp: shape_def)
  moreover have "claimed_ok xs ?r ?pcs q" if "Suc ?h \<le> q" "q < rg_tail r" for q
    using inv_claimed [OF inv _ that(2)] that(1) by (simp add: claimed_ok_def push del: fun_upd_apply)
  moreover have "free_ok (2 ^ k) ?r ?pcs q" if "rg_tail r \<le> q" "q < Suc ?h + 2 ^ k" for q
  proof (cases "q = ?h + 2 ^ k")
    case True
    then have "cell_seq r q = Suc ?h" using cell_same [OF idx_lap [OF s, of ?h]] ok by simp
    then show ?thesis using True pop by (auto simp: free_ok_def simp del: fun_upd_apply)
  next
    case False
    then have "(popping (?pcs u) = Some (q - 2 ^ k)) = (popping (pcs u) = Some (q - 2 ^ k))" if "2 ^ k \<le> q" for u
      using pop [of u] pc that by (cases "u = t") auto
    then show ?thesis using inv_free [OF inv that(1)] that(2) False
      by (cases "2 ^ k \<le> q") (simp_all add: free_ok_def del: fun_upd_apply)
  qed
  moreover have "pc_ok (2 ^ k) xs ?r (?pcs u)" for u
  proof (cases "u = t")
    case True
    then show ?thesis using task s by (auto simp: shape_def)
  next
    case False
    then show ?thesis using inv_pc [OF inv, of u] no [of u] by (cases "pcs u") auto
  qed
  moreover have "u = v" if "popping (?pcs u) = Some q" "popping (?pcs v) = Some q" for u v q
    using that pop nopop inv by (auto simp: ring_inv_def split: if_splits)
  ultimately have "ring_inv k limit xs ?r ?pcs" using inv push by (simp add: ring_inv_def del: fun_upd_apply)
  moreover have "fifo_step limit (fifo_of xs r pcs) (Deq t) (fifo_of xs ?r ?pcs)"
  proof -
    let ?f = "fifo_of xs r pcs"
    have "(\<lambda>u. map_option ((!) xs) (popping (?pcs u))) = (\<lambda>u. map_option ((!) xs) (popping (pcs u)))(t := Some (xs ! ?h))"
      using pop by auto
    then have "fifo_of xs ?r ?pcs = ?f\<lparr>ff_queue := drop (Suc ?h) xs, ff_owed := (ff_owed ?f)(t := Some (xs ! ?h))\<rparr>"
      unfolding fifo_of_def push by simp
    moreover have "ff_queue ?f = xs ! ?h # drop (Suc ?h) xs" using ok len by (simp add: fifo_of_def Cons_nth_drop_Suc)
    moreover have "ff_owed ?f t = None" using pc by (simp add: fifo_of_def)
    ultimately show ?thesis by (metis fifo_deq)
  qed
  ultimately show ?thesis by (simp add: simulates_def fifo_run_one)
qed


lemma pop_load_step:
  assumes inv: "ring_inv k limit xs r pcs" and pc: "pcs t = PopLoad p"
  shows "simulates k limit xs r pcs r (pcs(t := PopClear p (cell_task r p))) []"
proof -
  let ?pcs = "pcs(t := PopClear p (cell_task r p))"
  have push: "pushing (?pcs u) = pushing (pcs u)" and pop: "popping (?pcs u) = popping (pcs u)" for u
    using pc by auto
  have "pc_ok (2 ^ k) xs r (?pcs u)" for u using inv_pc [OF inv, of u] inv_pc [OF inv, of t] pc by auto
  then have "ring_inv k limit xs r ?pcs"
    using inv by (simp add: ring_inv_def claimed_ok_def free_ok_def push pop del: fun_upd_apply)
  moreover have "fifo_of xs r ?pcs = fifo_of xs r pcs" by (simp add: fifo_of_def push pop del: fun_upd_apply)
  ultimately show ?thesis by (simp add: simulates_def fifo_run_Nil del: fun_upd_apply)
qed

text \<open>The cell a pop still holds is the cell of no other thread and of no task in the queue.\<close>

lemma popped_cell:
  assumes inv: "ring_inv k limit xs r pcs" and p: "popping (pcs t) = Some p"
  shows "rg_head r \<le> q \<Longrightarrow> q < rg_tail r \<Longrightarrow> idx r q \<noteq> idx r p"
    and "rg_tail r \<le> q \<Longrightarrow> q < rg_head r + 2 ^ k \<Longrightarrow> idx r q = idx r p \<longleftrightarrow> q = p + 2 ^ k"
    and "popping (pcs u) = Some q \<Longrightarrow> u \<noteq> t \<Longrightarrow> idx r q \<noteq> idx r p"
    and "cell_seq r p = Suc p"
proof -
  note s = inv_shape [OF inv] and pc = popping_pc [OF p inv_pc [OF inv]]
  have le: "limit \<le> 2 ^ k" "rg_tail r \<le> rg_head r + limit" "rg_head r \<le> rg_tail r" using s by (simp_all add: shape_def)
  show "idx r q \<noteq> idx r p" if "rg_head r \<le> q" "q < rg_tail r"
    using idx_close [OF s, of q p] that pc by auto
  show *: "idx r q = idx r p \<longleftrightarrow> q = p + 2 ^ k" if "rg_tail r \<le> q" "q < rg_head r + 2 ^ k" for q
    using idx_close [OF s, of q "p + 2 ^ k"] idx_lap [OF s, of p] that pc le by auto
  show "idx r q \<noteq> idx r p" if "popping (pcs u) = Some q" "u \<noteq> t"
  proof -
    have "q \<noteq> p" using that p inv by (auto simp: ring_inv_def)
    then show ?thesis using idx_close [OF s, of q p] popping_pc [OF that(1) inv_pc [OF inv]] pc le by auto
  qed
  have "free_ok (2 ^ k) r pcs (p + 2 ^ k)" by (rule inv_free [OF inv]) (use pc in auto)
  moreover have "\<exists>u. popping (pcs u) = Some (p + 2 ^ k - 2 ^ k)" using p by auto
  ultimately have "cell_seq r (p + 2 ^ k) = Suc p" by (simp add: free_ok_def)
  then show "cell_seq r p = Suc p" using cell_same [OF idx_lap [OF s, of p]] by simp
qed

lemma pop_clear_step:
  assumes inv: "ring_inv k limit xs r pcs" and pc: "pcs t = PopClear p v"
  shows "simulates k limit xs r pcs (set_task r p None) (pcs(t := PopReturn p v)) []"
proof -
  let ?r = "set_task r p None" and ?pcs = "pcs(t := PopReturn p v)"
  note s = inv_shape [OF inv] and set = cell_set [OF inv_shape [OF inv]]
  have p: "popping (pcs t) = Some p" using pc by simp
  note cell = popped_cell [OF inv p]
  have push: "pushing (?pcs u) = pushing (pcs u)" and pop: "popping (?pcs u) = popping (pcs u)" for u
    using pc by auto
  have "shape k limit xs ?r" using s by (simp add: shape_def)
  moreover have "claimed_ok xs ?r ?pcs q" if "rg_head r \<le> q" "q < rg_tail r" for q
    using inv_claimed [OF inv that] cell(1) [OF that] by (simp add: claimed_ok_def push set del: fun_upd_apply)
  moreover have "free_ok (2 ^ k) ?r ?pcs q" if "rg_tail r \<le> q" "q < rg_head r + 2 ^ k" for q
    using inv_free [OF inv that] by (simp add: free_ok_def pop set del: fun_upd_apply)
  moreover have "pc_ok (2 ^ k) xs ?r (?pcs u)" for u
  proof (cases "u = t")
    case True
    then show ?thesis using inv_pc [OF inv, of t] pc by simp
  next
    case False
    then show ?thesis using inv_pc [OF inv, of u] cell(1) cell(3) [of u]
      by (cases "pcs u") (auto simp: set)
  qed
  ultimately have "ring_inv k limit xs ?r ?pcs" using inv by (simp add: ring_inv_def push pop del: fun_upd_apply)
  moreover have "fifo_of xs ?r ?pcs = fifo_of xs r pcs" by (simp add: fifo_of_def push pop del: fun_upd_apply)
  ultimately show ?thesis by (simp add: simulates_def fifo_run_Nil del: fun_upd_apply)
qed

lemma pop_return_step:
  assumes inv: "ring_inv k limit xs r pcs" and pc: "pcs t = PopReturn p v"
  shows "simulates k limit xs r pcs (set_seq r p (p + 2 ^ k)) (pcs(t := Idle)) [Got t v]"
proof -
  let ?r = "set_seq r p (p + 2 ^ k)" and ?pcs = "pcs(t := Idle)"
  note s = inv_shape [OF inv] and set = cell_set [OF inv_shape [OF inv]]
  have p: "popping (pcs t) = Some p" using pc by simp
  note cell = popped_cell [OF inv p] and pk = popping_pc [OF p inv_pc [OF inv]]
  have push: "pushing (?pcs u) = pushing (pcs u)"
    and pop: "popping (?pcs u) = (if u = t then None else popping (pcs u))" for u using pc by auto
  have only: "u = t" if "popping (pcs u) = Some p" for u using that p inv by (auto simp: ring_inv_def)
  have "shape k limit xs ?r" using s by (simp add: shape_def)
  moreover have "claimed_ok xs ?r ?pcs q" if "rg_head r \<le> q" "q < rg_tail r" for q
    using inv_claimed [OF inv that] cell(1) [OF that] by (simp add: claimed_ok_def push set del: fun_upd_apply)
  moreover have "free_ok (2 ^ k) ?r ?pcs q" if q: "rg_tail r \<le> q" "q < rg_head r + 2 ^ k" for q
  proof (cases "q = p + 2 ^ k")
    case True
    then show ?thesis using only cell(2) [OF q] pop by (auto simp: free_ok_def set simp del: fun_upd_apply)
  next
    case False
    then have "(popping (?pcs u) = Some (q - 2 ^ k)) = (popping (pcs u) = Some (q - 2 ^ k))" if "2 ^ k \<le> q" for u
      using pop [of u] p that by (cases "u = t") auto
    then show ?thesis using inv_free [OF inv q] cell(2) [OF q] False
      by (cases "2 ^ k \<le> q") (simp_all add: free_ok_def set del: fun_upd_apply)
  qed
  moreover have "pc_ok (2 ^ k) xs ?r (?pcs u)" for u
  proof (cases "u = t")
    case False
    have "limit \<le> 2 ^ k" using s by (simp add: shape_def)
    then show ?thesis using inv_pc [OF inv, of u] False cell(1,2) s
      by (cases "pcs u") (auto simp: set shape_def)
  qed simp
  moreover have "u = w" if "popping (?pcs u) = Some q" "popping (?pcs w) = Some q" for u w q
    using that pop inv by (auto simp: ring_inv_def split: if_splits)
  ultimately have "ring_inv k limit xs ?r ?pcs" using inv push by (simp add: ring_inv_def del: fun_upd_apply)
  moreover have "fifo_step limit (fifo_of xs r pcs) (Got t v) (fifo_of xs ?r ?pcs)"
  proof -
    let ?f = "fifo_of xs r pcs"
    have "(\<lambda>u. map_option ((!) xs) (popping (?pcs u))) = (\<lambda>u. map_option ((!) xs) (popping (pcs u)))(t := None)"
      using pop by auto
    then have "fifo_of xs ?r ?pcs = ?f\<lparr>ff_owed := (ff_owed ?f)(t := None)\<rparr>" unfolding fifo_of_def push by simp
    moreover have "ff_owed ?f t = Some (xs ! p)" "v = Some (xs ! p)"
      using p pc inv_pc [OF inv, of t] by (simp_all add: fifo_of_def)
    ultimately show ?thesis by (metis fifo_got)
  qed
  moreover have "enqueued [Got t v] = []" by simp
  ultimately show ?thesis by (simp add: simulates_def fifo_run_one)
qed


text \<open>Every step of a thread, while fewer than \<open>2 ^ 64\<close> positions are used.\<close>

lemma uadd_small [simp]: "a + b < 2 ^ 64 \<Longrightarrow> uadd a b = a + b"
  by (simp add: uadd_def)

lemma usub_small [simp]:
  assumes "b \<le> a" and "a < 2 ^ 64"
  shows "usub a b = a - b"
proof -
  have "a + 2 ^ 64 - b = (a - b) + 2 ^ 64" using assms(1) by simp
  then have "usub a b = (a - b) mod 2 ^ 64" unfolding usub_def by (simp only: mod_add_self2)
  then show ?thesis using assms by simp
qed

lemma push_step_ok:
  assumes inv: "ring_inv k limit xs r pcs" and push: "in_push (pcs t)" and bound: "rg_tail r + 2 ^ k < 2 ^ 64"
    and step: "push_step t r (pcs t) = (r', pc, es)"
  shows "simulates k limit xs r pcs r' (pcs(t := pc)) es"
proof -
  note s = inv_shape [OF inv] and ok = inv_pc [OF inv, of t]
  have le: "rg_head r \<le> rg_tail r" "limit \<le> 2 ^ k" "rg_limit r = limit" "rg_tail r = length xs"
      "rg_tail r \<le> rg_head r + limit"
    using s by (simp_all add: shape_def)
  have "rg_tail r + 1 < 2 ^ 64" by (rule le_less_trans [OF _ bound]) (simp add: Suc_leI)
  then have up: "uadd p (Suc 0) = Suc p" if "p \<le> rg_tail r" for p using that by simp
  show ?thesis
  proof (cases "pcs t")
    case (PushTail a)
    then show ?thesis using step looks_silent [OF inv, of "PushHead a (rg_tail r)" t] by auto
  next
    case (PushHead a p)
    then have "p \<le> rg_tail r" using ok by simp
    moreover have "fifo_step limit (fifo_of xs r pcs) (Rejected t) (fifo_of xs r pcs)" if "rg_head r + limit \<le> p"
    proof (rule fifo_rejected, rule disjI1)
      have "rg_tail r = rg_head r + limit" using that \<open>p \<le> rg_tail r\<close> le by linarith
      then show "length (ff_queue (fifo_of xs r pcs)) = limit" using le by (simp add: fifo_of_def)
    qed
    ultimately show ?thesis using step PushHead le bound inv
      by (auto simp: Let_def split: if_splits intro!: looks_silent looks_event)
  next
    case (PushSeq a p)
    then have p: "p \<le> rg_tail r" "p < rg_head r + limit" using ok le by auto
    have "fifo_step limit (fifo_of xs r pcs) (Rejected t) (fifo_of xs r pcs)" if lt: "cell_seq r p < p"
    proof (rule fifo_rejected, rule disjI2)
      have "rg_head r \<le> p" using seq_behind [OF inv, of p] lt by (rule_tac ccontr) auto
      then have "rg_tail r \<le> p" using inv_claimed [OF inv, of p] lt
        by (rule_tac ccontr) (auto simp: claimed_ok_def split: if_splits)
      then have "free_ok (2 ^ k) r pcs p" using inv_free [OF inv] p le by auto
      then obtain u where "popping (pcs u) = Some (p - 2 ^ k)" using lt by (auto simp: free_ok_def split: if_splits)
      then show "\<exists>u. ff_owed (fifo_of xs r pcs) u \<noteq> None" by (auto simp: fifo_of_def)
    qed
    then show ?thesis using step PushSeq p le inv
      by (auto simp: Let_def split: if_splits intro!: looks_silent looks_event)
  next
    case (PushCas a p)
    then show ?thesis using step up push_cas_step [OF inv, of t a] looks_silent [OF inv, of "PushTail a" t]
      by (auto split: if_splits)
  next
    case (PushStore a p)
    then show ?thesis using step push_store_step [OF inv] by auto
  next
    case (PushPublish a p)
    then show ?thesis using step push_publish_step [OF inv] ok up by auto
  qed (use push in simp_all)
qed

lemma pop_step_ok:
  assumes inv: "ring_inv k limit xs r pcs" and push: "\<not> in_push (pcs t)" and bound: "rg_tail r + 2 ^ k < 2 ^ 64"
    and step: "pop_step t r (pcs t) = (r', pc, es)"
  shows "simulates k limit xs r pcs r' (pcs(t := pc)) es"
proof -
  note s = inv_shape [OF inv] and ok = inv_pc [OF inv, of t]
  have le: "rg_head r \<le> rg_tail r" "rg_mask r = 2 ^ k - 1" "rg_tail r = length xs" using s by (simp_all add: shape_def)
  have small: "rg_tail r + 1 < 2 ^ 64" by (rule le_less_trans [OF _ bound]) (simp add: Suc_leI)
  show ?thesis
  proof (cases "pcs t")
    case PopHead
    then show ?thesis using step looks_silent [OF inv, of "PopSeq (rg_head r)" t] by auto
  next
    case (PopSeq p)
    then have p: "p \<le> rg_head r" using ok by simp
    have "fifo_step limit (fifo_of xs r pcs) (Empty t) (fifo_of xs r pcs)" if e: "cell_seq r p = p"
    proof (rule fifo_empty)
      have "p = rg_head r" using seq_behind [OF inv, of p] e p by (cases "p = rg_head r") auto
      then show "ff_queue (fifo_of xs r pcs) = [] \<or> ff_busy (fifo_of xs r pcs) \<noteq> {}"
        using inv_claimed [OF inv, of p] e le by (cases "p < rg_tail r") (auto simp: fifo_of_def claimed_ok_def split: if_splits)
    qed
    moreover have "p < rg_tail r" if "cell_seq r p = Suc p" "p = rg_head r"
      using inv_free [OF inv, of p] that le two_cells [OF s]
      by (rule_tac ccontr) (auto simp: free_ok_def split: if_splits)
    moreover have "uadd p 1 = Suc p" using p le small by simp
    ultimately show ?thesis using step PopSeq p inv
      by (auto simp: Let_def split: if_splits intro!: looks_silent looks_event)
  next
    case (PopCas p)
    then have "uadd p 1 = Suc p" using ok le small by simp
    then show ?thesis using step PopCas pop_cas_step [OF inv, of t] looks_silent [OF inv, of PopHead t]
      by (auto split: if_splits)
  next
    case (PopLoad p)
    then show ?thesis using step pop_load_step [OF inv] by auto
  next
    case (PopClear p v)
    then show ?thesis using step pop_clear_step [OF inv] by auto
  next
    case (PopReturn p v)
    then have "p + 2 ^ k < 2 ^ 64" using ok le bound by simp
    then have "uadd (uadd p (rg_mask r)) 1 = p + 2 ^ k" using le(2) by (simp add: uadd_def)
    then show ?thesis using step PopReturn pop_return_step [OF inv] by auto
  next
    case Idle
    then show ?thesis using step looks_silent [OF inv, of Idle t] by simp
  qed (use push in simp_all)
qed


lemma thread_step_ok:
  assumes "ring_inv k limit xs r pcs" and "rg_tail r + 2 ^ k < 2 ^ 64" and "thread_step t r (pcs t) = (r', pc, es)"
  shows "simulates k limit xs r pcs r' (pcs(t := pc)) es"
  using push_step_ok [OF assms(1) _ assms(2)] pop_step_ok [OF assms(1) _ assms(2)] assms(3)
  by (auto simp: thread_step_def split: if_splits)

lemma enqueued_one: "thread_step t r pc = (r', pc', es) \<Longrightarrow> length (enqueued es) \<le> 1"
  by (cases pc) (auto simp: thread_step_def Let_def split: if_splits)

lemma do_act_ok:
  assumes inv: "ring_inv k limit xs r pcs" and bound: "length xs + 2 ^ k < 2 ^ 64" and act: "do_act (r, pcs) a = ((r', pcs'), es)"
  shows "simulates k limit xs r pcs r' pcs' es \<and> length (enqueued es) \<le> 1"
proof -
  have t: "rg_tail r + 2 ^ k < 2 ^ 64" using bound inv_shape [OF inv] by (simp add: shape_def)
  show ?thesis
  proof (cases a)
    case (CallPush u v)
    then show ?thesis using act looks_silent [OF inv, of "PushTail v" u] inv
      by (auto simp: do_act_def simulates_def fifo_run_Nil split: if_splits)
  next
    case (CallPop u)
    then show ?thesis using act looks_silent [OF inv, of PopHead u] inv
      by (auto simp: do_act_def simulates_def fifo_run_Nil split: if_splits)
  next
    case (Step u)
    then obtain pc where "thread_step u r (pcs u) = (r', pc, es)" "pcs' = pcs(u := pc)"
      using act by (auto simp: do_act_def split: prod.splits)
    then show ?thesis using thread_step_ok [OF inv t] enqueued_one by auto
  qed
qed

lemma run_ring_ok:
  assumes "ring_inv k limit xs r pcs" and "length xs + length as + 2 ^ k < 2 ^ 64"
    and "run_ring (r, pcs) as = ((r', pcs'), es)"
  shows "simulates k limit xs r pcs r' pcs' es"
  using assms
proof (induction as arbitrary: xs r pcs es)
  case Nil
  then show ?case by (auto simp: simulates_def fifo_run_Nil)
next
  case (Cons a as)
  obtain r1 pcs1 es1 where a: "do_act (r, pcs) a = ((r1, pcs1), es1)" by (metis prod.collapse)
  obtain es2 where e: "run_ring (r1, pcs1) as = ((r', pcs'), es2)" "es = es1 @ es2"
    using Cons.prems(3) a by (auto split: prod.splits)
  have one: "simulates k limit xs r pcs r1 pcs1 es1 \<and> length (enqueued es1) \<le> 1"
    by (rule do_act_ok [OF Cons.prems(1) _ a]) (use Cons.prems(2) in simp)
  then have "simulates k limit (xs @ enqueued es1) r1 pcs1 r' pcs' es2"
    using Cons.prems(2) by (intro Cons.IH [OF _ _ e(1)]) (auto simp: simulates_def)
  then show ?case using one e(2) by (auto simp: simulates_def enqueued_append intro: fifo_run_append)
qed

lemma doubled_ge: "1 \<le> k \<Longrightarrow> k \<le> doubled k limit \<and> limit \<le> 2 ^ doubled k limit"
proof (induction k limit rule: doubled.induct)
  case (1 k limit)
  then show ?case by (cases "2 ^ k < limit") (auto simp: doubled.simps [of k limit])
qed

lemma newTaskRing_inv:
  "ring_inv (doubled 1 (max limit 1)) (max limit 1) [] (newTaskRing limit :: 'a ring) (\<lambda>_. Idle)"
proof -
  let ?k = "doubled 1 (max limit 1)" and ?r = "newTaskRing limit :: 'a ring"
  have k: "1 \<le> ?k \<and> max limit 1 \<le> 2 ^ ?k" using doubled_ge [of 1 "max limit 1"] by simp
  have "cell_seq ?r p = p" if "p < 2 ^ ?k" for p
    using that idx_mod [of ?r ?k p] by (simp add: cell_seq_def newTaskRing_def Let_def)
  then have "free_ok (2 ^ ?k) ?r (\<lambda>_. Idle) p" if "p < 2 ^ ?k" for p using that by (simp add: free_ok_def)
  moreover have "shape ?k (max limit 1) [] ?r" using k by (simp add: shape_def newTaskRing_def Let_def)
  ultimately show ?thesis by (simp add: ring_inv_def newTaskRing_def Let_def)
qed

section \<open>Properties\<close>

text \<open>C13. The ring is a first-in-first-out queue, for any number of threads and every
  interleaving of their atomic steps: whatever the schedule, what the threads do and are
  told is a run of the queue of at most \<open>limit\<close> tasks. No task is lost, handed out twice or
  overtaken, a push is refused only when the queue is full or a pop is under way, and a pop
  comes back empty-handed only when the queue is empty or a push is under way.\<close>

theorem ring_refines_fifo:
  fixes as :: "'a act list"
  assumes "run_ring (newTaskRing limit, \<lambda>_. Idle) as = (s, es)" and "length as + 2 ^ doubled 1 (max limit 1) < 2 ^ 64"
  shows "\<exists>f. fifo_run (max limit 1) fifo_init es f"
proof -
  obtain r' pcs' where s: "s = (r', pcs')" by fastforce
  have "simulates (doubled 1 (max limit 1)) (max limit 1) [] (newTaskRing limit) (\<lambda>_. Idle) r' pcs' es"
    by (rule run_ring_ok [OF newTaskRing_inv _ assms(1) [unfolded s]]) (use assms(2) in simp)
  moreover have "fifo_of [] (newTaskRing limit) (\<lambda>_. Idle) = (fifo_init :: 'a fifo)"
    by (simp add: fifo_of_def fifo_init_def newTaskRing_def Let_def)
  ultimately show ?thesis by (auto simp: simulates_def)
qed

text \<open>Two threads push at the same time; the one that is overtaken at the swap starts again,
  and a third thread finds the first task still being written.\<close>

lemma two_cell_ring:
  "newTaskRing 2 = \<lparr>rg_cells = [(0, None), (1, None)], rg_mask = 1, rg_limit = 2, rg_head = 0, rg_tail = 0\<rparr>"
proof -
  have "doubled 1 2 = 1" by (simp add: doubled.simps)
  moreover have "max (2 :: nat) 1 = 2" by simp
  ultimately show ?thesis unfolding newTaskRing_def Let_def by (simp only:) (simp add: upt_rec)
qed

lemmas ring_eval = do_act_def thread_step_def idx_def cell_seq_def cell_task_def set_seq_def set_task_def Let_def

lemma ring_race:
  "run_ring (newTaskRing 2, \<lambda>_. Idle)
     [CallPush 1 a, CallPush 2 b, Step 1, Step 2, Step 1, Step 2, Step 1, Step 2, Step 1, Step 2]
   = ((\<lparr>rg_cells = [(0, None), (1, None)], rg_mask = 1, rg_limit = 2, rg_head = 0, rg_tail = 1\<rparr>,
      (\<lambda>_. Idle)(1 := PushStore a 0, 2 := PushTail b)), [Enq 1 a])"
  unfolding two_cell_ring by (simp add: ring_eval fun_upd_twist)


lemma ring_race_on:
  "run_ring (\<lparr>rg_cells = [(0, None), (1, None)], rg_mask = 1, rg_limit = 2, rg_head = 0, rg_tail = 1\<rparr>,
      (\<lambda>_. Idle)(1 := PushStore a 0, 2 := PushTail b))
     [CallPop 3, Step 3, Step 3, Step 1, Step 1, CallPop 3, Step 3, Step 3, Step 3, Step 3, Step 3, Step 3]
   = ((\<lparr>rg_cells = [(2, None), (1, None)], rg_mask = 1, rg_limit = 2, rg_head = 1, rg_tail = 1\<rparr>,
      (\<lambda>_. Idle)(1 := Idle, 2 := PushTail b, 3 := Idle)), [Empty 3, Pushed 1, Deq 3, Got 3 (Some a)])"
  by (simp add: ring_eval fun_upd_twist)

lemma run_ring_append:
  "run_ring s (as @ bs) = (case run_ring s as of (s1, es) \<Rightarrow> (case run_ring s1 bs of (s2, es') \<Rightarrow> (s2, es @ es')))"
  by (induction as arbitrary: s) (auto split: prod.splits)

lemma ring_race_all:
  "\<exists>s. run_ring (newTaskRing 2, \<lambda>_. Idle)
     ([CallPush 1 a, CallPush 2 b, Step 1, Step 2, Step 1, Step 2, Step 1, Step 2, Step 1, Step 2]
      @ [CallPop 3, Step 3, Step 3, Step 1, Step 1, CallPop 3, Step 3, Step 3, Step 3, Step 3, Step 3, Step 3])
   = (s, [Enq 1 a, Empty 3, Pushed 1, Deq 3, Got 3 (Some a)])"
  by (subst run_ring_append) (simp only: ring_race ring_race_on prod.case append.simps, blast)

lemma ring_refines_fifo_witness:
  "\<exists>f. fifo_run (max 2 1) fifo_init [Enq 1 (7 :: nat), Empty 3, Pushed 1, Deq 3, Got 3 (Some 7)] f"
proof -
  have "doubled 1 2 = 1" by (simp add: doubled.simps)
  moreover have "max (2 :: nat) 1 = 2" by simp
  ultimately have small: "n + 2 ^ doubled 1 (max 2 1) < 2 ^ 64" if "n \<le> 22" for n :: nat using that by (simp only:) simp
  obtain s where "run_ring (newTaskRing 2, \<lambda>_. Idle)
     ([CallPush 1 (7 :: nat), CallPush 2 8, Step 1, Step 2, Step 1, Step 2, Step 1, Step 2, Step 1, Step 2]
      @ [CallPop 3, Step 3, Step 3, Step 1, Step 1, CallPop 3, Step 3, Step 3, Step 3, Step 3, Step 3, Step 3])
     = (s, [Enq 1 7, Empty 3, Pushed 1, Deq 3, Got 3 (Some 7)])"
    using ring_race_all [of 7 8] by (elim exE) (rule that)
  then show ?thesis by (rule ring_refines_fifo [OF _ small]) simp
qed

end
