(* ===== verification/Ws_Base.thy ===== *)
theory Ws_Base
  imports Engine_Conn
begin

text \<open>
  The vocabulary of the WebSocket package: opcodes, status codes and the payload of a Close
  frame (\<^verbatim>\<open>websocket/status_codes.go\<close>), the errors (\<^verbatim>\<open>err.go\<close>), the header the server writes
  (\<^verbatim>\<open>ws_header.go\<close>), the configuration (\<^verbatim>\<open>config.go\<close>), and the functions of other modules the
  package calls, which are the fields of a record.
\<close>

section \<open>Opcodes and status codes\<close>

type_synonym opcode = byte

abbreviation opContinuation :: opcode where "opContinuation \<equiv> 0"
abbreviation opText :: opcode where "opText \<equiv> 1"
abbreviation opBinary :: opcode where "opBinary \<equiv> 2"
abbreviation opClose :: opcode where "opClose \<equiv> 8"
abbreviation opPing :: opcode where "opPing \<equiv> 9"
abbreviation opPong :: opcode where "opPong \<equiv> 10"

text \<open>\<open>StatusCode\<close> is an \<open>int16\<close>: a 16-bit word, read as a signed number.\<close>

type_synonym status_code = u16

abbreviation NormalClosure :: status_code where "NormalClosure \<equiv> 1000"
abbreviation EndpointGoingAway :: status_code where "EndpointGoingAway \<equiv> 1001"
abbreviation ProtocolError :: status_code where "ProtocolError \<equiv> 1002"
abbreviation DataCannotAccept :: status_code where "DataCannotAccept \<equiv> 1003"
abbreviation NotConsistentMessageType :: status_code where "NotConsistentMessageType \<equiv> 1007"
abbreviation TerminatingConnection :: status_code where "TerminatingConnection \<equiv> 1008"
abbreviation TooBigMessage :: status_code where "TooBigMessage \<equiv> 1009"
abbreviation NoExtensions :: status_code where "NoExtensions \<equiv> 1010"
abbreviation ServerTerminating :: status_code where "ServerTerminating \<equiv> 1011"

definition StatusCode_String :: "status_code \<Rightarrow> string" where
  "StatusCode_String s =
     (if s = NormalClosure then ''NormalClosure''
      else if s = EndpointGoingAway then ''EndpointGoingAway''
      else if s = ProtocolError then ''ProtocolError''
      else if s = DataCannotAccept then ''DataCannotAccept''
      else if s = NotConsistentMessageType then ''NotConsistentMessageType''
      else if s = TerminatingConnection then ''TerminatingConnection''
      else if s = TooBigMessage then ''TooBigMessage''
      else if s = NoExtensions then ''NoExtensions''
      else if s = ServerTerminating then ''ServerTerminating''
      else ''unknown'')"

definition StatusCode_toBytes :: "status_code \<Rightarrow> bytes" where
  "StatusCode_toBytes s = put16 s @ bytes_of_string (StatusCode_String s)"

record close_msg =
  cm_Code :: status_code
  cm_Msg :: string

definition CloseErrMsg_Error :: "close_msg \<Rightarrow> string" where
  "CloseErrMsg_Error c =
     ''<fio close: code:'' @ itoa_int (sint (cm_Code c)) @ '' msg:'' @ StatusCode_String (cm_Code c)
     @ (if cm_Msg c \<noteq> [] then cm_Msg c else []) @ ''>''"

definition bytesToCloseErrMsg :: "bytes \<Rightarrow> close_msg" where
  "bytesToCloseErrMsg payload =
     \<lparr>cm_Code = (case payload of a # b # _ \<Rightarrow> get16 a b | _ \<Rightarrow> 0),
      cm_Msg = (if length payload \<ge> 3 then string_of_bytes (drop 3 payload) else [])\<rparr>"

definition validCode :: "u16 \<Rightarrow> bool" where
  "validCode code =
     (if code = 1004 \<or> code = 1005 \<or> code = 1006 \<or> code = 1015 then False
      else if 1000 \<le> code \<and> code \<le> 1015 then True
      else if 3000 \<le> code \<and> code \<le> 4999 then True
      else False)"

section \<open>Errors\<close>

text \<open>A status code is an error as a value (\<open>StatusErr\<close>) or through a pointer (\<open>StatusPtrErr\<close>),
  and \<open>Wrapped\<close> is \<open>fmt.Errorf\<close> with \<open>%w\<close>.\<close>

datatype ws_err =
    WsErrClosed
  | NetErrClosed
  | ErrMaxControlFrameSize
  | ErrRsv123 bool bool bool bool
  | ErrOpcode
  | ErrNOTBeFragmented
  | ErrFrameOpcode
  | ErrTextNotUTF8
  | ErrClosePayloadTooSmall
  | ErrCloseValue
  | ErrFramePayloadLength
  | ErrInvalidDeadline
  | ErrReadTimeout
  | ErrWriteTimeout
  | StatusErr status_code
  | StatusPtrErr status_code
  | CloseErr close_msg
  | SysErr io_err
  | Wrapped string ws_err

text \<open>\<open>errors.As(err, &sc)\<close> with \<open>sc\<close> a \<open>*StatusCode\<close>: the first error of the chain whose type is
  exactly the pointer.\<close>

fun As_StatusCode :: "ws_err \<Rightarrow> status_code option" where
  "As_StatusCode (StatusPtrErr s) = Some s"
| "As_StatusCode (Wrapped _ e) = As_StatusCode e"
| "As_StatusCode _ = None"

section \<open>Frame headers\<close>

record frame_header =
  fh_Head :: byte
  fh_PayloadLen :: int
  fh_Opcode :: opcode
  fh_MaskKey :: u32
  fh_Mask :: bool

text \<open>\<open>wsHeader\<close>: FIN, the opcode, and the shortest of the three forms of the length.\<close>

definition wsHeader :: "opcode \<Rightarrow> nat \<Rightarrow> bytes" where
  "wsHeader op payloadLen =
     (0x80 OR (op AND 0x0F)) #
     (if payloadLen \<le> 125 then [word_of_nat payloadLen]
      else if payloadLen \<le> 65535 then [126, word_of_nat (payloadLen div 256), word_of_nat payloadLen]
      else 127 # put64 (word_of_nat payloadLen))"

section \<open>Other modules, and the configuration\<close>

text \<open>The functions of \<^verbatim>\<open>wsutil\<close> and of the poller (\<^verbatim>\<open>pulse\<close>). \<open>wl_GetBytes\<close> gives the length and
  the capacity of the slice (\<open>None\<close>: it panics); \<open>wl_WriteFrame\<close> the bytes \<open>frame.WriteFrame\<close>
  hands to the \<open>Write\<close> of the connection, in one call, for a payload, FIN, RSV1, whether to
  mask, opcode and mask; \<open>wl_AddWrite\<close> the answer of the poller for a descriptor.\<close>

record 'z ws_lib =
  wl_GetBytes :: "int \<Rightarrow> (nat \<times> nat) option"
  wl_MaxFrameHeaderSize :: nat
  wl_Mask :: "bytes \<Rightarrow> u32 \<Rightarrow> bytes"
  wl_GetFin :: "frame_header \<Rightarrow> bool"
  wl_GetRsv1 :: "frame_header \<Rightarrow> bool"
  wl_GetRsv2 :: "frame_header \<Rightarrow> bool"
  wl_GetRsv3 :: "frame_header \<Rightarrow> bool"
  wl_IsControl :: "opcode \<Rightarrow> bool"
  wl_WriteFrame :: "bytes \<Rightarrow> bool \<Rightarrow> bool \<Rightarrow> bool \<Rightarrow> opcode \<Rightarrow> u32 \<Rightarrow> bytes"
  wl_AddWrite :: "int \<Rightarrow> ws_err option"
  wl_NewCompress :: "byte \<Rightarrow> ws_err + 'z"
  wl_Compress :: "'z option \<Rightarrow> bytes \<Rightarrow> byte \<Rightarrow> 'z option \<times> (ws_err + bytes)"
  wl_NewDecompress :: "byte \<Rightarrow> ws_err + 'z"
  wl_Decompress :: "'z option \<Rightarrow> bytes \<Rightarrow> int \<Rightarrow> 'z option \<times> (ws_err + bytes)"

text \<open>\<open>deflate.PermessageDeflateConf\<close>, as far as the package reads it.\<close>

record deflate_conf =
  pd_Enable :: bool
  pd_Compression :: bool
  pd_Decompression :: bool
  pd_ServerContextTakeover :: bool
  pd_ClientContextTakeover :: bool
  pd_ServerMaxWindowBits :: byte
  pd_ClientMaxWindowBits :: byte

text \<open>The fields of \<open>Config\<close> the code uses. \<open>cf_window n\<close> is \<open>int(float32(n) * window)\<close> with the
  factor \<open>windowsMultipleTimesPayloadSize\<close>; \<open>cf_runInGoTask\<close> says that callbacks go to a task
  executor (every mode but "io").\<close>

record ws_config =
  cf_replyPing :: bool
  cf_ignorePong :: bool
  cf_utf8Check :: "bytes \<Rightarrow> bool"
  cf_readTimeout :: int
  cf_window :: "int \<Rightarrow> int"
  cf_readMaxMessage :: int
  cf_flowBackPressureRemoveRead :: bool
  cf_zeroCopyPayload :: bool
  cf_runInGoTask :: bool
  cf_subProtocols :: "string list"
  cf_deflate :: deflate_conf

text \<open>What the functions of \<^verbatim>\<open>wsutil\<close> promise, as far as it is relied on: the bits of a header
  and of an opcode are those of RFC 6455, the pool gives at least what it is asked for, the
  largest header is 14 bytes, and \<open>WriteFrame\<close> writes the frame of RFC 6455; and what the
  poller promises.\<close>

definition lib_ok :: "'z ws_lib \<Rightarrow> bool" where
  "lib_ok l =
     ((\<forall>n\<ge>0. \<exists>len cap. wl_GetBytes l n = Some (len, cap) \<and> n \<le> int len \<and> len \<le> cap)
      \<and> wl_MaxFrameHeaderSize l = 14
      \<and> (\<forall>b k. length (wl_Mask l b k) = length b)
      \<and> (\<forall>h. wl_GetFin l h = bit (fh_Head h) 7)
      \<and> (\<forall>h. wl_GetRsv1 l h = bit (fh_Head h) 6)
      \<and> (\<forall>h. wl_GetRsv2 l h = bit (fh_Head h) 5)
      \<and> (\<forall>h. wl_GetRsv3 l h = bit (fh_Head h) 4)
      \<and> (\<forall>op. wl_IsControl l op = bit op 3)
      \<and> (\<forall>b op k. wl_WriteFrame l b True False False op k = wsHeader op (length b) @ b)
      \<and> (\<forall>fd. wl_AddWrite l fd = None))"

section \<open>Lemmas\<close>

lemma StatusCode_toBytes_code:
  "take 2 (StatusCode_toBytes s) = put16 s"
  by (simp add: StatusCode_toBytes_def)

text \<open>The code of a Close payload survives the way through \<open>toBytes\<close>; the reason loses its
  first byte (\<^verbatim>\<open>payload[3:]\<close> where the reason starts at 2).\<close>

lemma close_payload_read:
  "bytesToCloseErrMsg (put16 s @ reason) = \<lparr>cm_Code = s, cm_Msg = string_of_bytes (drop 1 reason)\<rparr>"
  by (cases reason) (simp_all add: bytesToCloseErrMsg_def put16_def be_simps string_of_bytes_def)

lemma close_reason_loses_a_byte:
  "bytesToCloseErrMsg (StatusCode_toBytes ProtocolError) = \<lparr>cm_Code = ProtocolError, cm_Msg = ''rotocolError''\<rparr>"
proof -
  have "drop 1 (bytes_of_string (StatusCode_String ProtocolError)) = bytes_of_string ''rotocolError''"
    by (simp add: StatusCode_String_def bytes_of_string_def)
  then show ?thesis by (simp add: StatusCode_toBytes_def close_payload_read)
qed

lemma validCode_cases:
  "validCode c \<longleftrightarrow> unat c \<in> {1000, 1001, 1002, 1003} \<union> {1007..1014} \<union> {3000..4999}"
  by (auto simp: validCode_def word_le_nat_alt word_unat_eq_iff)

text \<open>No code of the package builds a pointer to a status code, so the error of a message
  that is too big is not one to \<open>errors.As\<close>.\<close>

lemma TooBigMessage_not_found:
  "As_StatusCode (Wrapped s (StatusErr TooBigMessage)) = None"
  by simp

end
