(* ===== verification/Ws_Conn.thy ===== *)
theory Ws_Conn
  imports Ws_Base
begin

text \<open>
  The WebSocket connection and its writing half (\<^verbatim>\<open>websocket/conn_unix.go\<close>, \<^verbatim>\<open>cork.go\<close>, the
  second half of \<^verbatim>\<open>conn_core.go\<close>): closing, the list of buffers the kernel did not take,
  corking the replies to a batch of messages, and \<open>WriteMessage\<close>. A panic is \<open>None\<close>.
\<close>

section \<open>State\<close>

text \<open>The calls of the user's callback, as a trace.\<close>

datatype ws_call = OnMessage opcode bytes | OnClose "ws_err option"

text \<open>A callback handed to the task executor.\<close>

datatype ws_task =
    TData frame_header bytes bool bool bool u32
  | TFragments frame_header bytes bool
  | TPing opcode bytes
  | TControl opcode

text \<open>\<open>Conn\<close> with the \<open>conn\<close> inside it. The read buffer is its length (\<open>None\<close> for nil) and its
  first \<open>rw\<close> bytes; \<open>wc_once\<close> says that \<open>onCloseOnce\<close> is used up; of a timer only whether it
  runs is kept. The world: the random masks, the kernel's answers, the bytes it took,
  whether the poller was asked for a write event, the calls closing made, the executor's
  queue, the user's state and the trace of callbacks.\<close>

record ('u, 'z) wconn =
  wc_fd :: int
  wc_rbuf :: "nat option"
  wc_rdata :: bytes
  wc_rr :: nat
  wc_wbufList :: "wbuf list"
  wc_lenAndMaskSize :: nat
  wc_rh :: frame_header
  wc_fragmentPayload :: "bytes option"
  wc_fragmentHeader :: "frame_header option"
  wc_packed :: u32
  wc_once :: bool
  wc_closed :: bool
  wc_deCtx :: "'z option"
  wc_enCtx :: "'z option"
  wc_rtime :: bool
  wc_wtime :: bool
  wc_masks :: "u32 list"
  wc_tx :: "tx_answer list"
  wc_sent :: bytes
  wc_rx :: "rx_answer list"
  wc_armed :: bool
  wc_log :: "conn_event list"
  wc_tasks :: "ws_task list"
  wc_user :: 'u
  wc_calls :: "ws_call list"

text \<open>What stays the same over the life of a connection: its configuration, the functions of
  the other modules, the negotiated compression, and the user's callbacks. \<open>OnMessage\<close> is a
  program of calls of the connection, each with what follows for each result.\<close>

datatype ws_req =
    ReqWriteMessage opcode bytes
  | ReqWriteTimeout opcode bytes int
  | ReqWriteControl opcode bytes
  | ReqWriteCloseTimeout status_code int
  | ReqClose

datatype 'u script = Return 'u | Call ws_req "ws_err option \<Rightarrow> 'u script"

record ('u, 'z) ws_env =
  ev_lib :: "'z ws_lib"
  ev_conf :: ws_config
  ev_pd :: deflate_conf
  ev_OnMessage :: "'u \<Rightarrow> opcode \<Rightarrow> bytes \<Rightarrow> 'u script"
  ev_OnClose :: "'u \<Rightarrow> ws_err option \<Rightarrow> 'u"

abbreviation GetBytes :: "('u, 'z) ws_env \<Rightarrow> int \<Rightarrow> (nat \<times> nat) option" where
  "GetBytes env \<equiv> wl_GetBytes (ev_lib env)"

definition isClosed_ws :: "('u, 'z) wconn \<Rightarrow> bool" where
  "isClosed_ws c = wc_closed c"

text \<open>The bits of \<open>packed\<close>.\<close>

abbreviation ws_stateMask :: u32 where "ws_stateMask \<equiv> 3"
abbreviation ws_flagClient :: u32 where "ws_flagClient \<equiv> 4"
abbreviation ws_flagBusy :: u32 where "ws_flagBusy \<equiv> 8"
abbreviation ws_flagCorking :: u32 where "ws_flagCorking \<equiv> 64"

datatype frame_state = HeaderStart | HeaderPayloadAndMask | Payload

definition state_bits :: "frame_state \<Rightarrow> u32" where
  "state_bits st = (case st of HeaderStart \<Rightarrow> 0 | HeaderPayloadAndMask \<Rightarrow> 1 | Payload \<Rightarrow> 2)"

text \<open>The two bits are never 3: they are only set from the three constants.\<close>

definition getCurState :: "('u, 'z) wconn \<Rightarrow> frame_state" where
  "getCurState c =
     (let s = wc_packed c AND ws_stateMask in
      if s = 0 then HeaderStart else if s = 1 then HeaderPayloadAndMask else Payload)"

definition setCurState :: "frame_state \<Rightarrow> ('u, 'z) wconn \<Rightarrow> ('u, 'z) wconn" where
  "setCurState st c = c\<lparr>wc_packed := (wc_packed c AND NOT ws_stateMask) OR (state_bits st AND ws_stateMask)\<rparr>"

definition isClient_ws :: "('u, 'z) wconn \<Rightarrow> bool" where
  "isClient_ws c = (wc_packed c AND ws_flagClient \<noteq> 0)"

definition setClient_ws :: "bool \<Rightarrow> ('u, 'z) wconn \<Rightarrow> ('u, 'z) wconn" where
  "setClient_ws v c =
     c\<lparr>wc_packed := (if v then wc_packed c OR ws_flagClient else wc_packed c AND NOT ws_flagClient)\<rparr>"

definition tryBusy_ws :: "('u, 'z) wconn \<Rightarrow> ('u, 'z) wconn \<times> bool" where
  "tryBusy_ws c = (c\<lparr>wc_packed := wc_packed c OR ws_flagBusy\<rparr>, wc_packed c AND ws_flagBusy = 0)"

definition unbusy_ws :: "('u, 'z) wconn \<Rightarrow> ('u, 'z) wconn" where
  "unbusy_ws c = c\<lparr>wc_packed := wc_packed c AND NOT ws_flagBusy\<rparr>"

definition isCorking_ws :: "('u, 'z) wconn \<Rightarrow> bool" where
  "isCorking_ws c = (wc_packed c AND ws_flagCorking \<noteq> 0)"

definition setCorking_ws :: "bool \<Rightarrow> ('u, 'z) wconn \<Rightarrow> ('u, 'z) wconn" where
  "setCorking_ws v c =
     c\<lparr>wc_packed := (if v then wc_packed c OR ws_flagCorking else wc_packed c AND NOT ws_flagCorking)\<rparr>"

section \<open>Closing\<close>

text \<open>\<open>onCloseOnce.Do\<close> around the user's \<open>OnClose\<close>.\<close>

definition onClose_once :: "('u, 'z) ws_env \<Rightarrow> ('u, 'z) wconn \<Rightarrow> ws_err option \<Rightarrow> ('u, 'z) wconn" where
  "onClose_once env c err =
     (if wc_once c then c
      else c\<lparr>wc_once := True, wc_user := ev_OnClose env (wc_user c) err, wc_calls := wc_calls c @ [OnClose err]\<rparr>)"

text \<open>\<open>closeWithoutLockOnClose\<close>, as it is written: an error that is \<^emph>\<open>not\<close> nil becomes \<open>io.EOF\<close>.\<close>

definition closeWithoutLockOnClose ::
  "('u, 'z) ws_env \<Rightarrow> ('u, 'z) wconn \<Rightarrow> ws_err option \<Rightarrow> bool \<Rightarrow> ('u, 'z) wconn" where
  "closeWithoutLockOnClose env c err onClose =
     (if isClosed_ws c then c
      else
        let err = (if err \<noteq> None then Some (SysErr IoEOF) else err);
            c = c\<lparr>wc_log := wc_log c @ [DelConn (wc_fd c), CloseFd (wc_fd c)]\<rparr>;
            c = c\<lparr>wc_fd := -1, wc_closed := True\<rparr>
        in if onClose then onClose_once env c err else c)"

definition closeNoLock :: "('u, 'z) ws_env \<Rightarrow> ('u, 'z) wconn \<Rightarrow> ws_err option \<Rightarrow> ('u, 'z) wconn" where
  "closeNoLock env c err = closeWithoutLockOnClose env c err True"

definition closeWithLock :: "('u, 'z) ws_env \<Rightarrow> ('u, 'z) wconn \<Rightarrow> ws_err option \<Rightarrow> ('u, 'z) wconn" where
  "closeWithLock env c err =
     (if isClosed_ws c then c
      else
        let err = (if err = None then Some (SysErr IoEOF) else err);
            c = closeWithoutLockOnClose env c err False
        in if isClosed_ws c then onClose_once env c err else c)"

definition Close_ws :: "('u, 'z) ws_env \<Rightarrow> ('u, 'z) wconn \<Rightarrow> ('u, 'z) wconn" where
  "Close_ws env c = closeWithLock env c None"

section \<open>Timers\<close>

text \<open>\<open>setDeadlineInner\<close> for a deadline that is \<open>d\<close> away (\<open>None\<close>: the zero time, which stops the
  timer), and the timer's callback.\<close>

definition setDeadlineInner :: "bool \<Rightarrow> int option \<Rightarrow> bool \<times> ws_err option" where
  "setDeadlineInner timer d =
     (case d of
        None \<Rightarrow> (False, None)
      | Some d \<Rightarrow> if d < 0 then (timer, Some ErrInvalidDeadline) else (True, None))"

definition setReadDeadline :: "('u, 'z) wconn \<Rightarrow> int option \<Rightarrow> ('u, 'z) wconn \<times> ws_err option" where
  "setReadDeadline c d = (case setDeadlineInner (wc_rtime c) d of (t, e) \<Rightarrow> (c\<lparr>wc_rtime := t\<rparr>, e))"

definition setWriteDeadline :: "('u, 'z) wconn \<Rightarrow> int option \<Rightarrow> ('u, 'z) wconn \<times> ws_err option" where
  "setWriteDeadline c d = (case setDeadlineInner (wc_wtime c) d of (t, e) \<Rightarrow> (c\<lparr>wc_wtime := t\<rparr>, e))"

definition read_timer_fires :: "('u, 'z) ws_env \<Rightarrow> ('u, 'z) wconn \<Rightarrow> ('u, 'z) wconn" where
  "read_timer_fires env c = closeWithLock env c (Some ErrReadTimeout)"

section \<open>The socket\<close>

definition socketWrite_ws :: "('u, 'z) wconn \<Rightarrow> bytes \<Rightarrow> ('u, 'z) wconn \<times> nat \<times> io_err option" where
  "socketWrite_ws c dat =
     (if dat = [] then (c, 0, None)
      else case wc_tx c of
          [] \<Rightarrow> (c, 0, Some EAGAIN)
        | Accept k # ks \<Rightarrow>
            (let n = min k (length dat) in (c\<lparr>wc_tx := ks, wc_sent := wc_sent c @ take n dat\<rparr>, n, None))
        | TxErr e # ks \<Rightarrow> (c\<lparr>wc_tx := ks\<rparr>, 0, Some e))"

text \<open>\<open>socketWritev\<close> and \<open>socketWritev3\<close>: one \<^verbatim>\<open>sendmsg\<close> of all the segments.\<close>

definition socketWritev_ws :: "('u, 'z) wconn \<Rightarrow> bytes list \<Rightarrow> ('u, 'z) wconn \<times> nat \<times> io_err option" where
  "socketWritev_ws c segs =
     (case wc_tx c of
        [] \<Rightarrow> (c, 0, Some EAGAIN)
      | Accept k # ks \<Rightarrow>
          (let dat = concat segs; n = min k (length dat) in
           (c\<lparr>wc_tx := ks, wc_sent := wc_sent c @ take n dat\<rparr>, n, None))
      | TxErr e # ks \<Rightarrow> (c\<lparr>wc_tx := ks\<rparr>, 0, Some e))"

definition addWrite_ws :: "('u, 'z) ws_env \<Rightarrow> ('u, 'z) wconn \<Rightarrow> ('u, 'z) wconn \<times> ws_err option" where
  "addWrite_ws env c = (c\<lparr>wc_armed := True\<rparr>, wl_AddWrite (ev_lib env) (wc_fd c))"

definition needFlush_ws :: "('u, 'z) wconn \<Rightarrow> bool" where
  "needFlush_ws c = (wc_wbufList c \<noteq> [])"

section \<open>The list of buffers\<close>

text \<open>A buffer from the pool with \<open>dat\<close> copied to its front and the length set to that of \<open>dat\<close>;
  a slice too small panics.\<close>

definition pooled :: "('u, 'z) ws_env \<Rightarrow> int \<Rightarrow> bytes \<Rightarrow> wbuf option" where
  "pooled env n dat =
     (case GetBytes env n of
        None \<Rightarrow> None
      | Some (len, cap) \<Rightarrow> if length dat \<le> len then Some (Some (dat, cap)) else None)"

text \<open>The loop that spreads what is left over new buffers; with a pool that gives no room at
  all it never ends.\<close>

function new_bufs :: "('u, 'z) ws_env \<Rightarrow> bytes \<Rightarrow> nat \<Rightarrow> wbuf list option" where
  "new_bufs env dat oldLen =
     (if dat = [] then Some []
      else case GetBytes env (int (length dat + oldLen)) of
          None \<Rightarrow> None
        | Some (len, cap) \<Rightarrow>
            let k = min (length dat) cap in
            if k = 0 \<or> len < k then None
            else map_option (\<lambda>ws. Some (take k dat, cap) # ws) (new_bufs env (drop k dat) oldLen))"
  by pat_completeness auto
termination by (relation "measure (\<lambda>(env, dat, oldLen). length dat)") auto

declare new_bufs.simps [simp del]

definition appendToWbufList_ws ::
  "('u, 'z) ws_env \<Rightarrow> ('u, 'z) wconn \<Rightarrow> bytes \<Rightarrow> nat \<Rightarrow> ('u, 'z) wconn option" where
  "appendToWbufList_ws env c dat oldLen =
     (if dat = [] then Some c
      else if wc_wbufList c = [] then
        map_option (\<lambda>w. c\<lparr>wc_wbufList := [w]\<rparr>) (pooled env (int (length dat + oldLen)) dat)
      else case last (wc_wbufList c) of
          None \<Rightarrow> None
        | Some (lst, cap) \<Rightarrow>
            let space = cap - length lst in
            if space \<ge> length dat then
              Some (c\<lparr>wc_wbufList := butlast (wc_wbufList c) @ [Some (lst @ dat, cap)]\<rparr>)
            else
              map_option (\<lambda>ws. c\<lparr>wc_wbufList := butlast (wc_wbufList c) @ Some (lst @ take space dat, cap) # ws\<rparr>)
                (new_bufs env (drop space dat) oldLen))"

text \<open>The end of \<open>handlePartialWrite\<close>: the poller is asked for the write event, or, with back
  pressure, told to stop the read events.\<close>

definition after_partial :: "('u, 'z) ws_env \<Rightarrow> ('u, 'z) wconn \<Rightarrow> ('u, 'z) wconn \<times> ws_err option" where
  "after_partial env c = (if cf_flowBackPressureRemoveRead (ev_conf env) then (c, None) else addWrite_ws env c)"

text \<open>The loop of \<open>write\<close>: \<open>before\<close> are the slots set to nil so far. \<open>compactWbufList\<close> drops them
  after a partial write and at the end, and when a hard error comes they stay.\<close>

fun write_bufs ::
  "('u, 'z) ws_env \<Rightarrow> nat \<Rightarrow> ('u, 'z) wconn \<Rightarrow> wbuf list \<Rightarrow> wbuf list \<Rightarrow> ('u, 'z) wconn \<times> nat \<times> ws_err option" where
  "write_bufs env n c before [] = (c\<lparr>wc_wbufList := []\<rparr>, n, None)"
| "write_bufs env n c before (None # ws) = (c\<lparr>wc_wbufList := None # ws\<rparr>, n, None)"
| "write_bufs env n c before (Some (b, cap) # ws) =
     (case socketWrite_ws c b of
        (c, k, err) \<Rightarrow>
          if soft err then
            (if k = length b then write_bufs env n c (before @ [None]) ws
             else
               case after_partial env c of
                 (c, None) \<Rightarrow> (c\<lparr>wc_wbufList := Some (drop k b, cap) # ws\<rparr>, n, None)
               | (c, Some e) \<Rightarrow>
                   (closeNoLock env (c\<lparr>wc_wbufList := before @ Some (drop k b, cap) # ws\<rparr>) (Some e), 0, Some e))
          else (closeNoLock env (c\<lparr>wc_wbufList := before @ Some (b, cap) # ws\<rparr>) (map_option SysErr err), k, map_option SysErr err))"

definition write_ws ::
  "('u, 'z) ws_env \<Rightarrow> ('u, 'z) wconn \<Rightarrow> bytes \<Rightarrow> (('u, 'z) wconn \<times> nat \<times> ws_err option) option" where
  "write_ws env c dat =
     (if wc_fd c = -1 then Some (c, 0, Some NetErrClosed)
      else if dat = [] \<and> wc_wbufList c = [] then Some (c, 0, None)
      else if wc_wbufList c = [] then
        (case socketWrite_ws c dat of
           (c, n, err) \<Rightarrow>
             if soft err then
               (if n = length dat then Some (c, n, None)
                else
                  case appendToWbufList_ws env c (drop n dat) (length dat) of
                    None \<Rightarrow> None
                  | Some c \<Rightarrow>
                      (case after_partial env c of
                         (c, None) \<Rightarrow> Some (c, length dat, None)
                       | (c, Some e) \<Rightarrow> Some (closeNoLock env c (Some e), 0, Some e)))
             else Some (closeNoLock env c (map_option SysErr err), n, map_option SysErr err))
      else
        case (if dat \<noteq> [] then appendToWbufList_ws env c dat (length dat) else Some c) of
          None \<Rightarrow> None
        | Some c \<Rightarrow> Some (write_bufs env (length dat) c [] (wc_wbufList c)))"

definition connWrite ::
  "('u, 'z) ws_env \<Rightarrow> ('u, 'z) wconn \<Rightarrow> bytes \<Rightarrow> (('u, 'z) wconn \<times> nat \<times> ws_err option) option" where
  "connWrite env c dat = (if isClosed_ws c then Some (c, 0, Some WsErrClosed) else write_ws env c dat)"

text \<open>\<open>flush\<close> and \<open>flushLocked\<close>: the error is only logged.\<close>

definition flush_ws :: "('u, 'z) ws_env \<Rightarrow> ('u, 'z) wconn \<Rightarrow> ('u, 'z) wconn option" where
  "flush_ws env c = map_option fst (connWrite env c [])"

section \<open>Corking\<close>

abbreviation maxCorkBytes :: nat where "maxCorkBytes \<equiv> 32 * 1024"
abbreviation corkGrowBytes :: nat where "corkGrowBytes \<equiv> 16 * 1024"

definition corkStartLocked :: "('u, 'z) ws_env \<Rightarrow> ('u, 'z) wconn \<Rightarrow> nat \<Rightarrow> ('u, 'z) wconn option" where
  "corkStartLocked env c capHint =
     (let capHint = min capHint maxCorkBytes; capHint = capHint + capHint div 4
      in map_option (\<lambda>w. setCorking_ws True (c\<lparr>wc_wbufList := [w]\<rparr>)) (pooled env (int capHint) []))"

definition maybeCork :: "('u, 'z) ws_env \<Rightarrow> ('u, 'z) wconn \<Rightarrow> ('u, 'z) wconn option" where
  "maybeCork env c =
     (if isCorking_ws c \<or> cf_runInGoTask (ev_conf env) \<or> isClient_ws c then Some c
      else if wc_wbufList c \<noteq> [] then Some c
      else if length (wc_rdata c) - wc_rr c = 0 then Some c
      else corkStartLocked env c (length (wc_rdata c) - wc_rr c))"

text \<open>\<open>growCork\<close>: the bigger buffer, if there is one (\<open>Some None\<close>: there is none).\<close>

definition growCork :: "('u, 'z) ws_env \<Rightarrow> bytes \<times> nat \<Rightarrow> nat \<Rightarrow> (bytes \<times> nat) option option" where
  "growCork env old need =
     (if snd old \<ge> corkGrowBytes \<or> need > corkGrowBytes then Some None
      else case GetBytes env (int corkGrowBytes) of
          None \<Rightarrow> None
        | Some (len, cap) \<Rightarrow> if cap < need then Some None else Some (Some (fst old, cap)))"

text \<open>What \<open>corkWrite\<close> queues after a partial \<^verbatim>\<open>sendmsg\<close>: the rest of the corked batch, of the
  header and of the payload, each with its own hint.\<close>

definition cork_rest ::
  "('u, 'z) ws_env \<Rightarrow> ('u, 'z) wconn \<Rightarrow> nat \<Rightarrow> bytes \<Rightarrow> bytes \<Rightarrow> bytes \<Rightarrow> ('u, 'z) wconn option" where
  "cork_rest env c n seg hdr payload =
     (let total = length seg + length hdr + length payload in
      if n < length seg then
        Option.bind (appendToWbufList_ws env c (drop n seg) (total - n)) (\<lambda>c.
        Option.bind (appendToWbufList_ws env c hdr (length hdr + length payload)) (\<lambda>c.
        appendToWbufList_ws env c payload (length payload)))
      else if n < length seg + length hdr then
        Option.bind (appendToWbufList_ws env c (drop (n - length seg) hdr) (length hdr + length payload - n + length seg)) (\<lambda>c.
        appendToWbufList_ws env c payload (length payload))
      else appendToWbufList_ws env c (drop (n - length seg - length hdr) payload) (total - n))"

definition corkWrite ::
  "('u, 'z) ws_env \<Rightarrow> ('u, 'z) wconn \<Rightarrow> opcode \<Rightarrow> bytes \<Rightarrow> (('u, 'z) wconn \<times> ws_err option) option" where
  "corkWrite env c op payload =
     Option.bind (if wc_wbufList c = [] then corkStartLocked env c (length payload) else Some c) (\<lambda>c.
     Option.bind (last (wc_wbufList c)) (\<lambda>(b, cap).
     let hdr = wsHeader op (length payload);
         front = butlast (wc_wbufList c)
     in if length b + length hdr + length payload \<le> cap then
          Some (c\<lparr>wc_wbufList := front @ [Some (b @ hdr @ payload, cap)]\<rparr>, None)
        else
          Option.bind (growCork env (b, cap) (length b + length hdr + length payload)) (\<lambda>g.
          case g of
            Some (b, cap) \<Rightarrow> Some (c\<lparr>wc_wbufList := front @ [Some (b @ hdr @ payload, cap)]\<rparr>, None)
          | None \<Rightarrow>
              (case socketWritev_ws c [b, hdr, payload] of
                 (c, n, err) \<Rightarrow>
                   if err = None \<and> n = length b + length hdr + length payload then
                     Some (c\<lparr>wc_wbufList := front @ [Some ([], cap)]\<rparr>, None)
                   else if soft err then
                     Option.bind (cork_rest env (setCorking_ws False (c\<lparr>wc_wbufList := front @ [Some ([], cap)]\<rparr>)) n b hdr payload)
                       (\<lambda>c. Some (addWrite_ws env c))
                   else Some (c\<lparr>wc_wbufList := front @ [Some ([], cap)]\<rparr>, map_option SysErr err)))))"

definition corkEnd :: "('u, 'z) ws_env \<Rightarrow> ('u, 'z) wconn \<Rightarrow> ('u, 'z) wconn option" where
  "corkEnd env c =
     (if \<not> isCorking_ws c then Some c
      else
        let c = setCorking_ws False c in
        case wc_wbufList c of
          [] \<Rightarrow> Some c
        | [None] \<Rightarrow> None
        | [Some ([], cap)] \<Rightarrow> Some (c\<lparr>wc_wbufList := []\<rparr>)
        | _ \<Rightarrow> flush_ws env c)"

section \<open>Messages\<close>

text \<open>\<open>encoode\<close> (\<^verbatim>\<open>permessage_deflate.go\<close>): the compression context of the connection is made
  when it is first needed, if contexts are taken over.\<close>

definition encoode ::
  "('u, 'z) ws_env \<Rightarrow> ('u, 'z) wconn \<Rightarrow> bytes \<Rightarrow> ('u, 'z) wconn \<times> (ws_err + bytes)" where
  "encoode env c payload =
     (let pd = ev_pd env;
          ct = (pd_ClientContextTakeover pd \<and> isClient_ws c \<or> \<not> isClient_ws c \<and> pd_ServerContextTakeover pd)
               \<and> pd_Compression pd;
          bits = (if isClient_ws c then pd_ClientMaxWindowBits pd else pd_ServerMaxWindowBits pd);
          made = (if ct \<and> wc_enCtx c = None
                  then (case wl_NewCompress (ev_lib env) bits of Inl e \<Rightarrow> Inl e | Inr z \<Rightarrow> Inr (c\<lparr>wc_enCtx := Some z\<rparr>))
                  else Inr c)
      in case made of
           Inl e \<Rightarrow> (c, Inl e)
         | Inr c \<Rightarrow>
             (case wl_Compress (ev_lib env) (wc_enCtx c) payload bits of (z, r) \<Rightarrow> (c\<lparr>wc_enCtx := z\<rparr>, r)))"

text \<open>\<open>rand.Uint32\<close>\<close>

definition next_mask :: "('u, 'z) wconn \<Rightarrow> ('u, 'z) wconn \<times> u32" where
  "next_mask c = (case wc_masks c of [] \<Rightarrow> (c, 0) | k # ks \<Rightarrow> (c\<lparr>wc_masks := ks\<rparr>, k))"

text \<open>The end of the two paths of \<open>WriteMessage\<close> that send at once.\<close>

definition sent_or_queued ::
  "('u, 'z) ws_env \<Rightarrow> bytes \<Rightarrow> ('u, 'z) wconn \<times> nat \<times> io_err option \<Rightarrow> (('u, 'z) wconn \<times> ws_err option) option" where
  "sent_or_queued env all r =
     (case r of (c, n, err) \<Rightarrow>
        if err = None \<and> n = length all then Some (c, None)
        else if soft err then
          Option.bind (appendToWbufList_ws env c (drop n all) (length all - n)) (\<lambda>c. Some (addWrite_ws env c))
        else Some (c, map_option SysErr err))"

definition write_frame ::
  "('u, 'z) ws_env \<Rightarrow> ('u, 'z) wconn \<Rightarrow> bytes \<Rightarrow> bool \<Rightarrow> bool \<Rightarrow> opcode \<Rightarrow> u32 \<Rightarrow> (('u, 'z) wconn \<times> ws_err option) option" where
  "write_frame env c dat fin rsv1 op maskValue =
     map_option (\<lambda>(c, n, err). (c, err))
       (connWrite env c (wl_WriteFrame (ev_lib env) dat fin rsv1 (isClient_ws c) op maskValue))"

text \<open>The part of \<open>WriteMessage\<close> under the lock.\<close>

definition write_plain ::
  "('u, 'z) ws_env \<Rightarrow> ('u, 'z) wconn \<Rightarrow> opcode \<Rightarrow> bytes \<Rightarrow> bool \<Rightarrow> u32 \<Rightarrow> (('u, 'z) wconn \<times> ws_err option) option" where
  "write_plain env c op dat rsv1 maskValue =
     (let io = (\<not> cf_runInGoTask (ev_conf env)); hdr = wsHeader op (length dat) in
      if isCorking_ws c \<and> \<not> rsv1 then corkWrite env c op dat
      else if io \<and> \<not> isClient_ws c \<and> \<not> rsv1 \<and> length dat \<le> 4096 \<and> wc_wbufList c = [] then
        sent_or_queued env (hdr @ dat) (socketWrite_ws c (hdr @ dat))
      else if io \<and> \<not> isClient_ws c \<and> \<not> rsv1 \<and> length dat \<le> 65535 \<and> wc_wbufList c = [] then
        sent_or_queued env (hdr @ dat) (socketWritev_ws c [hdr, dat])
      else write_frame env c dat True rsv1 op maskValue)"

definition rsv1_of :: "('u, 'z) ws_env \<Rightarrow> opcode \<Rightarrow> bool" where
  "rsv1_of env op = (pd_Compression (ev_pd env) \<and> (op = opText \<or> op = opBinary))"

definition WriteMessage ::
  "('u, 'z) ws_env \<Rightarrow> ('u, 'z) wconn \<Rightarrow> opcode \<Rightarrow> bytes \<Rightarrow> (('u, 'z) wconn \<times> ws_err option) option" where
  "WriteMessage env c op dat =
     (if isClosed_ws c then Some (c, Some WsErrClosed)
      else if op = opText \<and> \<not> cf_utf8Check (ev_conf env) dat then Some (c, Some ErrTextNotUTF8)
      else
        let rsv1 = rsv1_of env op in
        case (if rsv1 then encoode env c dat else (c, Inr dat)) of
          (c, Inl e) \<Rightarrow> Some (c, Some e)
        | (c, Inr dat) \<Rightarrow>
            (case (if isClient_ws c then next_mask c else (c, 0)) of
               (c, maskValue) \<Rightarrow> write_plain env c op dat rsv1 maskValue))"

text \<open>\<open>writeFragment\<close>: the loop over the pieces; with pieces of no bytes it never ends.\<close>

function fragments ::
  "('u, 'z) ws_env \<Rightarrow> ('u, 'z) wconn \<Rightarrow> opcode \<Rightarrow> bytes \<Rightarrow> nat \<Rightarrow> bool \<Rightarrow> u32 \<Rightarrow> (('u, 'z) wconn \<times> ws_err option) option" where
  "fragments env c op dat maxFragment rsv1 maskValue =
     (if dat = [] then Some (c, None)
      else if length dat > maxFragment then
        (if maxFragment = 0 then None
         else
           case write_frame env c (take maxFragment dat) False rsv1 op maskValue of
             None \<Rightarrow> None
           | Some (c, Some e) \<Rightarrow> Some (c, Some e)
           | Some (c, None) \<Rightarrow> fragments env c opContinuation (drop maxFragment dat) maxFragment rsv1 maskValue)
      else write_frame env c dat True rsv1 op maskValue)"
  by pat_completeness auto
termination
  by (relation "measure (\<lambda>(env, c, op, dat, maxFragment, rsv1, maskValue). length dat)") auto

declare fragments.simps [simp del]

definition writeFragment ::
  "('u, 'z) ws_env \<Rightarrow> ('u, 'z) wconn \<Rightarrow> opcode \<Rightarrow> bytes \<Rightarrow> nat \<Rightarrow> (('u, 'z) wconn \<times> ws_err option) option" where
  "writeFragment env c op dat maxFragment =
     (if length dat < maxFragment then WriteMessage env c op dat
      else if op = opText \<and> \<not> cf_utf8Check (ev_conf env) dat then Some (c, Some ErrTextNotUTF8)
      else
        let rsv1 = rsv1_of env op in
        case (if rsv1 then encoode env c dat else (c, Inr dat)) of
          (c, Inl e) \<Rightarrow> Some (c, Some e)
        | (c, Inr dat) \<Rightarrow>
            (case (if isClient_ws c then next_mask c else (c, 0)) of
               (c, maskValue) \<Rightarrow> fragments env c op dat maxFragment rsv1 maskValue))"

abbreviation maxControlFrameSize :: nat where "maxControlFrameSize \<equiv> 125"

definition WriteTimeout ::
  "('u, 'z) ws_env \<Rightarrow> ('u, 'z) wconn \<Rightarrow> opcode \<Rightarrow> bytes \<Rightarrow> int \<Rightarrow> (('u, 'z) wconn \<times> ws_err option) option" where
  "WriteTimeout env c op dat t =
     (case setWriteDeadline c (Some t) of
        (c, Some e) \<Rightarrow> Some (c, Some e)
      | (c, None) \<Rightarrow>
          map_option (\<lambda>(c, err). (fst (setWriteDeadline c None), err)) (WriteMessage env c op dat))"

definition WriteControl ::
  "('u, 'z) ws_env \<Rightarrow> ('u, 'z) wconn \<Rightarrow> opcode \<Rightarrow> bytes \<Rightarrow> (('u, 'z) wconn \<times> ws_err option) option" where
  "WriteControl env c op dat =
     (if length dat > maxControlFrameSize then Some (c, Some ErrMaxControlFrameSize)
      else WriteMessage env c op dat)"

definition WriteCloseTimeout ::
  "('u, 'z) ws_env \<Rightarrow> ('u, 'z) wconn \<Rightarrow> status_code \<Rightarrow> int \<Rightarrow> (('u, 'z) wconn \<times> ws_err option) option" where
  "WriteCloseTimeout env c sc t = WriteTimeout env c opClose (StatusCode_toBytes sc) t"

definition WritePing :: "('u, 'z) ws_env \<Rightarrow> ('u, 'z) wconn \<Rightarrow> bytes \<Rightarrow> (('u, 'z) wconn \<times> ws_err option) option" where
  "WritePing env c dat = WriteControl env c opPing dat"

definition WritePong :: "('u, 'z) ws_env \<Rightarrow> ('u, 'z) wconn \<Rightarrow> bytes \<Rightarrow> (('u, 'z) wconn \<times> ws_err option) option" where
  "WritePong env c dat = WriteControl env c opPong dat"

text \<open>One request of a callback, and the whole callback.\<close>

definition do_req :: "('u, 'z) ws_env \<Rightarrow> ('u, 'z) wconn \<Rightarrow> ws_req \<Rightarrow> (('u, 'z) wconn \<times> ws_err option) option" where
  "do_req env c q =
     (case q of
        ReqWriteMessage op dat \<Rightarrow> WriteMessage env c op dat
      | ReqWriteTimeout op dat t \<Rightarrow> WriteTimeout env c op dat t
      | ReqWriteControl op dat \<Rightarrow> WriteControl env c op dat
      | ReqWriteCloseTimeout sc t \<Rightarrow> WriteCloseTimeout env c sc t
      | ReqClose \<Rightarrow> Some (Close_ws env c, None))"

primrec run_script :: "('u, 'z) ws_env \<Rightarrow> 'u script \<Rightarrow> ('u, 'z) wconn \<Rightarrow> ('u, 'z) wconn option" where
  "run_script env (Return u) c = Some (c\<lparr>wc_user := u\<rparr>)"
| "run_script env (Call q k) c =
     (case do_req env c q of None \<Rightarrow> None | Some (c, err) \<Rightarrow> run_script env (k err) c)"

definition call_OnMessage ::
  "('u, 'z) ws_env \<Rightarrow> ('u, 'z) wconn \<Rightarrow> opcode \<Rightarrow> bytes \<Rightarrow> ('u, 'z) wconn option" where
  "call_OnMessage env c op dat =
     run_script env (ev_OnMessage env (wc_user c) op dat) (c\<lparr>wc_calls := wc_calls c @ [OnMessage op dat]\<rparr>)"

end
