(* ===== verification/Ws_Write.thy ===== *)
theory Ws_Write
  imports Ws_Conn
begin

text \<open>
  What is written on a WebSocket connection: under a kernel without hard errors everything
  is accepted, and what the kernel took followed by what waits is the frames in the order
  they were written, corked or not.
\<close>

section \<open>Bits\<close>

lemma state_of_bits: "getCurState (c\<lparr>wc_packed := p\<rparr>) =
    (let s = p AND ws_stateMask in if s = 0 then HeaderStart else if s = 1 then HeaderPayloadAndMask else Payload)"
  by (simp add: getCurState_def)

lemma clear_and: "(p AND NOT a) AND a = (0 :: u32)"
  by (intro bit_word_eqI) (simp add: bit_and_iff bit_not_iff)

lemma set_and: "((p OR a) AND a) = (a :: u32)"
  by (intro bit_word_eqI) (auto simp: bit_and_iff bit_or_iff)

lemma field_and: "((p AND NOT m) OR (s AND m)) AND m = s AND (m :: u32)"
  by (intro bit_word_eqI) (auto simp: bit_and_iff bit_or_iff bit_not_iff)

lemma field_and_other:
  assumes "m AND k = 0"
  shows "((p AND NOT m) OR (s AND m)) AND k = p AND (k :: u32)"
proof -
  have "\<not> (bit m n \<and> bit k n)" for n
    using arg_cong [OF assms, of "\<lambda>w. bit w n"] by (simp add: bit_and_iff)
  then show ?thesis by (intro bit_word_eqI) (auto simp: bit_and_iff bit_or_iff bit_not_iff)
qed

lemma corking_bits [simp]:
  "isCorking_ws (setCorking_ws v c) = v"
  "getCurState (setCorking_ws v c) = getCurState c"
  "isClient_ws (setCorking_ws v c) = isClient_ws c"
  using clear_and [of "wc_packed c" 64] set_and [of "wc_packed c" 64]
  by (simp_all add: isCorking_ws_def getCurState_def isClient_ws_def setCorking_ws_def and_or_disjoint
      and_not_disjoint [of 64 3, simplified] and_not_disjoint [of 64 4, simplified])

lemma cur_state_bits [simp]:
  "getCurState (setCurState st c) = st"
  "isCorking_ws (setCurState st c) = isCorking_ws c"
  "isClient_ws (setCurState st c) = isClient_ws c"
proof -
  have "wc_packed (setCurState st c) AND ws_stateMask = state_bits st AND ws_stateMask"
    using field_and [of "wc_packed c" 3 "state_bits st"] by (simp add: setCurState_def)
  then show "getCurState (setCurState st c) = st" by (cases st) (simp_all add: getCurState_def state_bits_def Let_def)
  show "isCorking_ws (setCurState st c) = isCorking_ws c" "isClient_ws (setCurState st c) = isClient_ws c"
    using field_and_other [of 3 64 "wc_packed c" "state_bits st"] field_and_other [of 3 4 "wc_packed c" "state_bits st"]
    by (simp_all add: isCorking_ws_def isClient_ws_def setCurState_def)
qed

section \<open>The invariant of the writing half\<close>

definition written_ws :: "('u, 'z) wconn \<Rightarrow> bytes" where
  "written_ws c = wc_sent c @ waiting (wc_wbufList c)"

text \<open>An open connection, no nil in the list, a kernel without hard errors; and a corked
  connection has nothing waiting in front of the batch.\<close>

definition ws_ready :: "('u, 'z) wconn \<Rightarrow> bool" where
  "ws_ready c =
     (\<not> wc_closed c \<and> wc_fd c \<noteq> -1 \<and> soft_tx (wc_tx c) \<and> list_all (\<lambda>w. w \<noteq> None) (wc_wbufList c)
      \<and> (isCorking_ws c \<longrightarrow> length (wc_wbufList c) \<le> 1))"

text \<open>Writing leaves the rest of the connection alone.\<close>

definition same_rest :: "('u, 'z) wconn \<Rightarrow> ('u, 'z) wconn \<Rightarrow> bool" where
  "same_rest c c' =
     (wc_fd c' = wc_fd c \<and> wc_rbuf c' = wc_rbuf c \<and> wc_rdata c' = wc_rdata c \<and> wc_rr c' = wc_rr c
      \<and> wc_lenAndMaskSize c' = wc_lenAndMaskSize c \<and> wc_rh c' = wc_rh c
      \<and> wc_fragmentPayload c' = wc_fragmentPayload c \<and> wc_fragmentHeader c' = wc_fragmentHeader c
      \<and> getCurState c' = getCurState c \<and> isClient_ws c' = isClient_ws c
      \<and> wc_once c' = wc_once c \<and> wc_closed c' = wc_closed c \<and> wc_deCtx c' = wc_deCtx c
      \<and> wc_rx c' = wc_rx c \<and> wc_log c' = wc_log c \<and> wc_tasks c' = wc_tasks c
      \<and> wc_user c' = wc_user c \<and> wc_calls c' = wc_calls c)"

lemma same_rest_refl [simp]: "same_rest c c"
  by (simp add: same_rest_def)

lemma same_rest_trans: "same_rest a b \<Longrightarrow> same_rest b c \<Longrightarrow> same_rest a c"
  by (simp add: same_rest_def)

lemma same_rest_updates [simp]:
  "same_rest c (d\<lparr>wc_wbufList := ws\<rparr>) = same_rest c d" "same_rest c (d\<lparr>wc_tx := ks\<rparr>) = same_rest c d"
  "same_rest c (d\<lparr>wc_sent := b\<rparr>) = same_rest c d" "same_rest c (d\<lparr>wc_armed := a\<rparr>) = same_rest c d"
  "same_rest c (d\<lparr>wc_wtime := w\<rparr>) = same_rest c d" "same_rest c (setCorking_ws v d) = same_rest c d"
  by (simp_all add: same_rest_def getCurState_def isClient_ws_def
      corking_bits(2,3) [unfolded getCurState_def isClient_ws_def Let_def] Let_def)
    (simp_all add: setCorking_ws_def)

lemma corking_updates [simp]:
  "isCorking_ws (d\<lparr>wc_wbufList := ws\<rparr>) = isCorking_ws d" "isCorking_ws (d\<lparr>wc_tx := ks\<rparr>) = isCorking_ws d"
  "isCorking_ws (d\<lparr>wc_sent := b\<rparr>) = isCorking_ws d" "isCorking_ws (d\<lparr>wc_armed := a\<rparr>) = isCorking_ws d"
  "isCorking_ws (d\<lparr>wc_wtime := w\<rparr>) = isCorking_ws d"
  by (simp_all add: isCorking_ws_def)

lemma setCorking_fields [simp]:
  "wc_wbufList (setCorking_ws v c) = wc_wbufList c" "wc_tx (setCorking_ws v c) = wc_tx c"
  "wc_sent (setCorking_ws v c) = wc_sent c" "wc_closed (setCorking_ws v c) = wc_closed c"
  "wc_fd (setCorking_ws v c) = wc_fd c" "wc_armed (setCorking_ws v c) = wc_armed c"
  by (simp_all add: setCorking_ws_def)

text \<open>An operation that accepts \<open>dat\<close>.\<close>

definition accepts :: "('u, 'z) wconn \<Rightarrow> bytes \<Rightarrow> ('u, 'z) wconn \<Rightarrow> bool" where
  "accepts c dat c' = (same_rest c c' \<and> ws_ready c' \<and> written_ws c' = written_ws c @ dat)"

lemma accepts_trans: "accepts a x b \<Longrightarrow> accepts b y c \<Longrightarrow> accepts a (x @ y) c"
  by (auto simp: accepts_def intro: same_rest_trans)

lemma accepts_refl: "ws_ready c \<Longrightarrow> accepts c [] c"
  by (simp add: accepts_def)

section \<open>The socket and the list\<close>

lemma socketWrite_ws_cases:
  assumes "socketWrite_ws c b = (c', n, err)" and "soft_tx (wc_tx c)"
  shows "\<exists>ks. c' = c\<lparr>wc_tx := ks, wc_sent := wc_sent c @ take n b\<rparr> \<and> soft_tx ks \<and> n \<le> length b \<and> soft err
    \<and> (err \<noteq> None \<longrightarrow> n = 0)"
  using assms by (cases c) (auto simp: socketWrite_ws_def Let_def split: if_splits list.splits tx_answer.splits)

lemma socketWritev_ws_cases:
  assumes "socketWritev_ws c segs = (c', n, err)" and "soft_tx (wc_tx c)"
  shows "\<exists>ks. c' = c\<lparr>wc_tx := ks, wc_sent := wc_sent c @ take n (concat segs)\<rparr> \<and> soft_tx ks \<and> n \<le> length (concat segs)
    \<and> soft err \<and> (err \<noteq> None \<longrightarrow> n = 0)"
  using assms by (cases c) (auto simp: socketWritev_ws_def Let_def split: if_splits list.splits tx_answer.splits)

lemma lib_GetBytes:
  assumes "lib_ok l" and "0 \<le> n"
  obtains len cap where "wl_GetBytes l n = Some (len, cap)" and "n \<le> int len" and "len \<le> cap"
  using assms by (auto simp: lib_ok_def)

lemma pooled_ok:
  assumes "lib_ok (ev_lib env)" and "int (length dat) \<le> n"
  obtains cap where "pooled env n dat = Some (Some (dat, cap))"
proof -
  have "0 \<le> n" using assms(2) by simp
  then obtain len cap where "GetBytes env n = Some (len, cap)" "n \<le> int len" by (rule lib_GetBytes [OF assms(1)])
  then have "pooled env n dat = Some (Some (dat, cap))" using assms(2) by (simp add: pooled_def)
  then show ?thesis by (rule that)
qed

lemma new_bufs_ok:
  assumes "lib_ok (ev_lib env)"
  shows "\<exists>ws. new_bufs env dat k = Some ws \<and> list_all (\<lambda>w. w \<noteq> None) ws \<and> waiting ws = dat"
proof (cases "dat = []")
  case False
  have "0 \<le> int (length dat + k)" by simp
  then obtain len cap where g: "GetBytes env (int (length dat + k)) = Some (len, cap)"
      "int (length dat + k) \<le> int len" "len \<le> cap"
    by (rule lib_GetBytes [OF assms])
  then have "length dat \<le> len" "length dat \<le> cap" by simp_all
  then show ?thesis using False g by (simp add: new_bufs.simps Let_def)
qed (simp add: new_bufs.simps)

lemma append_ok:
  assumes "lib_ok (ev_lib env)" and "list_all (\<lambda>w. w \<noteq> None) (wc_wbufList c)"
  shows "\<exists>ws. appendToWbufList_ws env c dat k = Some (c\<lparr>wc_wbufList := ws\<rparr>) \<and> list_all (\<lambda>w. w \<noteq> None) ws
    \<and> waiting ws = waiting (wc_wbufList c) @ dat"
proof (cases "dat = [] \<or> wc_wbufList c = []")
  case True
  have "int (length dat) \<le> int (length dat + k)" by simp
  then obtain cap where p: "pooled env (int (length dat + k)) dat = Some (Some (dat, cap))"
    by (rule pooled_ok [OF assms(1)])
  show ?thesis
  proof (cases "dat = []")
    case True
    then show ?thesis using assms(2) by (intro exI [of _ "wc_wbufList c"]) (simp add: appendToWbufList_ws_def)
  next
    case False
    then show ?thesis using True p
      by (intro exI [of _ "[Some (dat, cap)]"]) (simp add: appendToWbufList_ws_def)
  qed
next
  case False
  then obtain ws w where ws: "wc_wbufList c = ws @ [w]" by (metis rev_exhaust)
  then obtain b cap where w: "w = Some (b, cap)" using assms(2) by auto
  obtain us where "new_bufs env (drop (cap - length b) dat) k = Some us" "list_all (\<lambda>w. w \<noteq> None) us"
      "waiting us = drop (cap - length b) dat"
    using new_bufs_ok [OF assms(1)] by blast
  then show ?thesis using False ws w assms(2) by (auto simp: appendToWbufList_ws_def Let_def)
qed

lemma after_partial_ok:
  assumes "lib_ok (ev_lib env)"
  shows "\<exists>a. after_partial env c = (c\<lparr>wc_armed := a\<rparr>, None)"
proof (cases "cf_flowBackPressureRemoveRead (ev_conf env)")
  case True
  then have "after_partial env c = (c\<lparr>wc_armed := wc_armed c\<rparr>, None)" by (simp add: after_partial_def)
  then show ?thesis ..
next
  case False
  then show ?thesis using assms by (auto simp: after_partial_def addWrite_ws_def lib_ok_def)
qed

lemma write_bufs_ok:
  assumes "lib_ok (ev_lib env)" and "list_all (\<lambda>w. w \<noteq> None) ws" and "soft_tx (wc_tx c)"
  shows "\<exists>c' ks b a us. write_bufs env n c before ws = (c', n, None)
    \<and> c' = c\<lparr>wc_tx := ks, wc_sent := wc_sent c @ b, wc_armed := a, wc_wbufList := us\<rparr>
    \<and> soft_tx ks \<and> list_all (\<lambda>w. w \<noteq> None) us \<and> b @ waiting us = waiting ws \<and> length us \<le> length ws"
  using assms(2,3)
proof (induction ws arbitrary: c before)
  case Nil
  show ?case by (rule exI [of _ "c\<lparr>wc_wbufList := []\<rparr>"], rule exI [of _ "wc_tx c"], rule exI [of _ "[]"],
      rule exI [of _ "wc_armed c"], rule exI [of _ "[]"]) (use Nil in \<open>cases c, simp\<close>)
next
  case (Cons w ws)
  then obtain b cap where w: "w = Some (b, cap)" by auto
  obtain c1 k err where s: "socketWrite_ws c b = (c1, k, err)" by (rule prod_cases3)
  obtain ks where c1: "c1 = c\<lparr>wc_tx := ks, wc_sent := wc_sent c @ take k b\<rparr>" "soft_tx ks" "k \<le> length b" "soft err"
    using socketWrite_ws_cases [OF s Cons.prems(2)] by blast
  show ?case
  proof (cases "k = length b")
    case True
    have "list_all (\<lambda>w. w \<noteq> None) ws" using Cons.prems(1) by simp
    from Cons.IH [OF this, of c1 "before @ [None]"] c1
    obtain c' ks' b' a us where "write_bufs env n c1 (before @ [None]) ws = (c', n, None)"
      "c' = c1\<lparr>wc_tx := ks', wc_sent := wc_sent c1 @ b', wc_armed := a, wc_wbufList := us\<rparr>"
      "soft_tx ks'" "list_all (\<lambda>w. w \<noteq> None) us" "b' @ waiting us = waiting ws" "length us \<le> length ws"
      by (auto simp del: write_bufs.simps)
    then show ?thesis using c1 True
      by (intro exI [of _ c'] exI [of _ ks'] exI [of _ "b @ b'"] exI [of _ a] exI [of _ us]) (simp add: w s)
  next
    case False
    obtain a where a: "after_partial env c1 = (c1\<lparr>wc_armed := a\<rparr>, None)" using after_partial_ok [OF assms(1)] by blast
    show ?thesis using c1 False a Cons.prems(1)
      by (intro exI [of _ "c1\<lparr>wc_armed := a, wc_wbufList := Some (drop k b, cap) # ws\<rparr>"] exI [of _ ks]
          exI [of _ "take k b"] exI [of _ a] exI [of _ "Some (drop k b, cap) # ws"]) (simp add: w s)
  qed
qed

text \<open>\<open>write\<close> accepts what it is given; \<open>dat\<close> may be empty (a flush).\<close>

lemma write_ok_ws:
  assumes lib: "lib_ok (ev_lib env)" and c: "ws_ready c" "\<not> isCorking_ws c"
  shows "\<exists>c' n. write_ws env c dat = Some (c', n, None) \<and> accepts c dat c' \<and> isCorking_ws c' = isCorking_ws c"
proof -
  have soft: "soft_tx (wc_tx c)" and full: "list_all (\<lambda>w. w \<noteq> None) (wc_wbufList c)" and fd: "wc_fd c \<noteq> -1"
    using c by (simp_all add: ws_ready_def)
  show ?thesis
  proof (cases "wc_wbufList c = []")
    case True
    show ?thesis
    proof (cases "dat = []")
      case True
      then show ?thesis using \<open>wc_wbufList c = []\<close> fd accepts_refl [OF c(1)] by (simp add: write_ws_def)
    next
      case False
      obtain c1 n err where s: "socketWrite_ws c dat = (c1, n, err)" by (rule prod_cases3)
      obtain ks where c1: "c1 = c\<lparr>wc_tx := ks, wc_sent := wc_sent c @ take n dat\<rparr>" "soft_tx ks" "n \<le> length dat" "soft err"
        using socketWrite_ws_cases [OF s soft] by blast
      show ?thesis
      proof (cases "n = length dat")
        case True
        then show ?thesis using s c1 c fd False \<open>wc_wbufList c = []\<close>
          by (simp add: write_ws_def accepts_def ws_ready_def written_ws_def)
      next
        case more: False
        obtain ws where ws: "appendToWbufList_ws env c1 (drop n dat) (length dat) = Some (c1\<lparr>wc_wbufList := ws\<rparr>)"
            "list_all (\<lambda>w. w \<noteq> None) ws" "waiting ws = drop n dat"
          using append_ok [OF lib, of c1] c1 True by auto
        obtain a where a: "after_partial env (c1\<lparr>wc_wbufList := ws\<rparr>) = (c1\<lparr>wc_wbufList := ws, wc_armed := a\<rparr>, None)"
          using after_partial_ok [OF lib] by blast
        show ?thesis using s c1 ws a c fd False more True
          by (simp add: write_ws_def accepts_def ws_ready_def written_ws_def)
      qed
    qed
  next
    case False
    obtain ws where ws: "appendToWbufList_ws env c dat (length dat) = Some (c\<lparr>wc_wbufList := ws\<rparr>)"
        "list_all (\<lambda>w. w \<noteq> None) ws" "waiting ws = waiting (wc_wbufList c) @ dat"
      using append_ok [OF lib full] by blast
    have e: "(if dat \<noteq> [] then appendToWbufList_ws env c dat (length dat) else Some c)
        = appendToWbufList_ws env c dat (length dat)"
      by (simp add: appendToWbufList_ws_def)
    obtain c' ks b a us where "write_bufs env (length dat) (c\<lparr>wc_wbufList := ws\<rparr>) [] ws = (c', length dat, None)"
      "c' = c\<lparr>wc_wbufList := ws, wc_tx := ks, wc_sent := wc_sent c @ b, wc_armed := a, wc_wbufList := us\<rparr>"
      "soft_tx ks" "list_all (\<lambda>w. w \<noteq> None) us" "b @ waiting us = waiting ws"
      using write_bufs_ok [OF lib ws(2), of "c\<lparr>wc_wbufList := ws\<rparr>" "length dat" "[]"] soft by auto
    then show ?thesis using False ws c fd
      by (simp add: write_ws_def e accepts_def ws_ready_def written_ws_def)
  qed
qed


section \<open>Corking\<close>

lemma corkStart_ok:
  assumes lib: "lib_ok (ev_lib env)" and c: "ws_ready c" "wc_wbufList c = []"
  shows "\<exists>c' cap. corkStartLocked env c n = Some c' \<and> accepts c [] c' \<and> isCorking_ws c' \<and> wc_wbufList c' = [Some ([], cap)]"
proof -
  let ?n = "min n maxCorkBytes"
  obtain cap where p: "pooled env (int (?n + ?n div 4)) [] = Some (Some ([], cap))"
    by (rule pooled_ok [OF lib, of "[]" "int (?n + ?n div 4)"]) simp_all
  then have "corkStartLocked env c n = Some (setCorking_ws True (c\<lparr>wc_wbufList := [Some ([], cap)]\<rparr>))"
    unfolding corkStartLocked_def Let_def by simp
  then show ?thesis using c by (simp add: accepts_def ws_ready_def written_ws_def)
qed

lemma maybeCork_ok:
  assumes "lib_ok (ev_lib env)" and "ws_ready c"
  shows "\<exists>c'. maybeCork env c = Some c' \<and> accepts c [] c'"
  using corkStart_ok [OF assms] accepts_refl [OF assms(2)] by (auto simp: maybeCork_def)

lemma cork_rest_ok:
  assumes lib: "lib_ok (ev_lib env)" and full: "list_all (\<lambda>w. w \<noteq> None) (wc_wbufList c)"
    and n: "n \<le> length seg + length hdr + length payload"
  shows "\<exists>ws. cork_rest env c n seg hdr payload = Some (c\<lparr>wc_wbufList := ws\<rparr>) \<and> list_all (\<lambda>w. w \<noteq> None) ws
    \<and> waiting ws = waiting (wc_wbufList c) @ drop n (seg @ hdr @ payload)"
proof -
  have step: "\<exists>ws. appendToWbufList_ws env (c\<lparr>wc_wbufList := vs\<rparr>) b k = Some (c\<lparr>wc_wbufList := ws\<rparr>)
      \<and> list_all (\<lambda>w. w \<noteq> None) ws \<and> waiting ws = waiting vs @ b" if "list_all (\<lambda>w. w \<noteq> None) vs" for vs b k
    using append_ok [OF lib, of "c\<lparr>wc_wbufList := vs\<rparr>" b k] that by simp
  define total where "total = length seg + length hdr + length payload"
  consider (seg) "n < length seg" | (hdr) "length seg \<le> n" "n < length seg + length hdr" | (payload) "length seg + length hdr \<le> n"
    by linarith
  then show ?thesis
  proof cases
    case seg
    obtain w1 where 1: "appendToWbufList_ws env c (drop n seg) (total - n) = Some (c\<lparr>wc_wbufList := w1\<rparr>)"
        "list_all (\<lambda>w. w \<noteq> None) w1" "waiting w1 = waiting (wc_wbufList c) @ drop n seg"
      using step [OF full] by auto
    obtain w2 where 2: "appendToWbufList_ws env (c\<lparr>wc_wbufList := w1\<rparr>) hdr (length hdr + length payload) = Some (c\<lparr>wc_wbufList := w2\<rparr>)"
        "list_all (\<lambda>w. w \<noteq> None) w2" "waiting w2 = waiting w1 @ hdr"
      using step [OF 1(2)] by blast
    obtain w3 where 3: "appendToWbufList_ws env (c\<lparr>wc_wbufList := w2\<rparr>) payload (length payload) = Some (c\<lparr>wc_wbufList := w3\<rparr>)"
        "list_all (\<lambda>w. w \<noteq> None) w3" "waiting w3 = waiting w2 @ payload"
      using step [OF 2(2)] by blast
    show ?thesis using seg 1 2 3 by (intro exI [of _ w3]) (simp add: cork_rest_def Let_def total_def)
  next
    case hdr
    obtain w1 where 1: "appendToWbufList_ws env c (drop (n - length seg) hdr) (length hdr + length payload - n + length seg) = Some (c\<lparr>wc_wbufList := w1\<rparr>)"
        "list_all (\<lambda>w. w \<noteq> None) w1" "waiting w1 = waiting (wc_wbufList c) @ drop (n - length seg) hdr"
      using step [OF full] by auto
    obtain w2 where 2: "appendToWbufList_ws env (c\<lparr>wc_wbufList := w1\<rparr>) payload (length payload) = Some (c\<lparr>wc_wbufList := w2\<rparr>)"
        "list_all (\<lambda>w. w \<noteq> None) w2" "waiting w2 = waiting w1 @ payload"
      using step [OF 1(2)] by blast
    show ?thesis using hdr 1 2 by (intro exI [of _ w2]) (simp add: cork_rest_def Let_def)
  next
    case payload
    obtain w1 where 1: "appendToWbufList_ws env c (drop (n - length seg - length hdr) payload) (total - n) = Some (c\<lparr>wc_wbufList := w1\<rparr>)"
        "list_all (\<lambda>w. w \<noteq> None) w1" "waiting w1 = waiting (wc_wbufList c) @ drop (n - length seg - length hdr) payload"
      using step [OF full] by auto
    show ?thesis using payload 1 by (intro exI [of _ w1]) (simp add: cork_rest_def Let_def total_def)
  qed
qed

lemma growCork_cases:
  assumes lib: "lib_ok (ev_lib env)"
  shows "\<exists>r. growCork env (b, cap) need = Some r \<and> (r = None \<or> (\<exists>cap'. r = Some (b, cap')))"
proof -
  have "0 \<le> int corkGrowBytes" by simp
  then obtain len pcap where g: "GetBytes env (int corkGrowBytes) = Some (len, pcap)"
    by (rule lib_GetBytes [OF lib])
  show ?thesis
    by (cases "cap \<ge> corkGrowBytes \<or> need > corkGrowBytes"; cases "pcap < need") (use g in \<open>simp_all add: growCork_def\<close>)
qed

lemma corkWrite_full:
  assumes "wc_wbufList c = [Some (b, cap)]" and "\<not> length b + length (wsHeader op (length dat)) + length dat \<le> cap"
    and "growCork env (b, cap) (length b + length (wsHeader op (length dat)) + length dat) = Some None"
  shows "corkWrite env c op dat =
    (case socketWritev_ws c [b, wsHeader op (length dat), dat] of
       (c, n, err) \<Rightarrow>
         if err = None \<and> n = length b + length (wsHeader op (length dat)) + length dat then
           Some (c\<lparr>wc_wbufList := [Some ([], cap)]\<rparr>, None)
         else if soft err then
           Option.bind (cork_rest env (setCorking_ws False (c\<lparr>wc_wbufList := [Some ([], cap)]\<rparr>)) n b
               (wsHeader op (length dat)) dat)
             (\<lambda>c. Some (addWrite_ws env c))
         else Some (c\<lparr>wc_wbufList := [Some ([], cap)]\<rparr>, map_option SysErr err))"
  unfolding corkWrite_def Let_def using assms
  by (cases "socketWritev_ws c [b, wsHeader op (length dat), dat]") simp

lemma corkWrite_into:
  assumes lib: "lib_ok (ev_lib env)" and c: "ws_ready c" "wc_wbufList c = [Some (b, cap)]"
  shows "\<exists>c'. corkWrite env c op dat = Some (c', None) \<and> accepts c (wsHeader op (length dat) @ dat) c'"
proof -
  let ?h = "wsHeader op (length dat)"
  let ?need = "length b + length ?h + length dat"
  have soft: "soft_tx (wc_tx c)" using c(1) by (simp add: ws_ready_def)
  have put: "accepts c (?h @ dat) (c\<lparr>wc_wbufList := [Some (b @ ?h @ dat, cap')]\<rparr>)" for cap'
    using c by (simp add: accepts_def ws_ready_def written_ws_def)
  show ?thesis
  proof (cases "?need \<le> cap")
    case True
    then show ?thesis using put [of cap] c by (simp add: corkWrite_def Let_def)
  next
    case False
    obtain r where r: "growCork env (b, cap) ?need = Some r" "r = None \<or> (\<exists>cap'. r = Some (b, cap'))"
      using growCork_cases [OF lib, of b cap ?need] by (elim exE conjE) (rule that)
    show ?thesis
    proof (cases r)
      case (Some bc)
      then obtain cap' where "r = Some (b, cap')" using r(2) by auto
      then show ?thesis using put [of cap'] c False r(1) by (simp add: corkWrite_def Let_def)
    next
      case None
      obtain c1 n err where s: "socketWritev_ws c [b, ?h, dat] = (c1, n, err)" by (rule prod_cases3)
      have segs: "concat [b, ?h, dat] = b @ ?h @ dat" by simp
      obtain ks where c1: "c1 = c\<lparr>wc_tx := ks, wc_sent := wc_sent c @ take n (b @ ?h @ dat)\<rparr>" "soft_tx ks"
          and le: "n \<le> length (b @ ?h @ dat)" and err: "soft err" "err \<noteq> None \<longrightarrow> n = 0"
        using socketWritev_ws_cases [OF s soft] unfolding segs by blast
      have w: "corkWrite env c op dat =
          (if err = None \<and> n = ?need then Some (c1\<lparr>wc_wbufList := [Some ([], cap)]\<rparr>, None)
           else Option.bind (cork_rest env (setCorking_ws False (c1\<lparr>wc_wbufList := [Some ([], cap)]\<rparr>)) n b ?h dat)
             (\<lambda>c. Some (addWrite_ws env c)))"
        unfolding corkWrite_full [OF c(2) False r(1) [unfolded None]] s prod.case by (simp only: err(1) if_True)
      show ?thesis
      proof (cases "err = None \<and> n = ?need")
        case True
        then show ?thesis using w c c1 by (simp add: accepts_def ws_ready_def written_ws_def)
      next
        case False
        let ?d = "setCorking_ws False (c1\<lparr>wc_wbufList := [Some ([], cap)]\<rparr>)"
        obtain ws where ws: "cork_rest env ?d n b ?h dat = Some (?d\<lparr>wc_wbufList := ws\<rparr>)"
            "list_all (\<lambda>w. w \<noteq> None) ws" "waiting ws = drop n (b @ ?h @ dat)"
          using cork_rest_ok [OF lib, of ?d n b ?h dat] le by auto
        have all: "take n (b @ ?h @ dat) @ drop n (b @ ?h @ dat) = b @ ?h @ dat" by (rule append_take_drop_id)
        have "accepts c (?h @ dat) (?d\<lparr>wc_wbufList := ws, wc_armed := True\<rparr>)"
          using c c1 ws all by (simp add: accepts_def ws_ready_def written_ws_def del: take_append drop_append)
        moreover have "corkWrite env c op dat = Some (?d\<lparr>wc_wbufList := ws, wc_armed := True\<rparr>, None)"
          using w False ws lib by (simp add: addWrite_ws_def lib_ok_def)
        ultimately show ?thesis by blast
      qed
    qed
  qed
qed

lemma corkWrite_ok:
  assumes lib: "lib_ok (ev_lib env)" and c: "ws_ready c" "isCorking_ws c"
  shows "\<exists>c'. corkWrite env c op dat = Some (c', None) \<and> accepts c (wsHeader op (length dat) @ dat) c'"
proof (cases "wc_wbufList c = []")
  case True
  obtain c1 cap where c1: "corkStartLocked env c (length dat) = Some c1" "accepts c [] c1" "wc_wbufList c1 = [Some ([], cap)]"
    using corkStart_ok [OF lib c(1) True] by blast
  then have "ws_ready c1" by (simp add: accepts_def)
  from corkWrite_into [OF lib this c1(3)] obtain c2
    where c2: "corkWrite env c1 op dat = Some (c2, None)" "accepts c1 (wsHeader op (length dat) @ dat) c2" by blast
  moreover have "corkWrite env c op dat = corkWrite env c1 op dat" using True c1 by (simp add: corkWrite_def)
  ultimately show ?thesis using accepts_trans [OF c1(2) c2(2)] by auto
next
  case False
  then obtain b cap where "wc_wbufList c = [Some (b, cap)]"
    using c by (cases "wc_wbufList c") (auto simp: ws_ready_def Suc_le_eq)
  with corkWrite_into [OF lib c(1)] show ?thesis .
qed

text \<open>The end of a batch.\<close>

lemma flush_ok:
  assumes "lib_ok (ev_lib env)" and "ws_ready c" "\<not> isCorking_ws c"
  shows "\<exists>c'. flush_ws env c = Some c' \<and> accepts c [] c' \<and> \<not> isCorking_ws c'"
  using write_ok_ws [OF assms, of "[]"] assms(2,3) by (auto simp: flush_ws_def connWrite_def isClosed_ws_def ws_ready_def)

lemma corkEnd_ok:
  assumes lib: "lib_ok (ev_lib env)" and c: "ws_ready c"
  shows "\<exists>c'. corkEnd env c = Some c' \<and> accepts c [] c' \<and> \<not> isCorking_ws c'"
proof (cases "isCorking_ws c")
  case False
  then show ?thesis using accepts_refl [OF c] by (simp add: corkEnd_def)
next
  case True
  let ?c = "setCorking_ws False c"
  have r: "ws_ready ?c" and a: "accepts c [] ?c" using c by (simp_all add: ws_ready_def accepts_def written_ws_def)
  obtain c' where f: "flush_ws env ?c = Some c'" "accepts ?c [] c'" "\<not> isCorking_ws c'"
    using flush_ok [OF lib r] by auto
  have fl: "accepts c [] c'" using accepts_trans [OF a f(2)] by simp
  consider "wc_wbufList c = []" | cap where "wc_wbufList c = [Some ([], cap)]"
    | b cap where "wc_wbufList c = [Some (b, cap)]" "b \<noteq> []"
    using c True by (cases "wc_wbufList c") (auto simp: ws_ready_def Suc_le_eq)
  then show ?thesis
  proof cases
    case 1
    then show ?thesis using True a by (simp add: corkEnd_def Let_def)
  next
    case (2 cap)
    then have "accepts c [] (?c\<lparr>wc_wbufList := []\<rparr>)" using c by (simp add: accepts_def ws_ready_def written_ws_def)
    then show ?thesis using True 2 by (simp add: corkEnd_def Let_def)
  next
    case (3 b cap)
    then have "corkEnd env c = flush_ws env ?c" using True by (cases b) (simp_all add: corkEnd_def Let_def)
    then show ?thesis using f fl by (intro exI [of _ c']) simp
  qed
qed

section \<open>Messages\<close>

text \<open>A server without compression whose callbacks run in place.\<close>

definition plain_server :: "('u, 'z) ws_env \<Rightarrow> bool" where
  "plain_server env =
     (lib_ok (ev_lib env) \<and> \<not> cf_runInGoTask (ev_conf env)
      \<and> \<not> pd_Compression (ev_pd env) \<and> \<not> pd_Decompression (ev_pd env))"

lemma sent_or_queued_ok:
  assumes lib: "lib_ok (ev_lib env)" and c: "ws_ready c" "wc_wbufList c = []"
    and s: "c1 = c\<lparr>wc_tx := ks, wc_sent := wc_sent c @ take n all\<rparr>" "soft_tx ks" "n \<le> length all" "soft err" "err \<noteq> None \<longrightarrow> n = 0"
    and cork: "\<not> isCorking_ws c"
  shows "\<exists>c'. sent_or_queued env all (c1, n, err) = Some (c', None) \<and> accepts c all c'"
proof (cases "err = None \<and> n = length all")
  case True
  then show ?thesis using c s by (simp add: sent_or_queued_def accepts_def ws_ready_def written_ws_def)
next
  case False
  obtain ws where "appendToWbufList_ws env c1 (drop n all) (length all - n) = Some (c1\<lparr>wc_wbufList := ws\<rparr>)"
      "list_all (\<lambda>w. w \<noteq> None) ws" "waiting ws = drop n all"
    using append_ok [OF lib, of c1 "drop n all" "length all - n"] s(1) c by auto
  then show ?thesis using c s False lib cork
    by (simp add: sent_or_queued_def accepts_def ws_ready_def written_ws_def addWrite_ws_def lib_ok_def)
qed

lemma write_plain_ok:
  assumes env: "plain_server env" and c: "ws_ready c" "\<not> isClient_ws c"
  shows "\<exists>c'. write_plain env c op dat False k = Some (c', None) \<and> accepts c (wsHeader op (length dat) @ dat) c'"
proof -
  have lib: "lib_ok (ev_lib env)" and io: "\<not> cf_runInGoTask (ev_conf env)" and soft: "soft_tx (wc_tx c)"
    using env c by (simp_all add: plain_server_def ws_ready_def)
  let ?h = "wsHeader op (length dat)"
  show ?thesis
  proof (cases "isCorking_ws c")
    case True
    then show ?thesis using corkWrite_ok [OF lib c(1) True] by (simp add: write_plain_def)
  next
    case cork: False
    show ?thesis
    proof (cases "wc_wbufList c = [] \<and> length dat \<le> 65535")
      case True
      obtain c1 n err where s: "socketWrite_ws c (?h @ dat) = (c1, n, err)" by (rule prod_cases3)
      obtain c2 m err2 where v: "socketWritev_ws c [?h, dat] = (c2, m, err2)" by (rule prod_cases3)
      obtain ks where "c1 = c\<lparr>wc_tx := ks, wc_sent := wc_sent c @ take n (?h @ dat)\<rparr>" "soft_tx ks"
          "n \<le> length (?h @ dat)" "soft err" "err \<noteq> None \<longrightarrow> n = 0"
        using socketWrite_ws_cases [OF s soft] by blast
      note a = sent_or_queued_ok [OF lib c(1) _ this cork]
      obtain ls where "c2 = c\<lparr>wc_tx := ls, wc_sent := wc_sent c @ take m (?h @ dat)\<rparr>" "soft_tx ls"
          "m \<le> length (?h @ dat)" "soft err2" "err2 \<noteq> None \<longrightarrow> m = 0"
        using socketWritev_ws_cases [OF v soft] by auto
      note b = sent_or_queued_ok [OF lib c(1) _ this cork]
      show ?thesis using a b True cork io c(2) s v by (cases "length dat \<le> 4096") (auto simp: write_plain_def Let_def)
    next
      case False
      have "wl_WriteFrame (ev_lib env) dat True False False op k = ?h @ dat" using lib by (simp add: lib_ok_def)
      moreover obtain c' n where "write_ws env c (?h @ dat) = Some (c', n, None)" "accepts c (?h @ dat) c'"
        using write_ok_ws [OF lib c(1) cork] by blast
      ultimately show ?thesis using False cork c
        by (auto simp: write_plain_def write_frame_def connWrite_def isClosed_ws_def ws_ready_def Let_def)
    qed
  qed
qed

text \<open>\<open>WriteMessage\<close>: a text that is not UTF-8 is refused, anything else is accepted.\<close>

definition sendable :: "('u, 'z) ws_env \<Rightarrow> opcode \<Rightarrow> bytes \<Rightarrow> bool" where
  "sendable env op dat = (op = opText \<longrightarrow> cf_utf8Check (ev_conf env) dat)"

lemma WriteMessage_ok:
  assumes env: "plain_server env" and c: "ws_ready c" "\<not> isClient_ws c"
  shows "sendable env op dat \<Longrightarrow>
      \<exists>c'. WriteMessage env c op dat = Some (c', None) \<and> accepts c (wsHeader op (length dat) @ dat) c'"
    and "\<not> sendable env op dat \<Longrightarrow> WriteMessage env c op dat = Some (c, Some ErrTextNotUTF8)"
  using write_plain_ok [OF assms] env c
  by (auto simp: WriteMessage_def sendable_def isClosed_ws_def ws_ready_def rsv1_of_def plain_server_def Let_def)

end
