(* ===== verification/Ws_Read.thy ===== *)
theory Ws_Read
  imports Ws_Conn
begin

text \<open>
  The reading half of the WebSocket connection (\<^verbatim>\<open>websocket/conn_core.go\<close>,
  \<^verbatim>\<open>processWebsocketFrame\<close> of \<^verbatim>\<open>conn_unix.go\<close>): the frame parser with its three states over a
  buffer that is moved and replaced, the messages put together from fragments, the replies
  to control frames, and the loop that reads the socket. The callbacks run in place or go
  to the task executor's queue.
\<close>

section \<open>The read buffer\<close>

definition leftMove :: "('u, 'z) wconn \<Rightarrow> ('u, 'z) wconn" where
  "leftMove c = (if wc_rr c = 0 then c else c\<lparr>wc_rdata := drop (wc_rr c) (wc_rdata c), wc_rr := 0\<rparr>)"

definition rbuf_len :: "('u, 'z) wconn \<Rightarrow> nat" where
  "rbuf_len c = (case wc_rbuf c of Some n \<Rightarrow> n | None \<Rightarrow> 0)"

definition readBufferSize :: "('u, 'z) ws_env \<Rightarrow> ('u, 'z) wconn \<Rightarrow> int" where
  "readBufferSize env c = cf_window (ev_conf env) (fh_PayloadLen (wc_rh c)) + int (wl_MaxFrameHeaderSize (ev_lib env))"

abbreviation ws_batchReadBufferSize :: nat where "ws_batchReadBufferSize \<equiv> 16 * 1024"

text \<open>\<open>growReadBuffer\<close>: a new buffer smaller than the bytes read panics at the next slice.\<close>

definition growReadBuffer_ws :: "('u, 'z) ws_env \<Rightarrow> ('u, 'z) wconn \<Rightarrow> ('u, 'z) wconn option" where
  "growReadBuffer_ws env c =
     (case GetBytes env (int ws_batchReadBufferSize) of
        None \<Rightarrow> None
      | Some (len, cap) \<Rightarrow> if length (wc_rdata c) \<le> len then Some (c\<lparr>wc_rbuf := Some len\<rparr>) else None)"

definition writeCap :: "('u, 'z) wconn \<Rightarrow> nat" where
  "writeCap c = rbuf_len c - length (wc_rdata c)"

section \<open>Headers\<close>

text \<open>An \<open>int64\<close>.\<close>

definition wrap64 :: "int \<Rightarrow> int" where
  "wrap64 x = (x + 2 ^ 63) mod 2 ^ 64 - 2 ^ 63"

definition be64 :: "bytes \<Rightarrow> u64" where
  "be64 bs = foldl shift_in 0 bs"

text \<open>\<open>binary.LittleEndian.Uint32\<close>\<close>

definition le32 :: "bytes \<Rightarrow> u32" where
  "le32 bs = (case bs of a # b # c # d # _ \<Rightarrow> get32 d c b a | _ \<Rightarrow> 0)"

text \<open>\<open>readHeader\<close>: in the state \<open>HeaderStart\<close> the first two bytes, then the long length and the
  mask; whether the header is there, or an error.\<close>

definition header_moved :: "('u, 'z) ws_env \<Rightarrow> ('u, 'z) wconn \<Rightarrow> ('u, 'z) wconn" where
  "header_moved env c = (if rbuf_len c - wc_rr c < wl_MaxFrameHeaderSize (ev_lib env) then leftMove c else c)"

definition header_start :: "('u, 'z) wconn \<Rightarrow> ('u, 'z) wconn option" where
  "header_start c =
     (if length (wc_rdata c) - wc_rr c < 2 then None
      else
        let b0 = wc_rdata c ! wc_rr c; b1 = wc_rdata c ! (wc_rr c + 1);
            masked = (b1 AND 0x80 \<noteq> 0); len = int (unat (b1 AND 0x7F));
            have = (if masked then 4 else 0) + (if len = 126 then 2 else if len = 127 then 8 else 0)
        in Some (setCurState HeaderPayloadAndMask
             (c\<lparr>wc_rh := (wc_rh c)\<lparr>fh_Head := b0, fh_Opcode := b0 AND 0x0F, fh_Mask := masked, fh_PayloadLen := len\<rparr>,
                wc_lenAndMaskSize := have, wc_rr := wc_rr c + 2\<rparr>)))"

definition header_rest ::
  "('u, 'z) ws_env \<Rightarrow> ('u, 'z) wconn \<Rightarrow> ('u, 'z) wconn \<times> bool \<times> ws_err option" where
  "header_rest env c =
     (if length (wc_rdata c) - wc_rr c < wc_lenAndMaskSize c then (c, False, None)
      else
        let hdr = take (wc_lenAndMaskSize c) (drop (wc_rr c) (wc_rdata c));
            rh = wc_rh c;
            (len, hdr) =
              (if fh_PayloadLen rh = 126 then (int (unat (be64 (take 2 hdr))), drop 2 hdr)
               else if fh_PayloadLen rh = 127 then (sint (be64 (take 8 hdr)), drop 8 hdr)
               else (fh_PayloadLen rh, hdr));
            rh = rh\<lparr>fh_PayloadLen := len\<rparr>
        in if cf_readMaxMessage (ev_conf env) > 0 \<and> len > cf_readMaxMessage (ev_conf env) then
             (c\<lparr>wc_rh := rh\<rparr>, False, Some (StatusErr TooBigMessage))
           else
             (setCurState Payload
                (c\<lparr>wc_rh := (if fh_Mask rh then rh\<lparr>fh_MaskKey := le32 hdr\<rparr> else rh),
                   wc_rr := wc_rr c + wc_lenAndMaskSize c\<rparr>), True, None))"

definition readHeader ::
  "('u, 'z) ws_env \<Rightarrow> ('u, 'z) wconn \<Rightarrow> ('u, 'z) wconn \<times> bool \<times> ws_err option" where
  "readHeader env c =
     (case getCurState c of
        HeaderStart \<Rightarrow>
          (let c = header_moved env c in
           case header_start c of None \<Rightarrow> (c, False, None) | Some c \<Rightarrow> header_rest env c)
      | HeaderPayloadAndMask \<Rightarrow> header_rest env c
      | Payload \<Rightarrow> (c, True, None))"

section \<open>Payloads\<close>

text \<open>\<open>readPayload\<close>: room for the payload is made by a bigger buffer or by moving what there is;
  the payload, once it is complete. A payload that is not copied is a part of the read
  buffer: it is the same bytes, and the callback may use them only while it runs.\<close>

definition make_room :: "('u, 'z) ws_env \<Rightarrow> ('u, 'z) wconn \<Rightarrow> int \<Rightarrow> ('u, 'z) wconn option" where
  "make_room env c needRead =
     (if needRead > int (rbuf_len c - length (wc_rdata c) + wc_rr c) then
        (case GetBytes env (cf_window (ev_conf env) (fh_PayloadLen (wc_rh c)) + int (wl_MaxFrameHeaderSize (ev_lib env))) of
           None \<Rightarrow> None
         | Some (len, cap) \<Rightarrow>
             if length (wc_rdata c) - wc_rr c \<le> len then
               Some (c\<lparr>wc_rdata := drop (wc_rr c) (wc_rdata c), wc_rr := 0, wc_rbuf := Some len\<rparr>)
             else None)
      else if needRead > int (writeCap c) then Some (leftMove c)
      else Some c)"

definition readPayload ::
  "('u, 'z) ws_env \<Rightarrow> ('u, 'z) wconn \<Rightarrow> bool \<Rightarrow> (('u, 'z) wconn \<times> (frame_header \<times> bytes) option) option" where
  "readPayload env c needCopy =
     (let len = fh_PayloadLen (wc_rh c);
          needRead = wrap64 (len - int (length (wc_rdata c) - wc_rr c))
      in case make_room env c needRead of
           None \<Rightarrow> None
         | Some c \<Rightarrow>
             if needRead > 0 then Some (c, None)
             else if len < 0 then None
             else
               let payload = take (nat len) (drop (wc_rr c) (wc_rdata c)) in
               if \<not> needCopy then Some (c\<lparr>wc_rr := wc_rr c + nat len\<rparr>, Some (wc_rh c, payload))
               else
                 case GetBytes env (len + int (wl_MaxFrameHeaderSize (ev_lib env))) of
                   None \<Rightarrow> None
                 | Some _ \<Rightarrow>
                     (let rh = wc_rh c; c = c\<lparr>wc_rr := wc_rr c + nat len\<rparr>;
                          c = (if writeCap c < wl_MaxFrameHeaderSize (ev_lib env) then leftMove c else c)
                      in Some (c, Some (rh, payload))))"

text \<open>\<open>takePayload\<close> gives the same bytes in memory of their own; only a pool that panics can be
  seen.\<close>

definition takePayload :: "('u, 'z) ws_env \<Rightarrow> bytes \<Rightarrow> bool \<Rightarrow> bytes option" where
  "takePayload env p needCopy =
     (if needCopy then Some p
      else map_option (\<lambda>_. p) (GetBytes env (int (length p) + int (wl_MaxFrameHeaderSize (ev_lib env)))))"

section \<open>Callbacks\<close>

text \<open>\<open>decode\<close> (\<^verbatim>\<open>permessage_deflate.go\<close>).\<close>

definition decode :: "('u, 'z) ws_env \<Rightarrow> ('u, 'z) wconn \<Rightarrow> bytes \<Rightarrow> ('u, 'z) wconn \<times> (ws_err + bytes)" where
  "decode env c payload =
     (let pd = ev_pd env;
          ct = (pd_ClientContextTakeover pd \<and> isClient_ws c \<or> \<not> isClient_ws c \<and> pd_ServerContextTakeover pd)
               \<and> pd_Decompression pd;
          bits = (if isClient_ws c then pd_ClientMaxWindowBits pd else pd_ServerMaxWindowBits pd);
          made = (if ct \<and> wc_deCtx c = None
                  then (case wl_NewDecompress (ev_lib env) bits of Inl e \<Rightarrow> Inl e | Inr z \<Rightarrow> Inr (c\<lparr>wc_deCtx := Some z\<rparr>))
                  else Inr c)
      in case made of
           Inl e \<Rightarrow> (c, Inl e)
         | Inr c \<Rightarrow>
             (case wl_Decompress (ev_lib env) (wc_deCtx c) payload (cf_readMaxMessage (ev_conf env)) of
                (z, r) \<Rightarrow> (c\<lparr>wc_deCtx := z\<rparr>, r)))"

text \<open>\<open>processCallbackData\<close>: for a text that is not UTF-8 the connection is closed first, and
  \<open>OnClose\<close> is called with the error after that.\<close>

definition processCallbackData ::
  "('u, 'z) ws_env \<Rightarrow> ('u, 'z) wconn \<Rightarrow> frame_header \<Rightarrow> bytes \<Rightarrow> bool \<Rightarrow> bool \<Rightarrow> bool \<Rightarrow> u32 \<Rightarrow> ('u, 'z) wconn option" where
  "processCallbackData env c f payload rsv1 decompression needMask maskKey =
     (let payload = (if needMask then wl_Mask (ev_lib env) payload maskKey else payload) in
      case (if rsv1 \<and> decompression then decode env c payload else (c, Inr payload)) of
        (c, Inl e) \<Rightarrow> Some (closeWithLock env c (Some e))
      | (c, Inr payload) \<Rightarrow>
          if fh_Opcode f = opText \<and> \<not> cf_utf8Check (ev_conf env) payload then
            Some (onClose_once env (closeWithLock env c None) (Some ErrTextNotUTF8))
          else call_OnMessage env c (fh_Opcode f) payload)"

text \<open>The callback of a message put together from fragments.\<close>

definition fragments_done ::
  "('u, 'z) ws_env \<Rightarrow> ('u, 'z) wconn \<Rightarrow> frame_header \<Rightarrow> bytes \<Rightarrow> bool \<Rightarrow> ('u, 'z) wconn option" where
  "fragments_done env c hdr payload decompression =
     (case (if wl_GetRsv1 (ev_lib env) hdr \<and> decompression then decode env c payload else (c, Inr payload)) of
        (c, Inl e) \<Rightarrow> Some (closeWithLock env c (Some e))
      | (c, Inr payload) \<Rightarrow>
          if fh_Opcode hdr = opText \<and> \<not> cf_utf8Check (ev_conf env) payload then
            Some (closeWithLock env (onClose_once env c (Some ErrTextNotUTF8)) None)
          else call_OnMessage env c (fh_Opcode hdr) payload)"

definition run_task :: "('u, 'z) ws_env \<Rightarrow> ('u, 'z) wconn \<Rightarrow> ws_task \<Rightarrow> ('u, 'z) wconn option" where
  "run_task env c t =
     (case t of
        TData f payload rsv1 decompression needMask maskKey \<Rightarrow>
          processCallbackData env c f payload rsv1 decompression needMask maskKey
      | TFragments hdr payload decompression \<Rightarrow> fragments_done env c hdr payload decompression
      | TPing op payload \<Rightarrow> call_OnMessage env c op payload
      | TControl op \<Rightarrow> call_OnMessage env c op [])"

text \<open>\<open>addTask\<close>: in place, or into the queue of the executor, which runs the tasks in order.\<close>

definition addTask :: "('u, 'z) ws_env \<Rightarrow> ('u, 'z) wconn \<Rightarrow> ws_task \<Rightarrow> ('u, 'z) wconn option" where
  "addTask env c t =
     (if isClosed_ws c then Some c
      else if \<not> cf_runInGoTask (ev_conf env) then run_task env c t
      else Some (c\<lparr>wc_tasks := wc_tasks c @ [t]\<rparr>))"

definition executor_runs :: "('u, 'z) ws_env \<Rightarrow> ('u, 'z) wconn \<Rightarrow> ('u, 'z) wconn option" where
  "executor_runs env c =
     (case wc_tasks c of [] \<Rightarrow> Some c | t # ts \<Rightarrow> run_task env (c\<lparr>wc_tasks := ts\<rparr>) t)"

section \<open>Closing frames\<close>

abbreviation two_seconds :: int where "two_seconds \<equiv> 2 * 10 ^ 9"

text \<open>Both write a Close frame and then call \<open>OnClose\<close>; neither closes the connection.\<close>

definition writeErrAndOnClose ::
  "('u, 'z) ws_env \<Rightarrow> ('u, 'z) wconn \<Rightarrow> status_code \<Rightarrow> ws_err \<Rightarrow> (('u, 'z) wconn \<times> ws_err option) option" where
  "writeErrAndOnClose env c code userErr =
     (case WriteTimeout env c opClose (StatusCode_toBytes code) two_seconds of
        None \<Rightarrow> None
      | Some (c, err) \<Rightarrow>
          Some (onClose_once env c (Some userErr), (case err of Some e \<Rightarrow> Some e | None \<Rightarrow> Some userErr)))"

definition writeAndMaybeOnClose ::
  "('u, 'z) ws_env \<Rightarrow> ('u, 'z) wconn \<Rightarrow> ws_err \<Rightarrow> (('u, 'z) wconn \<times> ws_err option) option" where
  "writeAndMaybeOnClose env c err =
     (case As_StatusCode err of
        None \<Rightarrow> Some (onClose_once env c (Some err), None)
      | Some sc \<Rightarrow>
          (case WriteTimeout env c opClose (StatusCode_toBytes sc) two_seconds of
             None \<Rightarrow> None
           | Some (c, e) \<Rightarrow> Some (onClose_once env c (Some err), e)))"

section \<open>One frame\<close>

definition failRsv1 :: "('u, 'z) ws_env \<Rightarrow> opcode \<Rightarrow> bool" where
  "failRsv1 env op = (\<not> pd_Decompression (ev_pd env) \<or> op \<noteq> opText \<and> op \<noteq> opBinary)"

definition unmasked :: "('u, 'z) ws_env \<Rightarrow> frame_header \<Rightarrow> bytes \<Rightarrow> bytes" where
  "unmasked env rh payload = (if fh_Mask rh then wl_Mask (ev_lib env) payload (fh_MaskKey rh) else payload)"

text \<open>A data frame while a message is being put together.\<close>

definition next_fragment ::
  "('u, 'z) ws_env \<Rightarrow> ('u, 'z) wconn \<Rightarrow> frame_header \<Rightarrow> frame_header \<Rightarrow> bytes \<Rightarrow> bool
   \<Rightarrow> (('u, 'z) wconn \<times> ws_err option) option" where
  "next_fragment env c first f payload needCopy =
     (if fh_Opcode f = opContinuation then
        (case takePayload env (unmasked env (wc_rh c) payload) needCopy of
           None \<Rightarrow> None
         | Some own \<Rightarrow>
             (let all = (case wc_fragmentPayload c of None \<Rightarrow> own | Some p \<Rightarrow> p @ own);
                  c = c\<lparr>wc_fragmentPayload := Some all\<rparr>
              in if wl_GetFin (ev_lib env) f then
                   map_option (\<lambda>c. (c, None))
                     (addTask env (c\<lparr>wc_fragmentHeader := None, wc_fragmentPayload := None\<rparr>)
                       (TFragments first all (pd_Decompression (ev_pd env))))
                 else Some (c, None)))
      else map_option (\<lambda>(c, _). (c, Some ErrFrameOpcode)) (writeErrAndOnClose env c ProtocolError ErrFrameOpcode))"

definition data_frame ::
  "('u, 'z) ws_env \<Rightarrow> ('u, 'z) wconn \<Rightarrow> frame_header \<Rightarrow> bytes \<Rightarrow> bool \<Rightarrow> (('u, 'z) wconn \<times> ws_err option) option" where
  "data_frame env c f payload needCopy =
     (let rsv1 = wl_GetRsv1 (ev_lib env) f; decompression = pd_Decompression (ev_pd env) in
      if \<not> wl_GetFin (ev_lib env) f then
        (case wc_fragmentPayload c of
           Some _ \<Rightarrow> Some (c\<lparr>wc_fragmentHeader := Some f\<rparr>, None)
         | None \<Rightarrow>
             map_option (\<lambda>own. (c\<lparr>wc_fragmentPayload := Some own, wc_fragmentHeader := Some f\<rparr>, None))
               (takePayload env (unmasked env (wc_rh c) payload) needCopy))
      else if \<not> cf_runInGoTask (ev_conf env) then
        (if isClosed_ws c then Some (c, None)
         else map_option (\<lambda>c. (c, None))
                (processCallbackData env c f payload rsv1 decompression (fh_Mask (wc_rh c)) (fh_MaskKey (wc_rh c))))
      else
        case takePayload env payload needCopy of
          None \<Rightarrow> None
        | Some own \<Rightarrow>
            map_option (\<lambda>c. (c, None))
              (addTask env c (TData f own rsv1 decompression (fh_Mask (wc_rh c)) (fh_MaskKey (wc_rh c)))))"

definition close_frame ::
  "('u, 'z) ws_env \<Rightarrow> ('u, 'z) wconn \<Rightarrow> bytes \<Rightarrow> (('u, 'z) wconn \<times> ws_err option) option" where
  "close_frame env c payload =
     (if payload = [] then
        map_option (\<lambda>(c, _). (c, None))
          (writeErrAndOnClose env c NormalClosure (CloseErr \<lparr>cm_Code = NormalClosure, cm_Msg = []\<rparr>))
      else if length payload < 2 then writeErrAndOnClose env c ProtocolError ErrClosePayloadTooSmall
      else if \<not> cf_utf8Check (ev_conf env) (drop 2 payload) then writeErrAndOnClose env c ProtocolError ErrTextNotUTF8
      else if \<not> validCode (get16 (payload ! 0) (payload ! 1)) then writeErrAndOnClose env c ProtocolError ErrCloseValue
      else
        case WriteTimeout env c opClose payload two_seconds of
          None \<Rightarrow> None
        | Some (c, Some e) \<Rightarrow> Some (c, Some e)
        | Some (c, None) \<Rightarrow>
            (let err = CloseErr (bytesToCloseErrMsg payload) in Some (onClose_once env c (Some err), Some err)))"

definition control_frame ::
  "('u, 'z) ws_env \<Rightarrow> ('u, 'z) wconn \<Rightarrow> frame_header \<Rightarrow> bytes \<Rightarrow> (('u, 'z) wconn \<times> ws_err option) option" where
  "control_frame env c f payload =
     (let payload = unmasked env (wc_rh c) payload; op = fh_Opcode f in
      if fh_PayloadLen f > int maxControlFrameSize then
        map_option (\<lambda>(c, _). (c, Some ErrMaxControlFrameSize)) (writeErrAndOnClose env c ProtocolError ErrMaxControlFrameSize)
      else if \<not> wl_GetFin (ev_lib env) f then
        map_option (\<lambda>(c, _). (c, Some ErrNOTBeFragmented)) (writeErrAndOnClose env c ProtocolError ErrNOTBeFragmented)
      else if op = opClose then close_frame env c payload
      else if op = opPing \<and> cf_replyPing (ev_conf env) then
        (case WriteTimeout env c opPong payload two_seconds of
           None \<Rightarrow> None
         | Some (c, Some e) \<Rightarrow> Some (onClose_once env c (Some e), Some e)
         | Some (c, None) \<Rightarrow> map_option (\<lambda>c. (c, None)) (addTask env c (TPing op payload)))
      else if op = opPong \<and> cf_ignorePong (ev_conf env) then Some (c, None)
      else map_option (\<lambda>c. (c, None)) (addTask env c (TControl op)))"

definition processCallback ::
  "('u, 'z) ws_env \<Rightarrow> ('u, 'z) wconn \<Rightarrow> frame_header \<Rightarrow> bytes \<Rightarrow> bool \<Rightarrow> (('u, 'z) wconn \<times> ws_err option) option" where
  "processCallback env c f payload needCopy =
     (let l = ev_lib env;
          op = (case wc_fragmentHeader c of Some h \<Rightarrow> fh_Opcode h | None \<Rightarrow> fh_Opcode f);
          rsv1 = wl_GetRsv1 l f
      in if rsv1 \<and> failRsv1 env op \<or> wl_GetRsv2 l f \<or> wl_GetRsv3 l f then
           writeErrAndOnClose env c ProtocolError
             (ErrRsv123 rsv1 (wl_GetRsv2 l f) (wl_GetRsv3 l f) (pd_Compression (ev_pd env)))
         else case (if wl_IsControl l (fh_Opcode f) then None else wc_fragmentHeader c) of
             Some first \<Rightarrow> next_fragment env c first f payload needCopy
           | None \<Rightarrow>
               if fh_Opcode f = opText \<or> fh_Opcode f = opBinary then data_frame env c f payload needCopy
               else if fh_Opcode f = opClose \<or> fh_Opcode f = opPing \<or> fh_Opcode f = opPong then
                 control_frame env c f payload
               else map_option (\<lambda>(c, _). (c, Some ErrOpcode)) (writeErrAndOnClose env c ProtocolError ErrOpcode))"

text \<open>\<open>readPayloadAndCallback\<close>\<close>

definition readPayloadAndCallback ::
  "('u, 'z) ws_env \<Rightarrow> ('u, 'z) wconn \<Rightarrow> (('u, 'z) wconn \<times> bool \<times> ws_err option) option" where
  "readPayloadAndCallback env c =
     (if getCurState c = Payload then
        let l = ev_lib env;
            needCopy = (\<not> cf_zeroCopyPayload (ev_conf env) \<or> wl_GetRsv1 l (wc_rh c) \<or> \<not> wl_GetFin l (wc_rh c)
              \<or> wc_fragmentHeader c \<noteq> None)
        in case readPayload env c needCopy of
             None \<Rightarrow> None
           | Some (c, None) \<Rightarrow> Some (c, False, None)
           | Some (c, Some (f, payload)) \<Rightarrow>
               Option.bind (maybeCork env c) (\<lambda>c.
               Option.bind (processCallback env c f payload needCopy) (\<lambda>(c, err).
               case err of
                 Some e \<Rightarrow> Some (closeWithLock env c (Some e), False, Some e)
               | None \<Rightarrow> Some (setCurState HeaderStart c, True, None)))
      else Some (c, False, None))"

section \<open>The loops\<close>

text \<open>The second loop of \<open>processWebsocketFrame\<close>, and the loop of
  \<open>processHeaderPayloadCallback\<close>: frames until there is no complete one.\<close>

partial_function (option) parse_batch ::
  "('u, 'z) ws_env \<Rightarrow> ('u, 'z) wconn \<Rightarrow> (('u, 'z) wconn \<times> ws_err option) option" where
  "parse_batch env c =
     (case readHeader env c of
        (c, success, Some e) \<Rightarrow> Some (c, Some (Wrapped ''read header err'' e))
      | (c, success, None) \<Rightarrow>
          if \<not> success then Some (c, None)
          else
            Option.bind (readPayloadAndCallback env c) (\<lambda>(c, success, err).
            case err of
              Some e \<Rightarrow> Some (c, Some (Wrapped ''read payload err'' e))
            | None \<Rightarrow> if \<not> success then Some (c, None) else parse_batch env c))"

definition socketRead_ws :: "('u, 'z) wconn \<Rightarrow> nat \<Rightarrow> ('u, 'z) wconn \<times> bytes \<times> io_err option" where
  "socketRead_ws c space =
     (if space = 0 then (c, [], None)
      else if wc_fd c < 0 then (c, [], Some (Errno 9))
      else case wc_rx c of
        [] \<Rightarrow> (c, [], Some EAGAIN)
      | FIN # _ \<Rightarrow> (c, [], None)
      | RxErr e # ks \<Rightarrow> (c\<lparr>wc_rx := ks\<rparr>, [], Some e)
      | Deliver d # ks \<Rightarrow>
          (c\<lparr>wc_rx := (if length d \<le> space then ks else Deliver (drop space d) # ks)\<rparr>, take space d, None))"

text \<open>The first loop: read until the socket has no more. A full buffer that is already large is
  parsed for one frame in between.\<close>

partial_function (option) read_socket ::
  "('u, 'z) ws_env \<Rightarrow> ('u, 'z) wconn \<Rightarrow> (('u, 'z) wconn \<times> ws_err option) option" where
  "read_socket env c =
     (let space = writeCap c in
      case socketRead_ws c space of
        (c, d, Some e) \<Rightarrow>
          if e = EINTR then read_socket env c
          else if e = EAGAIN then Some (c, None)
          else Some (c, Some (SysErr e))
      | (c, d, None) \<Rightarrow>
          if d = [] \<and> space > 0 then
            Some (onClose_once env (closeWithLock env c (Some (SysErr IoEOF))) (Some (SysErr IoEOF)), Some (SysErr IoEOF))
          else
            let c = c\<lparr>wc_rdata := wc_rdata c @ d\<rparr> in
            Option.bind (if length (wc_rdata c) = rbuf_len c \<and> rbuf_len c < ws_batchReadBufferSize
                  then growReadBuffer_ws env c else Some c) (\<lambda>c.
            if writeCap c = 0 then
              (case readHeader env c of
                 (c, _, Some e) \<Rightarrow> Some (c, Some (Wrapped ''read header err'' e))
               | (c, _, None) \<Rightarrow>
                   Option.bind (readPayloadAndCallback env c) (\<lambda>(c, _, err).
                   case err of
                     Some e \<Rightarrow> Some (c, Some (Wrapped ''read header err'' e))
                   | None \<Rightarrow> read_socket env c))
            else if length d < space then Some (c, None)
            else read_socket env c))"

text \<open>The end of both functions: the batch is written, and the buffer given back when it is
  used up or the connection failed.\<close>

definition after_frames ::
  "('u, 'z) ws_env \<Rightarrow> ('u, 'z) wconn \<Rightarrow> ws_err option \<Rightarrow> ('u, 'z) wconn option" where
  "after_frames env c err =
     map_option (\<lambda>c. if err \<noteq> None \<or> wc_rbuf c \<noteq> None \<and> wc_rr c = length (wc_rdata c)
         then c\<lparr>wc_rr := 0, wc_rdata := [], wc_rbuf := None\<rparr> else c) (corkEnd env c)"

definition processWebsocketFrame ::
  "('u, 'z) ws_env \<Rightarrow> ('u, 'z) wconn \<Rightarrow> (('u, 'z) wconn \<times> ws_err option) option" where
  "processWebsocketFrame env c =
     Option.bind (if wc_rbuf c = None
        then map_option (\<lambda>(len, cap). c\<lparr>wc_rbuf := Some len\<rparr>) (GetBytes env (readBufferSize env c)) else Some c) (\<lambda>c.
     let c = (if cf_readTimeout (ev_conf env) > 0
              then fst (setReadDeadline c (Some (cf_readTimeout (ev_conf env)))) else c) in
     Option.bind (read_socket env c) (\<lambda>(c, err).
     Option.bind (case err of None \<Rightarrow> parse_batch env c | Some e \<Rightarrow> Some (c, Some e)) (\<lambda>(c, err).
     Option.bind (after_frames env c err) (\<lambda>c.
     case err of
       None \<Rightarrow> Some (c, None)
     | Some e \<Rightarrow> map_option (\<lambda>(c, _). (c, Some e)) (writeAndMaybeOnClose env c e)))))"

text \<open>What a client does with the bytes that came with the handshake's response.\<close>

definition processHeaderPayloadCallback ::
  "('u, 'z) ws_env \<Rightarrow> ('u, 'z) wconn \<Rightarrow> (('u, 'z) wconn \<times> ws_err option) option" where
  "processHeaderPayloadCallback env c =
     Option.bind (parse_batch env c) (\<lambda>(c, err). map_option (\<lambda>c. (c, err)) (after_frames env c err))"

section \<open>Events\<close>

text \<open>\<open>processOne\<close> of a parsing worker (\<^verbatim>\<open>task_parse.go\<close>), and what an event loop without workers
  does itself (\<open>Loop\<close> of \<^verbatim>\<open>event_loop.go\<close>, which writes first).\<close>

definition processOne ::
  "('u, 'z) ws_env \<Rightarrow> ('u, 'z) wconn \<Rightarrow> bool \<Rightarrow> bool \<Rightarrow> ('u, 'z) wconn option" where
  "processOne env c isRead isWrite =
     Option.bind (if isRead then processWebsocketFrame env c else Some (c, None)) (\<lambda>(c, err).
     if err \<noteq> None then Some (Close_ws env c)
     else if isWrite \<and> needFlush_ws c then flush_ws env c else Some c)"

definition loop_event_ws ::
  "('u, 'z) ws_env \<Rightarrow> ('u, 'z) wconn \<Rightarrow> bool \<Rightarrow> bool \<Rightarrow> ('u, 'z) wconn option" where
  "loop_event_ws env c isRead isWrite =
     Option.bind (if isWrite \<and> needFlush_ws c then flush_ws env c else Some c) (\<lambda>c.
     if isRead then
       map_option (\<lambda>(c, err). if err \<noteq> None then Close_ws env c else c) (processWebsocketFrame env c)
     else Some c)"

text \<open>\<open>newConn\<close>; the descriptor is the one accepted or dialed.\<close>

definition newConn_ws ::
  "('u, 'z) ws_env \<Rightarrow> int \<Rightarrow> bool \<Rightarrow> 'u \<Rightarrow> u32 list \<Rightarrow> tx_answer list \<Rightarrow> rx_answer list \<Rightarrow> ('u, 'z) wconn" where
  "newConn_ws env fd client u masks tx rx =
     (let c = \<lparr>wc_fd = fd, wc_rbuf = None, wc_rdata = [], wc_rr = 0, wc_wbufList = [], wc_lenAndMaskSize = 0,
            wc_rh = \<lparr>fh_Head = 0, fh_PayloadLen = 0, fh_Opcode = 0, fh_MaskKey = 0, fh_Mask = False\<rparr>,
            wc_fragmentPayload = None, wc_fragmentHeader = None, wc_packed = 0, wc_once = False, wc_closed = False,
            wc_deCtx = None, wc_enCtx = None, wc_rtime = False, wc_wtime = False, wc_masks = masks, wc_tx = tx,
            wc_sent = [], wc_rx = rx, wc_armed = False, wc_log = [], wc_tasks = [], wc_user = u, wc_calls = []\<rparr>;
          c = (if client then setClient_ws True c else c)
      in if cf_readTimeout (ev_conf env) > 0 then fst (setReadDeadline c (Some (cf_readTimeout (ev_conf env)))) else c)"

end
