(* ===== verification/Ws_Frame.thy ===== *)
theory Ws_Frame
  imports Framing Ws_Write Ws_Read
begin

text \<open>
  WebSocket frames as they are on the wire, and the frame parser of \<^verbatim>\<open>websocket/conn_core.go\<close>
  against them: \<open>ws_split\<close> cuts one frame off the front of a byte stream (it is a splitter of
  \<open>framing\<close>, so segmentation does not matter), and \<open>readHeader\<close> and \<open>readPayload\<close>, which stop
  at any byte, move and replace their buffer and keep their state in between, cut the same
  frames.
\<close>

section \<open>Frames on the wire\<close>

text \<open>The second byte and what follows it: the mask bit, the short length, the number of bytes
  up to the payload, the length and the key.\<close>

definition hd_masked :: "byte \<Rightarrow> bool" where
  "hd_masked b1 = (b1 AND 0x80 \<noteq> 0)"

definition hd_len7 :: "byte \<Rightarrow> int" where
  "hd_len7 b1 = int (unat (b1 AND 0x7F))"

definition hd_ext :: "byte \<Rightarrow> nat" where
  "hd_ext b1 = (if hd_len7 b1 = 126 then 2 else if hd_len7 b1 = 127 then 8 else 0)"

definition hd_have :: "byte \<Rightarrow> nat" where
  "hd_have b1 = (if hd_masked b1 then 4 else 0) + hd_ext b1"

definition hd_len :: "byte \<Rightarrow> bytes \<Rightarrow> int" where
  "hd_len b1 ext =
     (if hd_len7 b1 = 126 then int (unat (be64 (take 2 ext)))
      else if hd_len7 b1 = 127 then sint (be64 (take 8 ext))
      else hd_len7 b1)"

definition hd_key :: "byte \<Rightarrow> bytes \<Rightarrow> u32" where
  "hd_key b1 ext = le32 (drop (hd_ext b1) ext)"

definition too_big :: "('u, 'z) ws_env \<Rightarrow> int \<Rightarrow> bool" where
  "too_big env len = (cf_readMaxMessage (ev_conf env) > 0 \<and> len > cf_readMaxMessage (ev_conf env))"

definition plain_payload :: "('u, 'z) ws_env \<Rightarrow> byte \<Rightarrow> bytes \<Rightarrow> bytes \<Rightarrow> bytes" where
  "plain_payload env b1 ext p = (if hd_masked b1 then wl_Mask (ev_lib env) p (hd_key b1 ext) else p)"

text \<open>One frame: its first byte and its payload, unmasked. A length that is negative as an
  \<open>int64\<close> or above the limit is an error.\<close>

definition ws_split :: "('u, 'z) ws_env \<Rightarrow> bytes \<Rightarrow> (byte \<times> bytes, unit) split_res" where
  "ws_split env raw =
     (case raw of
        b0 # b1 # rest \<Rightarrow>
          (if length rest < hd_have b1 then NeedMore
           else
             let ext = take (hd_have b1) rest; len = hd_len b1 ext in
             if too_big env len \<or> len < 0 then Bad ()
             else if length rest < hd_have b1 + nat len then NeedMore
             else Got (b0, plain_payload env b1 ext (take (nat len) (drop (hd_have b1) rest)))
                    (2 + hd_have b1 + nat len))
      | _ \<Rightarrow> NeedMore)"

lemma ws_split_two: "ws_split env raw \<noteq> NeedMore \<Longrightarrow> \<exists>b0 b1 rest. raw = b0 # b1 # rest"
  by (auto simp: ws_split_def split: list.splits)

text \<open>The header is there.\<close>

lemma ws_split_header:
  "length ext = hd_have b1 \<Longrightarrow>
   ws_split env (b0 # b1 # ext @ rest) =
     (if too_big env (hd_len b1 ext) \<or> hd_len b1 ext < 0 then Bad ()
      else if length rest < nat (hd_len b1 ext) then NeedMore
      else Got (b0, plain_payload env b1 ext (take (nat (hd_len b1 ext)) rest)) (2 + hd_have b1 + nat (hd_len b1 ext)))"
  by (simp add: ws_split_def Let_def)

lemma ws_split_short:
  "length raw < 2 \<Longrightarrow> ws_split env raw = NeedMore"
  "length rest < hd_have b1 \<Longrightarrow> ws_split env (b0 # b1 # rest) = NeedMore"
  by (auto simp: ws_split_def split: list.splits)

lemma ws_split_cases:
  obtains "ws_split env raw = NeedMore"
  | b0 b1 ext rest where "raw = b0 # b1 # ext @ rest" "length ext = hd_have b1"
proof (cases "ws_split env raw = NeedMore")
  case False
  then obtain b0 b1 r where r: "raw = b0 # b1 # r" by (blast dest: ws_split_two)
  then have "hd_have b1 \<le> length r" using False ws_split_short(2) [of r b1 env b0] by (metis leI)
  then show ?thesis using that(2) [of b0 b1 "take (hd_have b1) r" "drop (hd_have b1) r"] r by simp
qed (rule that(1))

lemma ws_split_Got_append:
  assumes "ws_split env b = Got u n"
  shows "ws_split env (b @ x) = Got u n" and "0 < n \<and> n \<le> length b"
proof -
  have "ws_split env (b @ x) = Got u n \<and> 0 < n \<and> n \<le> length b"
  proof (cases rule: ws_split_cases [of env b])
    case (2 b0 b1 ext rest)
    then show ?thesis using assms by (auto simp: ws_split_header split: if_splits)
  qed (use assms in simp)
  then show "ws_split env (b @ x) = Got u n" and "0 < n \<and> n \<le> length b" by simp_all
qed

lemma ws_split_Bad_append:
  assumes "ws_split env b = Bad e"
  shows "ws_split env (b @ x) = Bad e"
proof (cases rule: ws_split_cases [of env b])
  case (2 b0 b1 ext rest)
  then show ?thesis using assms by (auto simp: ws_split_header split: if_splits)
qed (use assms in simp)

interpretation ws: framing "ws_split env" for env
proof
  show "ws_split env [] = NeedMore" by (simp add: ws_split_def)
qed (auto dest: ws_split_Got_append ws_split_Bad_append)

section \<open>What is written is read\<close>

definition len_form :: "nat \<Rightarrow> byte \<times> bytes" where
  "len_form n =
     (if n \<le> 125 then (word_of_nat n, [])
      else if n \<le> 65535 then (126, put16n n)
      else (127, put64 (word_of_nat n)))"

lemma wsHeader_len_form: "wsHeader op n = (0x80 OR (op AND 0x0F)) # fst (len_form n) # snd (len_form n)"
  by (simp add: wsHeader_def len_form_def put16n_def)

text \<open>The key as \<open>binary.LittleEndian\<close> writes it.\<close>

definition le_put32 :: "u32 \<Rightarrow> bytes" where
  "le_put32 k = rev (put32 k)"

lemma le32_put: "le32 (le_put32 k @ x) = k"
  by (simp add: le32_def le_put32_def put32_def be_simps)

lemma low_byte: "n \<le> 127 \<Longrightarrow> unat (word_of_nat n :: byte) = n"
  by (simp add: unat_of_nat)

lemma and_7F_small: "unat (b :: byte) \<le> 127 \<Longrightarrow> b AND 0x7F = b \<and> b AND 0x80 = 0"
proof -
  assume "unat b \<le> 127"
  then have "b < 2 ^ 7" by (simp add: word_less_nat_alt)
  then have b: "\<not> bit b n" if "7 \<le> n" for n using bit_less_exp [of b 7 n] that by simp
  have "b AND mask 7 = b" using b leI by (intro bit_word_eqI) (auto simp: bit_simps)
  moreover have "\<not> (bit b n \<and> bit (push_bit 7 1 :: byte) n)" for n
    by (simp only: bit_push_bit_iff bit_1_iff) (use b in auto)
  then have "b AND push_bit 7 1 = 0" by (intro bit_word_eqI) (simp only: bit_and_iff bit_0_eq, blast)
  ultimately show ?thesis by (simp add: mask_eq_decr_exp)
qed

lemma len_form_props:
  "unat (fst (len_form n)) \<le> 127"
  by (auto simp: len_form_def unat_of_nat)

lemma hd_of_len_form:
  assumes "b1 = fst (len_form n) OR (if m then 0x80 else 0)"
  shows "hd_masked b1 = m" and "hd_len7 b1 = int (unat (fst (len_form n)))"
proof -
  note small = and_7F_small [OF len_form_props [of n]]
  have d: "(a OR b) AND c = (a AND c) OR (b AND c)" for a b c :: byte
    by (rule bit_word_eqI) (auto simp: bit_simps)
  show "hd_masked b1 = m" using small by (simp add: assms hd_masked_def d)
  show "hd_len7 b1 = int (unat (fst (len_form n)))" using small by (simp add: assms hd_len7_def d)
qed


lemma len_form_len7:
  assumes "n < 2 ^ 63"
  shows "hd_len7 b1 = int (unat (fst (len_form n))) \<Longrightarrow> hd_len b1 (snd (len_form n) @ x) = int n"
    and "hd_len7 b1 = int (unat (fst (len_form n))) \<Longrightarrow> hd_ext b1 = length (snd (len_form n))"
proof -
  have b2: "unat (be64 (take 2 (put16n n @ x))) = n" if "n \<le> 65535" for x
  proof -
    have "n < 2 ^ 16" using that by simp
    have "n div 256 < 256" using that by (simp add: less_mult_imp_div_less)
    then have "unat (be64 (take 2 (put16n n @ x))) = n div 256 * 256 + n mod 256"
      by (simp add: be64_def put16n_def shift_in_def unat_shift_in unat_of_nat)
    then show ?thesis by (simp add: div_mult_mod_eq)
  qed
  have put: "put64 v = be_bytes 8 v" for v
    by (simp add: put64_def be_bytes_def upt_rec)
  have b8: "sint (be64 (take 8 (put64 (word_of_nat n) @ x))) = int n" for x
  proof -
    have "be64 (take 8 (put64 (word_of_nat n) @ x)) = (word_of_nat n :: u64)"
      by (simp add: be64_def put foldl_shift_in take_bit_word_eq_self)
    moreover have "sint (word_of_nat n :: u64) = int n"
      using assms by (simp add: signed_of_nat signed_take_bit_int_eq_self)
    ultimately show ?thesis by simp
  qed
  have b1: "int (unat (word_of_nat n :: byte)) = int n" if "n \<le> 125" using that by (simp only: low_byte)
  consider "n \<le> 125" | "125 < n" "n \<le> 65535" | "65535 < n" by linarith
  then have "hd_len7 b1 = int (unat (fst (len_form n))) \<longrightarrow>
      hd_len b1 (snd (len_form n) @ x) = int n \<and> hd_ext b1 = length (snd (len_form n))"
  proof cases
    case 1
    then show ?thesis using b1 by (simp add: hd_len_def hd_ext_def len_form_def)
  next
    case 2
    then show ?thesis using arg_cong [OF b2 [of x], of int] by (simp add: hd_len_def hd_ext_def len_form_def)
  next
    case 3
    then show ?thesis using b8 [of x] by (simp add: hd_len_def hd_ext_def len_form_def)
  qed
  then show "hd_len7 b1 = int (unat (fst (len_form n))) \<Longrightarrow> hd_len b1 (snd (len_form n) @ x) = int n"
    and "hd_len7 b1 = int (unat (fst (len_form n))) \<Longrightarrow> hd_ext b1 = length (snd (len_form n))" by blast+
qed


text \<open>A whole frame, masked with a key or not. The payload must fit the limits, and masking
  twice must give it back.\<close>

definition enc_ws :: "'z ws_lib \<Rightarrow> u32 option \<Rightarrow> byte \<times> bytes \<Rightarrow> bytes" where
  "enc_ws l key u =
     (case u of (b0, p) \<Rightarrow>
        (case len_form (length p) of (l7, ext) \<Rightarrow>
           (case key of
              None \<Rightarrow> b0 # l7 # ext @ p
            | Some k \<Rightarrow> b0 # (l7 OR 0x80) # ext @ le_put32 k @ wl_Mask l p k)))"

definition frame_ok_ws :: "('u, 'z) ws_env \<Rightarrow> u32 option \<Rightarrow> byte \<times> bytes \<Rightarrow> bool" where
  "frame_ok_ws env key u =
     (length (snd u) < 2 ^ 63 \<and> \<not> too_big env (int (length (snd u)))
      \<and> (\<forall>k. key = Some k \<longrightarrow> length (wl_Mask (ev_lib env) (snd u) k) = length (snd u)
             \<and> wl_Mask (ev_lib env) (wl_Mask (ev_lib env) (snd u) k) k = snd u))"

lemma enc_ws_server: "enc_ws l None (0x80 OR (op AND 0x0F), p) = wsHeader op (length p) @ p"
  by (simp add: enc_ws_def wsHeader_len_form split: prod.splits)

lemma ws_split_enc:
  assumes "frame_ok_ws env key u"
  shows "ws_split env (enc_ws (ev_lib env) key u @ x) = Got u (length (enc_ws (ev_lib env) key u))"
proof -
  obtain b0 p where u: "u = (b0, p)" by (rule prod.exhaust)
  obtain l7 ext where lf: "len_form (length p) = (l7, ext)" by (rule prod.exhaust)
  have p: "length p < 2 ^ 63" "\<not> too_big env (int (length p))" using assms by (simp_all add: frame_ok_ws_def u)
  have b1: "hd_masked b = m" "hd_len b (ext @ y) = int (length p)" "hd_ext b = length ext"
    if "b = l7 OR (if m then 0x80 else 0)" for b m y
    using hd_of_len_form [of b "length p" m] len_form_len7 [OF p(1), of b] that by (simp_all add: lf)
  show ?thesis
  proof (cases key)
    case None
    have have0: "hd_have l7 = length ext" using b1(1,3) [where b = l7 and m = False] by (simp add: hd_have_def)
    have len: "hd_len l7 ext = int (length p)" using b1(2) [where b = l7 and m = False and y = "[]"] by simp
    have mk: "hd_masked l7 = False" using b1(1,3) [where b = l7 and m = False] by simp
    have "ws_split env (b0 # l7 # ext @ (p @ x)) = Got (b0, p) (2 + length ext + length p)"
      using p by (subst ws_split_header) (simp_all add: have0 len plain_payload_def mk)
    then show ?thesis by (simp add: u enc_ws_def lf None)
  next
    case (Some k)
    let ?b = "l7 OR 0x80"
    have have0: "hd_have ?b = length ext + 4" using b1(1,3) [where b = ?b and m = True] by (simp add: hd_have_def)
    have len: "hd_len ?b (ext @ le_put32 k) = int (length p)" using b1(2) [where b = ?b and m = True and y = "le_put32 k"] by simp
    have mk: "hd_masked ?b = True" "hd_key ?b (ext @ le_put32 k) = k"
      using b1(1,3) [where b = ?b and m = True] le32_put [of k "[]"] by (simp_all add: hd_key_def)
    have m: "length (wl_Mask (ev_lib env) p k) = length p" "wl_Mask (ev_lib env) (wl_Mask (ev_lib env) p k) k = p"
      using assms by (simp_all add: frame_ok_ws_def u Some)
    have l4: "length (le_put32 k) = 4" by (simp add: le_put32_def)
    have "ws_split env (b0 # ?b # (ext @ le_put32 k) @ (wl_Mask (ev_lib env) p k @ x)) = Got (b0, p) (2 + (length ext + 4) + length p)"
      using p by (subst ws_split_header) (simp_all add: have0 len plain_payload_def mk m l4)
    then show ?thesis by (simp add: u enc_ws_def lf Some m l4)
  qed
qed

interpretation wsc: frame_codec "ws_split env" "enc_ws (ev_lib env) key" "frame_ok_ws env key" for env key
  by unfold_locales (rule ws_split_enc)

end
