(* ===== verification/Ws_Parse.thy ===== *)
theory Ws_Parse
  imports Ws_Frame
begin

text \<open>
  The frame parser of \<^verbatim>\<open>websocket/conn_core.go\<close> between any two bytes of a stream: the relation
  \<open>frame_at\<close> between the parser's state and the bytes of the frame under way, and what
  \<open>readHeader\<close> and \<open>readPayload\<close> do to it. Together they cut the frames \<open>ws_split\<close> cuts.
\<close>

section \<open>The parser between two bytes\<close>

definition unread :: "('u, 'z) wconn \<Rightarrow> bytes" where
  "unread c = drop (wc_rr c) (wc_rdata c)"

text \<open>The header that was read so far: \<open>raw\<close> are the bytes of the frame under way, those
  consumed and those that wait.\<close>

definition header_is :: "('u, 'z) wconn \<Rightarrow> byte \<Rightarrow> byte \<Rightarrow> int \<Rightarrow> bool" where
  "header_is c b0 b1 len =
     (fh_Head (wc_rh c) = b0 \<and> fh_Opcode (wc_rh c) = b0 AND 0x0F \<and> fh_Mask (wc_rh c) = hd_masked b1
      \<and> fh_PayloadLen (wc_rh c) = len)"

definition frame_at :: "('u, 'z) ws_env \<Rightarrow> ('u, 'z) wconn \<Rightarrow> bytes \<Rightarrow> bool" where
  "frame_at env c raw =
     (0 \<le> fh_PayloadLen (wc_rh c)
      \<and> (case getCurState c of
           HeaderStart \<Rightarrow> raw = unread c
         | HeaderPayloadAndMask \<Rightarrow>
             (\<exists>b0 b1. raw = b0 # b1 # unread c \<and> header_is c b0 b1 (hd_len7 b1) \<and> wc_lenAndMaskSize c = hd_have b1)
         | Payload \<Rightarrow>
             (\<exists>b0 b1 ext. raw = b0 # b1 # ext @ unread c \<and> length ext = hd_have b1 \<and> header_is c b0 b1 (hd_len b1 ext)
                \<and> (hd_masked b1 \<longrightarrow> fh_MaskKey (wc_rh c) = hd_key b1 ext) \<and> \<not> too_big env (hd_len b1 ext))))"

text \<open>The buffer: a header that is begun has room to be completed in it.\<close>

definition buf_ok :: "('u, 'z) wconn \<Rightarrow> bool" where
  "buf_ok c =
     (wc_rbuf c \<noteq> None \<and> 14 \<le> rbuf_len c \<and> wc_rr c \<le> length (wc_rdata c) \<and> length (wc_rdata c) \<le> rbuf_len c
      \<and> (getCurState c = HeaderPayloadAndMask \<longrightarrow> wc_rr c + 12 \<le> rbuf_len c))"

text \<open>Reading leaves alone what writing and the callbacks use.\<close>

definition same_app :: "('u, 'z) wconn \<Rightarrow> ('u, 'z) wconn \<Rightarrow> bool" where
  "same_app c c' =
     (wc_fd c' = wc_fd c \<and> wc_wbufList c' = wc_wbufList c \<and> wc_fragmentPayload c' = wc_fragmentPayload c
      \<and> wc_fragmentHeader c' = wc_fragmentHeader c \<and> isClient_ws c' = isClient_ws c \<and> isCorking_ws c' = isCorking_ws c
      \<and> wc_once c' = wc_once c \<and> wc_closed c' = wc_closed c \<and> wc_tx c' = wc_tx c \<and> wc_sent c' = wc_sent c
      \<and> wc_rx c' = wc_rx c \<and> wc_user c' = wc_user c \<and> wc_calls c' = wc_calls c)"

lemma same_app_refl [simp]: "same_app c c"
  by (simp add: same_app_def)

lemma same_app_trans: "same_app a b \<Longrightarrow> same_app b c \<Longrightarrow> same_app a c"
  by (simp add: same_app_def)

lemma setCurState_fields [simp]:
  "wc_rbuf (setCurState st c) = wc_rbuf c" "wc_rdata (setCurState st c) = wc_rdata c" "wc_rr (setCurState st c) = wc_rr c"
  "wc_rh (setCurState st c) = wc_rh c" "wc_lenAndMaskSize (setCurState st c) = wc_lenAndMaskSize c"
  "rbuf_len (setCurState st c) = rbuf_len c" "unread (setCurState st c) = unread c"
  "wc_fd (setCurState st c) = wc_fd c" "wc_wbufList (setCurState st c) = wc_wbufList c"
  "wc_fragmentPayload (setCurState st c) = wc_fragmentPayload c" "wc_fragmentHeader (setCurState st c) = wc_fragmentHeader c"
  "wc_once (setCurState st c) = wc_once c" "wc_closed (setCurState st c) = wc_closed c" "wc_tx (setCurState st c) = wc_tx c"
  "wc_sent (setCurState st c) = wc_sent c" "wc_rx (setCurState st c) = wc_rx c" "wc_user (setCurState st c) = wc_user c"
  "wc_calls (setCurState st c) = wc_calls c"
  by (simp_all add: setCurState_def rbuf_len_def unread_def)

lemma same_app_updates [simp]:
  "same_app c (d\<lparr>wc_rbuf := b\<rparr>) = same_app c d" "same_app c (d\<lparr>wc_rdata := r\<rparr>) = same_app c d"
  "same_app c (d\<lparr>wc_rr := n\<rparr>) = same_app c d" "same_app c (d\<lparr>wc_rh := h\<rparr>) = same_app c d"
  "same_app c (d\<lparr>wc_lenAndMaskSize := n\<rparr>) = same_app c d" "same_app c (setCurState st d) = same_app c d"
  "same_app c (d\<lparr>wc_rtime := t\<rparr>) = same_app c d"
proof -
  show "same_app c (setCurState st d) = same_app c d" by (simp add: same_app_def)
qed (simp_all add: same_app_def isClient_ws_def isCorking_ws_def)

lemma cur_state_updates [simp]:
  "getCurState (d\<lparr>wc_rbuf := b\<rparr>) = getCurState d" "getCurState (d\<lparr>wc_rdata := r\<rparr>) = getCurState d"
  "getCurState (d\<lparr>wc_rr := n\<rparr>) = getCurState d" "getCurState (d\<lparr>wc_rh := h\<rparr>) = getCurState d"
  "getCurState (d\<lparr>wc_lenAndMaskSize := n\<rparr>) = getCurState d" "getCurState (d\<lparr>wc_rx := x\<rparr>) = getCurState d"
  "getCurState (d\<lparr>wc_rtime := t\<rparr>) = getCurState d"
  by (simp_all add: getCurState_def)

lemma rbuf_len_updates [simp]:
  "rbuf_len (d\<lparr>wc_rdata := r\<rparr>) = rbuf_len d" "rbuf_len (d\<lparr>wc_rr := n\<rparr>) = rbuf_len d"
  "rbuf_len (d\<lparr>wc_rh := h\<rparr>) = rbuf_len d" "rbuf_len (d\<lparr>wc_lenAndMaskSize := n\<rparr>) = rbuf_len d"
  "rbuf_len (d\<lparr>wc_rbuf := Some n\<rparr>) = n"
  by (simp_all add: rbuf_len_def)

lemma leftMove_props [simp]:
  "wc_rr (leftMove c) = 0" "wc_rdata (leftMove c) = unread c" "rbuf_len (leftMove c) = rbuf_len c"
  "unread (leftMove c) = unread c" "same_app c (leftMove c)" "getCurState (leftMove c) = getCurState c"
  "wc_rh (leftMove c) = wc_rh c" "wc_lenAndMaskSize (leftMove c) = wc_lenAndMaskSize c" "wc_rbuf (leftMove c) = wc_rbuf c"
  by (simp_all add: leftMove_def unread_def)


section \<open>Reading the header\<close>

lemma length_unread: "length (unread c) = length (wc_rdata c) - wc_rr c"
  by (simp add: unread_def)

lemma hd_have_le: "hd_have b1 \<le> 12"
  by (simp add: hd_have_def hd_ext_def)

lemma header_start_eq:
  "length (unread c) < 2 \<Longrightarrow> header_start c = None"
  "unread c = b0 # b1 # rest \<Longrightarrow> header_start c = Some (setCurState HeaderPayloadAndMask
     (c\<lparr>wc_rh := (wc_rh c)\<lparr>fh_Head := b0, fh_Opcode := b0 AND 0x0F, fh_Mask := hd_masked b1, fh_PayloadLen := hd_len7 b1\<rparr>,
        wc_lenAndMaskSize := hd_have b1, wc_rr := wc_rr c + 2\<rparr>))"
proof -
  show "length (unread c) < 2 \<Longrightarrow> header_start c = None" by (simp add: header_start_def length_unread)
  assume u: "unread c = b0 # b1 # rest"
  then have len: "length (unread c) = Suc (Suc (length rest))" by simp
  then have lt: "wc_rr c + 1 < length (wc_rdata c)" by (simp add: length_unread)
  have "wc_rdata c ! (wc_rr c + 0) = unread c ! 0" "wc_rdata c ! (wc_rr c + 1) = unread c ! 1"
    using lt by (simp_all add: unread_def del: add_0_right)
  then have "wc_rdata c ! wc_rr c = b0" "wc_rdata c ! (wc_rr c + 1) = b1" by (simp_all add: u)
  then show "header_start c = Some (setCurState HeaderPayloadAndMask
     (c\<lparr>wc_rh := (wc_rh c)\<lparr>fh_Head := b0, fh_Opcode := b0 AND 0x0F, fh_Mask := hd_masked b1, fh_PayloadLen := hd_len7 b1\<rparr>,
        wc_lenAndMaskSize := hd_have b1, wc_rr := wc_rr c + 2\<rparr>))"
    using lt by (simp add: header_start_def Let_def hd_masked_def hd_len7_def hd_have_def hd_ext_def
        del: One_nat_def)
qed

lemma header_rest_eq:
  assumes "header_is c b0 b1 (hd_len7 b1)" and "wc_lenAndMaskSize c = hd_have b1"
  shows "length (unread c) < hd_have b1 \<Longrightarrow> header_rest env c = (c, False, None)"
    and "hd_have b1 \<le> length (unread c) \<Longrightarrow> header_rest env c =
      (let ext = take (hd_have b1) (unread c); len = hd_len b1 ext; rh = (wc_rh c)\<lparr>fh_PayloadLen := len\<rparr> in
       if too_big env len then (c\<lparr>wc_rh := rh\<rparr>, False, Some (StatusErr TooBigMessage))
       else (setCurState Payload
          (c\<lparr>wc_rh := (if hd_masked b1 then rh\<lparr>fh_MaskKey := hd_key b1 ext\<rparr> else rh), wc_rr := wc_rr c + hd_have b1\<rparr>), True, None))"
proof -
  show "length (unread c) < hd_have b1 \<Longrightarrow> header_rest env c = (c, False, None)"
    using assms by (simp add: header_rest_def length_unread)
  assume le: "hd_have b1 \<le> length (unread c)"
  have h: "fh_PayloadLen (wc_rh c) = hd_len7 b1" "fh_Mask (wc_rh c) = hd_masked b1" using assms by (simp_all add: header_is_def)
  define ext where "ext = take (hd_have b1) (unread c)"
  have e: "take (wc_lenAndMaskSize c) (drop (wc_rr c) (wc_rdata c)) = ext" by (simp add: ext_def assms(2) unread_def)
  have n: "\<not> length (wc_rdata c) - wc_rr c < hd_have b1" using le by (simp add: length_unread)
  consider "hd_len7 b1 = 126" | "hd_len7 b1 = 127" | "hd_len7 b1 \<noteq> 126" "hd_len7 b1 \<noteq> 127" by blast
  then show "header_rest env c =
      (let ext = take (hd_have b1) (unread c); len = hd_len b1 ext; rh = (wc_rh c)\<lparr>fh_PayloadLen := len\<rparr> in
       if too_big env len then (c\<lparr>wc_rh := rh\<rparr>, False, Some (StatusErr TooBigMessage))
       else (setCurState Payload
          (c\<lparr>wc_rh := (if hd_masked b1 then rh\<lparr>fh_MaskKey := hd_key b1 ext\<rparr> else rh), wc_rr := wc_rr c + hd_have b1\<rparr>), True, None))"
    unfolding ext_def [symmetric] header_rest_def Let_def e
    by cases (simp_all add: n h assms(2) hd_len_def too_big_def hd_key_def hd_ext_def)
qed


text \<open>\<open>readHeader\<close>: the header is not complete, and there is room to read on; or it is bad; or
  it is there.\<close>

lemma frame_at_same:
  "frame_at env c raw \<Longrightarrow> getCurState c' = getCurState c \<Longrightarrow> unread c' = unread c \<Longrightarrow> wc_rh c' = wc_rh c \<Longrightarrow>
   wc_lenAndMaskSize c' = wc_lenAndMaskSize c \<Longrightarrow> frame_at env c' raw"
  by (cases "getCurState c") (simp_all add: frame_at_def header_is_def)

lemma header_rest_ok:
  assumes st: "getCurState c = HeaderPayloadAndMask" and f: "frame_at env c raw" and b: "buf_ok c"
  shows "(header_rest env c = (c, False, None) \<and> ws_split env raw = NeedMore \<and> 0 < writeCap c)
    \<or> ws_split env raw = Bad ()
    \<or> (\<exists>c'. header_rest env c = (c', True, None) \<and> frame_at env c' raw \<and> buf_ok c' \<and> same_app c c'
         \<and> getCurState c' = Payload)"
proof -
  obtain b0 b1 where raw: "raw = b0 # b1 # unread c" and h: "header_is c b0 b1 (hd_len7 b1)"
      and hv: "wc_lenAndMaskSize c = hd_have b1"
    using f st by (auto simp: frame_at_def)
  note eq = header_rest_eq [OF h hv, of env]
  show ?thesis
  proof (cases "length (unread c) < hd_have b1")
    case True
    then have "0 < writeCap c" using b st hd_have_le [of b1] by (auto simp: writeCap_def buf_ok_def length_unread)
    then show ?thesis using eq(1) [OF True] ws_split_short(2) [OF True, of env b0] by (simp add: raw)
  next
    case False
    define ext where "ext = take (hd_have b1) (unread c)"
    define rest where "rest = drop (hd_have b1) (unread c)"
    have u: "unread c = ext @ rest" and e: "length ext = hd_have b1" using False by (simp_all add: ext_def rest_def)
    have le: "hd_have b1 \<le> length (unread c)" using False by simp
    show ?thesis
    proof (cases "too_big env (hd_len b1 ext) \<or> hd_len b1 ext < 0")
      case True
      then show ?thesis by (simp add: raw u ws_split_header [OF e])
    next
      case ok: False
      define d where "d = setCurState Payload (c\<lparr>wc_rh := (if hd_masked b1 then (wc_rh c)\<lparr>fh_PayloadLen := hd_len b1 ext, fh_MaskKey := hd_key b1 ext\<rparr>
            else (wc_rh c)\<lparr>fh_PayloadLen := hd_len b1 ext\<rparr>), wc_rr := wc_rr c + hd_have b1\<rparr>)"
      have r: "header_rest env c = (d, True, None)"
        using eq(2) [OF le] ok by (simp add: ext_def [symmetric] Let_def d_def)
      have "unread d = rest" by (simp add: d_def rest_def) (simp add: unread_def add.commute)
      then have "frame_at env d raw" using h ok u e by (auto simp: frame_at_def header_is_def d_def raw)
      moreover have "buf_ok d" using b le unfolding length_unread by (auto simp: buf_ok_def d_def)
      moreover have "same_app c d" "getCurState d = Payload" by (simp_all add: d_def)
      ultimately show ?thesis using r by blast
    qed
  qed
qed


lemma header_moved_ok:
  assumes lib: "lib_ok (ev_lib env)" and b: "buf_ok c"
  shows "unread (header_moved env c) = unread c" and "getCurState (header_moved env c) = getCurState c"
    and "same_app c (header_moved env c)" and "wc_rh (header_moved env c) = wc_rh c"
    and "wc_rr (header_moved env c) + 14 \<le> rbuf_len c" and "rbuf_len (header_moved env c) = rbuf_len c"
    and "wc_lenAndMaskSize (header_moved env c) = wc_lenAndMaskSize c"
    and "wc_rr (header_moved env c) \<le> length (wc_rdata (header_moved env c))"
    and "length (wc_rdata (header_moved env c)) \<le> rbuf_len c" and "wc_rbuf (header_moved env c) = wc_rbuf c"
  using assms by (auto simp: header_moved_def lib_ok_def buf_ok_def length_unread)

lemma readHeader_ok:
  assumes lib: "lib_ok (ev_lib env)" and f: "frame_at env c raw" and b: "buf_ok c"
  shows "(\<exists>c'. readHeader env c = (c', False, None) \<and> ws_split env raw = NeedMore \<and> frame_at env c' raw \<and> buf_ok c'
        \<and> same_app c c' \<and> 0 < writeCap c')
    \<or> ws_split env raw = Bad ()
    \<or> (\<exists>c'. readHeader env c = (c', True, None) \<and> frame_at env c' raw \<and> buf_ok c' \<and> same_app c c'
         \<and> getCurState c' = Payload)"
proof (cases "getCurState c")
  case HeaderStart
  let ?m = "header_moved env c"
  note m = header_moved_ok [OF lib b]
  have raw: "raw = unread c" and pl: "0 \<le> fh_PayloadLen (wc_rh c)" using f HeaderStart by (simp_all add: frame_at_def)
  show ?thesis
  proof (cases "length (unread c) < 2")
    case True
    then have "readHeader env c = (?m, False, None)"
      using header_start_eq(1) [of ?m] m(1) by (simp add: readHeader_def HeaderStart)
    moreover have "frame_at env ?m raw" by (rule frame_at_same [OF f m(2) m(1) m(4) m(7)])
    moreover have "buf_ok ?m" using m b HeaderStart by (simp add: buf_ok_def)
    moreover have "0 < writeCap ?m"
    proof -
      have "length (wc_rdata ?m) - wc_rr ?m < 2" using True m(1) length_unread [of ?m] by simp
      then show ?thesis using m(5,6) by (simp add: writeCap_def)
    qed
    ultimately show ?thesis using ws_split_short(1) [OF True, of env] raw m(3) by blast
  next
    case False
    then obtain b0 b1 rest where u: "unread c = b0 # b1 # rest" by (cases "unread c" rule: list.exhaust; cases "tl (unread c)") auto
    define d where "d = setCurState HeaderPayloadAndMask
     (?m\<lparr>wc_rh := (wc_rh ?m)\<lparr>fh_Head := b0, fh_Opcode := b0 AND 0x0F, fh_Mask := hd_masked b1, fh_PayloadLen := hd_len7 b1\<rparr>,
        wc_lenAndMaskSize := hd_have b1, wc_rr := wc_rr ?m + 2\<rparr>)"
    have r: "readHeader env c = header_rest env d"
      using header_start_eq(2) [of ?m b0 b1 rest] m(1) u by (simp add: readHeader_def HeaderStart d_def Let_def)
    have st: "getCurState d = HeaderPayloadAndMask" by (simp add: d_def)
    have "unread d = drop 2 (unread ?m)" by (simp add: d_def) (simp add: unread_def add.commute)
    then have ud: "unread d = rest" by (simp add: m(1) u)
    have fd: "frame_at env d raw"
      using st ud by (simp add: frame_at_def raw u) (simp add: header_is_def d_def hd_len7_def)
    have two: "wc_rr ?m + 2 \<le> length (wc_rdata ?m)" using u m(1,8) length_unread [of ?m] by simp
    have bd: "buf_ok d" using m b two by (simp add: buf_ok_def d_def)
    have sd: "same_app c d" using m(3) by (simp add: d_def)
    from header_rest_ok [OF st fd bd] r fd bd sd show ?thesis by (metis same_app_trans)
  qed
next
  case HeaderPayloadAndMask
  with header_rest_ok [OF this f b] f b show ?thesis by (auto simp: readHeader_def)
next
  case Payload
  with f b show ?thesis by (auto simp: readHeader_def)
qed

section \<open>Reading the payload\<close>

lemma wrap64_id: "- (2 ^ 63) \<le> x \<Longrightarrow> x < 2 ^ 63 \<Longrightarrow> wrap64 x = x"
  by (simp add: wrap64_def)

lemma be64_two: "length bs \<le> 2 \<Longrightarrow> unat (be64 bs) < 65536"
proof -
  assume "length bs \<le> 2"
  then consider "bs = []" | a where "bs = [a]" | a b where "bs = [a, b]"
    by (cases bs; cases "tl bs"; cases "tl (tl bs)") auto
  then show ?thesis
  proof cases
    case (2 a)
    then show ?thesis using unat_byte_lt [of a] by (simp add: be64_def shift_in_def unat_shift_in)
  next
    case (3 a b)
    then show ?thesis using unat_byte_lt [of a] unat_byte_lt [of b]
      by (simp add: be64_def shift_in_def unat_shift_in)
  qed (simp add: be64_def)
qed

lemma hd_len_bound: "hd_len b1 ext < 2 ^ 63"
proof -
  have "unat (be64 (take 2 ext)) < 65536" by (rule be64_two) simp
  then have a: "int (unat (be64 (take 2 ext))) < 65536" by linarith
  have b: "sint (be64 (take 8 ext)) < 2 ^ 63" using sint_lt [of "be64 (take 8 ext)"] by simp
  have c: "hd_len7 b1 < 256" unfolding hd_len7_def using unat_byte_lt [of "b1 AND 0x7F"] by linarith
  consider "hd_len7 b1 = 126" | "hd_len7 b1 = 127" | "hd_len7 b1 \<noteq> 126" "hd_len7 b1 \<noteq> 127" by blast
  then show ?thesis unfolding hd_len_def
  proof cases
    case 1
    show "(if hd_len7 b1 = 126 then int (unat (be64 (take 2 ext)))
      else if hd_len7 b1 = 127 then sint (be64 (take 8 ext)) else hd_len7 b1) < 2 ^ 63"
      by (subst if_P [OF 1]) (rule order.strict_trans [OF a], simp)
  next
    case 2
    then show "(if hd_len7 b1 = 126 then int (unat (be64 (take 2 ext)))
      else if hd_len7 b1 = 127 then sint (be64 (take 8 ext)) else hd_len7 b1) < 2 ^ 63" using b by simp
  next
    case 3
    then show "(if hd_len7 b1 = 126 then int (unat (be64 (take 2 ext)))
      else if hd_len7 b1 = 127 then sint (be64 (take 8 ext)) else hd_len7 b1) < 2 ^ 63" using c by simp
  qed
qed

text \<open>A window of at least once the payload: the default is twice.\<close>

definition window_ok :: "('u, 'z) ws_env \<Rightarrow> bool" where
  "window_ok env = (\<forall>n\<ge>0. n \<le> cf_window (ev_conf env) n)"

lemma make_room_ok:
  assumes lib: "lib_ok (ev_lib env)" and win: "window_ok env" and b: "buf_ok c"
    and len: "0 \<le> fh_PayloadLen (wc_rh c)" "need = fh_PayloadLen (wc_rh c) - int (length (unread c))"
    and st: "getCurState c = Payload"
  shows "\<exists>c'. make_room env c need = Some c' \<and> unread c' = unread c \<and> getCurState c' = Payload \<and> wc_rh c' = wc_rh c
    \<and> wc_lenAndMaskSize c' = wc_lenAndMaskSize c \<and> buf_ok c' \<and> same_app c c' \<and> (0 < need \<longrightarrow> 0 < writeCap c')
    \<and> (need \<le> 0 \<longrightarrow> c' = c)"
proof -
  have max: "wl_MaxFrameHeaderSize (ev_lib env) = 14" using lib by (simp add: lib_ok_def)
  have win': "fh_PayloadLen (wc_rh c) \<le> cf_window (ev_conf env) (fh_PayloadLen (wc_rh c))"
    using win len(1) by (simp add: window_ok_def)
  consider (grow) "need > int (rbuf_len c - length (wc_rdata c) + wc_rr c)"
    | (move) "need \<le> int (rbuf_len c - length (wc_rdata c) + wc_rr c)" "need > int (writeCap c)"
    | (keep) "need \<le> int (rbuf_len c - length (wc_rdata c) + wc_rr c)" "need \<le> int (writeCap c)" by linarith
  then show ?thesis
  proof cases
    case grow
    have "0 \<le> cf_window (ev_conf env) (fh_PayloadLen (wc_rh c)) + 14" using win' len(1) by simp
    then obtain n cap where g: "GetBytes env (cf_window (ev_conf env) (fh_PayloadLen (wc_rh c)) + 14) = Some (n, cap)"
        "cf_window (ev_conf env) (fh_PayloadLen (wc_rh c)) + 14 \<le> int n"
      by (rule lib_GetBytes [OF lib])
    have u: "length (unread c) + 14 \<le> n" using grow g(2) win' len(2) by simp
    let ?c = "c\<lparr>wc_rdata := unread c, wc_rr := 0, wc_rbuf := Some n\<rparr>"
    have r: "make_room env c need = Some ?c"
      using grow g u by (simp add: make_room_def max unread_def)
    have "buf_ok ?c" using u st by (simp add: buf_ok_def)
    moreover have "0 < writeCap ?c" using u by (simp add: writeCap_def)
    moreover have "unread ?c = unread c" by (simp add: unread_def)
    moreover have "0 < need" using grow by simp
    ultimately show ?thesis using r st by (intro exI [of _ ?c]) simp
  next
    case move
    then have r: "make_room env c need = Some (leftMove c)" by (simp add: make_room_def)
    have "buf_ok (leftMove c)" using b st by (auto simp: buf_ok_def length_unread)
    moreover have "0 < writeCap (leftMove c)"
      using move b by (auto simp: writeCap_def buf_ok_def length_unread)
    moreover have "0 < need" using move by simp
    ultimately show ?thesis using r st by (intro exI [of _ "leftMove c"]) simp
  next
    case keep
    then have "make_room env c need = Some c" by (simp add: make_room_def)
    then show ?thesis using keep b st by (intro exI [of _ c]) simp
  qed
qed


lemma readPayload_ok:
  assumes lib: "lib_ok (ev_lib env)" and win: "window_ok env" and f: "frame_at env c raw" and b: "buf_ok c"
    and st: "getCurState c = Payload" and small: "length raw < 2 ^ 63"
  shows "(\<exists>c'. readPayload env c needCopy = Some (c', None) \<and> ws_split env raw = NeedMore \<and> frame_at env c' raw
        \<and> buf_ok c' \<and> same_app c c' \<and> 0 < writeCap c')
    \<or> (\<exists>c' p n. readPayload env c needCopy = Some (c', Some (wc_rh c, p))
        \<and> ws_split env raw = Got (fh_Head (wc_rh c), unmasked env (wc_rh c) p) n \<and> unread c' = drop n raw
        \<and> buf_ok c' \<and> same_app c c' \<and> wc_rh c' = wc_rh c \<and> getCurState c' = Payload
        \<and> fh_PayloadLen (wc_rh c) = int (length p))"
proof -
  have max: "wl_MaxFrameHeaderSize (ev_lib env) = 14" using lib by (simp add: lib_ok_def)
  obtain b0 b1 ext where raw: "raw = b0 # b1 # ext @ unread c" and e: "length ext = hd_have b1"
      and h: "header_is c b0 b1 (hd_len b1 ext)" and key: "hd_masked b1 \<longrightarrow> fh_MaskKey (wc_rh c) = hd_key b1 ext"
      and big: "\<not> too_big env (hd_len b1 ext)" and pos: "0 \<le> fh_PayloadLen (wc_rh c)"
    using f st by (auto simp: frame_at_def)
  define len where "len = fh_PayloadLen (wc_rh c)"
  have hd: "hd_len b1 ext = len" "fh_Head (wc_rh c) = b0" "fh_Mask (wc_rh c) = hd_masked b1"
    using h by (simp_all add: header_is_def len_def)
  have un: "plain_payload env b1 ext q = unmasked env (wc_rh c) q" for q
    using key hd by (simp add: plain_payload_def unmasked_def)
  have lenb: "0 \<le> len" "len < 2 ^ 63" using pos hd_len_bound [of b1 ext] by (simp_all add: len_def [symmetric] hd(1))
  have need: "wrap64 (len - int (length (wc_rdata c) - wc_rr c)) = len - int (length (unread c))" (is "_ = ?need")
    unfolding length_unread [symmetric] using lenb small by (intro wrap64_id) (simp_all add: raw)
  obtain d where d: "make_room env c ?need = Some d" "unread d = unread c" "getCurState d = Payload" "wc_rh d = wc_rh c"
      "wc_lenAndMaskSize d = wc_lenAndMaskSize c" "buf_ok d" "same_app c d" "0 < ?need \<longrightarrow> 0 < writeCap d" "?need \<le> 0 \<longrightarrow> d = c"
    using make_room_ok [OF lib win b, of ?need] pos st by (auto simp: len_def)
  have split: "ws_split env raw = (if length (unread c) < nat len then NeedMore
      else Got (b0, unmasked env (wc_rh c) (take (nat len) (unread c))) (2 + hd_have b1 + nat len))"
    using big lenb by (simp add: raw ws_split_header [OF e] hd(1) un)
  show ?thesis
  proof (cases "0 < ?need")
    case True
    then have "readPayload env c needCopy = Some (d, None)"
      using d(1) by (simp add: readPayload_def Let_def len_def [symmetric] need)
    moreover have "ws_split env raw = NeedMore" using True split lenb by (simp add: nat_less_iff zless_nat_eq_int_zless)
    moreover have "frame_at env d raw" using d(2-5) st by (intro frame_at_same [OF f]) simp_all
    ultimately show ?thesis using d True by blast
  next
    case False
    then have dc: "d = c" using d(9) by simp
    let ?p = "take (nat len) (unread c)"
    have le: "nat len \<le> length (unread c)" using False lenb by simp
    have got: "ws_split env raw = Got (b0, unmasked env (wc_rh c) ?p) (2 + hd_have b1 + nat len)"
      using split le by simp
    have plen: "len = int (length ?p)" using le lenb by simp
    have rest: "drop (2 + hd_have b1 + nat len) raw = drop (nat len) (unread c)" using e by (simp add: raw)
    define c1 where "c1 = c\<lparr>wc_rr := wc_rr c + nat len\<rparr>"
    define c2 where "c2 = (if needCopy \<and> writeCap c1 < 14 then leftMove c1 else c1)"
    have "unread c1 = drop (nat len) (unread c)" by (simp add: c1_def unread_def add.commute)
    then have u2: "unread c2 = drop (nat len) (unread c)" by (simp add: c2_def)
    have b1: "buf_ok c1" using b le st by (auto simp: buf_ok_def c1_def length_unread)
    then have b2: "buf_ok c2" by (auto simp: c2_def buf_ok_def length_unread)
    have o: "same_app c c2" "wc_rh c2 = wc_rh c" "getCurState c2 = Payload" using st by (simp_all add: c2_def c1_def same_app_trans [OF _ leftMove_props(5)])
    have "0 \<le> len + 14" using lenb by simp
    then obtain n cap where g: "GetBytes env (len + 14) = Some (n, cap)" by (rule lib_GetBytes [OF lib])
    have "readPayload env c needCopy = Some (c2, Some (wc_rh c, ?p))"
      using d(1) False lenb g
      by (simp add: readPayload_def Let_def len_def [symmetric] need dc max c2_def c1_def unread_def)
    then show ?thesis using got u2 rest b2 o plen hd(2) len_def by (intro disjI2 exI [of _ c2] exI [of _ ?p]
          exI [of _ "2 + hd_have b1 + nat len"]) simp
  qed
qed

end
