(* ===== verification/Ws_Serve.thy ===== *)
theory Ws_Serve
  imports Ws_Parse
begin

text \<open>
  A WebSocket server on its stream: \<open>spec_frame\<close> says what each frame is to do to the user's
  state, the bytes written and the calls of the callback, and the connection of
  \<^verbatim>\<open>websocket/conn_core.go\<close> and \<^verbatim>\<open>conn_unix.go\<close> is shown to do that, whatever the pieces the
  stream comes in, whatever the kernel takes of a write, corked or not.
\<close>

section \<open>What a server does with a stream\<close>

text \<open>The server as it is meant: the user's state, the message that is being put together, the
  bytes written, and the calls of the callback.\<close>

record 'u ws_app =
  ap_user :: 'u
  ap_frag :: "(opcode \<times> bytes) option"
  ap_out :: bytes
  ap_calls :: "ws_call list"

text \<open>What a request writes and what it returns. A callback that closes the connection ends the
  service (\<open>None\<close>).\<close>

definition send_spec :: "('u, 'z) ws_env \<Rightarrow> opcode \<Rightarrow> bytes \<Rightarrow> bytes \<times> ws_err option" where
  "send_spec env op dat =
     (if sendable env op dat then (wsHeader op (length dat) @ dat, None) else ([], Some ErrTextNotUTF8))"

definition timed_spec :: "('u, 'z) ws_env \<Rightarrow> opcode \<Rightarrow> bytes \<Rightarrow> int \<Rightarrow> bytes \<times> ws_err option" where
  "timed_spec env op dat t = (if t < 0 then ([], Some ErrInvalidDeadline) else send_spec env op dat)"

definition req_spec :: "('u, 'z) ws_env \<Rightarrow> ws_req \<Rightarrow> (bytes \<times> ws_err option) option" where
  "req_spec env q =
     (case q of
        ReqWriteMessage op dat \<Rightarrow> Some (send_spec env op dat)
      | ReqWriteTimeout op dat t \<Rightarrow> Some (timed_spec env op dat t)
      | ReqWriteControl op dat \<Rightarrow>
          Some (if length dat > maxControlFrameSize then ([], Some ErrMaxControlFrameSize) else send_spec env op dat)
      | ReqWriteCloseTimeout sc t \<Rightarrow> Some (timed_spec env opClose (StatusCode_toBytes sc) t)
      | ReqClose \<Rightarrow> None)"

primrec script_spec :: "('u, 'z) ws_env \<Rightarrow> 'u script \<Rightarrow> ('u \<times> bytes) option" where
  "script_spec env (Return u) = Some (u, [])"
| "script_spec env (Call q k) =
     (case req_spec env q of
        None \<Rightarrow> None
      | Some (b, e) \<Rightarrow> map_option (\<lambda>(u, out). (u, b @ out)) (script_spec env (k e)))"

definition deliver :: "('u, 'z) ws_env \<Rightarrow> 'u ws_app \<Rightarrow> opcode \<Rightarrow> bytes \<Rightarrow> 'u ws_app \<times> unit option" where
  "deliver env ap op p =
     (case script_spec env (ev_OnMessage env (ap_user ap) op p) of
        None \<Rightarrow> (ap, Some ())
      | Some (u, out) \<Rightarrow>
          (ap\<lparr>ap_user := u, ap_out := ap_out ap @ out, ap_calls := ap_calls ap @ [OnMessage op p]\<rparr>, None))"

text \<open>One frame. An error stands for whatever ends the connection.\<close>

definition text_ok :: "('u, 'z) ws_env \<Rightarrow> opcode \<Rightarrow> bytes \<Rightarrow> bool" where
  "text_ok env op p = (op = opText \<longrightarrow> cf_utf8Check (ev_conf env) p)"

definition spec_control :: "('u, 'z) ws_env \<Rightarrow> 'u ws_app \<Rightarrow> opcode \<Rightarrow> bool \<Rightarrow> bytes \<Rightarrow> 'u ws_app \<times> unit option" where
  "spec_control env ap op fin p =
     (if length p > maxControlFrameSize \<or> \<not> fin \<or> op \<noteq> opPing \<and> op \<noteq> opPong then (ap, Some ())
      else if op = opPing \<and> cf_replyPing (ev_conf env) then
        deliver env (ap\<lparr>ap_out := ap_out ap @ wsHeader opPong (length p) @ p\<rparr>) op p
      else if op = opPong \<and> cf_ignorePong (ev_conf env) then (ap, None)
      else deliver env ap op [])"

definition spec_data :: "('u, 'z) ws_env \<Rightarrow> 'u ws_app \<Rightarrow> opcode \<Rightarrow> bool \<Rightarrow> bytes \<Rightarrow> 'u ws_app \<times> unit option" where
  "spec_data env ap op fin p =
     (case (ap_frag ap, op = opContinuation) of
        (Some (first, q), True) \<Rightarrow>
          (if \<not> fin then (ap\<lparr>ap_frag := Some (first, q @ p)\<rparr>, None)
           else if text_ok env first (q @ p) then deliver env (ap\<lparr>ap_frag := None\<rparr>) first (q @ p)
           else (ap, Some ()))
      | (None, False) \<Rightarrow>
          (if op \<noteq> opText \<and> op \<noteq> opBinary then (ap, Some ())
           else if \<not> fin then (ap\<lparr>ap_frag := Some (op, p)\<rparr>, None)
           else if text_ok env op p then deliver env ap op p
           else (ap, Some ()))
      | _ \<Rightarrow> (ap, Some ()))"

definition spec_frame :: "('u, 'z) ws_env \<Rightarrow> 'u ws_app \<Rightarrow> byte \<times> bytes \<Rightarrow> 'u ws_app \<times> unit option" where
  "spec_frame env ap u =
     (case u of (b0, p) \<Rightarrow>
        let op = b0 AND 0x0F in
        if bit b0 6 \<or> bit b0 5 \<or> bit b0 4 then (ap, Some ())
        else if bit op 3 then spec_control env ap op (bit b0 7) p
        else spec_data env ap op (bit b0 7) p)"

section \<open>The callbacks\<close>

text \<open>The connection and the server it is meant to be.\<close>

fun frag_is :: "frame_header option \<Rightarrow> bytes option \<Rightarrow> (opcode \<times> bytes) option \<Rightarrow> bool" where
  "frag_is h q None = (h = None \<and> q = None)"
| "frag_is h q (Some (op, p)) = (q = Some p \<and> (\<exists>f. h = Some f \<and> fh_Opcode f = op))"

definition app_rel :: "('u, 'z) wconn \<Rightarrow> 'u ws_app \<Rightarrow> bool" where
  "app_rel c ap =
     (ws_ready c \<and> 0 \<le> wc_fd c \<and> \<not> isClient_ws c \<and> written_ws c = ap_out ap \<and> wc_user c = ap_user ap \<and> wc_calls c = ap_calls ap
      \<and> frag_is (wc_fragmentHeader c) (wc_fragmentPayload c) (ap_frag ap))"

text \<open>Callbacks leave the parser alone.\<close>

definition same_parse :: "('u, 'z) wconn \<Rightarrow> ('u, 'z) wconn \<Rightarrow> bool" where
  "same_parse c c' =
     (wc_rbuf c' = wc_rbuf c \<and> wc_rdata c' = wc_rdata c \<and> wc_rr c' = wc_rr c \<and> wc_rh c' = wc_rh c
      \<and> wc_lenAndMaskSize c' = wc_lenAndMaskSize c \<and> getCurState c' = getCurState c \<and> wc_rx c' = wc_rx c)"

lemma same_parse_refl [simp]: "same_parse c c"
  by (simp add: same_parse_def)

lemma same_parse_trans: "same_parse a b \<Longrightarrow> same_parse b c \<Longrightarrow> same_parse a c"
  by (simp add: same_parse_def)

lemma same_rest_parse: "same_rest c c' \<Longrightarrow> same_parse c c'"
  by (simp add: same_parse_def same_rest_def)

lemma app_rel_accepts:
  "app_rel c ap \<Longrightarrow> accepts c b c' \<Longrightarrow> app_rel c' (ap\<lparr>ap_out := ap_out ap @ b\<rparr>) \<and> same_parse c c'"
  by (simp add: app_rel_def accepts_def same_rest_parse) (simp add: same_rest_def)

lemma app_rel_same:
  "app_rel c ap \<Longrightarrow> same_app c c' \<Longrightarrow> app_rel c' ap"
  by (simp add: app_rel_def same_app_def ws_ready_def written_ws_def)

lemma req_ok:
  assumes env: "plain_server env" and c: "ws_ready c" "\<not> isClient_ws c" and q: "req_spec env q = Some (b, e)"
  shows "\<exists>c'. do_req env c q = Some (c', e) \<and> accepts c b c'"
proof -
  have send: "\<exists>c'. WriteMessage env c op dat = Some (c', e) \<and> accepts c b c'"
    if "send_spec env op dat = (b, e)" "ws_ready c" "\<not> isClient_ws c" for c op dat b e
    using that WriteMessage_ok [OF env that(2,3), of op dat] accepts_refl [OF that(2)]
    by (auto simp: send_spec_def split: if_splits)
  have timer: "accepts c b (d\<lparr>wc_wtime := t\<rparr>) = accepts c b d" "accepts (c\<lparr>wc_wtime := t\<rparr>) b d = accepts c b d" for c d :: "('u, 'z) wconn" and b t
    by (simp_all add: accepts_def ws_ready_def written_ws_def)
      (simp_all add: same_rest_def getCurState_def isClient_ws_def)
  have timed: "\<exists>c'. WriteTimeout env c op dat t = Some (c', e) \<and> accepts c b c'" if t: "timed_spec env op dat t = (b, e)" for op dat t
  proof (cases "t < 0")
    case True
    then show ?thesis using t accepts_refl [OF c(1)]
      by (auto simp: timed_spec_def WriteTimeout_def setWriteDeadline_def setDeadlineInner_def timer)
  next
    case False
    let ?c = "c\<lparr>wc_wtime := True\<rparr>"
    have "ws_ready ?c" "\<not> isClient_ws ?c" using c by (simp_all add: ws_ready_def isClient_ws_def)
    then obtain c' where "WriteMessage env ?c op dat = Some (c', e)" "accepts ?c b c'"
      using send [of op dat b e ?c] t False by (auto simp: timed_spec_def)
    then show ?thesis using False
      by (simp add: WriteTimeout_def setWriteDeadline_def setDeadlineInner_def timer)
  qed
  show ?thesis
  proof (cases q)
    case (ReqWriteControl op dat)
    then show ?thesis using q send [OF _ c, of op dat b e] accepts_refl [OF c(1)]
      by (auto simp: req_spec_def do_req_def WriteControl_def split: if_splits)
  qed (use q send [OF _ c] timed in \<open>auto simp: req_spec_def do_req_def WriteCloseTimeout_def\<close>)
qed


lemma script_ok:
  assumes env: "plain_server env"
  shows "ws_ready c \<Longrightarrow> \<not> isClient_ws c \<Longrightarrow> script_spec env s = Some (u, out) \<Longrightarrow>
    \<exists>c'. run_script env s c = Some (c'\<lparr>wc_user := u\<rparr>) \<and> accepts c out c'"
proof (induction s arbitrary: c out)
  case (Return v)
  then show ?case using accepts_refl [OF Return(1)] by auto
next
  case (Call q k)
  from Call.prems(3) obtain b e out' where q: "req_spec env q = Some (b, e)" and k: "script_spec env (k e) = Some (u, out')"
      and out: "out = b @ out'"
    by (auto split: option.splits)
  obtain c1 where c1: "do_req env c q = Some (c1, e)" "accepts c b c1"
    using req_ok [OF env Call.prems(1,2) q] by blast
  then have "ws_ready c1" "\<not> isClient_ws c1" using Call.prems(2) by (simp_all add: accepts_def same_rest_def)
  from Call.IH [OF _ this k] obtain c2 where "run_script env (k e) c1 = Some (c2\<lparr>wc_user := u\<rparr>)" "accepts c1 out' c2" by blast
  then show ?case using c1 accepts_trans [OF c1(2)] out by auto
qed

text \<open>The relation kept by a step of a callback, from one state of the meant server to another.\<close>

definition keeps :: "('u, 'z) wconn \<Rightarrow> 'u ws_app \<Rightarrow> ('u, 'z) wconn \<Rightarrow> bool" where
  "keeps c ap c' = (app_rel c' ap \<and> same_parse c c')"

lemma call_ok:
  assumes env: "plain_server env" and r: "app_rel c ap" and d: "deliver env ap op p = (ap', None)"
  shows "\<exists>c'. call_OnMessage env c op p = Some c' \<and> keeps c ap' c'"
proof -
  obtain u out where s: "script_spec env (ev_OnMessage env (ap_user ap) op p) = Some (u, out)"
      and ap': "ap' = ap\<lparr>ap_user := u, ap_out := ap_out ap @ out, ap_calls := ap_calls ap @ [OnMessage op p]\<rparr>"
    using d by (auto simp: deliver_def split: option.splits)
  let ?c = "c\<lparr>wc_calls := wc_calls c @ [OnMessage op p]\<rparr>"
  have c: "ws_ready ?c" "\<not> isClient_ws ?c" "wc_user c = ap_user ap"
    using r by (simp_all add: app_rel_def ws_ready_def isClient_ws_def isCorking_ws_def)
  obtain c' where c': "run_script env (ev_OnMessage env (ap_user ap) op p) ?c = Some (c'\<lparr>wc_user := u\<rparr>)" "accepts ?c out c'"
    using script_ok [OF env c(1,2) s] by blast
  have "keeps c ap' (c'\<lparr>wc_user := u\<rparr>)"
    using c'(2) r unfolding keeps_def app_rel_def accepts_def ap'
    by (simp add: same_parse_def same_rest_def ws_ready_def written_ws_def isClient_ws_def isCorking_ws_def getCurState_def)
  then show ?thesis using c'(1) c(3) by (simp add: call_OnMessage_def)
qed

lemma plain_facts:
  assumes "plain_server env"
  shows "lib_ok (ev_lib env)" "\<not> cf_runInGoTask (ev_conf env)" "\<not> pd_Decompression (ev_pd env)"
    "wl_MaxFrameHeaderSize (ev_lib env) = 14" "wl_GetFin (ev_lib env) h = bit (fh_Head h) 7"
    "wl_GetRsv1 (ev_lib env) h = bit (fh_Head h) 6" "wl_GetRsv2 (ev_lib env) h = bit (fh_Head h) 5"
    "wl_GetRsv3 (ev_lib env) h = bit (fh_Head h) 4" "wl_IsControl (ev_lib env) op = bit op 3"
    "length (wl_Mask (ev_lib env) p k) = length p"
  using assms by (simp_all add: plain_server_def lib_ok_def)

lemma length_unmasked: "plain_server env \<Longrightarrow> length (unmasked env h p) = length p"
  by (simp add: unmasked_def plain_facts)

lemma open_conn: "app_rel c ap \<Longrightarrow> \<not> isClosed_ws c"
  by (simp add: app_rel_def ws_ready_def isClosed_ws_def)

lemma takePayload_ok:
  assumes "plain_server env"
  shows "takePayload env p nc = Some p"
proof -
  have "0 \<le> int (length p) + 14" by simp
  then obtain n cap where "GetBytes env (int (length p) + 14) = Some (n, cap)"
    by (rule lib_GetBytes [OF plain_facts(1) [OF assms]])
  then show ?thesis by (simp add: takePayload_def plain_facts [OF assms])
qed

lemma control_ok:
  assumes env: "plain_server env" and r: "app_rel c ap" and len: "fh_PayloadLen (wc_rh c) = int (length p)"
    and s: "spec_control env ap (fh_Opcode (wc_rh c)) (bit (fh_Head (wc_rh c)) 7) (unmasked env (wc_rh c) p) = (ap', None)"
  shows "\<exists>c'. control_frame env c (wc_rh c) p = Some (c', None) \<and> keeps c ap' c'"
proof -
  let ?p = "unmasked env (wc_rh c) p" and ?op = "fh_Opcode (wc_rh c)"
  have small: "\<not> length p > maxControlFrameSize" and fin: "bit (fh_Head (wc_rh c)) 7" and op: "?op = opPing \<or> ?op = opPong"
    using s by (auto simp: spec_control_def length_unmasked [OF env] split: if_splits)
  have task: "addTask env d t = run_task env d t" if "app_rel d ap2" for d ap2 t
    using open_conn [OF that] by (simp add: addTask_def plain_facts [OF env])
  have eq: "control_frame env c (wc_rh c) p =
      (if ?op = opPing \<and> cf_replyPing (ev_conf env) then
        (case WriteTimeout env c opPong ?p two_seconds of
           None \<Rightarrow> None
         | Some (c, Some e) \<Rightarrow> Some (onClose_once env c (Some e), Some e)
         | Some (c, None) \<Rightarrow> map_option (\<lambda>c. (c, None)) (addTask env c (TPing ?op ?p)))
      else if ?op = opPong \<and> cf_ignorePong (ev_conf env) then Some (c, None)
      else map_option (\<lambda>c. (c, None)) (addTask env c (TControl ?op)))"
    using small fin op len by (auto simp: control_frame_def Let_def plain_facts [OF env])
  consider (ping) "?op = opPing" "cf_replyPing (ev_conf env)" | (pong) "\<not> (?op = opPing \<and> cf_replyPing (ev_conf env))" "?op = opPong" "cf_ignorePong (ev_conf env)"
    | (call) "\<not> (?op = opPing \<and> cf_replyPing (ev_conf env))" "\<not> (?op = opPong \<and> cf_ignorePong (ev_conf env))" by blast
  then show ?thesis
  proof cases
    case ping
    let ?out = "wsHeader opPong (length ?p) @ ?p"
    have ready: "ws_ready c" "\<not> isClient_ws c" using r by (simp_all add: app_rel_def)
    have "req_spec env (ReqWriteTimeout opPong ?p two_seconds) = Some (?out, None)"
      by (simp add: req_spec_def timed_spec_def send_spec_def sendable_def)
    from req_ok [OF env ready this] obtain c1 where c1: "WriteTimeout env c opPong ?p two_seconds = Some (c1, None)" "accepts c ?out c1"
      by (auto simp: do_req_def)
    from app_rel_accepts [OF r c1(2)] have r1: "app_rel c1 (ap\<lparr>ap_out := ap_out ap @ ?out\<rparr>)" and k1: "same_parse c c1" by simp_all
    have "deliver env (ap\<lparr>ap_out := ap_out ap @ ?out\<rparr>) ?op ?p = (ap', None)"
      using s ping small fin by (simp add: spec_control_def length_unmasked [OF env])
    from call_ok [OF env r1 this] obtain c2 where "call_OnMessage env c1 ?op ?p = Some c2" "keeps c1 ap' c2" by blast
    then show ?thesis using eq ping c1 task [OF r1] same_parse_trans [OF k1] by (simp add: run_task_def keeps_def)
  next
    case pong
    then have "ap' = ap" using s small fin by (simp add: spec_control_def length_unmasked [OF env])
    then show ?thesis using eq pong r by (simp add: keeps_def)
  next
    case call
    then have "deliver env ap ?op [] = (ap', None)"
      using s small fin op by (auto simp: spec_control_def length_unmasked [OF env])
    from call_ok [OF env r this] obtain c2 where "call_OnMessage env c ?op [] = Some c2" "keeps c ap' c2" by blast
    then show ?thesis using eq call task [OF r] by (auto simp: run_task_def)
  qed
qed

lemma fragment_ok:
  assumes env: "plain_server env" and r: "app_rel c ap" and h: "wc_fragmentHeader c = Some first"
    and s: "spec_data env ap (fh_Opcode (wc_rh c)) (bit (fh_Head (wc_rh c)) 7) (unmasked env (wc_rh c) p) = (ap', None)"
  shows "\<exists>c'. next_fragment env c first (wc_rh c) p nc = Some (c', None) \<and> keeps c ap' c'"
proof -
  let ?p = "unmasked env (wc_rh c) p"
  obtain q where q: "ap_frag ap = Some (fh_Opcode first, q)" "wc_fragmentPayload c = Some q"
    using r h by (cases "ap_frag ap") (auto simp: app_rel_def)
  have op: "fh_Opcode (wc_rh c) = opContinuation"
    using s q by (auto simp: spec_data_def split: if_splits bool.splits)
  have eq: "next_fragment env c first (wc_rh c) p nc =
      (if bit (fh_Head (wc_rh c)) 7 then
         map_option (\<lambda>c. (c, None)) (addTask env (c\<lparr>wc_fragmentHeader := None, wc_fragmentPayload := None\<rparr>)
           (TFragments first (q @ ?p) False))
       else Some (c\<lparr>wc_fragmentPayload := Some (q @ ?p)\<rparr>, None))"
    using op q by (simp add: next_fragment_def takePayload_ok [OF env] Let_def plain_facts [OF env])
  show ?thesis
  proof (cases "bit (fh_Head (wc_rh c)) 7")
    case False
    then have ap': "ap' = ap\<lparr>ap_frag := Some (fh_Opcode first, q @ ?p)\<rparr>" using s op q by (simp add: spec_data_def)
    have "keeps c ap' (c\<lparr>wc_fragmentPayload := Some (q @ ?p)\<rparr>)"
      using r h by (simp add: ap' keeps_def app_rel_def same_parse_def ws_ready_def written_ws_def isClient_ws_def
          isCorking_ws_def getCurState_def)
    then show ?thesis using eq False by simp
  next
    case True
    let ?c = "c\<lparr>wc_fragmentHeader := None, wc_fragmentPayload := None\<rparr>"
    have t: "text_ok env (fh_Opcode first) (q @ ?p)" and d: "deliver env (ap\<lparr>ap_frag := None\<rparr>) (fh_Opcode first) (q @ ?p) = (ap', None)"
      using s op q True by (auto simp: spec_data_def split: if_splits)
    have r1: "app_rel ?c (ap\<lparr>ap_frag := None\<rparr>)" and p1: "same_parse c ?c"
      using r by (simp_all add: app_rel_def same_parse_def ws_ready_def written_ws_def isClient_ws_def isCorking_ws_def getCurState_def)
    from call_ok [OF env r1 d] obtain c' where c': "call_OnMessage env ?c (fh_Opcode first) (q @ ?p) = Some c'" "keeps ?c ap' c'" by blast
    have "addTask env ?c (TFragments first (q @ ?p) False) = Some c'"
      using c'(1) t open_conn [OF r1]
      by (auto simp: addTask_def plain_facts [OF env] run_task_def fragments_done_def text_ok_def)
    then show ?thesis using eq True c'(2) same_parse_trans [OF p1] by (auto simp: keeps_def)
  qed
qed

lemma data_ok:
  assumes env: "plain_server env" and r: "app_rel c ap" and h: "wc_fragmentHeader c = None"
    and rsv: "\<not> bit (fh_Head (wc_rh c)) 6"
    and s: "spec_data env ap (fh_Opcode (wc_rh c)) (bit (fh_Head (wc_rh c)) 7) (unmasked env (wc_rh c) p) = (ap', None)"
  shows "\<exists>c'. data_frame env c (wc_rh c) p nc = Some (c', None) \<and> keeps c ap' c'"
proof -
  let ?p = "unmasked env (wc_rh c) p" and ?op = "fh_Opcode (wc_rh c)"
  have f: "ap_frag ap = None" "wc_fragmentPayload c = None"
    using r h by (cases "ap_frag ap"; auto simp: app_rel_def)+
  show ?thesis
  proof (cases "bit (fh_Head (wc_rh c)) 7")
    case False
    then have ap': "ap' = ap\<lparr>ap_frag := Some (?op, ?p)\<rparr>" using s f by (auto simp: spec_data_def split: if_splits bool.splits)
    let ?c = "c\<lparr>wc_fragmentPayload := Some ?p, wc_fragmentHeader := Some (wc_rh c)\<rparr>"
    have "data_frame env c (wc_rh c) p nc = Some (?c, None)"
      using False f by (simp add: data_frame_def Let_def plain_facts [OF env] takePayload_ok [OF env])
    moreover have "keeps c ap' ?c"
      using r by (simp add: ap' keeps_def app_rel_def same_parse_def ws_ready_def written_ws_def isClient_ws_def
          isCorking_ws_def getCurState_def)
    ultimately show ?thesis by blast
  next
    case True
    then have t: "text_ok env ?op ?p" and d: "deliver env ap ?op ?p = (ap', None)"
      using s f by (auto simp: spec_data_def split: if_splits bool.splits)
    from call_ok [OF env r d] obtain c' where c': "call_OnMessage env c ?op ?p = Some c'" "keeps c ap' c'" by blast
    have "data_frame env c (wc_rh c) p nc = Some (c', None)"
      using True c'(1) t open_conn [OF r] rsv
      by (auto simp: data_frame_def Let_def plain_facts [OF env] processCallbackData_def unmasked_def [symmetric] text_ok_def)
    then show ?thesis using c'(2) by blast
  qed
qed

text \<open>One frame: what \<open>processCallback\<close> does is what the server is meant to do.\<close>

lemma processCallback_ok:
  assumes env: "plain_server env" and r: "app_rel c ap" and len: "fh_PayloadLen (wc_rh c) = int (length p)"
    and op: "fh_Opcode (wc_rh c) = fh_Head (wc_rh c) AND 0x0F"
    and s: "spec_frame env ap (fh_Head (wc_rh c), unmasked env (wc_rh c) p) = (ap', None)"
  shows "\<exists>c'. processCallback env c (wc_rh c) p nc = Some (c', None) \<and> keeps c ap' c'"
proof -
  let ?b = "fh_Head (wc_rh c)" and ?op = "fh_Opcode (wc_rh c)" and ?p = "unmasked env (wc_rh c) p"
  have rsv: "\<not> bit ?b 6" "\<not> bit ?b 5" "\<not> bit ?b 4"
    and s': "(if bit ?op 3 then spec_control env ap ?op (bit ?b 7) ?p else spec_data env ap ?op (bit ?b 7) ?p) = (ap', None)"
    using s by (auto simp: spec_frame_def op [symmetric] Let_def split: if_splits)
  have bits: "bit (9 :: byte) 3" "bit (10 :: byte) 3" "\<not> bit (1 :: byte) 3" "\<not> bit (2 :: byte) 3" "bit (8 :: byte) 3"
    by (simp_all add: bit_iff_odd_drop_bit drop_bit_eq_div)
  show ?thesis
  proof (cases "bit ?op 3")
    case True
    then have c: "spec_control env ap ?op (bit ?b 7) ?p = (ap', None)" using s' by simp
    then have o: "?op = opPing \<or> ?op = opPong" by (auto simp: spec_control_def split: if_splits)
    then have "processCallback env c (wc_rh c) p nc = control_frame env c (wc_rh c) p"
      using rsv True by (auto simp: processCallback_def Let_def plain_facts [OF env])
    then show ?thesis using control_ok [OF env r len c] by simp
  next
    case False
    then have d: "spec_data env ap ?op (bit ?b 7) ?p = (ap', None)" using s' by simp
    show ?thesis
    proof (cases "wc_fragmentHeader c")
      case (Some first)
      then have "processCallback env c (wc_rh c) p nc = next_fragment env c first (wc_rh c) p nc"
        using rsv False by (simp add: processCallback_def Let_def plain_facts [OF env])
      then show ?thesis using fragment_ok [OF env r Some d] by simp
    next
      case None
      then have "ap_frag ap = None" using r by (cases "ap_frag ap") (auto simp: app_rel_def)
      then have "?op = opText \<or> ?op = opBinary" using d by (auto simp: spec_data_def split: if_splits bool.splits)
      then have "processCallback env c (wc_rh c) p nc = data_frame env c (wc_rh c) p nc"
        using rsv None by (auto simp: processCallback_def Let_def plain_facts [OF env])
      then show ?thesis using data_ok [OF env r None rsv(1) d] by simp
    qed
  qed
qed

section \<open>The loops\<close>

definition serving :: "('u, 'z) ws_env \<Rightarrow> ('u, 'z) wconn \<Rightarrow> 'u ws_app \<Rightarrow> bytes \<Rightarrow> bool" where
  "serving env c ap raw = (app_rel c ap \<and> frame_at env c raw \<and> buf_ok c)"

lemma serving_parse:
  "app_rel c' ap' \<Longrightarrow> same_parse c c' \<Longrightarrow> frame_at env c raw \<Longrightarrow> buf_ok c \<Longrightarrow> serving env c' ap' raw"
  by (auto simp: serving_def same_parse_def frame_at_def header_is_def buf_ok_def rbuf_len_def unread_def split: frame_state.splits)

lemma same_parse_unread: "same_parse c c' \<Longrightarrow> unread c' = unread c"
  by (simp add: same_parse_def unread_def)

lemma frame_step_ok:
  assumes env: "plain_server env" "window_ok env" and j: "serving env c ap raw" and st: "getCurState c = Payload"
    and small: "length raw < 2 ^ 63"
  shows "(\<exists>c'. readPayloadAndCallback env c = Some (c', False, None) \<and> ws_split env raw = NeedMore
        \<and> serving env c' ap raw \<and> wc_rx c' = wc_rx c \<and> 0 < writeCap c')
    \<or> (\<exists>u n. ws_split env raw = Got u n \<and> (\<forall>ap'. spec_frame env ap u = (ap', None) \<longrightarrow>
        (\<exists>c'. readPayloadAndCallback env c = Some (c', True, None) \<and> serving env c' ap' (drop n raw) \<and> wc_rx c' = wc_rx c)))"
proof -
  have r: "app_rel c ap" and f: "frame_at env c raw" and b: "buf_ok c" using j by (simp_all add: serving_def)
  have lib: "lib_ok (ev_lib env)" using env(1) by (rule plain_facts)
  define nc where "nc = (\<not> cf_zeroCopyPayload (ev_conf env) \<or> wl_GetRsv1 (ev_lib env) (wc_rh c)
      \<or> \<not> wl_GetFin (ev_lib env) (wc_rh c) \<or> wc_fragmentHeader c \<noteq> None)"
  have eq: "readPayloadAndCallback env c =
      (case readPayload env c nc of
         None \<Rightarrow> None
       | Some (c, None) \<Rightarrow> Some (c, False, None)
       | Some (c, Some (f, payload)) \<Rightarrow>
           Option.bind (maybeCork env c) (\<lambda>c.
           Option.bind (processCallback env c f payload nc) (\<lambda>(c, err).
           case err of
             Some e \<Rightarrow> Some (closeWithLock env c (Some e), False, Some e)
           | None \<Rightarrow> Some (setCurState HeaderStart c, True, None))))"
    unfolding readPayloadAndCallback_def Let_def nc_def by (rule if_P [OF st])
  from readPayload_ok [OF lib env(2) f b st small, of nc] show ?thesis
  proof (elim disjE exE conjE)
    fix c' assume rp: "readPayload env c nc = Some (c', None)" and o: "ws_split env raw = NeedMore" "frame_at env c' raw"
      "buf_ok c'" "same_app c c'" "0 < writeCap c'"
    have "readPayloadAndCallback env c = Some (c', False, None)" unfolding eq rp by simp
    moreover have "app_rel c' ap" by (rule app_rel_same [OF r o(4)])
    moreover have "wc_rx c' = wc_rx c" using o(4) by (simp add: same_app_def)
    ultimately show ?thesis using o by (intro disjI1 exI [of _ c']) (simp add: serving_def)
  next
    fix c1 p n assume rp: "readPayload env c nc = Some (c1, Some (wc_rh c, p))"
      and got: "ws_split env raw = Got (fh_Head (wc_rh c), unmasked env (wc_rh c) p) n" and u: "unread c1 = drop n raw"
      and b1: "buf_ok c1" and s1: "same_app c c1" and rh: "wc_rh c1 = wc_rh c" and st1: "getCurState c1 = Payload"
      and len: "fh_PayloadLen (wc_rh c) = int (length p)"
    have op: "fh_Opcode (wc_rh c) = fh_Head (wc_rh c) AND 0x0F" using f st by (auto simp: frame_at_def header_is_def)
    have r1: "app_rel c1 ap" by (rule app_rel_same [OF r s1])
    obtain c2 where c2: "maybeCork env c1 = Some c2" "accepts c1 [] c2"
      using maybeCork_ok [OF lib] r1 by (auto simp: app_rel_def)
    from app_rel_accepts [OF r1 c2(2)] have r2: "app_rel c2 ap" and p2: "same_parse c1 c2" by simp_all
    have rh2: "wc_rh c2 = wc_rh c" using p2 rh by (simp add: same_parse_def)
    have "\<exists>c'. readPayloadAndCallback env c = Some (c', True, None) \<and> serving env c' ap' (drop n raw) \<and> wc_rx c' = wc_rx c"
      if sp: "spec_frame env ap (fh_Head (wc_rh c), unmasked env (wc_rh c) p) = (ap', None)" for ap'
    proof -
      have "\<exists>c'. processCallback env c2 (wc_rh c2) p nc = Some (c', None) \<and> keeps c2 ap' c'"
        by (rule processCallback_ok [OF env(1) r2]; simp only: rh2 len op sp)
      then obtain c3 where c3: "processCallback env c2 (wc_rh c) p nc = Some (c3, None)" "keeps c2 ap' c3"
        unfolding rh2 by blast
      have "same_parse c2 c3" "app_rel c3 ap'" using c3(2) by (simp_all add: keeps_def)
      then have p3: "same_parse c1 c3" by (intro same_parse_trans [OF p2])
      let ?c = "setCurState HeaderStart c3"
      have "app_rel ?c ap'" using \<open>app_rel c3 ap'\<close> by (rule app_rel_same) simp
      moreover have "unread ?c = drop n raw" unfolding setCurState_fields same_parse_unread [OF p3] by (rule u)
      then have "frame_at env ?c (drop n raw)"
        using p3 by (simp add: frame_at_def) (simp add: same_parse_def rh len)
      moreover have "buf_ok ?c"
        unfolding buf_ok_def rbuf_len_def setCurState_fields cur_state_bits using p3 b1
        by (simp add: buf_ok_def same_parse_def rbuf_len_def)
      moreover have "wc_rx ?c = wc_rx c" using p3 s1 by (simp add: same_parse_def same_app_def)
      moreover have "readPayloadAndCallback env c = Some (?c, True, None)" unfolding eq rp by (simp add: c2(1) c3(1))
      ultimately show ?thesis unfolding serving_def by blast
    qed
    then show ?thesis using got by blast
  qed
qed

text \<open>The header step, in the same form.\<close>

lemma header_step_ok:
  assumes env: "plain_server env" and j: "serving env c ap raw" and good: "ws_split env raw \<noteq> Bad ()"
  shows "(\<exists>c'. readHeader env c = (c', False, None) \<and> ws_split env raw = NeedMore \<and> serving env c' ap raw
        \<and> wc_rx c' = wc_rx c \<and> 0 < writeCap c')
    \<or> (\<exists>c'. readHeader env c = (c', True, None) \<and> serving env c' ap raw \<and> wc_rx c' = wc_rx c \<and> getCurState c' = Payload)"
proof -
  have "app_rel c ap" "frame_at env c raw" "buf_ok c" using j by (simp_all add: serving_def)
  with readHeader_ok [OF plain_facts(1) [OF env] this(2,3)] good show ?thesis
    by (auto simp: serving_def same_app_def intro: app_rel_same [unfolded same_app_def])
qed

text \<open>One unit of the reference.\<close>

lemma feed_Got:
  assumes got: "ws_split env raw = Got u n" and fd: "feed (ws_split env) fn [] ap (raw @ x) = (rest, None, ap')"
  shows "\<exists>ap1. fn ap u = (ap1, None) \<and> feed (ws_split env) fn [] ap1 (drop n raw @ x) = (rest, None, ap')"
proof -
  note n = ws.split_progress [OF got]
  obtain ap1 e where fn: "fn ap u = (ap1, e)" by (rule prod.exhaust)
  note loop = ws.loop_Got [OF ws_split_Got_append(1) [OF got], of fn 0 ap x]
  show ?thesis
  proof (cases e)
    case None
    obtain k e2 ap2 where l: "frame_loop (ws_split env) fn 0 ap1 (drop n raw @ x) = (k, e2, ap2)" by (rule prod_cases3)
    then have "frame_loop (ws_split env) fn n ap1 (drop n raw @ x) = (n + k, e2, ap2)"
      by (subst ws.loop_offset) simp
    then show ?thesis using fd loop fn None l n by (simp add: feed_def add.commute)
  next
    case (Some y)
    then show ?thesis using fd loop fn by (simp add: feed_def)
  qed
qed

text \<open>All the frames of the buffer: as the reference loop cuts and serves them.\<close>

lemma parse_batch_ok:
  assumes env: "plain_server env" "window_ok env"
  shows "serving env c ap raw \<Longrightarrow> length raw < 2 ^ 63 \<Longrightarrow>
    feed (ws_split env) (spec_frame env) [] ap raw = (rest, None, ap') \<Longrightarrow>
    \<exists>c'. parse_batch env c = Some (c', None) \<and> serving env c' ap' rest \<and> wc_rx c' = wc_rx c"
proof (induction raw arbitrary: c ap rule: measure_induct_rule [where f = length])
  case (less raw)
  let ?split = "ws_split env" and ?fn = "spec_frame env"
  have good: "?split raw \<noteq> Bad ()"
    using less.prems(3) by (auto simp: feed_def ws.loop_Bad)
  from header_step_ok [OF env(1) less.prems(1) good] show ?case
  proof (elim disjE exE conjE)
    fix c1 assume "readHeader env c = (c1, False, None)" "?split raw = NeedMore" "serving env c1 ap raw" "wc_rx c1 = wc_rx c"
    then show ?case using less.prems(3) by (simp add: parse_batch.simps feed_def ws.loop_NeedMore)
  next
    fix c1 assume h: "readHeader env c = (c1, True, None)" and j1: "serving env c1 ap raw" and x1: "wc_rx c1 = wc_rx c"
      and st: "getCurState c1 = Payload"
    from frame_step_ok [OF env j1 st less.prems(2)] show ?case
    proof (elim disjE exE conjE)
      fix c2 assume "readPayloadAndCallback env c1 = Some (c2, False, None)" "?split raw = NeedMore" "serving env c2 ap raw"
        "wc_rx c2 = wc_rx c1"
      then show ?case using less.prems(3) h x1 by (simp add: parse_batch.simps [of env c] feed_def ws.loop_NeedMore)
    next
      fix u n assume got: "?split raw = Got u n" and step: "\<forall>ap'. spec_frame env ap u = (ap', None) \<longrightarrow>
        (\<exists>c'. readPayloadAndCallback env c1 = Some (c', True, None) \<and> serving env c' ap' (drop n raw) \<and> wc_rx c' = wc_rx c1)"
      obtain ap1 where fn: "spec_frame env ap u = (ap1, None)" and fd: "feed ?split ?fn [] ap1 (drop n raw) = (rest, None, ap')"
        using feed_Got [OF got, of ?fn ap "[]"] less.prems(3) by auto
      obtain c2 where c2: "readPayloadAndCallback env c1 = Some (c2, True, None)" "serving env c2 ap1 (drop n raw)" "wc_rx c2 = wc_rx c1"
        using step fn by blast
      have "length (drop n raw) < 2 ^ 63" using less.prems(2) by simp
      from less.IH [OF ws.split_drop_less [OF got] c2(2) this fd] h c2 x1 show ?case
        by (simp add: parse_batch.simps [of env c])
    qed
  qed
qed

text \<open>A peer that has not closed its side: pieces of the stream and interrupted calls.\<close>

definition open_rx :: "rx_answer list \<Rightarrow> bool" where
  "open_rx ks = list_all (\<lambda>a. case a of Deliver d \<Rightarrow> d \<noteq> [] | FIN \<Rightarrow> False | RxErr e \<Rightarrow> e = EINTR) ks"

text \<open>What the server still has to do with the bytes it holds and those that come.\<close>

definition to_serve :: "('u, 'z) ws_env \<Rightarrow> 'u ws_app \<Rightarrow> bytes \<Rightarrow> bytes \<times> unit option \<times> 'u ws_app" where
  "to_serve env ap b = feed (ws_split env) (spec_frame env) [] ap b"

lemma one_frame_ok:
  assumes env: "plain_server env" "window_ok env" and j: "serving env c ap raw" and small: "length raw < 2 ^ 63"
    and fd: "to_serve env ap (raw @ x) = (rest, None, apf)"
  shows "\<exists>c1 ok c' ok' ap' raw'. readHeader env c = (c1, ok, None) \<and> readPayloadAndCallback env c1 = Some (c', ok', None)
    \<and> serving env c' ap' raw' \<and> wc_rx c' = wc_rx c \<and> to_serve env ap' (raw' @ x) = (rest, None, apf)
    \<and> (length raw' < length raw \<or> raw' = raw \<and> 0 < writeCap c')"
proof -
  have good: "ws_split env raw \<noteq> Bad ()"
  proof
    assume "ws_split env raw = Bad ()"
    then have "ws_split env (raw @ x) = Bad ()" by (rule ws_split_Bad_append)
    then show False using fd by (simp add: to_serve_def feed_def ws.loop_Bad)
  qed
  from header_step_ok [OF env(1) j good] show ?thesis
  proof (elim disjE exE conjE)
    fix c1 assume h: "readHeader env c = (c1, False, None)" and nm: "ws_split env raw = NeedMore" and j1: "serving env c1 ap raw"
      and x1: "wc_rx c1 = wc_rx c" and w: "0 < writeCap c1"
    show ?thesis
    proof (cases "getCurState c1 = Payload")
      case False
      then have "readPayloadAndCallback env c1 = Some (c1, False, None)" by (simp add: readPayloadAndCallback_def)
      then show ?thesis using h j1 x1 w fd by blast
    next
      case True
      from frame_step_ok [OF env j1 True small] nm h x1 fd show ?thesis by auto
    qed
  next
    fix c1 assume h: "readHeader env c = (c1, True, None)" and j1: "serving env c1 ap raw" and x1: "wc_rx c1 = wc_rx c"
      and st: "getCurState c1 = Payload"
    from frame_step_ok [OF env j1 st small] show ?thesis
    proof (elim disjE exE conjE)
      fix c2 assume "readPayloadAndCallback env c1 = Some (c2, False, None)" "serving env c2 ap raw" "wc_rx c2 = wc_rx c1" "0 < writeCap c2"
      then show ?thesis using h x1 fd by auto
    next
      fix u n assume got: "ws_split env raw = Got u n" and step: "\<forall>ap'. spec_frame env ap u = (ap', None) \<longrightarrow>
        (\<exists>c'. readPayloadAndCallback env c1 = Some (c', True, None) \<and> serving env c' ap' (drop n raw) \<and> wc_rx c' = wc_rx c1)"
      obtain ap1 where fn: "spec_frame env ap u = (ap1, None)" and f1: "to_serve env ap1 (drop n raw @ x) = (rest, None, apf)"
        using feed_Got [OF got fd [unfolded to_serve_def]] unfolding to_serve_def by blast
      obtain c2 where c2: "readPayloadAndCallback env c1 = Some (c2, True, None)" "serving env c2 ap1 (drop n raw)" "wc_rx c2 = wc_rx c1"
        using step fn by blast
      have "length (drop n raw) < length raw" by (rule ws.split_drop_less [OF got])
      then show ?thesis using h x1 c2 f1 by (intro exI [of _ c1] exI [of _ True] exI [of _ c2] exI [of _ True]
            exI [of _ ap1] exI [of _ "drop n raw"]) simp
    qed
  qed
qed

text \<open>Bytes from the socket, and a bigger buffer.\<close>

lemma serving_read:
  assumes j: "serving env c ap raw" and d: "length d \<le> writeCap c"
  shows "serving env (c\<lparr>wc_rx := ks, wc_rdata := wc_rdata c @ d\<rparr>) ap (raw @ d)"
proof -
  let ?c = "c\<lparr>wc_rx := ks, wc_rdata := wc_rdata c @ d\<rparr>"
  have b: "buf_ok c" and r: "app_rel c ap" and f: "frame_at env c raw" using j by (simp_all add: serving_def)
  have len: "rbuf_len ?c = rbuf_len c" by (simp add: rbuf_len_def)
  have "buf_ok ?c" using b d unfolding buf_ok_def len by (auto simp: writeCap_def)
  moreover have u: "unread ?c = unread c @ d" using b by (simp add: unread_def buf_ok_def)
  have "frame_at env ?c (raw @ d)"
    using f unfolding frame_at_def u by (cases "getCurState c") (auto simp: header_is_def)
  moreover have "app_rel ?c ap" using r
    by (simp add: app_rel_def ws_ready_def written_ws_def isClient_ws_def isCorking_ws_def)
  ultimately show ?thesis by (simp add: serving_def)
qed

definition grown :: "('u, 'z) ws_env \<Rightarrow> ('u, 'z) wconn \<Rightarrow> ('u, 'z) wconn option" where
  "grown env c =
     (if length (wc_rdata c) = rbuf_len c \<and> rbuf_len c < ws_batchReadBufferSize then growReadBuffer_ws env c else Some c)"

lemma grown_ok:
  assumes env: "plain_server env" and j: "serving env c ap raw"
  shows "\<exists>c'. grown env c = Some c' \<and> serving env c' ap raw \<and> wc_rx c' = wc_rx c"
proof (cases "length (wc_rdata c) = rbuf_len c \<and> rbuf_len c < ws_batchReadBufferSize")
  case True
  have "0 \<le> int ws_batchReadBufferSize" by simp
  then obtain n cap where g: "GetBytes env (int ws_batchReadBufferSize) = Some (n, cap)" "int ws_batchReadBufferSize \<le> int n"
    by (rule lib_GetBytes [OF plain_facts(1) [OF env]])
  then have n: "ws_batchReadBufferSize \<le> n" by simp
  let ?c = "c\<lparr>wc_rbuf := Some n\<rparr>"
  have b: "buf_ok c" and r: "app_rel c ap" and f: "frame_at env c raw" using j by (simp_all add: serving_def)
  have "buf_ok ?c" using b True n unfolding buf_ok_def by auto
  moreover have "frame_at env ?c raw" by (rule frame_at_same [OF f]) (simp_all add: unread_def)
  moreover have "app_rel ?c ap" using r by (rule app_rel_same) simp
  moreover have "grown env c = Some ?c" using True g n by (simp add: grown_def growReadBuffer_ws_def)
  ultimately show ?thesis by (auto simp: serving_def)
qed (use j in \<open>auto simp: grown_def\<close>)

text \<open>One turn of the reading loop.\<close>

lemma read_socket_err:
  "socketRead_ws c (writeCap c) = (c1, d, Some e) \<Longrightarrow> read_socket env c =
    (if e = EINTR then read_socket env c1 else if e = EAGAIN then Some (c1, None) else Some (c1, Some (SysErr e)))"
  by (simp add: read_socket.simps [of env c])

lemma read_socket_data:
  assumes "socketRead_ws c (writeCap c) = (c1, d, None)" and "\<not> (d = [] \<and> writeCap c > 0)"
    and "grown env (c1\<lparr>wc_rdata := wc_rdata c1 @ d\<rparr>) = Some c2"
  shows "0 < writeCap c2 \<Longrightarrow> read_socket env c = (if length d < writeCap c then Some (c2, None) else read_socket env c2)"
    and "writeCap c2 = 0 \<Longrightarrow> readHeader env c2 = (c3, ok, None) \<Longrightarrow> readPayloadAndCallback env c3 = Some (c4, ok', None) \<Longrightarrow>
      read_socket env c = read_socket env c4"
  using assms(1,2) unfolding read_socket.simps [of env c] Let_def grown_def [symmetric]
  by (auto simp: assms(3))


definition served_on :: "('u, 'z) ws_env \<Rightarrow> bytes \<Rightarrow> 'u ws_app \<Rightarrow> ('u, 'z) wconn \<Rightarrow> 'u ws_app \<Rightarrow> bytes \<Rightarrow> bool" where
  "served_on env rest apf c ap raw =
     (serving env c ap raw \<and> open_rx (wc_rx c) \<and> length (raw @ incoming (wc_rx c)) < 2 ^ 63
      \<and> to_serve env ap (raw @ incoming (wc_rx c)) = (rest, None, apf))"

lemma socketRead_open:
  assumes "open_rx (wc_rx c)" and "0 \<le> wc_fd c"
  obtains (none) "wc_rx c = []" "0 < space" "socketRead_ws c space = (c, [], Some EAGAIN)"
  | (intr) ks where "wc_rx c = RxErr EINTR # ks" "0 < space" "socketRead_ws c space = (c\<lparr>wc_rx := ks\<rparr>, [], Some EINTR)"
  | (full) "space = 0" "socketRead_ws c space = (c, [], None)"
  | (some) d ks where "wc_rx c = Deliver d # ks" "d \<noteq> []" "0 < space" "length d \<le> space"
      "socketRead_ws c space = (c\<lparr>wc_rx := ks\<rparr>, d, None)"
  | (part) d ks where "wc_rx c = Deliver d # ks" "0 < space" "space < length d"
      "socketRead_ws c space = (c\<lparr>wc_rx := Deliver (drop space d) # ks\<rparr>, take space d, None)"
proof (cases "space = 0")
  case True
  then show ?thesis using full by (simp add: socketRead_ws_def)
next
  case False
  then have s: "0 < space" by simp
  show ?thesis
  proof (cases "wc_rx c")
    case Nil
    then show ?thesis using none s assms(2) by (simp add: socketRead_ws_def)
  next
    case (Cons a ks)
    show ?thesis
    proof (cases a)
      case (Deliver d)
      then show ?thesis using some [of d ks] part [of d ks] s assms Cons
        by (cases "length d \<le> space") (simp_all add: socketRead_ws_def open_rx_def)
    next
      case FIN
      then show ?thesis using assms Cons by (simp add: open_rx_def)
    next
      case (RxErr e)
      then show ?thesis using intr [of ks] s assms Cons by (simp add: socketRead_ws_def open_rx_def)
    qed
  qed
qed

text \<open>Behind a read: the bytes are in the buffer.\<close>

lemma served_on_read:
  assumes j: "served_on env rest apf c ap raw" and d: "length d \<le> writeCap c"
    and x: "incoming (wc_rx c) = d @ incoming ks" and ks: "open_rx ks"
  shows "served_on env rest apf (c\<lparr>wc_rx := ks, wc_rdata := wc_rdata c @ d\<rparr>) ap (raw @ d)"
proof -
  have "serving env c ap raw" using j by (simp add: served_on_def)
  from serving_read [OF this d, of ks] j ks x show ?thesis by (simp add: served_on_def)
qed


lemma served_on_grown:
  assumes env: "plain_server env" and j: "served_on env rest apf c ap raw"
  shows "\<exists>c'. grown env c = Some c' \<and> served_on env rest apf c' ap raw \<and> wc_rx c' = wc_rx c"
  using grown_ok [OF env, of c ap raw] j by (auto simp: served_on_def)

lemma served_on_frame:
  assumes env: "plain_server env" "window_ok env" and j: "served_on env rest apf c ap raw"
  shows "\<exists>c1 ok c' ok' ap' raw'. readHeader env c = (c1, ok, None) \<and> readPayloadAndCallback env c1 = Some (c', ok', None)
    \<and> served_on env rest apf c' ap' raw' \<and> wc_rx c' = wc_rx c
    \<and> (length raw' < length raw \<or> raw' = raw \<and> 0 < writeCap c')"
proof -
  have "serving env c ap raw" "length raw < 2 ^ 63" "to_serve env ap (raw @ incoming (wc_rx c)) = (rest, None, apf)"
    and o: "open_rx (wc_rx c)" "length (raw @ incoming (wc_rx c)) < 2 ^ 63"
    using j by (simp_all add: served_on_def)
  from one_frame_ok [OF env this(1-3)] obtain c1 ok c' ok' ap' raw' where
    s: "readHeader env c = (c1, ok, None)" "readPayloadAndCallback env c1 = Some (c', ok', None)" "serving env c' ap' raw'"
      "wc_rx c' = wc_rx c" "to_serve env ap' (raw' @ incoming (wc_rx c)) = (rest, None, apf)"
      "length raw' < length raw \<or> raw' = raw \<and> 0 < writeCap c'" by blast
  have "length raw' \<le> length raw" using s(6) by auto
  then have "served_on env rest apf c' ap' raw'" using s o by (simp add: served_on_def)
  then show ?thesis using s by blast
qed

lemma read_socket_ok:
  assumes env: "plain_server env" "window_ok env"
  shows "served_on env rest apf c ap raw \<Longrightarrow>
    \<exists>c' ap' raw'. read_socket env c = Some (c', None) \<and> served_on env rest apf c' ap' raw'
      \<and> length (wc_rx c') \<le> length (wc_rx c) - 1"
proof (induction "4 * rx_size (wc_rx c) + 2 * length raw + (if writeCap c = 0 then 1 else 0 :: nat)"
    arbitrary: c ap raw rule: less_induct)
  case less
  let ?M = "4 * rx_size (wc_rx c) + 2 * length raw + (if writeCap c = 0 then 1 else 0 :: nat)"
  have go: ?case if sr: "socketRead_ws c (writeCap c) = (c1, d, None)" and ne: "\<not> (d = [] \<and> 0 < writeCap c)"
    and c2: "c2 = c1\<lparr>wc_rdata := wc_rdata c1 @ d\<rparr>" and j2: "served_on env rest apf c2 ap raw2"
    and m: "4 * rx_size (wc_rx c2) + 2 * length raw2 < ?M"
    and l: "length (wc_rx c2) \<le> length (wc_rx c)" "length d < writeCap c \<Longrightarrow> length (wc_rx c2) \<le> length (wc_rx c) - 1"
    for c1 d c2 raw2
  proof -
    obtain c3 where g: "grown env c2 = Some c3" and j3: "served_on env rest apf c3 ap raw2" and x3: "wc_rx c3 = wc_rx c2"
      using served_on_grown [OF env(1) j2] by blast
    note turn = read_socket_data [OF sr ne g [unfolded c2]]
    show ?thesis
    proof (cases "0 < writeCap c3")
      case True
      show ?thesis
      proof (cases "length d < writeCap c")
        case short: True
        then show ?thesis using turn(1) [OF True] j3 x3 l(2) by auto
      next
        case False
        have "4 * rx_size (wc_rx c3) + 2 * length raw2 + (if writeCap c3 = 0 then 1 else 0) < ?M" using m x3 True by simp
        from less.hyps [OF this j3] turn(1) [OF True] False x3 l(1) show ?thesis by (auto intro: le_trans [OF _ diff_le_mono])
      qed
    next
      case False
      then have w: "writeCap c3 = 0" by simp
      obtain c4 ok c5 ok' ap' raw' where s: "readHeader env c3 = (c4, ok, None)" "readPayloadAndCallback env c4 = Some (c5, ok', None)"
          "served_on env rest apf c5 ap' raw'" "wc_rx c5 = wc_rx c3" "length raw' < length raw2 \<or> raw' = raw2 \<and> 0 < writeCap c5"
        using served_on_frame [OF env j3] by blast
      have "4 * rx_size (wc_rx c5) + 2 * length raw' + (if writeCap c5 = 0 then 1 else 0) < ?M" using m x3 s(4,5) by auto
      from less.hyps [OF this s(3)] turn(2) [OF w s(1,2)] s(4) x3 l(1) show ?thesis by (auto intro: le_trans [OF _ diff_le_mono])
    qed
  qed
  have o: "open_rx (wc_rx c)" "0 \<le> wc_fd c" using less.prems by (simp_all add: served_on_def serving_def app_rel_def)
  show ?case
  proof (cases rule: socketRead_open [OF o, of "writeCap c"])
    case none: 1
    then show ?thesis using read_socket_err [OF none(3), of env] less.prems by auto
  next
    case intr: (2 ks)
    let ?c = "c\<lparr>wc_rx := ks\<rparr>"
    have j: "served_on env rest apf ?c ap raw"
      using served_on_read [OF less.prems, of "[]" ks] intr o by (simp add: open_rx_def)
    have w: "writeCap ?c = writeCap c" by (simp add: writeCap_def rbuf_len_def)
    have "4 * rx_size (wc_rx ?c) + 2 * length raw + (if writeCap ?c = 0 then 1 else 0) < ?M" using intr(1) unfolding w by simp
    from less.hyps [OF this j] obtain c' ap' raw' where r: "read_socket env ?c = Some (c', None)"
        "served_on env rest apf c' ap' raw'" "length (wc_rx c') \<le> length ks - 1" by auto
    have "read_socket env c = read_socket env ?c" using read_socket_err [OF intr(3), of env] by simp
    moreover have "length (wc_rx c') \<le> length (wc_rx c) - 1" using r(3) intr(1) by simp
    ultimately show ?thesis using r(1,2) by (intro exI [of _ c'] exI [of _ ap'] exI [of _ raw']) simp
  next
    case full: 3
    show ?thesis by (rule go [OF full(2), of c raw]) (use full less.prems in simp_all)
  next
    case some: (4 d ks)
    have j: "served_on env rest apf (c\<lparr>wc_rx := ks, wc_rdata := wc_rdata c @ d\<rparr>) ap (raw @ d)"
      using served_on_read [OF less.prems some(4)] some(1) o(1) by (simp add: open_rx_def)
    show ?thesis by (rule go [OF some(5) _ _ j]) (use some in simp_all)
  next
    case part: (5 d ks)
    let ?d = "take (writeCap c) d" and ?ks = "Deliver (drop (writeCap c) d) # ks"
    have inc: "incoming (wc_rx c) = ?d @ incoming ?ks" and op: "open_rx ?ks" using part o(1) by (simp_all add: open_rx_def)
    have j: "served_on env rest apf (c\<lparr>wc_rx := ?ks, wc_rdata := wc_rdata c @ ?d\<rparr>) ap (raw @ ?d)"
      by (rule served_on_read [OF less.prems _ inc op]) simp
    show ?thesis by (rule go [OF part(4) _ _ j]) (use part in auto)
  qed
qed

section \<open>Events\<close>

text \<open>A connection between two events: every complete frame was served, nothing is corked, and
  the read buffer may have been given back.\<close>

definition idle :: "('u, 'z) ws_env \<Rightarrow> bytes \<Rightarrow> 'u ws_app \<Rightarrow> ('u, 'z) wconn \<Rightarrow> 'u ws_app \<Rightarrow> bytes \<Rightarrow> bool" where
  "idle env rest apf c ap raw =
     (app_rel c ap \<and> frame_at env c raw \<and> \<not> isCorking_ws c \<and> ws_split env raw = NeedMore
      \<and> (buf_ok c \<or> wc_rbuf c = None \<and> wc_rdata c = [] \<and> wc_rr c = 0)
      \<and> open_rx (wc_rx c) \<and> length (raw @ incoming (wc_rx c)) < 2 ^ 63
      \<and> to_serve env ap (raw @ incoming (wc_rx c)) = (rest, None, apf))"

lemma to_serve_split:
  assumes "to_serve env ap (raw @ x) = (rest, None, apf)"
  shows "\<exists>raw1 ap1. feed (ws_split env) (spec_frame env) [] ap raw = (raw1, None, ap1) \<and> ws_split env raw1 = NeedMore
    \<and> length raw1 \<le> length raw \<and> to_serve env ap1 (raw1 @ x) = (rest, None, apf)"
proof -
  obtain raw1 e ap1 where f: "feed (ws_split env) (spec_frame env) [] ap raw = (raw1, e, ap1)" by (rule prod_cases3)
  have "e = None" using ws.feed_append [OF f, of x] assms by (cases e) (simp_all add: to_serve_def)
  with f have f: "feed (ws_split env) (spec_frame env) [] ap raw = (raw1, None, ap1)" by simp
  have "to_serve env ap1 (raw1 @ x) = (rest, None, apf)"
    using ws.feed_append_None [OF f, of x] assms by (simp add: to_serve_def feed_def)
  moreover have "length raw1 \<le> length raw" using f by (auto simp: feed_def Let_def split: prod.splits)
  ultimately show ?thesis using f ws.feed_stop [OF f] by blast
qed

lemma after_frames_ok:
  assumes env: "plain_server env" and j: "serving env c ap raw"
  shows "\<exists>c'. after_frames env c None = Some c' \<and> app_rel c' ap \<and> frame_at env c' raw \<and> \<not> isCorking_ws c' \<and> wc_rx c' = wc_rx c
    \<and> (buf_ok c' \<or> wc_rbuf c' = None \<and> wc_rdata c' = [] \<and> wc_rr c' = 0)"
proof -
  have r: "app_rel c ap" and f: "frame_at env c raw" and b: "buf_ok c" using j by (simp_all add: serving_def)
  obtain c1 where c1: "corkEnd env c = Some c1" "accepts c [] c1" "\<not> isCorking_ws c1"
    using corkEnd_ok [OF plain_facts(1) [OF env]] r by (auto simp: app_rel_def)
  from app_rel_accepts [OF r c1(2)] have r1: "app_rel c1 ap" and p: "same_parse c c1" by simp_all
  have "serving env c1 ap raw" by (rule serving_parse [OF r1 p f b])
  then have f1: "frame_at env c1 raw" and b1: "buf_ok c1" by (simp_all add: serving_def)
  have x1: "wc_rx c1 = wc_rx c" using p by (simp add: same_parse_def)
  show ?thesis
  proof (cases "wc_rr c1 = length (wc_rdata c1)")
    case False
    then have "after_frames env c None = Some c1" using c1(1) by (simp add: after_frames_def)
    then show ?thesis using r1 f1 b1 c1(3) x1 by blast
  next
    case True
    let ?c = "c1\<lparr>wc_rr := 0, wc_rdata := [], wc_rbuf := None\<rparr>"
    have "after_frames env c None = Some ?c" using c1(1) True b1 by (auto simp: after_frames_def buf_ok_def)
    moreover have "frame_at env ?c raw" by (rule frame_at_same [OF f1]) (simp_all add: unread_def True)
    moreover have "app_rel ?c ap" using r1 by (rule app_rel_same) simp
    moreover have "isCorking_ws ?c = isCorking_ws c1" by (simp add: isCorking_ws_def)
    ultimately show ?thesis using c1(3) x1 by (intro exI [of _ ?c]) simp
  qed
qed

lemma processWebsocketFrame_ok:
  assumes env: "plain_server env" "window_ok env" and j: "idle env rest apf c ap raw"
  shows "\<exists>c' ap' raw'. processWebsocketFrame env c = Some (c', None) \<and> idle env rest apf c' ap' raw'
    \<and> length (wc_rx c') \<le> length (wc_rx c) - 1"
proof -
  have r: "app_rel c ap" and f: "frame_at env c raw" and b: "buf_ok c \<or> wc_rbuf c = None \<and> wc_rdata c = [] \<and> wc_rr c = 0"
    and o: "open_rx (wc_rx c)" "length (raw @ incoming (wc_rx c)) < 2 ^ 63" "to_serve env ap (raw @ incoming (wc_rx c)) = (rest, None, apf)"
    using j by (simp_all add: idle_def)
  define buf where "buf = (if wc_rbuf c = None
        then map_option (\<lambda>(len, cap). c\<lparr>wc_rbuf := Some len\<rparr>) (GetBytes env (readBufferSize env c)) else Some c)"
  have "\<exists>c0. buf = Some c0 \<and> serving env c0 ap raw \<and> wc_rx c0 = wc_rx c"
  proof (cases "wc_rbuf c = None")
    case False
    then show ?thesis using b r f by (auto simp: buf_def serving_def)
  next
    case True
    then have e: "wc_rdata c = []" "wc_rr c = 0" using b by (auto simp: buf_ok_def)
    have "fh_PayloadLen (wc_rh c) \<le> cf_window (ev_conf env) (fh_PayloadLen (wc_rh c))" "0 \<le> fh_PayloadLen (wc_rh c)"
      using f env(2) by (simp_all add: frame_at_def window_ok_def)
    then have rs: "14 \<le> readBufferSize env c" by (simp add: readBufferSize_def plain_facts [OF env(1)])
    then have "0 \<le> readBufferSize env c" by simp
    then obtain n cap where g: "GetBytes env (readBufferSize env c) = Some (n, cap)" "readBufferSize env c \<le> int n"
      by (rule lib_GetBytes [OF plain_facts(1) [OF env(1)]])
    have n: "14 \<le> n" using rs g(2) by linarith
    let ?c = "c\<lparr>wc_rbuf := Some n\<rparr>"
    have "buf_ok ?c" using n e by (simp add: buf_ok_def)
    moreover have "frame_at env ?c raw" by (rule frame_at_same [OF f]) (simp_all add: unread_def)
    moreover have "app_rel ?c ap" using r by (rule app_rel_same) simp
    ultimately show ?thesis using True g(1) by (intro exI [of _ ?c]) (simp add: buf_def serving_def)
  qed
  then obtain c0 where c0: "buf = Some c0" "serving env c0 ap raw" "wc_rx c0 = wc_rx c" by blast
  define c1 where "c1 = (if cf_readTimeout (ev_conf env) > 0
              then fst (setReadDeadline c0 (Some (cf_readTimeout (ev_conf env)))) else c0)"
  have "\<exists>t. c1 = c0\<lparr>wc_rtime := t\<rparr>"
    by (cases c0) (auto simp: c1_def setReadDeadline_def setDeadlineInner_def)
  then obtain t where t: "c1 = c0\<lparr>wc_rtime := t\<rparr>" by blast
  have "serving env c1 ap raw"
    using c0(2) unfolding serving_def t
    by (auto simp: buf_ok_def rbuf_len_def intro: app_rel_same frame_at_same simp: unread_def)
  then have s1: "served_on env rest apf c1 ap raw" using o c0(3) by (simp add: served_on_def t)
  obtain c2 ap2 raw2 where c2: "read_socket env c1 = Some (c2, None)" "served_on env rest apf c2 ap2 raw2"
      "length (wc_rx c2) \<le> length (wc_rx c) - 1"
    using read_socket_ok [OF env s1] c0(3) by (auto simp: t)
  have s2: "serving env c2 ap2 raw2" "length raw2 < 2 ^ 63" "to_serve env ap2 (raw2 @ incoming (wc_rx c2)) = (rest, None, apf)"
    using c2(2) by (simp_all add: served_on_def)
  obtain raw3 ap3 where f3: "feed (ws_split env) (spec_frame env) [] ap2 raw2 = (raw3, None, ap3)" "ws_split env raw3 = NeedMore"
      "length raw3 \<le> length raw2" "to_serve env ap3 (raw3 @ incoming (wc_rx c2)) = (rest, None, apf)"
    using to_serve_split [OF s2(3)] by blast
  obtain c3 where c3: "parse_batch env c2 = Some (c3, None)" "serving env c3 ap3 raw3" "wc_rx c3 = wc_rx c2"
    using parse_batch_ok [OF env s2(1,2) f3(1)] by blast
  obtain c4 where c4: "after_frames env c3 None = Some c4" "app_rel c4 ap3" "frame_at env c4 raw3" "\<not> isCorking_ws c4"
      "wc_rx c4 = wc_rx c3" "buf_ok c4 \<or> wc_rbuf c4 = None \<and> wc_rdata c4 = [] \<and> wc_rr c4 = 0"
    using after_frames_ok [OF env(1) c3(2)] by blast
  have "processWebsocketFrame env c = Some (c4, None)"
    unfolding processWebsocketFrame_def Let_def buf_def [symmetric] c0(1)
    by (simp add: c1_def [symmetric] c2(1) c3(1) c4(1))
  moreover have "idle env rest apf c4 ap3 raw3"
    using c4 c3(3) f3 c2(2) by (simp add: idle_def served_on_def)
  moreover have "length (wc_rx c4) \<le> length (wc_rx c) - 1" using c4(5) c3(3) c2(3) by simp
  ultimately show ?thesis by blast
qed

text \<open>An event reaches the connection through a parsing worker or on the event loop itself.\<close>

datatype ws_event = Worker bool bool | Looped bool bool

fun on_ws_event :: "('u, 'z) ws_env \<Rightarrow> ('u, 'z) wconn \<Rightarrow> ws_event \<Rightarrow> ('u, 'z) wconn option" where
  "on_ws_event env c (Worker isRead isWrite) = processOne env c isRead isWrite"
| "on_ws_event env c (Looped isRead isWrite) = loop_event_ws env c isRead isWrite"

fun run_ws :: "('u, 'z) ws_env \<Rightarrow> ('u, 'z) wconn \<Rightarrow> ws_event list \<Rightarrow> ('u, 'z) wconn option" where
  "run_ws env c [] = Some c"
| "run_ws env c (e # es) = (case on_ws_event env c e of None \<Rightarrow> None | Some c \<Rightarrow> run_ws env c es)"

fun is_read :: "ws_event \<Rightarrow> bool" where
  "is_read (Worker r w) = r"
| "is_read (Looped r w) = r"

lemma idle_flush:
  assumes env: "plain_server env" and j: "idle env rest apf c ap raw"
  shows "\<exists>c'. (if w \<and> needFlush_ws c then flush_ws env c else Some c) = Some c' \<and> idle env rest apf c' ap raw
    \<and> wc_rx c' = wc_rx c"
proof (cases "w \<and> needFlush_ws c")
  case False
  show ?thesis unfolding if_not_P [OF False] using j by blast
next
  case True
  have r: "app_rel c ap" and nc: "\<not> isCorking_ws c" and f: "frame_at env c raw"
    and b: "buf_ok c \<or> wc_rbuf c = None \<and> wc_rdata c = [] \<and> wc_rr c = 0" using j by (simp_all add: idle_def)
  obtain c' where c': "flush_ws env c = Some c'" "accepts c [] c'" "\<not> isCorking_ws c'"
    using flush_ok [OF plain_facts(1) [OF env] _ nc] r by (auto simp: app_rel_def)
  from app_rel_accepts [OF r c'(2)] have r1: "app_rel c' ap" and p: "same_parse c c'" by simp_all
  have "frame_at env c' raw"
    by (rule frame_at_same [OF f _ same_parse_unread [OF p]]) (use p in \<open>simp_all add: same_parse_def\<close>)
  moreover have "buf_ok c' \<or> wc_rbuf c' = None \<and> wc_rdata c' = [] \<and> wc_rr c' = 0"
    using b p by (simp add: buf_ok_def same_parse_def rbuf_len_def)
  moreover have "wc_rx c' = wc_rx c" using p by (simp add: same_parse_def)
  ultimately have "idle env rest apf c' ap raw" using j r1 c'(3) by (simp add: idle_def)
  then show ?thesis unfolding if_P [OF True] using c'(1) \<open>wc_rx c' = wc_rx c\<close> by blast
qed

lemma event_ok:
  assumes env: "plain_server env" "window_ok env" and j: "idle env rest apf c ap raw"
  shows "\<exists>c' ap' raw'. on_ws_event env c e = Some c' \<and> idle env rest apf c' ap' raw'
    \<and> length (wc_rx c') \<le> length (wc_rx c) - (if is_read e then 1 else 0)"
proof (cases e)
  case (Worker r w)
  have "\<exists>c1 ap1 raw1. (if r then processWebsocketFrame env c else Some (c, None)) = Some (c1, None)
      \<and> idle env rest apf c1 ap1 raw1 \<and> length (wc_rx c1) \<le> length (wc_rx c) - (if r then 1 else 0)"
    using processWebsocketFrame_ok [OF env j] j by (cases r) auto
  then obtain c1 ap1 raw1 where c1: "(if r then processWebsocketFrame env c else Some (c, None)) = Some (c1, None)"
      "idle env rest apf c1 ap1 raw1" "length (wc_rx c1) \<le> length (wc_rx c) - (if r then 1 else 0)" by blast
  obtain c2 where "(if w \<and> needFlush_ws c1 then flush_ws env c1 else Some c1) = Some c2" "idle env rest apf c2 ap1 raw1"
      "wc_rx c2 = wc_rx c1"
    using idle_flush [OF env(1) c1(2)] by blast
  moreover have "on_ws_event env c e = (if w \<and> needFlush_ws c1 then flush_ws env c1 else Some c1)"
    unfolding Worker on_ws_event.simps processOne_def c1(1) by simp
  ultimately show ?thesis using c1(3) Worker by auto
next
  case (Looped r w)
  obtain c1 where c1: "(if w \<and> needFlush_ws c then flush_ws env c else Some c) = Some c1" "idle env rest apf c1 ap raw"
      "wc_rx c1 = wc_rx c"
    using idle_flush [OF env(1) j] by blast
  have e: "on_ws_event env c e = (if r then map_option (\<lambda>(c, err). if err \<noteq> None then Close_ws env c else c)
      (processWebsocketFrame env c1) else Some c1)"
    unfolding Looped on_ws_event.simps loop_event_ws_def c1(1) by simp
  show ?thesis using processWebsocketFrame_ok [OF env c1(2)] c1 e Looped by (cases r) auto
qed

lemma events_ok:
  assumes env: "plain_server env" "window_ok env"
  shows "idle env rest apf c ap raw \<Longrightarrow>
    \<exists>c' ap' raw'. run_ws env c es = Some c' \<and> idle env rest apf c' ap' raw'
      \<and> length (wc_rx c') \<le> length (wc_rx c) - length (filter is_read es)"
proof (induction es arbitrary: c ap raw)
  case (Cons e es)
  obtain c1 ap1 raw1 where c1: "on_ws_event env c e = Some c1" "idle env rest apf c1 ap1 raw1"
      "length (wc_rx c1) \<le> length (wc_rx c) - (if is_read e then 1 else 0)"
    using event_ok [OF env Cons.prems] by blast
  obtain c2 ap2 raw2 where c2: "run_ws env c1 es = Some c2" "idle env rest apf c2 ap2 raw2"
      "length (wc_rx c2) \<le> length (wc_rx c1) - length (filter is_read es)"
    using Cons.IH [OF c1(2)] by blast
  have "length (wc_rx c2) \<le> length (wc_rx c) - length (filter is_read (e # es))" using c1(3) c2(3) by (cases "is_read e") simp_all
  then show ?case using c1(1) c2(1,2) by auto
qed auto

definition start_app :: "'u \<Rightarrow> 'u ws_app" where
  "start_app u = \<lparr>ap_user = u, ap_frag = None, ap_out = [], ap_calls = []\<rparr>"

lemma newConn_idle:
  assumes "0 \<le> fd" and "soft_tx tx" and "open_rx rx" and "length (incoming rx) < 2 ^ 63"
    and "to_serve env (start_app u) (incoming rx) = (rest, None, ap)"
  shows "idle env rest ap (newConn_ws env fd False u masks tx rx) (start_app u) []"
proof -
  let ?c = "newConn_ws env fd False u masks tx rx"
  have f: "wc_packed ?c = 0" "wc_fd ?c = fd" "wc_rbuf ?c = None" "wc_rdata ?c = []" "wc_rr ?c = 0" "wc_wbufList ?c = []"
    "wc_fragmentPayload ?c = None" "wc_fragmentHeader ?c = None" "wc_closed ?c = False" "wc_tx ?c = tx" "wc_rx ?c = rx"
    "wc_sent ?c = []" "wc_user ?c = u" "wc_calls ?c = []" "fh_PayloadLen (wc_rh ?c) = 0"
    by (simp_all add: newConn_ws_def setReadDeadline_def setDeadlineInner_def Let_def)
  then have st: "getCurState ?c = HeaderStart" "isClient_ws ?c = False" "isCorking_ws ?c = False"
    by (simp_all add: getCurState_def isClient_ws_def isCorking_ws_def)
  have "app_rel ?c (start_app u)"
    using assms(1,2) f st by (simp add: app_rel_def start_app_def ws_ready_def written_ws_def waiting_def)
  moreover have "frame_at env ?c []" using f st by (simp add: frame_at_def unread_def)
  ultimately show ?thesis using assms(3-5) f st ws_split_short(1) [of "[]" env] by (simp add: idle_def)
qed

text \<open>C1. A WebSocket server serves the stream its client sends: however the kernel cuts the
  stream, however little it takes of a write, and whichever of the read and write events come
  (as long as there are enough read events for the data), the messages given to the
  callback, put together from fragments and unmasked, the user's state, and the bytes written,
  sent or waiting, corked or not, are those of the server that takes one frame after the other.
  The hypotheses: no compression, callbacks in place, a client that sends no bad frame and
  no Close, callbacks that do not close.\<close>

theorem ws_serves_stream:
  assumes "plain_server env" and "window_ok env" and "0 \<le> fd" and "soft_tx tx" and "open_rx rx"
    and "length (incoming rx) < 2 ^ 63"
    and "to_serve env (start_app u) (incoming rx) = (rest, None, ap)"
    and "length rx \<le> length (filter is_read es)"
  shows "\<exists>c. run_ws env (newConn_ws env fd False u masks tx rx) es = Some c
    \<and> wc_calls c = ap_calls ap \<and> wc_user c = ap_user ap \<and> written_ws c = ap_out ap"
proof -
  let ?c = "newConn_ws env fd False u masks tx rx"
  have rx: "wc_rx ?c = rx" by (simp add: newConn_ws_def setReadDeadline_def setDeadlineInner_def Let_def)
  obtain c ap' raw where c: "run_ws env ?c es = Some c" "idle env rest ap c ap' raw"
      "length (wc_rx c) \<le> length rx - length (filter is_read es)"
    using events_ok [OF assms(1,2) newConn_idle [OF assms(3-7)], of masks es] by (auto simp: rx)
  then have "wc_rx c = []" using assms(8) by simp
  then have "ap' = ap" using c(2) by (auto simp: idle_def to_serve_def feed_def ws.loop_NeedMore)
  moreover have "app_rel c ap'" using c(2) by (simp add: idle_def)
  ultimately show ?thesis using c(1) by (auto simp: app_rel_def)
qed


section \<open>A server that echoes\<close>

text \<open>A concrete module \<^verbatim>\<open>wsutil\<close>: masking is the exclusive or with the bytes of the key, and there
  is no compression.\<close>

fun xor_key :: "bytes \<Rightarrow> bytes \<Rightarrow> bytes" where
  "xor_key (k # ks) (b # bs) = (b XOR k) # xor_key (ks @ [k]) bs"
| "xor_key _ bs = bs"

lemma length_xor_key [simp]: "length (xor_key ks bs) = length bs"
  by (induction ks bs rule: xor_key.induct) simp_all

definition demo_lib :: "unit ws_lib" where
  "demo_lib = \<lparr>wl_GetBytes = (\<lambda>n. Some (nat n, nat n)), wl_MaxFrameHeaderSize = 14,
     wl_Mask = (\<lambda>b k. xor_key (rev (put32 k)) b), wl_GetFin = (\<lambda>h. bit (fh_Head h) 7), wl_GetRsv1 = (\<lambda>h. bit (fh_Head h) 6),
     wl_GetRsv2 = (\<lambda>h. bit (fh_Head h) 5), wl_GetRsv3 = (\<lambda>h. bit (fh_Head h) 4), wl_IsControl = (\<lambda>op. bit op 3),
     wl_WriteFrame = (\<lambda>b fin rsv1 m op k. wsHeader op (length b) @ b), wl_AddWrite = (\<lambda>_. None),
     wl_NewCompress = (\<lambda>_. Inr ()), wl_Compress = (\<lambda>z b _. (z, Inr b)), wl_NewDecompress = (\<lambda>_. Inr ()),
     wl_Decompress = (\<lambda>z b _. (z, Inr b))\<rparr>"

definition demo_conf :: ws_config where
  "demo_conf = \<lparr>cf_replyPing = True, cf_ignorePong = True, cf_utf8Check = (\<lambda>_. True), cf_readTimeout = 0, cf_window = (\<lambda>n. 2 * n),
     cf_readMaxMessage = 0, cf_flowBackPressureRemoveRead = False, cf_zeroCopyPayload = True, cf_runInGoTask = False,
     cf_subProtocols = [],
     cf_deflate = \<lparr>pd_Enable = False, pd_Compression = False, pd_Decompression = False, pd_ServerContextTakeover = False,
       pd_ClientContextTakeover = False, pd_ServerMaxWindowBits = 0, pd_ClientMaxWindowBits = 0\<rparr>\<rparr>"

text \<open>The user counts the messages and sends each back.\<close>

definition echo_env :: "(nat, unit) ws_env" where
  "echo_env = \<lparr>ev_lib = demo_lib, ev_conf = demo_conf, ev_pd = cf_deflate demo_conf,
     ev_OnMessage = (\<lambda>n op p. Call (ReqWriteMessage op p) (\<lambda>_. Return (Suc n))), ev_OnClose = (\<lambda>n _. n)\<rparr>"

lemma echo_ok: "plain_server echo_env" "window_ok echo_env"
  by (simp_all add: plain_server_def lib_ok_def window_ok_def echo_env_def demo_lib_def demo_conf_def)

text \<open>A masked "Hi", a ping, and a message of two fragments.\<close>

abbreviation demo_stream :: bytes where
  "demo_stream \<equiv> [0x81, 0x82, 1, 2, 3, 4, 0x49, 0x6B, 0x89, 0, 0x02, 1, 5, 0x80, 1, 6]"

abbreviation demo_rx :: "rx_answer list" where
  "demo_rx \<equiv> [Deliver [0x81, 0x82, 1], RxErr EINTR, Deliver [2, 3, 4, 0x49, 0x6B, 0x89, 0, 0x02, 1], Deliver [5, 0x80, 1, 6]]"

lemma demo_served:
  "to_serve echo_env (start_app 0) (incoming demo_rx) =
     ([], None, \<lparr>ap_user = 3, ap_frag = None, ap_out = [0x81, 2, 0x48, 0x69, 0x8A, 0, 0x89, 0, 0x82, 2, 5, 6],
       ap_calls = [OnMessage 1 [0x48, 0x69], OnMessage 9 [], OnMessage 2 [5, 6]]\<rparr>)"
  by code_simp

lemma ws_serves_stream_witness:
  "\<exists>c. run_ws echo_env (newConn_ws echo_env 7 False 0 [] [Accept 1] demo_rx)
      [Worker True False, Looped True True, Worker True True, Worker False True, Worker True False] = Some c
    \<and> wc_calls c = [OnMessage 1 [0x48, 0x69], OnMessage 9 [], OnMessage 2 [5, 6]] \<and> wc_user c = 3
    \<and> written_ws c = [0x81, 2, 0x48, 0x69, 0x8A, 0, 0x89, 0, 0x82, 2, 5, 6]"
proof -
  have "soft_tx [Accept 1]" "open_rx demo_rx" "length (incoming demo_rx) < 2 ^ 63"
    by (simp_all add: soft_tx_def open_rx_def)
  then show ?thesis
    using ws_serves_stream [OF echo_ok _ _ _ _ demo_served, of 7 "[Accept 1]"
        "[Worker True False, Looped True True, Worker True True, Worker False True, Worker True False]" "[]"] by simp
qed

section \<open>One frame back\<close>

text \<open>C1. The header and the payload of a message the server writes are what the parser at the other
  end takes out of its buffer: the opcode, FIN, the whole payload whatever its length, and
  nothing of what stands behind it.\<close>

theorem written_frame_read:
  assumes "lib_ok (ev_lib env)" and "window_ok env" and "getCurState c = HeaderStart" and "0 \<le> fh_PayloadLen (wc_rh c)"
    and "buf_ok c" and "unread c = wsHeader op (length p) @ p @ x" and "length (unread c) < 2 ^ 63"
    and "\<not> too_big env (int (length p))"
  shows "\<exists>c1 c2. readHeader env c = (c1, True, None) \<and> readPayload env c1 needCopy = Some (c2, Some (wc_rh c1, p))
    \<and> fh_Head (wc_rh c1) = 0x80 OR (op AND 0x0F) \<and> unread c2 = x"
proof -
  let ?u = "(0x80 OR (op AND 0x0F), p)"
  have len: "length p < 2 ^ 63" using assms(6,7) by simp
  then have "frame_ok_ws env None ?u" using assms(8) by (simp add: frame_ok_ws_def)
  from ws_split_enc [OF this, of x] have split: "ws_split env (unread c) = Got ?u (length (wsHeader op (length p) @ p))"
    by (simp add: enc_ws_server assms(6))
  have f: "frame_at env c (unread c)" using assms(3,4) by (simp add: frame_at_def)
  obtain c1 where c1: "readHeader env c = (c1, True, None)" "frame_at env c1 (unread c)" "buf_ok c1" "getCurState c1 = Payload"
    using readHeader_ok [OF assms(1) f assms(5)] split by auto
  have "hd_masked (fst (len_form (length p))) = False" using hd_of_len_form(1) [of "fst (len_form (length p))" "length p" False] by simp
  then have "\<not> fh_Mask (wc_rh c1)"
    using c1(2,4) assms(6) by (auto simp: frame_at_def header_is_def wsHeader_len_form)
  then have m: "unmasked env (wc_rh c1) q = q" for q by (simp add: unmasked_def)
  obtain c2 q n where c2: "readPayload env c1 needCopy = Some (c2, Some (wc_rh c1, q))"
      "ws_split env (unread c) = Got (fh_Head (wc_rh c1), q) n" "unread c2 = drop n (unread c)"
    using readPayload_ok [OF assms(1,2) c1(2,3,4) assms(7), of needCopy] split m by auto
  have "q = p \<and> fh_Head (wc_rh c1) = 0x80 OR (op AND 0x0F) \<and> n = length (wsHeader op (length p) @ p)"
    using c2(2) [unfolded split] by auto
  then have "q = p" "fh_Head (wc_rh c1) = 0x80 OR (op AND 0x0F)" "n = length (wsHeader op (length p) @ p)" by blast+
  moreover have "unread c2 = x" using c2(3) by (simp add: assms(6) calculation(3))
  ultimately show ?thesis using c1(1) c2(1) by blast
qed

lemma written_frame_read_witness:
  "\<exists>c1 c2. readHeader echo_env (newConn_ws echo_env 7 False 0 [] [] []\<lparr>wc_rbuf := Some 20, wc_rdata := [0x82, 2, 5, 6, 9]\<rparr>) = (c1, True, None)
    \<and> readPayload echo_env c1 False = Some (c2, Some (wc_rh c1, [5, 6])) \<and> fh_Head (wc_rh c1) = 0x82 \<and> unread c2 = [9]"
proof -
  let ?c = "newConn_ws echo_env 7 False 0 [] [] []\<lparr>wc_rbuf := Some 20, wc_rdata := [0x82, 2, 5, 6, 9]\<rparr>"
  have f: "wc_packed ?c = 0" "fh_PayloadLen (wc_rh ?c) = 0" "wc_rr ?c = 0" "wc_rdata ?c = [0x82, 2, 5, 6, 9]" "wc_rbuf ?c = Some 20"
    by (simp_all add: newConn_ws_def echo_env_def demo_conf_def)
  have st: "getCurState ?c = HeaderStart" unfolding getCurState_def f(1) by simp
  have "buf_ok ?c" unfolding buf_ok_def rbuf_len_def f st by simp
  moreover have "unread ?c = wsHeader 2 (length [5, 6 :: byte]) @ [5, 6] @ [9]" unfolding unread_def f by (simp add: wsHeader_def)
  moreover have "length (unread ?c) < 2 ^ 63" unfolding unread_def f by simp
  moreover have "0 \<le> fh_PayloadLen (wc_rh ?c)" unfolding f by simp
  moreover have "\<not> too_big echo_env (int (length [5, 6 :: byte]))" by (simp add: too_big_def echo_env_def demo_conf_def)
  moreover have "lib_ok (ev_lib echo_env)" using echo_ok(1) by (rule plain_facts)
  ultimately show ?thesis using written_frame_read [OF _ echo_ok(2) st, of 2 "[5, 6]" "[9]" False] by simp
qed

end
