(* ===== verification/Ws_Close.thy ===== *)
theory Ws_Close
  imports Ws_Serve
begin

text \<open>
  Closing a WebSocket connection (\<^verbatim>\<open>websocket/conn_unix.go\<close>): whatever happens to a connection, on
  any kernel, with or without compression, with callbacks in place or on the task executor,
  \<open>OnClose\<close> is called at most once and the descriptor is closed at most once. The last section
  shows on small cases where the code does not do what its comments say.
\<close>

section \<open>At most once\<close>

fun is_OnClose :: "ws_call \<Rightarrow> bool" where
  "is_OnClose (OnClose e) = True"
| "is_OnClose (OnMessage op p) = False"

fun is_CloseFd :: "conn_event \<Rightarrow> bool" where
  "is_CloseFd (CloseFd fd) = True"
| "is_CloseFd ev = False"

definition once_inv :: "('u, 'z) wconn \<Rightarrow> bool" where
  "once_inv c =
     (length (filter is_OnClose (wc_calls c)) = (if wc_once c then 1 else 0)
      \<and> length (filter is_CloseFd (wc_log c)) = (if wc_closed c then 1 else 0))"

lemma once_updates [simp]:
  "once_inv (c\<lparr>wc_rbuf := a1\<rparr>) = once_inv c" "once_inv (c\<lparr>wc_rdata := a2\<rparr>) = once_inv c" "once_inv (c\<lparr>wc_rr := a3\<rparr>) = once_inv c"
  "once_inv (c\<lparr>wc_wbufList := a4\<rparr>) = once_inv c" "once_inv (c\<lparr>wc_lenAndMaskSize := a5\<rparr>) = once_inv c"
  "once_inv (c\<lparr>wc_rh := a6\<rparr>) = once_inv c" "once_inv (c\<lparr>wc_fragmentPayload := a7\<rparr>) = once_inv c"
  "once_inv (c\<lparr>wc_fragmentHeader := a8\<rparr>) = once_inv c" "once_inv (c\<lparr>wc_deCtx := a9\<rparr>) = once_inv c"
  "once_inv (c\<lparr>wc_enCtx := b1\<rparr>) = once_inv c" "once_inv (c\<lparr>wc_rtime := b2\<rparr>) = once_inv c" "once_inv (c\<lparr>wc_wtime := b3\<rparr>) = once_inv c"
  "once_inv (c\<lparr>wc_masks := b4\<rparr>) = once_inv c" "once_inv (c\<lparr>wc_tx := b5\<rparr>) = once_inv c" "once_inv (c\<lparr>wc_sent := b6\<rparr>) = once_inv c"
  "once_inv (c\<lparr>wc_rx := b7\<rparr>) = once_inv c" "once_inv (c\<lparr>wc_armed := b8\<rparr>) = once_inv c" "once_inv (c\<lparr>wc_tasks := b9\<rparr>) = once_inv c"
  "once_inv (c\<lparr>wc_user := u\<rparr>) = once_inv c" "once_inv (setCorking_ws v c) = once_inv c" "once_inv (setCurState st c) = once_inv c"
  "once_inv (c\<lparr>wc_calls := wc_calls c @ [OnMessage op p]\<rparr>) = once_inv c"
  by (simp_all add: once_inv_def setCorking_ws_def setCurState_def)

named_theorems once_intros \<open>what an operation keeps of the invariant\<close>

lemma once_close [once_intros]:
  "once_inv c \<Longrightarrow> once_inv (onClose_once env c e)"
  "once_inv c \<Longrightarrow> once_inv (closeWithoutLockOnClose env c e b)"
  "once_inv c \<Longrightarrow> once_inv (closeNoLock env c e)"
  "once_inv c \<Longrightarrow> once_inv (closeWithLock env c e)"
  "once_inv c \<Longrightarrow> once_inv (Close_ws env c)"
  by (auto simp: once_inv_def onClose_once_def closeWithoutLockOnClose_def closeNoLock_def closeWithLock_def Close_ws_def
      isClosed_ws_def Let_def)

text \<open>The socket and the list of buffers do not touch it.\<close>

lemma once_socket:
  "socketWrite_ws c d = (c', r) \<Longrightarrow> once_inv c' = once_inv c"
  "socketWritev_ws c ds = (c', r) \<Longrightarrow> once_inv c' = once_inv c"
  "socketRead_ws c n = (c', r') \<Longrightarrow> once_inv c' = once_inv c"
  "after_partial env c = (c', e) \<Longrightarrow> once_inv c' = once_inv c"
  "addWrite_ws env c = (c', e) \<Longrightarrow> once_inv c' = once_inv c"
  "appendToWbufList_ws env c d k = Some c' \<Longrightarrow> once_inv c' = once_inv c"
  "corkStartLocked env c n = Some c' \<Longrightarrow> once_inv c' = once_inv c"
  "maybeCork env c = Some c' \<Longrightarrow> once_inv c' = once_inv c"
  "encoode env c p = (c', r'') \<Longrightarrow> once_inv c' = once_inv c"
  "decode env c p = (c', r'') \<Longrightarrow> once_inv c' = once_inv c"
  "next_mask c = (c', k'') \<Longrightarrow> once_inv c' = once_inv c"
  "setReadDeadline c t = (c', e) \<Longrightarrow> once_inv c' = once_inv c"
  "setWriteDeadline c t = (c', e) \<Longrightarrow> once_inv c' = once_inv c"
  by (auto simp: socketWrite_ws_def socketWritev_ws_def socketRead_ws_def after_partial_def addWrite_ws_def
      appendToWbufList_ws_def corkStartLocked_def maybeCork_def encoode_def decode_def next_mask_def setReadDeadline_def
      setWriteDeadline_def Let_def split: if_splits list.splits tx_answer.splits rx_answer.splits option.splits prod.splits sum.splits)


text \<open>Writing.\<close>

lemma once_write_bufs: "once_inv c \<Longrightarrow> write_bufs env n c before ws = (c', r) \<Longrightarrow> once_inv c'"
proof (induction env n c before ws rule: write_bufs.induct)
  case (3 env n c before b cap ws)
  obtain c1 k err where s: "socketWrite_ws c b = (c1, k, err)" by (rule prod_cases3)
  have c1: "once_inv c1" using once_socket(1) [OF s] 3(2) by simp
  obtain c2 e2 where a: "after_partial env c1 = (c2, e2)" by (rule prod.exhaust)
  have c2: "once_inv c2" using once_socket(4) [OF a] c1 by simp
  show ?case
  proof (cases "soft err \<and> k = length b")
    case True
    then show ?thesis using 3(1) [OF s [symmetric] refl _ _ c1] 3(3) s by simp
  next
    case False
    then show ?thesis using 3(3) c1 c2 s a by (auto split: if_splits option.splits intro!: once_intros)
  qed
qed auto

lemma once_write_ws: "once_inv c \<Longrightarrow> write_ws env c d = Some (c', r) \<Longrightarrow> once_inv c'"
  by (auto simp: write_ws_def split: if_splits option.splits prod.splits dest!: once_socket dest: once_write_bufs intro!: once_intros)

lemma once_connWrite: "once_inv c \<Longrightarrow> connWrite env c d = Some (c', r) \<Longrightarrow> once_inv c'"
  by (auto simp: connWrite_def dest: once_write_ws split: if_splits)

lemma once_flush: "once_inv c \<Longrightarrow> flush_ws env c = Some c' \<Longrightarrow> once_inv c'"
  by (auto simp: flush_ws_def dest: once_connWrite)

lemma once_cork_rest: "cork_rest env c n seg hdr p = Some c' \<Longrightarrow> once_inv c' = once_inv c"
  by (auto simp: cork_rest_def Let_def bind_eq_Some_conv split: if_splits dest!: once_socket(6))

lemma once_corkEnd: "once_inv c \<Longrightarrow> corkEnd env c = Some c' \<Longrightarrow> once_inv c'"
  using once_flush [of "setCorking_ws False c" env c']
  by (auto simp: corkEnd_def Let_def split: if_splits list.splits option.splits prod.splits)

lemma once_corkWrite:
  assumes c: "once_inv c" and w: "corkWrite env c op p = Some (c', r)"
  shows "once_inv c'"
proof -
  let ?h = "wsHeader op (length p)"
  obtain c1 where s: "(if wc_wbufList c = [] then corkStartLocked env c (length p) else Some c) = Some c1"
    using w by (auto simp: corkWrite_def bind_eq_Some_conv)
  then have c1: "once_inv c1" using c once_socket(7) [of env c "length p" c1] by (auto split: if_splits)
  obtain b cap where l: "last (wc_wbufList c1) = Some (b, cap)"
    using w s by (auto simp: corkWrite_def bind_eq_Some_conv split: prod.splits)
  let ?put = "\<lambda>c w. c\<lparr>wc_wbufList := butlast (wc_wbufList c1) @ [w]\<rparr>"
  obtain c2 n err where v: "socketWritev_ws c1 [b, ?h, p] = (c2, n, err)" by (rule prod_cases3)
  have c2: "once_inv c2" using once_socket(2) [OF v] c1 by simp
  let ?need = "length b + length ?h + length p"
  have w': "(if ?need \<le> cap then Some (?put c1 (Some (b @ ?h @ p, cap)), None)
      else Option.bind (growCork env (b, cap) ?need) (\<lambda>g.
        case g of
          Some (b, cap) \<Rightarrow> Some (?put c1 (Some (b @ ?h @ p, cap)), None)
        | None \<Rightarrow>
            (if err = None \<and> n = ?need then Some (?put c2 (Some ([], cap)), None)
             else if soft err then
               Option.bind (cork_rest env (setCorking_ws False (?put c2 (Some ([], cap)))) n b ?h p) (\<lambda>c. Some (addWrite_ws env c))
             else Some (?put c2 (Some ([], cap)), map_option SysErr err)))) = Some (c', r)"
    using w unfolding corkWrite_def Let_def s Option.bind.bind_lunit l prod.case v .
  consider (fits) w' where "c' = ?put c1 w'" | (sent) w' where "c' = ?put c2 w'"
    | (queued) d e where "cork_rest env (setCorking_ws False (?put c2 (Some ([], cap)))) n b ?h p = Some d"
        "addWrite_ws env d = (c', e)"
  proof (cases "?need \<le> cap")
    case True
    then show ?thesis using w' that(1) by auto
  next
    case False
    then obtain g where g: "growCork env (b, cap) ?need = Some g" using w' by (auto simp: bind_eq_Some_conv)
    show ?thesis
    proof (cases g)
      case (Some bc)
      then show ?thesis using w' False g that(1) by (cases bc) auto
    next
      case None
      show ?thesis
        using w' unfolding if_not_P [OF False] g None Option.bind.bind_lunit option.case
        by (cases "err = None \<and> n = ?need"; cases "soft err") (auto simp: bind_eq_Some_conv intro: that)
    qed
  qed
  then show ?thesis
  proof cases
    case queued
    then show ?thesis using once_cork_rest [OF queued(1)] once_socket(5) [OF queued(2)] c2 by simp
  qed (use c1 c2 in simp_all)
qed

text \<open>Messages.\<close>

lemma once_sent: "once_inv (fst x) \<Longrightarrow> sent_or_queued env all x = Some (c', r) \<Longrightarrow> once_inv c'"
  by (auto simp: sent_or_queued_def bind_eq_Some_conv split: prod.splits if_splits dest!: once_socket(5,6))

lemma once_write_frame: "once_inv c \<Longrightarrow> write_frame env c d fin rsv1 op k = Some (c', r) \<Longrightarrow> once_inv c'"
  by (auto simp: write_frame_def dest: once_connWrite)

lemma once_write_plain:
  assumes "once_inv c" and "write_plain env c op d rsv1 k = Some (c', r)"
  shows "once_inv c'"
proof -
  have "once_inv (fst (socketWrite_ws c x))" "once_inv (fst (socketWritev_ws c y))" for x y
    using once_socket(1) [of c x] once_socket(2) [of c y] assms(1)
    by (cases "socketWrite_ws c x"; cases "socketWritev_ws c y"; simp)+
  with assms show ?thesis
    by (auto simp: write_plain_def Let_def split: if_splits dest: once_corkWrite once_write_frame once_sent)
qed

lemma once_WriteMessage:
  assumes c: "once_inv c" and w: "WriteMessage env c op d = Some (c', r)"
  shows "once_inv c'"
proof -
  obtain c1 e where e: "(if rsv1_of env op then encoode env c d else (c, Inr d)) = (c1, e)" by (rule prod.exhaust)
  then have c1: "once_inv c1" using once_socket(9) [of env c d c1 e] c by (auto split: if_splits)
  obtain c2 k where k: "(if isClient_ws c1 then next_mask c1 else (c1, 0)) = (c2, k)" by (rule prod.exhaust)
  then have c2: "once_inv c2" using once_socket(11) [of c1 c2 k] c1 by (auto split: if_splits)
  show ?thesis using w c c1 once_write_plain [OF c2] unfolding WriteMessage_def Let_def e
    by (cases e) (auto simp: k split: if_splits)
qed

lemma once_fragments: "once_inv c \<Longrightarrow> fragments env c op d m rsv1 k = Some (c', r) \<Longrightarrow> once_inv c'"
proof (induction env c op d m rsv1 k rule: fragments.induct)
  case (1 env c op d m rsv1 k)
  show ?case
  proof (cases "d \<noteq> [] \<and> length d > m \<and> m \<noteq> 0")
    case False
    then show ?thesis using 1(2,3) once_write_frame [OF 1(2)] by (auto simp: fragments.simps [of env c op d] split: if_splits)
  next
    case True
    obtain c1 e where w: "write_frame env c (take m d) False rsv1 op k = Some (c1, e)"
      using 1(3) True by (cases "write_frame env c (take m d) False rsv1 op k") (auto simp: fragments.simps [of env c op d])
    have c1: "once_inv c1" by (rule once_write_frame [OF 1(2) w])
    show ?thesis
    proof (cases e)
      case None
      have "fragments env c1 opContinuation (drop m d) m rsv1 k = Some (c', r)"
        using 1(3) True w None by (simp add: fragments.simps [of env c op d])
      then show ?thesis using 1(1) True w None c1 by auto
    next
      case (Some x)
      then show ?thesis using 1(3) True w c1 by (simp add: fragments.simps [of env c op d])
    qed
  qed
qed

lemma once_writeFragment:
  assumes c: "once_inv c" and w: "writeFragment env c op d m = Some (c', r)"
  shows "once_inv c'"
proof -
  obtain c1 e where e: "(if rsv1_of env op then encoode env c d else (c, Inr d)) = (c1, e)" by (rule prod.exhaust)
  then have c1: "once_inv c1" using once_socket(9) [of env c d c1 e] c by (auto split: if_splits)
  obtain c2 k where k: "(if isClient_ws c1 then next_mask c1 else (c1, 0)) = (c2, k)" by (rule prod.exhaust)
  then have c2: "once_inv c2" using once_socket(11) [of c1 c2 k] c1 by (auto split: if_splits)
  show ?thesis using w c c1 once_fragments [OF c2] once_WriteMessage [OF c] unfolding writeFragment_def Let_def e
    by (cases e) (auto simp: k split: if_splits)
qed

lemma once_WriteTimeout:
  assumes c: "once_inv c" and w: "WriteTimeout env c op d t = Some (c', r)"
  shows "once_inv c'"
proof -
  obtain c1 e where e: "setWriteDeadline c (Some t) = (c1, e)" by (rule prod.exhaust)
  have c1: "once_inv c1" using once_socket(13) [OF e] c by simp
  have "once_inv (fst (setWriteDeadline c2 None)) = once_inv c2" for c2 :: "('a, 'b) wconn"
    by (simp add: setWriteDeadline_def setDeadlineInner_def)
  then show ?thesis using w c1 once_WriteMessage [OF c1] unfolding WriteTimeout_def e by (cases e) auto
qed

lemma once_do_req: "once_inv c \<Longrightarrow> do_req env c q = Some (c', r) \<Longrightarrow> once_inv c'"
  by (cases q) (auto simp: do_req_def WriteControl_def WriteCloseTimeout_def split: if_splits
      dest: once_WriteMessage once_WriteTimeout intro: once_intros)

lemma once_script: "once_inv c \<Longrightarrow> run_script env s c = Some c' \<Longrightarrow> once_inv c'"
proof (induction s arbitrary: c)
  case (Call q k)
  then show ?case by (auto split: option.splits dest: once_do_req)
qed auto

lemma once_call: "once_inv c \<Longrightarrow> call_OnMessage env c op p = Some c' \<Longrightarrow> once_inv c'"
  by (auto simp: call_OnMessage_def dest: once_script [rotated])

end
