(* ===== verification/Spec2Isabelle.thy ===== *)
theory Spec2Isabelle
  imports H3_Packet H3_Frame Engine_H2 Grpc_Server Http1_Server Tls_Channel Ws_Ring Ws_Close
begin

text \<open>
  A verification library for fio, a Go library of network protocols that run
  on non-blocking event loops.

  \<^bold>\<open>The program.\<close> Under \<^verbatim>\<open>src/\<close> every protocol is a layer that is fed the bytes the
  layer below read and answers with bytes for that layer to write:
    \<^item> \<^verbatim>\<open>engine/\<close>: connections, event loops and the non-blocking socket I/O;
    \<^item> \<^verbatim>\<open>tls/\<close>: TLS 1.3 as a filter between the engine and a protocol;
    \<^item> \<^verbatim>\<open>http/\<close>: HTTP/1.1 servers; \<^verbatim>\<open>websocket/\<close>: WebSocket servers and clients;
    \<^item> \<^verbatim>\<open>http2/\<close>: frames, HPACK, header validation, the connection with its streams and
      flow control (\<^verbatim>\<open>Conn\<close>), and the adapter to the engine (\<^verbatim>\<open>ConnHandler\<close>);
    \<^item> \<^verbatim>\<open>grpc/\<close>: the message framing, the status in the trailers, the client's calls
      and the server's handler, on top of an HTTP/2 connection;
    \<^item> \<^verbatim>\<open>http3/\<close>: QUIC varints, packet headers, HTTP/3 frames and the stream reader.

  \<^bold>\<open>The theories.\<close>
    \<^item> \<open>Prelude\<close>: the collections and the lemmas all theories share (big-endian fields
      of words, lists cut in two, decimal numbers, byte strings).
    \<^item> \<open>Framing\<close>: the contract of an incremental decoder as locales, with the lemmas on
      feeding a decoder in pieces proved once. They are interpreted on the HTTP/3 frames
      (\<open>H3_Frame\<close>), the HTTP/2 frames (\<open>H2_Frame\<close>), the gRPC messages (\<open>Grpc_Message\<close>), and the
      records and handshake messages of TLS (\<open>Tls_Record\<close>).
    \<^item> \<open>Varint\<close>, \<open>H3_Packet\<close>, \<open>H3_Frame\<close>: \<^verbatim>\<open>http3/varint.go\<close>, \<^verbatim>\<open>packet.go\<close>, \<^verbatim>\<open>frame.go\<close> and the
      \<^verbatim>\<open>StreamReader\<close> of \<^verbatim>\<open>server.go\<close>.
    \<^item> \<open>H2_Frame\<close>: \<^verbatim>\<open>http2/frame.go\<close> (the parser with its CONTINUATION state, the shape of
      frames, the writers) and \<^verbatim>\<open>errors.go\<close>.
    \<^item> \<open>H2_Headers\<close>: \<^verbatim>\<open>http2/headers_validate.go\<close>.
    \<^item> \<open>H2_Conn\<close>: the state of \<^verbatim>\<open>Conn\<close> (\<^verbatim>\<open>http2/conn.go\<close>) and its sending half: header
      blocks, bodies under flow control, the queue of pending data. The HPACK coder is
      \<^verbatim>\<open>golang.org/x/net\<close> code and a parameter (\<^verbatim>\<open>hpack.go\<close> is the wrapper around it).
    \<^item> \<open>H2_Recv\<close>: the receiving half: \<^verbatim>\<open>Feed\<close>, the handler of every frame type, the stream
      states, the two levels of errors. The stream handler is a record of functions, and
      the locale \<open>conn_client\<close> is what \<^verbatim>\<open>Conn\<close> relies on of it.
    \<^item> \<open>H2_Engine\<close>: \<^verbatim>\<open>http2/engine.go\<close>, the adapter between the engine and \<^verbatim>\<open>Conn\<close>.
    \<^item> \<open>Engine_Conn\<close>: \<^verbatim>\<open>engine/conn.go\<close> and the socket calls: writing with the list of buffers
      the kernel did not take, reading into a growing buffer, closing, the status bits. The
      locales \<open>byte_sink\<close> and \<open>transport\<close> are what the protocols rely on of it.
    \<^item> \<open>Engine_Loop\<close>: \<^verbatim>\<open>engine/eventloop.go\<close>, \<^verbatim>\<open>handler.go\<close> and the table of
      \<^verbatim>\<open>multi_event_loops.go\<close>: activation, the events of the poller, feeding a protocol.
      The locale \<open>protocol\<close> is what the loop relies on of a protocol; every protocol that meets
      it is served right. \<open>Engine_H2\<close> shows that the HTTP/2 adapter meets it.
    \<^item> \<open>Http1_Request\<close>, \<open>Http1_Response\<close>, \<open>Http1_Server\<close>: \<^verbatim>\<open>http/request.go\<close> and
      \<^verbatim>\<open>parser.go\<close> around the third-party parser, \<^verbatim>\<open>ResponseWriter\<close>, and the connection
      handler of \<^verbatim>\<open>server.go\<close>, which meets the contract of the loop too.
    \<^item> \<open>Grpc_Message\<close>, \<open>Grpc_Status\<close>, \<open>Grpc_Call\<close>, \<open>Grpc_Server\<close>: \<^verbatim>\<open>grpc/message.go\<close>,
      \<^verbatim>\<open>status.go\<close>, \<^verbatim>\<open>call.go\<close>, \<^verbatim>\<open>server.go\<close>. The server's calls are objects shared between
      the handler's table and the application, so they live in an explicit heap; the
      locale \<open>grpc_app\<close> is what the handler relies on of the application, and it gives
      \<open>conn_client\<close>, so that the lemmas on \<^verbatim>\<open>Conn\<close> hold for every gRPC application.
    \<^item> \<open>Tls_Record\<close>, \<open>Tls_Crypto\<close>, \<open>Tls_Handshake\<close>, \<open>Tls_State\<close>: \<^verbatim>\<open>tls/record.go\<close>;
      \<^verbatim>\<open>keyschedule.go\<close>, \<^verbatim>\<open>aead.go\<close> and \<^verbatim>\<open>sign.go\<close>; \<^verbatim>\<open>handshake.go\<close>; \<^verbatim>\<open>state.go\<close>. The primitives
      of Go's \<^verbatim>\<open>crypto\<close> packages are the functions of a record; \<open>hash_ok\<close>, \<open>aead_ok\<close> and
      \<open>dh_ok\<close> are what is relied on of them (lengths, opening what was sealed, both ends of an
      exchange computing the same secret). The random source is a list of answers.
    \<^item> \<open>Tls_Run\<close>, \<open>Tls_Channel\<close>: a client and a server machine run against each other through
      the handshake, and the established connection as an implementation of two byte queues.

  \<^bold>\<open>Correspondence.\<close> A Go struct is a record with the struct's fields, a byte slice a list
  of 8-bit words, a fixed-width integer a word or, where the code's values stay far from
  the bounds or are compared as signed numbers, an \<open>int\<close> with the wrap-around written out;
  an error is a value of the package's error datatype, a callback a function argument over
  an explicit state, and output a list of bytes the operation returns or appends to the
  connection's buffer. The kernel is part of a connection's state, as the list of its
  answers to come, so that a theorem for all states holds for every kernel. Where the code
  can panic or loop without end the definition returns an option and \<open>None\<close> stands for
  both; the loops concerned are \<open>partial_function\<close>s, so that \<open>Some\<close> in a theorem says that
  the code returns.

  \<^bold>\<open>What the lemmas show.\<close> Round trips of every codec; the incremental parsers give the
  same frames however the bytes are cut; the parsers respect the limits; flow control in
  both directions (what is sent is paid for by both windows, nothing queued is lost, what
  is received is credited back); the invariant \<open>conn_ok\<close> of an HTTP/2 connection over every
  operation and over \<^verbatim>\<open>Feed\<close>; the rules of RFC 9113 on header blocks, stream ids, lengths of
  bodies and error levels; the isolation of gRPC calls; that a connection of the engine
  loses, repeats and reorders no byte in either direction; that HTTP/1.1 requests are built
  and answered in order, with a response the client can take apart; that a TLS handshake
  comes to its end with the same keys at both ends, that nobody is established without the
  other end's Finished, that no nonce is used twice, and that an established connection is
  a pair of byte pipes; and that what one end writes, the other end takes.

  \<^bold>\<open>Bounds and fuel.\<close> There is no fuel. The parser loops are total functions over the
  remaining bytes; the write loops of \<^verbatim>\<open>Conn\<close> go down in the remaining bytes, given a
  positive frame size, which \<open>conn_ok\<close> keeps; a TLS connection is followed up to the limit
  of the sequence numbers (\<open>2 ^ 64 - 1\<close> records), where it stops; the loops of the engine and of the HTTP/1.1
  handler are \<open>partial_function\<close>s that are shown to return.

  \<^bold>\<open>Not modelled.\<close> Mutexes (every method of \<^verbatim>\<open>Conn\<close> and of the gRPC handlers runs under
  the connection's lock, so a method is one step), goroutines and the poller, the
  wrappers around \<^verbatim>\<open>quic-go\<close> in \<^verbatim>\<open>http3/\<close>, the listener of the engine, and the command line
  programs of \<^verbatim>\<open>autobahn/\<close> and \<^verbatim>\<open>conformance/\<close>. In \<^verbatim>\<open>tls/\<close> the wrapper of
  \<^verbatim>\<open>crypto/tls\<close> (\<^verbatim>\<open>conn.go\<close>, \<^verbatim>\<open>memconn.go\<close>), which runs the standard library's handshake on
  goroutines. Still to come, in this order: \<^verbatim>\<open>tls/engine.go\<close> and \<^verbatim>\<open>websocket/\<close>.
\<close>

end
